(* ===== verification/Hyp_Prelude.thy ===== *)
theory Hyp_Prelude
  imports Main "HOL-Library.Word" "HOL-Library.Monad_Syntax"
begin

unbundle bit_operations_syntax

text \<open>
  Shared vocabulary of the development: Rust's fixed-width integers as words, the
  checked and saturating operations of the standard library that the sources call,
  half-open integer ranges, bounds-checked slices, and the generic word lemmas the
  component theories use.

  The release profile of the workspace sets \<^verbatim>\<open>overflow-checks = false\<close>, so the plain
  operators \<^verbatim>\<open>+\<close>, \<^verbatim>\<open>-\<close> and \<^verbatim>\<open>*\<close> of the sources are the wrapping operators of
  HOL words. A panic (an index out of range, a failed \<^verbatim>\<open>expect\<close> or \<^verbatim>\<open>assert!\<close>)
  is the value \<^const>\<open>None\<close> of an \<^typ>\<open>'a option\<close>; a Rust \<^verbatim>\<open>Result\<close> is a sum
  with the error on the left.
\<close>

section \<open>Collections of facts\<close>

named_theorems word_to_nat \<open>rules that move a word expression to natural numbers\<close>
named_theorems inv_rules \<open>every operation keeps its component's invariant\<close>

section \<open>Machine integers\<close>

type_synonym u8 = "8 word"
type_synonym u16 = "16 word"
type_synonym u32 = "32 word"
type_synonym u64 = "64 word"
type_synonym usize = "64 word"
type_synonym i32 = "32 word"

definition checked_add :: "'a::len word \<Rightarrow> 'a word \<Rightarrow> 'a word option" where
  "checked_add a b = (if unat a + unat b < 2 ^ LENGTH('a) then Some (a + b) else None)"

definition checked_sub :: "'a::len word \<Rightarrow> 'a word \<Rightarrow> 'a word option" where
  "checked_sub a b = (if b \<le> a then Some (a - b) else None)"

definition checked_mul :: "'a::len word \<Rightarrow> 'a word \<Rightarrow> 'a word option" where
  "checked_mul a b = (if unat a * unat b < 2 ^ LENGTH('a) then Some (a * b) else None)"

definition saturating_add :: "'a::len word \<Rightarrow> 'a word \<Rightarrow> 'a word" where
  "saturating_add a b = (if unat a + unat b < 2 ^ LENGTH('a) then a + b else - 1)"

definition saturating_sub :: "'a::len word \<Rightarrow> 'a word \<Rightarrow> 'a word" where
  "saturating_sub a b = (if b \<le> a then a - b else 0)"

definition saturating_mul :: "'a::len word \<Rightarrow> 'a word \<Rightarrow> 'a word" where
  "saturating_mul a b = (if unat a * unat b < 2 ^ LENGTH('a) then a * b else - 1)"

text \<open>The range \<^verbatim>\<open>a..b\<close> of a \<^verbatim>\<open>for\<close> loop over an unsigned integer type.\<close>

definition urange :: "'a::len word \<Rightarrow> 'a word \<Rightarrow> 'a word list" where
  "urange a b = map word_of_nat [unat a ..< unat b]"

section \<open>Arrays and slices\<close>

text \<open>\<^verbatim>\<open>xs[i]\<close>, \<^verbatim>\<open>xs[i] = v\<close>, \<^verbatim>\<open>&xs[i..j]\<close> and \<^verbatim>\<open>xs[i..i+n].copy_from_slice(ys)\<close>,
  each \<^const>\<open>None\<close> where the bounds check of the source panics.\<close>

definition arr_get :: "'b list \<Rightarrow> 'a::len word \<Rightarrow> 'b option" where
  "arr_get xs i = (if unat i < length xs then Some (xs ! unat i) else None)"

definition arr_set :: "'b list \<Rightarrow> 'a::len word \<Rightarrow> 'b \<Rightarrow> 'b list option" where
  "arr_set xs i v = (if unat i < length xs then Some (xs[unat i := v]) else None)"

definition get_at :: "'b list \<Rightarrow> nat \<Rightarrow> 'b option" where
  "get_at xs i = (if i < length xs then Some (xs ! i) else None)"

definition set_at :: "'b list \<Rightarrow> nat \<Rightarrow> 'b \<Rightarrow> 'b list option" where
  "set_at xs i v = (if i < length xs then Some (xs[i := v]) else None)"

definition sub_slice :: "'b list \<Rightarrow> usize \<Rightarrow> usize \<Rightarrow> 'b list option" where
  "sub_slice xs i j = (if i \<le> j \<and> unat j \<le> length xs
     then Some (take (unat j - unat i) (drop (unat i) xs)) else None)"

definition copy_at :: "'b list \<Rightarrow> usize \<Rightarrow> usize \<Rightarrow> 'b list \<Rightarrow> 'b list option" where
  "copy_at xs i j ys = (if i \<le> j \<and> unat j \<le> length xs \<and> length ys = unat j - unat i
     then Some (take (unat i) xs @ ys @ drop (unat j) xs) else None)"

section \<open>Loops that may panic\<close>

primrec loop :: "('a \<Rightarrow> 's \<Rightarrow> 's option) \<Rightarrow> 'a list \<Rightarrow> 's \<Rightarrow> 's option" where
  "loop f [] s = Some s"
| "loop f (x # xs) s = Option.bind (f x s) (loop f xs)"

lemma loop_cong [fundef_cong]:
  "xs = ys \<Longrightarrow> s = t \<Longrightarrow> (\<And>x s. x \<in> set ys \<Longrightarrow> f x s = g x s) \<Longrightarrow> loop f xs s = loop g ys t"
  by (induction xs arbitrary: ys s t) (auto cong: Option.bind_cong)

section \<open>Results\<close>

text \<open>\<^verbatim>\<open>r?\<close> followed by the rest of the function, and \<^verbatim>\<open>o.ok_or(e)\<close>.\<close>

definition rbind :: "'e + 'a \<Rightarrow> ('a \<Rightarrow> 'e + 'b) \<Rightarrow> 'e + 'b" where
  "rbind r f = (case r of Inl e \<Rightarrow> Inl e | Inr x \<Rightarrow> f x)"

definition ok_or :: "'a option \<Rightarrow> 'e \<Rightarrow> 'e + 'a" where
  "ok_or v e = (case v of None \<Rightarrow> Inl e | Some x \<Rightarrow> Inr x)"

lemma rbind_simps [simp]: "rbind (Inl e) f = Inl e" "rbind (Inr x) f = f x"
  by (simp_all add: rbind_def)

lemma rbind_Inr: "rbind r f = Inr y \<longleftrightarrow> (\<exists>x. r = Inr x \<and> f x = Inr y)"
  by (cases r) simp_all

lemma rbind_Inl: "rbind r f = Inl e \<longleftrightarrow> r = Inl e \<or> (\<exists>x. r = Inr x \<and> f x = Inl e)"
  by (cases r) simp_all

lemma ok_or_simps [simp]: "ok_or None e = Inl e" "ok_or (Some x) e = Inr x"
  by (simp_all add: ok_or_def)

section \<open>Lemmas on checked arithmetic\<close>

lemma checked_add_Some [simp]:
  "checked_add a b = Some c \<longleftrightarrow> unat a + unat b < 2 ^ LENGTH('a) \<and> c = a + (b::'a::len word)"
  by (auto simp: checked_add_def)

lemma checked_add_None [simp]:
  "checked_add a (b::'a::len word) = None \<longleftrightarrow> 2 ^ LENGTH('a) \<le> unat a + unat b"
  by (auto simp: checked_add_def)

lemma checked_sub_Some [simp]:
  "checked_sub a b = Some c \<longleftrightarrow> b \<le> a \<and> c = a - (b::'a::len word)"
  by (auto simp: checked_sub_def)

lemma unat_add_lt [word_to_nat]:
  "unat a + unat b < 2 ^ LENGTH('a) \<Longrightarrow> unat (a + (b::'a::len word)) = unat a + unat b"
  by (simp add: unat_word_ariths)

lemma unat_mult_lt [word_to_nat]:
  "unat a * unat b < 2 ^ LENGTH('a) \<Longrightarrow> unat (a * (b::'a::len word)) = unat a * unat b"
  by (simp add: unat_word_ariths)

lemma unat_sub_le [word_to_nat]:
  "b \<le> a \<Longrightarrow> unat (a - (b::'a::len word)) = unat a - unat b"
  by (rule unat_sub)

lemma unat_saturating_add [word_to_nat]:
  "unat (saturating_add a (b::'a::len word)) = min (unat a + unat b) (2 ^ LENGTH('a) - 1)"
  by (auto simp: saturating_add_def unat_add_lt unsigned_minus_1_eq_mask mask_eq_exp_minus_1)

lemma unat_saturating_sub [word_to_nat]:
  "unat (saturating_sub a (b::'a::len word)) = unat a - unat b"
  by (auto simp: saturating_sub_def unat_sub word_le_nat_alt not_le)

lemma unat_saturating_mul [word_to_nat]:
  "unat (saturating_mul a (b::'a::len word)) = min (unat a * unat b) (2 ^ LENGTH('a) - 1)"
  by (auto simp: saturating_mul_def unat_mult_lt unsigned_minus_1_eq_mask mask_eq_exp_minus_1)

lemma unat_min [word_to_nat]: "unat (min a b) = min (unat a) (unat b)"
  by (simp add: min_def word_le_nat_alt)

lemma unat_max [word_to_nat]: "unat (max a b) = max (unat a) (unat b)"
  by (simp add: max_def word_le_nat_alt)

lemma unat_word_of_nat [word_to_nat]:
  "n < 2 ^ LENGTH('a) \<Longrightarrow> unat (word_of_nat n :: 'a::len word) = n"
  by (simp add: unat_of_nat take_bit_nat_eq_self)

lemma unat_word_of_nat_below:
  "n \<le> unat (b :: 'a::len word) \<Longrightarrow> unat (word_of_nat n :: 'a word) = n"
  by (meson le_less_trans unat_word_of_nat unsigned_less)

lemma unat_lt_64 [simp]: "unat (x::u64) < 18446744073709551616"
  using unsigned_less [of x, where ?'a = nat] by simp

lemma unat_succ: "x \<noteq> - 1 \<Longrightarrow> unat (x + 1 :: 'a::len word) = Suc (unat x)"
  by (metis add.commute add_eq_0_iff2 unatSuc)

lemma unat_inj_iff: "unat a = unat b \<longleftrightarrow> a = (b::'a::len word)"
  by (simp add: word_unat_eq_iff)

lemma unat_drop_bit: "unat (drop_bit n (w::'a::len word)) = unat w div 2 ^ n"
  unfolding unat_drop_bit_eq by (rule drop_bit_eq_div)

lemma unat_push_bit: "unat (push_bit n (w::'a::len word)) = unat w * 2 ^ n mod 2 ^ LENGTH('a)"
  unfolding unsigned_push_bit_eq take_bit_nat_def push_bit_nat_def by simp

lemma unat_ucast_widen:
  "LENGTH('a::len) \<le> LENGTH('b::len) \<Longrightarrow> unat (ucast (w::'a word) :: 'b word) = unat w"
  by (metis order_less_le_trans power_increasing_iff take_bit_nat_eq_self unsigned_less unsigned_ucast_eq
      one_less_numeral_iff semiring_norm(76))

lemma sint_add_in:
  assumes "- (2 ^ (LENGTH('a) - 1)) \<le> sint a + sint b" "sint a + sint b < 2 ^ (LENGTH('a) - 1)"
  shows "sint (a + b :: 'a::len word) = sint a + sint b"
  using assms by (simp add: sint_word_ariths signed_take_bit_int_eq_self)

lemma sint_diff_in:
  assumes "- (2 ^ (LENGTH('a) - 1)) \<le> sint a - sint b" "sint a - sint b < 2 ^ (LENGTH('a) - 1)"
  shows "sint (a - b :: 'a::len word) = sint a - sint b"
  using assms by (simp add: sint_word_ariths signed_take_bit_int_eq_self)

lemma sint_nonneg: "0 \<le> sint (a :: 'a::len word) \<Longrightarrow> sint a = int (unat a)"
proof -
  assume "0 \<le> sint a"
  moreover have "sint a < 2 ^ LENGTH('a)"
    by (rule less_le_trans [OF sint_lt [of a] power_increasing]) simp_all
  ultimately have "uint a = sint a" unfolding uint_sint by (rule take_bit_int_eq_self)
  then show ?thesis by simp
qed

lemma sint_of_nat_small:
  assumes "k < 2 ^ (LENGTH('a) - 1)"
  shows "sint (word_of_nat k :: 'a::len word) = int k"
proof -
  have "int k < 2 ^ (LENGTH('a) - 1)" using assms by (metis of_nat_less_iff of_nat_numeral of_nat_power)
  then have "signed_take_bit (LENGTH('a) - 1) (int k) = int k"
    by (intro signed_take_bit_int_eq_self) (simp_all add: order_trans [of _ 0])
  then show ?thesis by (simp add: signed_of_nat)
qed

text \<open>Adding a small offset to a signed coordinate reaches a non-negative point exactly when it
  does so without the wrap.\<close>

lemma sint_add_offset:
  fixes a :: i32
  assumes "k < 2 ^ 31" "n < 2 ^ 31"
  shows "int n = sint (a + word_of_nat k) \<longleftrightarrow> int n = sint a + int k"
proof (cases "sint a + int k < 2 ^ 31")
  case True
  moreover have k: "sint (word_of_nat k :: i32) = int k" using assms(1) by (intro sint_of_nat_small) simp
  moreover have "- (2 ^ 31) \<le> sint a" using sint_ge [of a] by simp
  ultimately have "sint (a + word_of_nat k) = sint a + int k"
    using sint_add_in [of a "word_of_nat k"] by simp
  then show ?thesis by simp
next
  case False
  then have a: "sint a = int (unat a)" using assms(1) by (intro sint_nonneg) simp
  have "unat (word_of_nat k :: i32) = k" using assms(1) by (intro unat_word_of_nat) simp
  moreover have "int (unat a) < int (2 ^ 31)" unfolding a [symmetric] using sint_lt [of a] by simp
  then have "unat a < 2 ^ 31" by (simp only: of_nat_less_iff)
  ultimately have u: "unat (a + word_of_nat k) = unat a + k" using assms(1) by (subst unat_add_lt) simp_all
  have "sint (a + word_of_nat k) < 0"
  proof (rule ccontr)
    assume "\<not> sint (a + word_of_nat k) < 0"
    then have "sint (a + word_of_nat k) = int (unat a + k)" using u sint_nonneg by (metis not_less)
    then show False using sint_lt [of "a + word_of_nat k"] False a by simp
  qed
  then show ?thesis using False assms(2) by simp
qed

section \<open>Lemmas on ranges\<close>

lemma set_urange: "set (urange a b) = {x. a \<le> x \<and> x < (b::'a::len word)}"
proof -
  have "x \<in> word_of_nat ` {unat a..<unat b}" if "a \<le> x" "x < b" for x :: "'a word"
    using that by (intro image_eqI [of _ _ "unat x"]) (auto simp: word_le_nat_alt word_less_nat_alt)
  moreover have "a \<le> word_of_nat n \<and> word_of_nat n < b" if "unat a \<le> n" "n < unat b" for n
  proof -
    have "n < 2 ^ LENGTH('a)" using that(2) unsigned_less [of b, where ?'a = nat] by linarith
    then have "unat (word_of_nat n :: 'a word) = n" by (simp add: unat_of_nat take_bit_nat_eq_self)
    then show ?thesis using that by (simp add: word_le_nat_alt word_less_nat_alt)
  qed
  ultimately show ?thesis by (auto simp: urange_def)
qed

lemma length_urange [simp]: "length (urange a b) = unat b - unat a"
  by (simp add: urange_def)

lemma nth_urange: "i < unat b - unat a \<Longrightarrow> urange a b ! i = word_of_nat (unat a + i)"
  by (simp add: urange_def)

lemma distinct_urange [simp]: "distinct (urange a (b::'a::len word))"
proof -
  have "inj_on (word_of_nat :: nat \<Rightarrow> 'a word) {unat a..<unat b}"
  proof (rule inj_onI)
    fix m n assume mn: "m \<in> {unat a..<unat b}" "n \<in> {unat a..<unat b}"
      and eq: "(word_of_nat m :: 'a word) = word_of_nat n"
    have "m < 2 ^ LENGTH('a)" "n < 2 ^ LENGTH('a)"
      using mn unsigned_less [of b, where ?'a = nat] by (auto intro: less_trans)
    then show "m = n" using arg_cong [OF eq, of unat] by (simp add: unat_of_nat take_bit_nat_eq_self)
  qed
  then show ?thesis by (simp add: urange_def distinct_map)
qed

section \<open>Lemmas on slices\<close>

lemma arr_get_Some [simp]: "arr_get xs i = Some v \<longleftrightarrow> unat i < length xs \<and> v = xs ! unat i"
  by (auto simp: arr_get_def)

lemma arr_set_Some [simp]: "arr_set xs i v = Some ys \<longleftrightarrow> unat i < length xs \<and> ys = xs[unat i := v]"
  by (auto simp: arr_set_def)

lemma sub_slice_Some [simp]: "sub_slice xs i j = Some ys \<longleftrightarrow>
   i \<le> j \<and> unat j \<le> length xs \<and> ys = take (unat j - unat i) (drop (unat i) xs)"
  by (auto simp: sub_slice_def)

lemma nth_update_any: "xs[i := x] ! j = (if i = j \<and> i < length xs then x else xs ! j)"
  by (cases "i < length xs") (auto simp: nth_list_update list_update_beyond)

lemma sub_slice_length: "sub_slice xs i j = Some ys \<Longrightarrow> length ys = unat j - unat i"
  by (auto simp: word_le_nat_alt)

lemma copy_at_length: "copy_at xs i j ys = Some zs \<Longrightarrow> length zs = length xs"
  by (auto simp: copy_at_def word_le_nat_alt split: if_splits)

section \<open>Lemmas on masks and bits\<close>

lemma and_mask_nat [word_to_nat]:
  "unat (x AND mask n) = unat (x::'a::len word) mod 2 ^ n"
  by (simp only: take_bit_eq_mask [symmetric] unsigned_take_bit_eq take_bit_nat_def)

lemma and_not_mask_nat [word_to_nat]:
  "unat (x AND NOT (mask n)) = unat (x::'a::len word) div 2 ^ n * 2 ^ n"
proof -
  have "NOT x AND (x AND mask n) = 0"
    by (simp flip: and.assoc)
  then have "x - (x AND mask n) = x AND NOT (x AND mask n)"
    by (rule disjunctive_diff_eq_and_not)
  also have "\<dots> = x AND NOT (mask n)"
    by (simp add: bit.de_Morgan_conj bit.conj_disj_distrib)
  finally have "x AND NOT (mask n) = x - (x AND mask n)" ..
  moreover have "x AND mask n \<le> x"
    by (rule word_and_le2)
  ultimately show ?thesis
    by (simp add: unat_sub and_mask_nat minus_mod_eq_div_mult)
qed

lemma align_up_nat:
  assumes "unat x + (2 ^ n - 1) < 2 ^ LENGTH('a)" and "n < LENGTH('a)"
  shows "unat ((x + mask n) AND NOT (mask n) :: 'a::len word) = (unat x + (2 ^ n - 1)) div 2 ^ n * 2 ^ n"
proof -
  have "unat (mask n :: 'a word) = 2 ^ n - 1"
    using assms(2)
    by (simp add: unat_eq_nat_uint uint_mask_eq nat_mask_eq min_def) (simp add: mask_eq_exp_minus_1)
  then show ?thesis
    using assms(1) by (simp only: and_not_mask_nat unat_add_lt)
qed

end
