(* ===== verification/Hyp_BTree.thy ===== *)
theory Hyp_BTree
  imports Hyp_Prelude
begin

text \<open>
  The kernel keeps its tables in \<^verbatim>\<open>alloc::collections::BTreeMap\<close>. A map is modelled by
  the list of its entries in ascending key order, which is the order \<^verbatim>\<open>keys\<close>,
  \<^verbatim>\<open>values\<close>, \<^verbatim>\<open>iter\<close> and \<^verbatim>\<open>range\<close> visit. The locale \<open>ordered_map\<close> states the
  contract the kernel relies on; it is interpreted on the list operations below.
\<close>

section \<open>Operations\<close>

type_synonym ('k, 'v) btree = "('k \<times> 'v) list"

definition bt_get :: "('k, 'v) btree \<Rightarrow> 'k \<Rightarrow> 'v option" where
  "bt_get m k = map_of m k"

fun bt_insert :: "('k::linorder, 'v) btree \<Rightarrow> 'k \<Rightarrow> 'v \<Rightarrow> ('k, 'v) btree" where
  "bt_insert [] k v = [(k, v)]"
| "bt_insert (e # m) k v =
     (if k < fst e then (k, v) # e # m
      else if k = fst e then (k, v) # m
      else e # bt_insert m k v)"

definition bt_remove :: "('k, 'v) btree \<Rightarrow> 'k \<Rightarrow> ('k, 'v) btree" where
  "bt_remove m k = filter (\<lambda>e. fst e \<noteq> k) m"

definition bt_keys :: "('k, 'v) btree \<Rightarrow> 'k list" where
  "bt_keys m = map fst m"

definition bt_values :: "('k, 'v) btree \<Rightarrow> 'v list" where
  "bt_values m = map snd m"

text \<open>\<^verbatim>\<open>m.range(..=k).next_back()\<close>: the entry with the greatest key not above \<open>k\<close>.\<close>

definition bt_last_le :: "('k::linorder, 'v) btree \<Rightarrow> 'k \<Rightarrow> ('k \<times> 'v) option" where
  "bt_last_le m k =
     (case filter (\<lambda>e. fst e \<le> k) m of [] \<Rightarrow> None | es \<Rightarrow> Some (last es))"

definition bt_wf :: "('k::linorder, 'v) btree \<Rightarrow> bool" where
  "bt_wf m \<longleftrightarrow> sorted_wrt (<) (map fst m)"

section \<open>The contract of an ordered map\<close>

locale ordered_map =
  fixes wf :: "'m \<Rightarrow> bool"
    and get :: "'m \<Rightarrow> 'k::linorder \<Rightarrow> 'v option"
    and ins :: "'m \<Rightarrow> 'k \<Rightarrow> 'v \<Rightarrow> 'm"
    and del :: "'m \<Rightarrow> 'k \<Rightarrow> 'm"
    and entries :: "'m \<Rightarrow> ('k \<times> 'v) list"
  assumes get_ins: "wf m \<Longrightarrow> get (ins m k v) = (get m)(k \<mapsto> v)"
    and get_del: "wf m \<Longrightarrow> get (del m k) = (get m)(k := None)"
    and wf_ins: "wf m \<Longrightarrow> wf (ins m k v)"
    and wf_del: "wf m \<Longrightarrow> wf (del m k)"
    and get_entries: "wf m \<Longrightarrow> get m = map_of (entries m)"
    and entries_sorted: "wf m \<Longrightarrow> sorted_wrt (<) (map fst (entries m))"
begin

lemma entries_distinct: "wf m \<Longrightarrow> distinct (map fst (entries m))"
  using entries_sorted strict_sorted_iff by blast

lemma get_iff_entry: "wf m \<Longrightarrow> get m k = Some v \<longleftrightarrow> (k, v) \<in> set (entries m)"
  using entries_distinct by (simp add: get_entries)

lemma dom_entries: "wf m \<Longrightarrow> dom (get m) = set (map fst (entries m))"
  by (simp add: get_entries dom_map_of_conv_image_fst)

lemma card_entries: "wf m \<Longrightarrow> card (dom (get m)) = length (entries m)"
  using distinct_card [OF entries_distinct] by (simp add: dom_entries)

lemma finite_dom: "wf m \<Longrightarrow> finite (dom (get m))"
  by (simp add: dom_entries)

lemma length_ins_fresh:
  assumes "wf m" and "get m k = None"
  shows "length (entries (ins m k v)) = Suc (length (entries m))"
proof -
  have "dom (get (ins m k v)) = insert k (dom (get m))" and "k \<notin> dom (get m)"
    using assms by (auto simp: get_ins)
  then show ?thesis
    using assms(1) card_entries [of m] card_entries [of "ins m k v"] wf_ins finite_dom by simp
qed

lemma length_del:
  assumes "wf m" and "get m k = Some v"
  shows "Suc (length (entries (del m k))) = length (entries m)"
proof -
  have "dom (get (del m k)) = dom (get m) - {k}" and "k \<in> dom (get m)"
    using assms by (auto simp: get_del)
  then show ?thesis
    using assms(1) card_entries [of m] card_entries [of "del m k"] wf_del finite_dom
    by (metis card_Suc_Diff1)
qed

lemma del_ins_fresh: "wf m \<Longrightarrow> get m k = None \<Longrightarrow> get (del (ins m k v) k) = get m"
  by (simp add: get_del get_ins wf_ins fun_upd_idem)

end

section \<open>The list operations meet the contract\<close>

lemma bt_wf_Nil [simp]: "bt_wf []"
  by (simp add: bt_wf_def)

lemma bt_wf_Cons: "bt_wf (e # m) \<longleftrightarrow> (\<forall>x \<in> set m. fst e < fst x) \<and> bt_wf m"
  by (auto simp: bt_wf_def)

lemma set_keys_bt_insert: "fst ` set (bt_insert m k v) = insert k (fst ` set m)"
  by (induction m) auto

lemma bt_wf_insert [inv_rules]: "bt_wf m \<Longrightarrow> bt_wf (bt_insert m k v)"
proof (induction m)
  case (Cons e m)
  have "\<forall>x \<in> set (bt_insert m k v). fst x \<in> insert k (fst ` set m)"
    using set_keys_bt_insert [of m k v] by blast
  then show ?case
    using Cons by (fastforce simp: bt_wf_Cons)
qed (simp add: bt_wf_Cons)

lemma bt_wf_remove [inv_rules]: "bt_wf m \<Longrightarrow> bt_wf (bt_remove m k)"
  by (induction m) (auto simp: bt_remove_def bt_wf_Cons)

lemma bt_get_insert [simp]:
  "bt_get (bt_insert m k v) k' = (if k' = k then Some v else bt_get m k')"
  by (induction m) (auto simp: bt_get_def)

lemma bt_get_remove [simp]:
  "bt_get (bt_remove m k) k' = (if k' = k then None else bt_get m k')"
  by (induction m) (auto simp: bt_get_def bt_remove_def)

interpretation bt: ordered_map bt_wf bt_get bt_insert bt_remove "\<lambda>m. m"
proof
  fix m :: "('a::linorder, 'b) btree" and k v
  show "bt_get (bt_insert m k v) = (bt_get m)(k \<mapsto> v)" by (rule ext) simp
  show "bt_get (bt_remove m k) = (bt_get m)(k := None)" by (rule ext) simp
qed (auto intro: bt_wf_insert bt_wf_remove simp: bt_get_def bt_wf_def [symmetric] fun_eq_iff)

lemma bt_get_Some_in: "bt_wf m \<Longrightarrow> bt_get m k = Some v \<longleftrightarrow> (k, v) \<in> set m"
  by (rule bt.get_iff_entry)

lemma bt_values_insert:
  "bt_wf m \<Longrightarrow> set (bt_values (bt_insert m k v)) = insert v (set (bt_values (bt_remove m k)))"
proof -
  assume wf: "bt_wf m"
  have vals: "set (bt_values n) = {x. \<exists>k. bt_get n k = Some x}" if "bt_wf n" for n :: "('a, 'b) btree"
    using that by (force simp: bt_values_def bt_get_Some_in)
  show ?thesis
    using wf by (auto simp: vals bt_wf_insert bt_wf_remove split: if_splits)
qed

lemma last_is_greatest:
  assumes "bt_wf es" and "x \<in> set es"
  shows "last es \<in> set es" and "fst x \<le> fst (last es)"
proof -
  show "last es \<in> set es" using assms(2) by (intro last_in_set) auto
  show "fst x \<le> fst (last es)"
    using assms by (induction es) (auto simp: bt_wf_Cons intro: less_imp_le)
qed

lemma bt_last_le_None:
  "bt_wf m \<Longrightarrow> bt_last_le m k = None \<longleftrightarrow> (\<forall>j. bt_get m j \<noteq> None \<longrightarrow> k < j)"
proof -
  assume wf: "bt_wf m"
  have "bt_last_le m k = None \<longleftrightarrow> filter (\<lambda>e. fst e \<le> k) m = []"
    by (simp add: bt_last_le_def split: list.split)
  then show ?thesis
    using wf by (auto simp: filter_empty_conv bt_get_Some_in not_le)
qed

lemma bt_last_le_Some:
  assumes wf: "bt_wf m"
  shows "bt_last_le m k = Some (k', v) \<longleftrightarrow>
     bt_get m k' = Some v \<and> k' \<le> k \<and> (\<forall>j. bt_get m j \<noteq> None \<and> j \<le> k \<longrightarrow> j \<le> k')"
    (is "?L \<longleftrightarrow> ?R")
proof -
  define es where "es = filter (\<lambda>e. fst e \<le> k) m"
  have wf': "bt_wf es"
    using wf by (simp add: es_def bt_wf_def sorted_wrt_map sorted_wrt_filter)
  have in_es: "e \<in> set es \<longleftrightarrow> bt_get m (fst e) = Some (snd e) \<and> fst e \<le> k" for e
    using wf by (cases e) (simp add: es_def bt_get_Some_in conj_commute)
  have last: "bt_last_le m k = (if es = [] then None else Some (last es))"
    by (simp add: bt_last_le_def es_def split: list.split)
  show ?thesis
  proof
    assume ?L
    then have "es \<noteq> []" and l: "last es = (k', v)" by (auto simp: last split: if_splits)
    then have "(k', v) \<in> set es" using last_in_set by force
    moreover have "j \<le> k'" if "bt_get m j \<noteq> None" "j \<le> k" for j
      using that last_is_greatest(2) [OF wf'] l in_es by fastforce
    ultimately show ?R using in_es by force
  next
    assume R: ?R
    then have mem: "(k', v) \<in> set es" by (simp add: in_es)
    note g = last_is_greatest [OF wf' mem]
    then have "fst (last es) = k'"
      using R in_es by (metis antisym fst_conv option.distinct(1))
    moreover have "bt_get m (fst (last es)) = Some (snd (last es))" using g(1) in_es by blast
    ultimately have "last es = (k', v)" using R by (metis option.inject prod.collapse)
    moreover have "es \<noteq> []" using mem by auto
    ultimately show ?L by (simp add: last)
  qed
qed

end
