(* ===== verification/Hyp_Port.thy ===== *)
theory Hyp_Port
  imports Hyp_BTree "HOL-Library.List_Lexorder" "HOL-Library.Char_ord"
begin

text \<open>
  Message ports and their registry (\<^verbatim>\<open>kernel/src/ipc/port.rs\<close>). Ports are shared through
  \<^verbatim>\<open>Arc<Port>\<close>, so they live in a store and a reference is an index into it; an operation
  on a port updates the store. \<^verbatim>\<open>recv\<close> polls and yields; what other threads do during the
  \<open>i\<close>-th yield is a parameter.
\<close>

section \<open>Messages\<close>

definition PORT_CAPACITY :: nat where "PORT_CAPACITY = 32"
definition MSG_PAYLOAD :: nat where "MSG_PAYLOAD = 64"

datatype PortError = Full | Empty | Closed

record Message =
  msg_tag :: u64
  msg_words :: "u64 list"
  msg_payload :: "u8 list"
  msg_payload_len :: u8

definition message_new :: "u64 \<Rightarrow> Message" where
  "message_new tag = \<lparr>msg_tag = tag, msg_words = replicate 8 0,
     msg_payload = replicate MSG_PAYLOAD 0, msg_payload_len = 0\<rparr>"

definition with_payload :: "u64 \<Rightarrow> u8 list \<Rightarrow> Message" where
  "with_payload tag bytes =
     (let m = message_new tag; n = min (length bytes) MSG_PAYLOAD in
      m\<lparr>msg_payload := take n bytes @ drop n (msg_payload m), msg_payload_len := word_of_nat n\<rparr>)"

section \<open>Ports\<close>

record Port =
  port_id :: u64
  port_name :: string
  port_queue :: "Message list"
  port_closed :: bool

definition try_send :: "Port \<Rightarrow> Message \<Rightarrow> Port \<times> (PortError + unit)" where
  "try_send p m =
     (if port_closed p then (p, Inl Closed)
      else if PORT_CAPACITY \<le> length (port_queue p) then (p, Inl Full)
      else (p\<lparr>port_queue := port_queue p @ [m]\<rparr>, Inr ()))"

definition try_recv :: "Port \<Rightarrow> Port \<times> (PortError + Message)" where
  "try_recv p =
     (case port_queue p of
        m # rest \<Rightarrow> (p\<lparr>port_queue := rest\<rparr>, Inr m)
      | [] \<Rightarrow> (p, Inl (if port_closed p then Closed else Empty)))"

definition port_close :: "Port \<Rightarrow> Port" where
  "port_close p = p\<lparr>port_closed := True\<rparr>"

definition port_pending :: "Port \<Rightarrow> nat" where
  "port_pending p = length (port_queue p)"

text \<open>\<open>env i p\<close> is the port after the \<open>i\<close>-th call of \<^verbatim>\<open>yield_now\<close> returns.\<close>

partial_function (option) recv_loop ::
  "(nat \<Rightarrow> Port \<Rightarrow> Port) \<Rightarrow> nat \<Rightarrow> Port \<Rightarrow> (Port \<times> (PortError + Message)) option" where
  "recv_loop env i p =
     (case try_recv p of
        (p', Inr m) \<Rightarrow> Some (p', Inr m)
      | (p', Inl e) \<Rightarrow> if e = Empty then recv_loop env (Suc i) (env i p') else Some (p', Inl e))"

definition port_recv :: "(nat \<Rightarrow> Port \<Rightarrow> Port) \<Rightarrow> Port \<Rightarrow> (Port \<times> (PortError + Message)) option" where
  "port_recv env p = recv_loop env 0 p"

definition port_send :: "(Port \<Rightarrow> Port) \<Rightarrow> Port \<Rightarrow> Message \<Rightarrow> Port \<times> (PortError + unit)" where
  "port_send yield p m =
     (case try_send p m of
        (p', Inr u) \<Rightarrow> (p', Inr u)
      | (p', Inl e) \<Rightarrow> if e = Full then (yield p', Inl Full) else (p', Inl e))"

section \<open>The registry\<close>

type_synonym port_ref = nat

text \<open>The store of ports with the two statics \<^verbatim>\<open>NEXT_PORT_ID\<close> and \<^verbatim>\<open>REGISTRY\<close>.\<close>

record Registry =
  rg_ports :: "Port list"
  rg_next_id :: u64
  rg_by_id :: "(u64, port_ref) btree"
  rg_by_name :: "(string, u64) btree"

definition registry_new :: Registry where
  "registry_new = \<lparr>rg_ports = [], rg_next_id = 1, rg_by_id = [], rg_by_name = []\<rparr>"

definition alloc_port_id :: "Registry \<Rightarrow> Registry \<times> u64" where
  "alloc_port_id g = (g\<lparr>rg_next_id := rg_next_id g + 1\<rparr>, rg_next_id g)"

definition port_new :: "Registry \<Rightarrow> string \<Rightarrow> Registry \<times> port_ref" where
  "port_new g name =
     (let (g', i) = alloc_port_id g in
      (g'\<lparr>rg_ports := rg_ports g' @ [\<lparr>port_id = i, port_name = name, port_queue = [], port_closed = False\<rparr>]\<rparr>,
       length (rg_ports g')))"

definition port_register :: "Registry \<Rightarrow> port_ref \<Rightarrow> Registry \<times> bool" where
  "port_register g r =
     (let port = rg_ports g ! r in
      if bt_get (rg_by_id g) (port_id port) \<noteq> None \<or> bt_get (rg_by_name g) (port_name port) \<noteq> None
      then (g, False)
      else (g\<lparr>rg_by_name := bt_insert (rg_by_name g) (port_name port) (port_id port),
              rg_by_id := bt_insert (rg_by_id g) (port_id port) r\<rparr>, True))"

definition port_get :: "Registry \<Rightarrow> u64 \<Rightarrow> port_ref option" where
  "port_get g i = bt_get (rg_by_id g) i"

definition port_lookup :: "Registry \<Rightarrow> string \<Rightarrow> port_ref option" where
  "port_lookup g name = do { i \<leftarrow> bt_get (rg_by_name g) name; bt_get (rg_by_id g) i }"

definition port_create :: "Registry \<Rightarrow> string \<Rightarrow> Registry \<times> port_ref" where
  "port_create g name =
     (case port_lookup g name of
        Some r \<Rightarrow> (g, r)
      | None \<Rightarrow> let (g', r) = port_new g name; (g'', _) = port_register g' r in (g'', r))"

definition port_list :: "Registry \<Rightarrow> (u64 \<times> string \<times> nat) list" where
  "port_list g = map (\<lambda>r. let p = rg_ports g ! r in (port_id p, port_name p, port_pending p))
     (bt_values (rg_by_id g))"

definition ipc_init :: "Registry \<Rightarrow> Registry" where
  "ipc_init g = fst (port_create g ''kernel'')"

section \<open>Sequences of operations on one port\<close>

text \<open>A history of a port: the messages accepted so far and the messages handed out.\<close>

inductive port_history :: "Port \<Rightarrow> Port \<Rightarrow> Message list \<Rightarrow> Message list \<Rightarrow> bool" for p0 where
  start: "port_history p0 p0 [] []"
| send: "port_history p0 p s r \<Longrightarrow> try_send p m = (p', res) \<Longrightarrow>
    port_history p0 p' (if res = Inr () then s @ [m] else s) r"
| recv: "port_history p0 p s r \<Longrightarrow> try_recv p = (p', res) \<Longrightarrow>
    port_history p0 p' s (case res of Inr m \<Rightarrow> r @ [m] | Inl e \<Rightarrow> r)"
| close: "port_history p0 p s r \<Longrightarrow> port_history p0 (port_close p) s r"

lemma try_send_cases:
  "try_send p m = (p', res) \<Longrightarrow>
     (res = Inr () \<and> p' = p\<lparr>port_queue := port_queue p @ [m]\<rparr> \<and> length (port_queue p) < 32 \<and> \<not> port_closed p)
     \<or> (p' = p \<and> res = Inl Full \<and> 32 \<le> length (port_queue p)) \<or> (p' = p \<and> res = Inl Closed \<and> port_closed p)"
  by (auto simp: try_send_def PORT_CAPACITY_def split: if_splits)

lemma try_recv_cases:
  "try_recv p = (p', res) \<Longrightarrow>
     (\<exists>m. res = Inr m \<and> port_queue p = m # port_queue p' \<and> port_closed p' = port_closed p)
     \<or> (p' = p \<and> port_queue p = [] \<and> res = Inl (if port_closed p then Closed else Empty))"
  by (auto simp: try_recv_def split: list.splits)

lemma port_history_queue:
  "port_history p0 p s r \<Longrightarrow> port_queue p0 @ s = r @ port_queue p
     \<and> (length (port_queue p0) \<le> 32 \<longrightarrow> length (port_queue p) \<le> 32)
     \<and> (port_closed p0 \<longrightarrow> s = [] \<and> port_closed p)"
proof (induction rule: port_history.induct)
  case (send p s r m p' res)
  then show ?case using try_send_cases [OF send.hyps(2)] by auto
next
  case (recv p s r p' res)
  then show ?case using try_recv_cases [OF recv.hyps(2)] by auto
qed (auto simp: port_close_def)

section \<open>Blocking receive\<close>

primrec poll_state :: "(nat \<Rightarrow> Port \<Rightarrow> Port) \<Rightarrow> nat \<Rightarrow> Port \<Rightarrow> Port" where
  "poll_state env 0 p = p"
| "poll_state env (Suc n) p = env n (poll_state env n p)"

definition port_ready :: "Port \<Rightarrow> bool" where
  "port_ready p \<longleftrightarrow> port_queue p \<noteq> [] \<or> port_closed p"

lemma recv_loop_step:
  "recv_loop env i p = (if port_ready p then Some (try_recv p) else recv_loop env (Suc i) (env i p))"
  by (subst recv_loop.simps) (auto simp: try_recv_def port_ready_def split: list.split)

lemma recv_loop_skip:
  "(\<forall>k < n. \<not> port_ready (poll_state env k p)) \<Longrightarrow>
     recv_loop env 0 p = recv_loop env n (poll_state env n p)"
proof (induction n)
  case (Suc n)
  then have "recv_loop env 0 p = recv_loop env n (poll_state env n p)" by simp
  also have "\<dots> = recv_loop env (Suc n) (poll_state env (Suc n) p)"
    using Suc.prems by (subst recv_loop_step) simp
  finally show ?case .
qed simp

lemma recv_loop_returns:
  "recv_loop env i p = Some y \<Longrightarrow>
     (\<forall>p0. p = poll_state env i p0 \<longrightarrow> (\<exists>n. port_ready (poll_state env n p0)))"
proof (rule recv_loop.raw_induct [where P = "\<lambda>env i p y. \<forall>p0. p = poll_state env i p0 \<longrightarrow>
      (\<exists>n. port_ready (poll_state env n p0))"], goal_cases)
  case (1 rec env i p y)
  show ?case
  proof (cases "port_ready p")
    case False
    then have "try_recv p = (p, Inl Empty)" by (simp add: try_recv_def port_ready_def)
    then have "rec env (Suc i) (env i p) = Some y" using 1(3) by simp
    from 1(2) [OF this] show ?thesis by simp
  qed blast
qed

section \<open>The registry invariant\<close>

definition reg_inv :: "Registry \<Rightarrow> bool" where
  "reg_inv g \<longleftrightarrow> bt_wf (rg_by_id g) \<and> bt_wf (rg_by_name g)
     \<and> (\<forall>i r. bt_get (rg_by_id g) i = Some r \<longrightarrow> r < length (rg_ports g) \<and> i < rg_next_id g
          \<and> port_id (rg_ports g ! r) = i \<and> bt_get (rg_by_name g) (port_name (rg_ports g ! r)) = Some i)
     \<and> (\<forall>n i. bt_get (rg_by_name g) n = Some i \<longrightarrow>
          (\<exists>r. bt_get (rg_by_id g) i = Some r \<and> port_name (rg_ports g ! r) = n))"

lemma reg_inv_new [simp, inv_rules]: "reg_inv registry_new"
  by (simp add: reg_inv_def registry_new_def bt_get_def)

lemma reg_by_id:
  assumes "reg_inv g" "bt_get (rg_by_id g) i = Some r"
  shows "r < length (rg_ports g)" "i < rg_next_id g" "port_id (rg_ports g ! r) = i"
    "bt_get (rg_by_name g) (port_name (rg_ports g ! r)) = Some i"
  using assms unfolding reg_inv_def by blast+

lemma reg_by_name:
  assumes "reg_inv g" "bt_get (rg_by_name g) n = Some i"
  obtains r where "bt_get (rg_by_id g) i = Some r" "port_name (rg_ports g ! r) = n"
  using assms unfolding reg_inv_def by blast

lemma port_lookup_None:
  assumes "reg_inv g"
  shows "port_lookup g n = None \<longleftrightarrow> bt_get (rg_by_name g) n = None"
proof (cases "bt_get (rg_by_name g) n")
  case (Some i)
  then show ?thesis using reg_by_name [OF assms Some] by (auto simp: port_lookup_def)
qed (simp add: port_lookup_def)

lemma port_lookup_Some:
  assumes inv: "reg_inv g" and "port_lookup g n = Some r"
  shows "r < length (rg_ports g)" "port_name (rg_ports g ! r) = n"
    "port_get g (port_id (rg_ports g ! r)) = Some r"
proof -
  obtain i where i: "bt_get (rg_by_name g) n = Some i" "bt_get (rg_by_id g) i = Some r"
    using assms(2) by (auto simp: port_lookup_def bind_eq_Some_conv)
  note r = reg_by_id [OF inv i(2)]
  show "r < length (rg_ports g)" "port_get g (port_id (rg_ports g ! r)) = Some r"
    using r i by (simp_all add: port_get_def)
  obtain r' where "bt_get (rg_by_id g) i = Some r'" "port_name (rg_ports g ! r') = n"
    using reg_by_name [OF inv i(1)] .
  then show "port_name (rg_ports g ! r) = n" using i by simp
qed

text \<open>The registry after \<^verbatim>\<open>create\<close> of a name it does not hold.\<close>

definition reg_added :: "Registry \<Rightarrow> string \<Rightarrow> Registry" where
  "reg_added g name = \<lparr>rg_ports = rg_ports g @ [\<lparr>port_id = rg_next_id g, port_name = name,
       port_queue = [], port_closed = False\<rparr>],
     rg_next_id = rg_next_id g + 1,
     rg_by_id = bt_insert (rg_by_id g) (rg_next_id g) (length (rg_ports g)),
     rg_by_name = bt_insert (rg_by_name g) name (rg_next_id g)\<rparr>"

lemma next_id_fresh: "reg_inv g \<Longrightarrow> bt_get (rg_by_id g) (rg_next_id g) = None"
  using reg_by_id(2) [of g "rg_next_id g"] by (cases "bt_get (rg_by_id g) (rg_next_id g)") auto

lemma port_create_fresh:
  assumes "reg_inv g" "port_lookup g name = None"
  shows "port_create g name = (reg_added g name, length (rg_ports g))"
proof -
  have "bt_get (rg_by_name g) name = None" using assms by (simp add: port_lookup_None)
  then show ?thesis
    using assms(2) next_id_fresh [OF assms(1)]
    by (simp add: port_create_def port_new_def alloc_port_id_def port_register_def Let_def reg_added_def)
qed

lemma reg_inv_added [inv_rules]:
  assumes inv: "reg_inv g" and new: "port_lookup g name = None" and wrap: "rg_next_id g \<noteq> - 1"
  shows "reg_inv (reg_added g name)"
proof -
  have lt: "i < rg_next_id g + 1" if "i \<le> rg_next_id g" for i
    using that unat_succ [OF wrap] by (simp add: word_less_nat_alt word_le_nat_alt)
  have bt: "bt_get (rg_by_name g) name = None" using inv new by (simp add: port_lookup_None)
  note old = reg_by_id [OF inv]
  have "r < length (rg_ports (reg_added g name)) \<and> i < rg_next_id (reg_added g name)
      \<and> port_id (rg_ports (reg_added g name) ! r) = i
      \<and> bt_get (rg_by_name (reg_added g name)) (port_name (rg_ports (reg_added g name) ! r)) = Some i"
    if "bt_get (rg_by_id (reg_added g name)) i = Some r" for i r
    using that old [of i r] bt lt [of i]
    by (cases "i = rg_next_id g") (auto simp: reg_added_def nth_append)
  moreover have "\<exists>r. bt_get (rg_by_id (reg_added g name)) i = Some r
      \<and> port_name (rg_ports (reg_added g name) ! r) = n"
    if g: "bt_get (rg_by_name (reg_added g name)) n = Some i" for n i
  proof (cases "n = name")
    case True
    then show ?thesis using g by (simp add: reg_added_def)
  next
    case False
    then have "bt_get (rg_by_name g) n = Some i" using g by (simp add: reg_added_def)
    then obtain r where "bt_get (rg_by_id g) i = Some r" "port_name (rg_ports g ! r) = n"
      by (rule reg_by_name [OF inv])
    then show ?thesis using old [of i r] by (auto simp: reg_added_def nth_append)
  qed
  moreover have "bt_wf (rg_by_id (reg_added g name))" "bt_wf (rg_by_name (reg_added g name))"
    using inv by (simp_all add: reg_added_def reg_inv_def bt_wf_insert)
  ultimately show ?thesis unfolding reg_inv_def by blast
qed

section \<open>Properties\<close>

text \<open>C8: a port is a bounded first-in first-out queue. After any sequence of \<^verbatim>\<open>try_send\<close>,
  \<^verbatim>\<open>try_recv\<close> and \<^verbatim>\<open>close\<close> calls on a new port, the messages accepted so far are the
  messages handed out, in the same order, followed by the messages still pending, of which
  there are at most 32; a closed port accepts nothing more.\<close>

theorem port_fifo:
  assumes "port_history p0 p sent received" and "port_queue p0 = []"
  shows "sent = received @ port_queue p \<and> port_pending p \<le> 32
    \<and> (port_closed p \<longrightarrow> (\<forall>p' s' r'. port_history p p' s' r' \<longrightarrow> s' = []
         \<and> port_queue p = r' @ port_queue p'))"
proof -
  have "s' = [] \<and> port_queue p = r' @ port_queue p'"
    if "port_closed p" "port_history p p' s' r'" for p' s' r'
    using port_history_queue [OF that(2)] that(1) by auto
  then show ?thesis
    using port_history_queue [OF assms(1)] assms(2) by (auto simp: port_pending_def)
qed

definition empty_port :: Port where
  "empty_port = \<lparr>port_id = 1, port_name = ''kernel'', port_queue = [], port_closed = False\<rparr>"

theorem port_fifo_witness:
  "\<exists>p. port_history empty_port p [message_new 7] [] \<and> port_queue empty_port = []
     \<and> [message_new 7] = [] @ port_queue p"
proof -
  have "port_history empty_port (fst (try_send empty_port (message_new 7))) [message_new 7] []"
    using port_history.send [OF port_history.start, of empty_port "message_new 7"
        "fst (try_send empty_port (message_new 7))" "Inr ()"]
    by (simp add: try_send_def empty_port_def PORT_CAPACITY_def)
  from port_fifo [OF this] this show ?thesis by (auto simp: empty_port_def)
qed

text \<open>\<^verbatim>\<open>recv\<close> returns exactly when, at some poll, the port has a message or is closed;
  it then returns what \<^verbatim>\<open>try_recv\<close> gives at the first such poll, which is the oldest
  message if there is one and \<^verbatim>\<open>Closed\<close> otherwise, never \<^verbatim>\<open>Empty\<close>.\<close>

theorem port_recv_returns:
  "(\<forall>n. port_ready (poll_state env n p) \<and> (\<forall>k < n. \<not> port_ready (poll_state env k p)) \<longrightarrow>
      port_recv env p = Some (try_recv (poll_state env n p))
      \<and> snd (try_recv (poll_state env n p)) \<noteq> Inl Empty)
   \<and> (port_recv env p = None \<longleftrightarrow> (\<forall>n. \<not> port_ready (poll_state env n p)))"
proof -
  have ret: "port_recv env p = Some (try_recv (poll_state env n p))"
    if "port_ready (poll_state env n p)" "\<forall>k < n. \<not> port_ready (poll_state env k p)" for n
    using recv_loop_skip [OF that(2)] recv_loop_step [of env n "poll_state env n p"] that(1)
    by (simp add: port_recv_def)
  have "port_recv env p \<noteq> None" if "port_ready (poll_state env n p)" for n
  proof -
    have "\<exists>k. port_ready (poll_state env k p) \<and> (\<forall>j < k. \<not> port_ready (poll_state env j p))"
      using exists_least_iff [of "\<lambda>n. port_ready (poll_state env n p)"] that by blast
    then show ?thesis using ret by auto
  qed
  moreover have "\<exists>n. port_ready (poll_state env n p)" if "port_recv env p \<noteq> None"
    using that recv_loop_returns [of env 0 p] by (auto simp: port_recv_def)
  moreover have "snd (try_recv q) \<noteq> Inl Empty" if "port_ready q" for q
    using that by (auto simp: try_recv_def port_ready_def split: list.split)
  ultimately show ?thesis using ret by blast
qed

theorem port_recv_returns_witness:
  "port_recv (\<lambda>i p. if i = 4 then fst (try_send p (message_new 9)) else p) empty_port
     = Some (empty_port, Inr (message_new 9))"
proof -
  let ?env = "\<lambda>i p. if i = 4 then fst (try_send p (message_new 9)) else p"
  have early: "poll_state ?env k empty_port = empty_port" if "k < 5" for k
    using that by (induction k) auto
  have at5: "poll_state ?env 5 empty_port = empty_port\<lparr>port_queue := [message_new 9]\<rparr>"
    using early [of 4] by (simp add: eval_nat_numeral try_send_def empty_port_def PORT_CAPACITY_def)
  have "port_ready (poll_state ?env 5 empty_port)" by (simp add: at5 port_ready_def)
  moreover have "\<forall>k < 5. \<not> port_ready (poll_state ?env k empty_port)"
    using early by (simp add: port_ready_def) (simp add: empty_port_def)
  ultimately have "port_recv ?env empty_port = Some (try_recv (poll_state ?env 5 empty_port))"
    using port_recv_returns [of ?env empty_port] by blast
  also have "\<dots> = Some (empty_port, Inr (message_new 9))"
    unfolding at5 by (simp add: try_recv_def empty_port_def)
  finally show ?thesis .
qed

text \<open>\<^verbatim>\<open>create\<close> keeps the registry consistent (every name leads to the port of that
  name and every id to the port with that id), returns the port registered under the name,
  adds one only when the name is new, leaves every other name and port alone, and gives the
  same port when called again. This holds as long as the 64-bit id counter has not wrapped.\<close>

theorem port_create_correct:
  assumes inv: "reg_inv g" and "rg_next_id g \<noteq> - 1"
  shows "let (g', r) = port_create g name in
    reg_inv g' \<and> port_lookup g' name = Some r \<and> port_name (rg_ports g' ! r) = name
    \<and> port_get g' (port_id (rg_ports g' ! r)) = Some r
    \<and> (\<forall>n. n \<noteq> name \<longrightarrow> port_lookup g' n = port_lookup g n)
    \<and> take (length (rg_ports g)) (rg_ports g') = rg_ports g
    \<and> length (rg_ports g') = length (rg_ports g) + (if port_lookup g name = None then 1 else 0)
    \<and> port_create g' name = (g', r)"
proof (cases "port_lookup g name")
  case None
  have inv': "reg_inv (reg_added g name)" using reg_inv_added [OF inv None assms(2)] .
  have l: "port_lookup (reg_added g name) name = Some (length (rg_ports g))"
    by (simp add: port_lookup_def reg_added_def)
  moreover have "port_lookup (reg_added g name) n = port_lookup g n" if "n \<noteq> name" for n
  proof (cases "bt_get (rg_by_name g) n")
    case (Some i)
    then have "i \<noteq> rg_next_id g" using next_id_fresh [OF inv] by (auto elim: reg_by_name [OF inv])
    then show ?thesis using that Some by (simp add: port_lookup_def reg_added_def)
  qed (use that in \<open>simp add: port_lookup_def reg_added_def\<close>)
  ultimately show ?thesis
    using inv' port_lookup_Some [OF inv' l] port_create_fresh [OF inv None] None
    by (simp add: port_create_def [of "reg_added g name"]) (simp add: reg_added_def)
next
  case (Some r)
  then show ?thesis using inv port_lookup_Some [OF inv Some] by (simp add: port_create_def)
qed

theorem port_create_correct_witness:
  "let (g', r) = port_create registry_new ''kernel'' in port_lookup g' ''kernel'' = Some r
     \<and> port_create g' ''kernel'' = (g', r) \<and> length (rg_ports g') = 1"
  using port_create_correct [OF reg_inv_new, of "''kernel''"]
  by (simp add: registry_new_def Let_def split_beta port_lookup_def bt_get_def)

end
