(* ===== verification/Hyp_Caps.thy ===== *)
theory Hyp_Caps
  imports Hyp_Port
begin

text \<open>
  Capability tables (\<^verbatim>\<open>kernel/src/ipc/caps.rs\<close>). A capability refers to a port of the
  store of \<^verbatim>\<open>Hyp_Port\<close>; a table maps 32-bit handles to entries and hands out handles from
  a counter that wraps.
\<close>

section \<open>Rights, capabilities and tables\<close>

type_synonym Rights = u32

definition READ :: Rights where "READ = push_bit 0 1"
definition WRITE :: Rights where "WRITE = push_bit 1 1"
definition SEND :: Rights where "SEND = push_bit 2 1"
definition RECEIVE :: Rights where "RECEIVE = push_bit 3 1"
definition TRANSFER :: Rights where "TRANSFER = push_bit 4 1"
definition DUPLICATE :: Rights where "DUPLICATE = push_bit 5 1"

datatype Handle = Handle (handle_raw: u32)

datatype Capability = CapPort port_ref

record CapEntry =
  ce_cap :: Capability
  ce_rights :: Rights

record CapTable =
  ct_next :: u32
  ct_entries :: "(u32, CapEntry) btree"

definition captable_new :: CapTable where
  "captable_new = \<lparr>ct_next = 1, ct_entries = []\<rparr>"

definition cap_insert :: "CapTable \<Rightarrow> Capability \<Rightarrow> Rights \<Rightarrow> CapTable \<times> Handle" where
  "cap_insert t c r =
     (let h = Handle (ct_next t) in
      (\<lparr>ct_next = ct_next t + 1,
        ct_entries = bt_insert (ct_entries t) (handle_raw h) \<lparr>ce_cap = c, ce_rights = r\<rparr>\<rparr>, h))"

definition cap_get :: "CapTable \<Rightarrow> Handle \<Rightarrow> (Capability \<times> Rights) option" where
  "cap_get t h = map_option (\<lambda>e. (ce_cap e, ce_rights e)) (bt_get (ct_entries t) (handle_raw h))"

definition cap_remove :: "CapTable \<Rightarrow> Handle \<Rightarrow> CapTable \<times> Capability option" where
  "cap_remove t h =
     (t\<lparr>ct_entries := bt_remove (ct_entries t) (handle_raw h)\<rparr>,
      map_option ce_cap (bt_get (ct_entries t) (handle_raw h)))"

definition cap_len :: "CapTable \<Rightarrow> nat" where
  "cap_len t = length (ct_entries t)"

definition cap_is_empty :: "CapTable \<Rightarrow> bool" where
  "cap_is_empty t \<longleftrightarrow> ct_entries t = []"

section \<open>Invariant\<close>

text \<open>Until the counter wraps, every handle in use is below it.\<close>

definition cap_inv :: "CapTable \<Rightarrow> bool" where
  "cap_inv t \<longleftrightarrow> bt_wf (ct_entries t) \<and> (\<forall>(h, e) \<in> set (ct_entries t). h < ct_next t)"

lemma cap_inv_new [simp, inv_rules]: "cap_inv captable_new"
  by (simp add: cap_inv_def captable_new_def)

lemma cap_inv_get: "cap_inv t \<Longrightarrow> cap_get t h \<noteq> None \<Longrightarrow> handle_raw h < ct_next t"
  by (auto simp: cap_inv_def cap_get_def bt_get_Some_in)

lemma cap_fresh: "cap_inv t \<Longrightarrow> bt_get (ct_entries t) (ct_next t) = None"
  using cap_inv_get [of t "Handle (ct_next t)"]
  by (cases "bt_get (ct_entries t) (ct_next t)") (auto simp: cap_get_def)

lemma cap_inv_insert [inv_rules]:
  assumes "cap_inv t" "ct_next t \<noteq> - 1"
  shows "cap_inv (fst (cap_insert t c r))"
proof -
  have lt: "h < ct_next t + 1" if "h \<le> ct_next t" for h
    using that unat_succ [OF assms(2)] by (simp add: word_less_nat_alt word_le_nat_alt)
  have "fst e < ct_next t + 1" if "e \<in> set (bt_insert (ct_entries t) (ct_next t) v)" for e v
  proof -
    have "fst e \<in> insert (ct_next t) (fst ` set (ct_entries t))"
      using that set_keys_bt_insert [of "ct_entries t" "ct_next t" v] by blast
    then show ?thesis using assms(1) lt by (fastforce simp: cap_inv_def intro: less_imp_le)
  qed
  then show ?thesis
    using assms(1) by (auto simp: cap_inv_def cap_insert_def Let_def bt_wf_insert)
qed

lemma cap_inv_remove [inv_rules]: "cap_inv t \<Longrightarrow> cap_inv (fst (cap_remove t h))"
  using bt_wf_remove [of "ct_entries t" "handle_raw h"]
  by (auto simp: cap_inv_def cap_remove_def bt_remove_def)

section \<open>Properties\<close>

text \<open>C9: \<^verbatim>\<open>insert\<close> returns a handle that no live capability of the table has; that handle
  then gives the capability and its rights, every other handle gives what it gave before,
  and the table grows by one. \<^verbatim>\<open>remove\<close> takes back exactly that entry. This holds until the
  32-bit handle counter wraps.\<close>

theorem cap_insert_correct:
  assumes inv: "cap_inv t" and "ct_next t \<noteq> - 1"
  shows "let (t', h) = cap_insert t c r in
    cap_get t h = None \<and> cap_inv t' \<and> cap_len t' = cap_len t + 1
    \<and> (\<forall>k. cap_get t' k = (if k = h then Some (c, r) else cap_get t k))
    \<and> snd (cap_remove t' h) = Some c \<and> (\<forall>k. cap_get (fst (cap_remove t' h)) k = cap_get t k)"
proof -
  have eq: "handle_raw k = ct_next t \<longleftrightarrow> k = Handle (ct_next t)" for k by (cases k) simp
  have wf: "bt_wf (ct_entries t)" using inv by (simp add: cap_inv_def)
  show ?thesis
    using cap_inv_insert [OF assms] cap_fresh [OF inv] bt.length_ins_fresh [OF wf cap_fresh [OF inv]]
    by (auto simp: cap_insert_def Let_def cap_get_def cap_remove_def cap_len_def eq)
qed

theorem cap_insert_correct_witness:
  "cap_inv captable_new \<and> (let (t', h) = cap_insert captable_new (CapPort 0) SEND in
     cap_get t' h = Some (CapPort 0, SEND) \<and> cap_len t' = 1)"
proof -
  have "ct_next captable_new \<noteq> - 1" "cap_len captable_new = 0"
    by (simp_all add: captable_new_def cap_len_def)
  then show ?thesis
    using cap_insert_correct [OF cap_inv_new, of "CapPort 0" SEND] by (auto simp: Let_def split_beta)
qed

section \<open>The counter wraps\<close>

text \<open>\<open>n\<close> times inserting a capability and removing it again.\<close>

primrec cap_churn :: "nat \<Rightarrow> Capability \<Rightarrow> Rights \<Rightarrow> CapTable \<Rightarrow> CapTable" where
  "cap_churn 0 c r t = t"
| "cap_churn (Suc n) c r t =
     (let (t', h) = cap_insert (cap_churn n c r t) c r in fst (cap_remove t' h))"

lemma cap_churn_next: "ct_next (cap_churn n c r t) = ct_next t + word_of_nat n"
  by (induction n) (simp_all add: cap_insert_def cap_remove_def Let_def split_beta algebra_simps)

lemma cap_churn_keeps:
  assumes "\<forall>i < n. ct_next t + word_of_nat i \<noteq> handle_raw h"
  shows "cap_get (cap_churn n c r t) h = cap_get t h"
  using assms
  by (induction n)
     (auto simp: cap_insert_def cap_remove_def Let_def split_beta cap_get_def cap_churn_next)

text \<open>C10: a table keeps no check for a handle still in use. Starting from a new table, take a
  capability and then insert and remove another one \<open>2 ^ 32 - 1\<close> times: the first capability
  is still reachable under its handle, and the next \<^verbatim>\<open>insert\<close> returns the same handle and
  replaces it.\<close>

theorem cap_handle_reuse:
  "let (t, h) = cap_insert captable_new c r;
       t' = cap_churn (2 ^ 32 - 1) c' r' t;
       (t'', h') = cap_insert t' c'' r''
   in cap_get t' h = Some (c, r) \<and> h' = h \<and> cap_get t'' h = Some (c'', r'')"
proof -
  obtain t where t: "cap_insert captable_new c r = (t, Handle 1)" and next2: "ct_next t = 2"
      and first: "cap_get t (Handle 1) = Some (c, r)"
    by (simp add: cap_insert_def captable_new_def Let_def cap_get_def bt_get_def)
  define u where "u = cap_churn (2 ^ 32 - 1) c' r' t"
  have ne: "(2::u32) + word_of_nat i \<noteq> 1" if "i < 2 ^ 32 - 1" for i :: nat
  proof -
    have i: "i + 1 < 2 ^ LENGTH(32)" using that by simp
    have "(2::u32) + word_of_nat i = 1 \<longleftrightarrow> (word_of_nat (i + 1) :: u32) = 0"
      by (simp add: algebra_simps)
    also have "\<dots> \<longleftrightarrow> unat (word_of_nat (i + 1) :: u32) = 0" by (simp add: unat_eq_zero)
    also have "\<dots> \<longleftrightarrow> i + 1 = 0" by (simp only: unat_word_of_nat [OF i])
    finally show ?thesis by simp
  qed
  have keep: "cap_get u (Handle 1) = Some (c, r)"
    unfolding u_def first [symmetric] using ne next2 by (intro cap_churn_keeps) simp
  have "ct_next u = 2 + word_of_nat (2 ^ 32 - 1)"
    unfolding u_def next2 [symmetric] by (rule cap_churn_next)
  then have "cap_insert u c'' r'' = (fst (cap_insert u c'' r''), Handle 1)"
      "cap_get (fst (cap_insert u c'' r'')) (Handle 1) = Some (c'', r'')"
    by (simp_all add: cap_insert_def cap_get_def Let_def)
  then show ?thesis
    using keep unfolding t Let_def prod.case u_def [symmetric]
    by (cases "cap_insert u c'' r''") simp
qed

end
