(* ===== verification/Hyp_Context.thy ===== *)
theory Hyp_Context
  imports Hyp_Prelude
begin

text \<open>
  Thread contexts and the assembly that switches between them
  (\<^verbatim>\<open>kernel/src/arch/aarch64/context.rs\<close>, \<^verbatim>\<open>kernel/src/arch/x86_64/context.rs\<close>). The two
  routines \<^verbatim>\<open>__ctx_switch\<close> and \<^verbatim>\<open>__thread_trampoline\<close> are instruction lists that act on
  a register file and on memory, which is a map from the address of an 8-byte cell to its
  contents; a context is laid out in memory as \<^verbatim>\<open>repr(C)\<close> says.
\<close>

section \<open>AArch64\<close>

record ContextA64 =
  ca_x19 :: u64
  ca_x20 :: u64
  ca_x21 :: u64
  ca_x22 :: u64
  ca_x23 :: u64
  ca_x24 :: u64
  ca_x25 :: u64
  ca_x26 :: u64
  ca_x27 :: u64
  ca_x28 :: u64
  ca_fp :: u64
  ca_lr :: u64
  ca_sp :: u64

record A64 =
  ax :: "nat \<Rightarrow> u64"
  asp :: u64
  apc :: u64
  amem :: "u64 \<Rightarrow> u64"

text \<open>\<open>A_STP a b n off\<close> is \<^verbatim>\<open>stp xa, xb, [xn, #off]\<close>, and so on.\<close>

datatype A64Insn =
  A_STP nat nat nat u64 | A_LDP nat nat nat u64 | A_STR nat nat u64 | A_LDR nat nat u64
  | A_MOV_FROM_SP nat | A_MOV_TO_SP nat | A_MOV nat nat | A_BLR nat | A_RET

fun a64_exec :: "A64Insn \<Rightarrow> A64 \<Rightarrow> A64" where
  "a64_exec (A_STP a b n off) m = m\<lparr>amem := (amem m)(ax m n + off := ax m a, ax m n + off + 8 := ax m b),
     apc := apc m + 4\<rparr>"
| "a64_exec (A_LDP a b n off) m = m\<lparr>ax := (ax m)(a := amem m (ax m n + off), b := amem m (ax m n + off + 8)),
     apc := apc m + 4\<rparr>"
| "a64_exec (A_STR a n off) m = m\<lparr>amem := (amem m)(ax m n + off := ax m a), apc := apc m + 4\<rparr>"
| "a64_exec (A_LDR a n off) m = m\<lparr>ax := (ax m)(a := amem m (ax m n + off)), apc := apc m + 4\<rparr>"
| "a64_exec (A_MOV_FROM_SP a) m = m\<lparr>ax := (ax m)(a := asp m), apc := apc m + 4\<rparr>"
| "a64_exec (A_MOV_TO_SP a) m = m\<lparr>asp := ax m a, apc := apc m + 4\<rparr>"
| "a64_exec (A_MOV a b) m = m\<lparr>ax := (ax m)(a := ax m b), apc := apc m + 4\<rparr>"
| "a64_exec (A_BLR a) m = m\<lparr>ax := (ax m)(30 := apc m + 4), apc := ax m a\<rparr>"
| "a64_exec A_RET m = m\<lparr>apc := ax m 30\<rparr>"

definition ctx_switch_a64 :: "A64Insn list" where
  "ctx_switch_a64 = [
     A_STP 19 20 0 0, A_STP 21 22 0 16, A_STP 23 24 0 32, A_STP 25 26 0 48, A_STP 27 28 0 64, A_STP 29 30 0 80,
     A_MOV_FROM_SP 9, A_STR 9 0 96,
     A_LDR 9 1 96, A_MOV_TO_SP 9,
     A_LDP 29 30 1 80, A_LDP 27 28 1 64, A_LDP 25 26 1 48, A_LDP 23 24 1 32, A_LDP 21 22 1 16, A_LDP 19 20 1 0,
     A_RET]"

definition thread_trampoline_a64 :: "A64Insn list" where
  "thread_trampoline_a64 = [A_MOV 0 20, A_BLR 19]"

definition init_context_a64 :: "u64 \<Rightarrow> ContextA64 \<Rightarrow> usize \<Rightarrow> usize \<Rightarrow> usize \<Rightarrow> ContextA64" where
  "init_context_a64 trampoline ctx entry arg stack_top =
     ctx\<lparr>ca_x19 := entry, ca_x20 := arg, ca_lr := trampoline, ca_sp := stack_top AND NOT 0xf, ca_fp := 0\<rparr>"

text \<open>The context in memory at address \<open>a\<close>, and the registers a switch saves.\<close>

definition ctx_at_a64 :: "(u64 \<Rightarrow> u64) \<Rightarrow> u64 \<Rightarrow> ContextA64" where
  "ctx_at_a64 mem a = \<lparr>ca_x19 = mem a, ca_x20 = mem (a + 8), ca_x21 = mem (a + 16), ca_x22 = mem (a + 24),
     ca_x23 = mem (a + 32), ca_x24 = mem (a + 40), ca_x25 = mem (a + 48), ca_x26 = mem (a + 56),
     ca_x27 = mem (a + 64), ca_x28 = mem (a + 72), ca_fp = mem (a + 80), ca_lr = mem (a + 88),
     ca_sp = mem (a + 96)\<rparr>"

definition saved_regs_a64 :: "A64 \<Rightarrow> ContextA64" where
  "saved_regs_a64 m = \<lparr>ca_x19 = ax m 19, ca_x20 = ax m 20, ca_x21 = ax m 21, ca_x22 = ax m 22,
     ca_x23 = ax m 23, ca_x24 = ax m 24, ca_x25 = ax m 25, ca_x26 = ax m 26, ca_x27 = ax m 27,
     ca_x28 = ax m 28, ca_fp = ax m 29, ca_lr = ax m 30, ca_sp = asp m\<rparr>"

definition ctx_cells :: "u64 \<Rightarrow> u64 list" where
  "ctx_cells a = map (\<lambda>i. a + i) [0, 8, 16, 24, 32, 40, 48, 56, 64, 72, 80, 88, 96]"

definition call_switch_a64 :: "u64 \<Rightarrow> u64 \<Rightarrow> A64 \<Rightarrow> A64" where
  "call_switch_a64 prev next m = fold a64_exec ctx_switch_a64 (m\<lparr>ax := (ax m)(0 := prev, 1 := next)\<rparr>)"

definition store_ctx_a64 :: "(u64 \<Rightarrow> u64) \<Rightarrow> u64 \<Rightarrow> ContextA64 \<Rightarrow> u64 \<Rightarrow> u64" where
  "store_ctx_a64 mem a c = mem(a := ca_x19 c, a + 8 := ca_x20 c, a + 16 := ca_x21 c, a + 24 := ca_x22 c,
     a + 32 := ca_x23 c, a + 40 := ca_x24 c, a + 48 := ca_x25 c, a + 56 := ca_x26 c,
     a + 64 := ca_x27 c, a + 72 := ca_x28 c, a + 80 := ca_fp c, a + 88 := ca_lr c, a + 96 := ca_sp c)"

lemma ctx_at_store_a64 [simp]: "ctx_at_a64 (store_ctx_a64 mem a c) a = c"
  by (simp add: ctx_at_a64_def store_ctx_a64_def)

lemma ctx_at_store_other_a64:
  "set (ctx_cells a) \<inter> set (ctx_cells b) = {} \<Longrightarrow> ctx_at_a64 (store_ctx_a64 mem a c) b = ctx_at_a64 mem b"
proof -
  assume disj: "set (ctx_cells a) \<inter> set (ctx_cells b) = {}"
  have "store_ctx_a64 mem a c x = mem x" if "x \<in> set (ctx_cells b)" for x
  proof -
    have "x \<notin> set (ctx_cells a)" using disj that by blast
    then show ?thesis by (simp add: store_ctx_a64_def ctx_cells_def)
  qed
  then show ?thesis by (simp add: ctx_at_a64_def ctx_cells_def)
qed

text \<open>The first half of the routine stores all registers of the caller, the second half loads
  those of the other thread.\<close>

lemma a64_save:
  "fold a64_exec (take 8 ctx_switch_a64) m = m\<lparr>ax := (ax m)(9 := asp m),
     amem := store_ctx_a64 (amem m) (ax m 0) (saved_regs_a64 m), apc := apc m + 32\<rparr>"
  by (simp add: ctx_switch_a64_def store_ctx_a64_def saved_regs_a64_def add.assoc)

lemma a64_restore:
  "saved_regs_a64 (fold a64_exec (drop 8 ctx_switch_a64) m) = ctx_at_a64 (amem m) (ax m 1)"
  "amem (fold a64_exec (drop 8 ctx_switch_a64) m) = amem m"
  "apc (fold a64_exec (drop 8 ctx_switch_a64) m) = ca_lr (ctx_at_a64 (amem m) (ax m 1))"
  by (simp_all add: ctx_switch_a64_def ctx_at_a64_def saved_regs_a64_def add.assoc)

lemma call_switch_a64_eq:
  "let mem = store_ctx_a64 (amem m) prev (saved_regs_a64 m); m' = call_switch_a64 prev next m in
     amem m' = mem \<and> saved_regs_a64 m' = ctx_at_a64 mem next \<and> apc m' = ca_lr (ctx_at_a64 mem next)"
proof -
  let ?m = "m\<lparr>ax := (ax m)(0 := prev, 1 := next)\<rparr>"
  have "call_switch_a64 prev next m =
      fold a64_exec (drop 8 ctx_switch_a64) (fold a64_exec (take 8 ctx_switch_a64) ?m)"
    unfolding call_switch_a64_def by (metis append_take_drop_id fold_append comp_apply)
  moreover have "saved_regs_a64 ?m = saved_regs_a64 m" by (simp add: saved_regs_a64_def)
  ultimately show ?thesis by (simp add: Let_def a64_restore a64_save)
qed

section \<open>x86-64\<close>

record ContextX64 =
  cx_rbx :: u64
  cx_rbp :: u64
  cx_r12 :: u64
  cx_r13 :: u64
  cx_r14 :: u64
  cx_r15 :: u64
  cx_rsp :: u64

datatype X64Reg = RBX | RBP | R12 | R13 | R14 | R15 | RSP | RDI | RSI

record X64 =
  xr :: "X64Reg \<Rightarrow> u64"
  xpc :: u64
  xmem :: "u64 \<Rightarrow> u64"

text \<open>\<open>X_STORE b off r\<close> is \<^verbatim>\<open>mov [b + off], r\<close>, \<open>X_LOAD r b off\<close> is \<^verbatim>\<open>mov r, [b + off]\<close>. The length of
  a \<^verbatim>\<open>call r15\<close> is three bytes; the program counter inside straight-line code is not used.\<close>

datatype X64Insn = X_STORE X64Reg u64 X64Reg | X_LOAD X64Reg X64Reg u64 | X_MOV X64Reg X64Reg | X_CALL X64Reg | X_RET

fun x64_exec :: "X64Insn \<Rightarrow> X64 \<Rightarrow> X64" where
  "x64_exec (X_STORE b off r) m = m\<lparr>xmem := (xmem m)(xr m b + off := xr m r)\<rparr>"
| "x64_exec (X_LOAD r b off) m = m\<lparr>xr := (xr m)(r := xmem m (xr m b + off))\<rparr>"
| "x64_exec (X_MOV a b) m = m\<lparr>xr := (xr m)(a := xr m b)\<rparr>"
| "x64_exec (X_CALL r) m = m\<lparr>xmem := (xmem m)(xr m RSP - 8 := xpc m + 3),
     xr := (xr m)(RSP := xr m RSP - 8), xpc := xr m r\<rparr>"
| "x64_exec X_RET m = m\<lparr>xpc := xmem m (xr m RSP), xr := (xr m)(RSP := xr m RSP + 8)\<rparr>"

definition ctx_switch_x64 :: "X64Insn list" where
  "ctx_switch_x64 = [
     X_STORE RDI 0 RBX, X_STORE RDI 8 RBP, X_STORE RDI 16 R12, X_STORE RDI 24 R13, X_STORE RDI 32 R14,
     X_STORE RDI 40 R15, X_STORE RDI 48 RSP,
     X_LOAD RSP RSI 48, X_LOAD R15 RSI 40, X_LOAD R14 RSI 32, X_LOAD R13 RSI 24, X_LOAD R12 RSI 16,
     X_LOAD RBP RSI 8, X_LOAD RBX RSI 0, X_RET]"

definition thread_trampoline_x64 :: "X64Insn list" where
  "thread_trampoline_x64 = [X_MOV RDI R14, X_CALL R15]"

text \<open>\<^verbatim>\<open>init_context\<close> also writes the trampoline's address to the top cell of the stack.\<close>

definition init_context_x64 ::
  "u64 \<Rightarrow> (u64 \<Rightarrow> u64) \<Rightarrow> ContextX64 \<Rightarrow> usize \<Rightarrow> usize \<Rightarrow> usize \<Rightarrow> (u64 \<Rightarrow> u64) \<times> ContextX64" where
  "init_context_x64 trampoline mem ctx entry arg stack_top =
     (let aligned_top = stack_top AND NOT 0xf; slot = aligned_top - 8 in
      (mem(slot := trampoline),
       ctx\<lparr>cx_rsp := aligned_top - 8, cx_r15 := entry, cx_r14 := arg, cx_rbx := 0, cx_rbp := 0,
           cx_r12 := 0, cx_r13 := 0\<rparr>))"

definition ctx_at_x64 :: "(u64 \<Rightarrow> u64) \<Rightarrow> u64 \<Rightarrow> ContextX64" where
  "ctx_at_x64 mem a = \<lparr>cx_rbx = mem a, cx_rbp = mem (a + 8), cx_r12 = mem (a + 16), cx_r13 = mem (a + 24),
     cx_r14 = mem (a + 32), cx_r15 = mem (a + 40), cx_rsp = mem (a + 48)\<rparr>"

definition saved_regs_x64 :: "X64 \<Rightarrow> ContextX64" where
  "saved_regs_x64 m = \<lparr>cx_rbx = xr m RBX, cx_rbp = xr m RBP, cx_r12 = xr m R12, cx_r13 = xr m R13,
     cx_r14 = xr m R14, cx_r15 = xr m R15, cx_rsp = xr m RSP\<rparr>"

definition ctx_cells_x64 :: "u64 \<Rightarrow> u64 list" where
  "ctx_cells_x64 a = map (\<lambda>i. a + i) [0, 8, 16, 24, 32, 40, 48]"

text \<open>The call pushes the return address \<open>ra\<close> and enters the routine.\<close>

definition call_switch_x64 :: "u64 \<Rightarrow> u64 \<Rightarrow> u64 \<Rightarrow> X64 \<Rightarrow> X64" where
  "call_switch_x64 ra prev next m = fold x64_exec ctx_switch_x64
     (m\<lparr>xr := (xr m)(RDI := prev, RSI := next, RSP := xr m RSP - 8),
        xmem := (xmem m)(xr m RSP - 8 := ra)\<rparr>)"

definition store_ctx_x64 :: "(u64 \<Rightarrow> u64) \<Rightarrow> u64 \<Rightarrow> ContextX64 \<Rightarrow> u64 \<Rightarrow> u64" where
  "store_ctx_x64 mem a c = mem(a := cx_rbx c, a + 8 := cx_rbp c, a + 16 := cx_r12 c, a + 24 := cx_r13 c,
     a + 32 := cx_r14 c, a + 40 := cx_r15 c, a + 48 := cx_rsp c)"

lemma ctx_at_store_x64 [simp]: "ctx_at_x64 (store_ctx_x64 mem a c) a = c"
  by (simp add: ctx_at_x64_def store_ctx_x64_def)

lemma ctx_at_store_other_x64:
  "set (ctx_cells_x64 a) \<inter> set (ctx_cells_x64 b) = {} \<Longrightarrow>
     ctx_at_x64 (store_ctx_x64 mem a c) b = ctx_at_x64 mem b"
proof -
  assume disj: "set (ctx_cells_x64 a) \<inter> set (ctx_cells_x64 b) = {}"
  have "store_ctx_x64 mem a c x = mem x" if "x \<in> set (ctx_cells_x64 b)" for x
  proof -
    have "x \<notin> set (ctx_cells_x64 a)" using disj that by blast
    then show ?thesis by (simp add: store_ctx_x64_def ctx_cells_x64_def)
  qed
  then show ?thesis by (simp add: ctx_at_x64_def ctx_cells_x64_def)
qed

lemma x64_save:
  "fold x64_exec (take 7 ctx_switch_x64) m =
     m\<lparr>xmem := store_ctx_x64 (xmem m) (xr m RDI) (saved_regs_x64 m)\<rparr>"
  by (simp add: ctx_switch_x64_def store_ctx_x64_def saved_regs_x64_def)

lemma x64_restore:
  fixes m defines "n \<equiv> ctx_at_x64 (xmem m) (xr m RSI)"
  shows "saved_regs_x64 (fold x64_exec (drop 7 ctx_switch_x64) m) = n\<lparr>cx_rsp := cx_rsp n + 8\<rparr>"
    "xmem (fold x64_exec (drop 7 ctx_switch_x64) m) = xmem m"
    "xpc (fold x64_exec (drop 7 ctx_switch_x64) m) = xmem m (cx_rsp n)"
  by (simp_all add: n_def ctx_switch_x64_def ctx_at_x64_def saved_regs_x64_def)

lemma call_switch_x64_eq:
  "let c = (saved_regs_x64 m)\<lparr>cx_rsp := xr m RSP - 8\<rparr>;
       mem = store_ctx_x64 ((xmem m)(xr m RSP - 8 := ra)) prev c;
       n = ctx_at_x64 mem next; m' = call_switch_x64 ra prev next m in
     xmem m' = mem \<and> saved_regs_x64 m' = n\<lparr>cx_rsp := cx_rsp n + 8\<rparr> \<and> xpc m' = mem (cx_rsp n)"
proof -
  let ?m = "m\<lparr>xr := (xr m)(RDI := prev, RSI := next, RSP := xr m RSP - 8),
        xmem := (xmem m)(xr m RSP - 8 := ra)\<rparr>"
  have "call_switch_x64 ra prev next m =
      fold x64_exec (drop 7 ctx_switch_x64) (fold x64_exec (take 7 ctx_switch_x64) ?m)"
    unfolding call_switch_x64_def by (metis append_take_drop_id fold_append comp_apply)
  moreover have "saved_regs_x64 ?m = (saved_regs_x64 m)\<lparr>cx_rsp := xr m RSP - 8\<rparr>"
    by (simp add: saved_regs_x64_def)
  ultimately show ?thesis by (simp add: Let_def x64_restore x64_save)
qed

section \<open>Properties\<close>

lemma ctx_at_cong_a64: "\<forall>x \<in> set (ctx_cells a). mem x = mem' x \<Longrightarrow> ctx_at_a64 mem a = ctx_at_a64 mem' a"
  by (simp add: ctx_at_a64_def ctx_cells_def)

lemma ctx_at_cong_x64: "\<forall>x \<in> set (ctx_cells_x64 a). mem x = mem' x \<Longrightarrow> ctx_at_x64 mem a = ctx_at_x64 mem' a"
  by (simp add: ctx_at_x64_def ctx_cells_x64_def)

text \<open>C17: on AArch64 a thread switched away from with \<^verbatim>\<open>__ctx_switch(prev, next)\<close> and later switched
  back to continues after its own call with every callee-saved general register (x19 to x30) and
  the stack pointer as they were, whatever ran in between, as long as nothing wrote to its saved
  context and the two contexts do not overlap. The vector registers d8 to d15, which the procedure
  call standard also asks a callee to keep, are not part of the saved context.\<close>

theorem ctx_switch_roundtrip_a64:
  assumes disj: "set (ctx_cells prev) \<inter> set (ctx_cells next) = {}"
    and kept: "\<forall>x \<in> set (ctx_cells prev). amem m2 x = amem (call_switch_a64 prev next m) x"
  shows "saved_regs_a64 (call_switch_a64 next prev m2) = saved_regs_a64 m
    \<and> apc (call_switch_a64 next prev m2) = ax m 30
    \<and> saved_regs_a64 (call_switch_a64 prev next m) = ctx_at_a64 (amem m) next"
proof -
  note out = call_switch_a64_eq [of m prev "next", unfolded Let_def]
    and home = call_switch_a64_eq [of m2 "next" prev, unfolded Let_def]
  have "ctx_at_a64 (amem m2) prev = saved_regs_a64 m"
    using ctx_at_cong_a64 [OF kept] out by simp
  then have "ctx_at_a64 (store_ctx_a64 (amem m2) next (saved_regs_a64 m2)) prev = saved_regs_a64 m"
    using ctx_at_store_other_a64 [of "next" prev] disj by (simp add: Int_commute)
  then show ?thesis
    using home out ctx_at_store_other_a64 [OF disj] by (simp add: saved_regs_a64_def)
qed

theorem ctx_switch_roundtrip_a64_witness:
  "saved_regs_a64 (call_switch_a64 0x2000 0x1000 (call_switch_a64 0x1000 0x2000
       \<lparr>ax = of_nat, asp = 5, apc = 0, amem = (\<lambda>_. 9)\<rparr>))
     = saved_regs_a64 \<lparr>ax = of_nat, asp = 5, apc = 0, amem = (\<lambda>_. 9)\<rparr>"
  by (rule ctx_switch_roundtrip_a64 [THEN conjunct1]) (simp_all add: ctx_cells_def)

text \<open>C18: on x86-64 the same holds for \<^verbatim>\<open>__ctx_switch\<close>, which saves the stack pointer with the
  return address on top: the thread continues at its return address with its registers and
  its stack pointer, as long as its saved context and its return-address cell are kept.\<close>

theorem ctx_switch_roundtrip_x64:
  assumes disj: "set (ctx_cells_x64 prev) \<inter> set (ctx_cells_x64 next) = {}"
    and stack: "xr m RSP - 8 \<notin> set (ctx_cells_x64 prev) \<union> set (ctx_cells_x64 next)"
    and stack2: "xr m2 RSP - 8 \<notin> set (ctx_cells_x64 prev)" "xr m2 RSP - 8 \<noteq> xr m RSP - 8"
    and kept: "\<forall>x \<in> set (ctx_cells_x64 prev) \<union> {xr m RSP - 8}.
      xmem m2 x = xmem (call_switch_x64 ra prev next m) x"
  shows "saved_regs_x64 (call_switch_x64 ra2 next prev m2) = saved_regs_x64 m
    \<and> xpc (call_switch_x64 ra2 next prev m2) = ra"
proof -
  let ?c = "(saved_regs_x64 m)\<lparr>cx_rsp := xr m RSP - 8\<rparr>"
    and ?mem2 = "(xmem m2)(xr m2 RSP - 8 := ra2)"
  note out = call_switch_x64_eq [of m ra prev "next", unfolded Let_def]
    and home = call_switch_x64_eq [of m2 ra2 "next" prev, unfolded Let_def]
  have other: "store_ctx_x64 mem a c x = mem x" if "x \<notin> set (ctx_cells_x64 a)" for mem a c x
    using that by (simp add: store_ctx_x64_def ctx_cells_x64_def)
  have mem: "xmem (call_switch_x64 ra prev next m) =
      store_ctx_x64 ((xmem m)(xr m RSP - 8 := ra)) prev ?c" using out by (rule conjunct1)
  have keep: "\<forall>x \<in> set (ctx_cells_x64 prev). xmem m2 x = xmem (call_switch_x64 ra prev next m) x"
      "xmem m2 (xr m RSP - 8) = xmem (call_switch_x64 ra prev next m) (xr m RSP - 8)"
    using kept by blast+
  have "ctx_at_x64 ?mem2 prev = ctx_at_x64 (xmem m2) prev"
    by (rule ctx_at_cong_x64) (use stack2(1) in \<open>auto simp del: set_map\<close>)
  also have "\<dots> = ?c" unfolding ctx_at_cong_x64 [OF keep(1)] mem by (rule ctx_at_store_x64)
  finally have c: "ctx_at_x64 (store_ctx_x64 ?mem2 next c') prev = ?c" for c'
    using ctx_at_store_other_x64 [of "next" prev ?mem2 c'] disj by (simp only: Int_commute)
  have "xmem m2 (xr m RSP - 8) = ra"
    unfolding keep(2) mem using stack by (subst other) simp_all
  then have "store_ctx_x64 ?mem2 next c' (xr m RSP - 8) = ra" for c'
    using stack stack2(2) by (subst other) simp_all
  then show ?thesis using home by (simp add: c saved_regs_x64_def)
qed

theorem ctx_switch_roundtrip_x64_witness:
  "let m = \<lparr>xr = (\<lambda>r. if r = RSP then 0x5000 else 4), xpc = 0, xmem = (\<lambda>_. 0x6000)\<rparr>;
       m2 = call_switch_x64 33 0x1000 0x2000 m in
     saved_regs_x64 (call_switch_x64 44 0x2000 0x1000 m2) = saved_regs_x64 m
     \<and> xpc (call_switch_x64 44 0x2000 0x1000 m2) = 33"
proof -
  let ?m = "\<lparr>xr = (\<lambda>r. if r = RSP then 0x5000 else 4), xpc = 0, xmem = (\<lambda>_. 0x6000)\<rparr> :: X64"
  have "xr (call_switch_x64 33 0x1000 0x2000 ?m) RSP = 0x6008"
    by (simp add: call_switch_x64_def ctx_switch_x64_def)
  then show ?thesis
    unfolding Let_def by (intro ctx_switch_roundtrip_x64) (simp_all add: ctx_cells_x64_def)
qed

text \<open>a context that \<^verbatim>\<open>init_context\<close> built starts its thread in the entry function: switching
  to it and running the trampoline reaches \<open>entry\<close> with \<open>arg\<close> in the first argument register
  and a stack pointer that the ABI accepts (16-byte aligned on AArch64; on x86-64 aligned
  before the call pushes the return address).\<close>

theorem new_thread_entry:
  assumes disj: "set (ctx_cells prev) \<inter> set (ctx_cells nxt) = {}"
    and c: "ctx_at_a64 (amem m) nxt = init_context_a64 tramp dflt entry arg stk"
    and disjx: "set (ctx_cells_x64 px) \<inter> set (ctx_cells_x64 nx) = {}"
    and cx: "init_context_x64 tramp mem dx entry arg stk = (mem', ctx_at_x64 (xmem mx) nx)"
    and slot: "xmem mx ((stk AND NOT 0xf) - 8) = mem' ((stk AND NOT 0xf) - 8)"
      "(stk AND NOT 0xf) - 8 \<notin> set (ctx_cells_x64 px)" "xr mx RSP - 8 \<notin> set (ctx_cells_x64 nx)"
      "xr mx RSP \<noteq> stk AND NOT 0xf"
  shows "(let m' = call_switch_a64 prev nxt m; m'' = fold a64_exec thread_trampoline_a64 m' in
       apc m' = tramp \<and> apc m'' = entry \<and> ax m'' 0 = arg \<and> asp m'' = stk AND NOT 0xf)
    \<and> (let m' = call_switch_x64 ra px nx mx; m'' = fold x64_exec thread_trampoline_x64 m' in
       xpc m' = tramp \<and> xpc m'' = entry \<and> xr m'' RDI = arg \<and> xr m' RSP = stk AND NOT 0xf)"
proof
  note a = call_switch_a64_eq [of m prev nxt, unfolded Let_def]
  have r: "saved_regs_a64 (call_switch_a64 prev nxt m) = init_context_a64 tramp dflt entry arg stk"
      and pc: "apc (call_switch_a64 prev nxt m) = tramp"
    using a c ctx_at_store_other_a64 [OF disj] by (simp_all add: init_context_a64_def)
  have "ax (call_switch_a64 prev nxt m) 19 = entry" "ax (call_switch_a64 prev nxt m) 20 = arg"
      "asp (call_switch_a64 prev nxt m) = stk AND NOT 0xf"
    using arg_cong [OF r, of ca_x19] arg_cong [OF r, of ca_x20] arg_cong [OF r, of ca_sp]
    by (simp_all add: saved_regs_a64_def init_context_a64_def)
  with pc show "let m' = call_switch_a64 prev nxt m; m'' = fold a64_exec thread_trampoline_a64 m' in
       apc m' = tramp \<and> apc m'' = entry \<and> ax m'' 0 = arg \<and> asp m'' = stk AND NOT 0xf"
    by (simp add: thread_trampoline_a64_def Let_def)
  let ?mem = "(xmem mx)(xr mx RSP - 8 := ra)"
  note x = call_switch_x64_eq [of mx ra px nx, unfolded Let_def]
  have top: "ctx_at_x64 (xmem mx) nx = dx\<lparr>cx_rsp := (stk AND NOT 0xf) - 8, cx_r15 := entry, cx_r14 := arg,
      cx_rbx := 0, cx_rbp := 0, cx_r12 := 0, cx_r13 := 0\<rparr>" "mem' = mem((stk AND NOT 0xf) - 8 := tramp)"
    using cx by (simp_all add: init_context_x64_def Let_def)
  have "ctx_at_x64 ?mem nx = ctx_at_x64 (xmem mx) nx" using slot(3) by (intro ctx_at_cong_x64) auto
  then have n: "ctx_at_x64 (store_ctx_x64 ?mem px c') nx = ctx_at_x64 (xmem mx) nx" for c'
    using ctx_at_store_other_x64 [OF disjx] by simp
  have ne: "(stk AND NOT 0xf) - 8 \<noteq> xr mx RSP - 8" using slot(4) by (metis diff_add_cancel)
  have "store_ctx_x64 ?mem px c' ((stk AND NOT 0xf) - 8) = tramp" for c'
    using slot(1,2) ne top(2) by (simp add: store_ctx_x64_def ctx_cells_x64_def)
  then have pcx: "xpc (call_switch_x64 ra px nx mx) = tramp"
    and rx: "saved_regs_x64 (call_switch_x64 ra px nx mx) = dx\<lparr>cx_rsp := stk AND NOT 0xf, cx_r15 := entry,
      cx_r14 := arg, cx_rbx := 0, cx_rbp := 0, cx_r12 := 0, cx_r13 := 0\<rparr>"
    using x by (simp_all add: n top(1))
  have "xr (call_switch_x64 ra px nx mx) R15 = entry" "xr (call_switch_x64 ra px nx mx) R14 = arg"
      "xr (call_switch_x64 ra px nx mx) RSP = stk AND NOT 0xf"
    using arg_cong [OF rx, of cx_r15] arg_cong [OF rx, of cx_r14] arg_cong [OF rx, of cx_rsp]
    by (simp_all add: saved_regs_x64_def)
  with pcx show "let m' = call_switch_x64 ra px nx mx; m'' = fold x64_exec thread_trampoline_x64 m' in
       xpc m' = tramp \<and> xpc m'' = entry \<and> xr m'' RDI = arg \<and> xr m' RSP = stk AND NOT 0xf"
    by (simp add: Let_def thread_trampoline_x64_def)
qed

definition zero_ctx_a64 :: ContextA64 where
  "zero_ctx_a64 = \<lparr>ca_x19 = 0, ca_x20 = 0, ca_x21 = 0, ca_x22 = 0, ca_x23 = 0, ca_x24 = 0, ca_x25 = 0,
     ca_x26 = 0, ca_x27 = 0, ca_x28 = 0, ca_fp = 0, ca_lr = 0, ca_sp = 0\<rparr>"

definition zero_ctx_x64 :: ContextX64 where
  "zero_ctx_x64 = \<lparr>cx_rbx = 0, cx_rbp = 0, cx_r12 = 0, cx_r13 = 0, cx_r14 = 0, cx_r15 = 0, cx_rsp = 0\<rparr>"

theorem new_thread_entry_witness:
  "let m = \<lparr>ax = (\<lambda>_. 0), asp = 0, apc = 0, amem = store_ctx_a64 (\<lambda>_. 0) 0x2000
         (init_context_a64 7 zero_ctx_a64 77 5 0x9008)\<rparr> in
     apc (fold a64_exec thread_trampoline_a64 (call_switch_a64 0x1000 0x2000 m)) = 77"
proof -
  let ?m = "\<lparr>ax = (\<lambda>_. 0), asp = 0, apc = 0, amem = store_ctx_a64 (\<lambda>_. 0) 0x2000
       (init_context_a64 7 zero_ctx_a64 77 5 0x9008)\<rparr> :: A64"
  define mem' c where "mem' = fst (init_context_x64 7 (\<lambda>_. 0) zero_ctx_x64 77 5 0x9008)"
    and "c = snd (init_context_x64 7 (\<lambda>_. 0) zero_ctx_x64 77 5 0x9008)"
  let ?x = "\<lparr>xr = (\<lambda>_. 0x5000), xpc = 0, xmem = store_ctx_x64 mem' 0x2000 c\<rparr> :: X64"
  have x: "init_context_x64 7 (\<lambda>_. 0) zero_ctx_x64 77 5 0x9008 = (mem', ctx_at_x64 (xmem ?x) 0x2000)"
    by (simp add: mem'_def c_def)
  have slot: "xmem ?x ((0x9008 AND NOT 0xf) - 8) = mem' ((0x9008 AND NOT 0xf) - 8)"
    by (simp add: store_ctx_x64_def)
  have "apc (fold a64_exec thread_trampoline_a64 (call_switch_a64 0x1000 0x2000 ?m)) = 77"
    using new_thread_entry [where prev = "0x1000" and nxt = "0x2000" and m = ?m and tramp = 7
        and dflt = zero_ctx_a64 and entry = 77 and arg = 5 and stk = "0x9008" and px = "0x1000"
        and nx = "0x2000" and mem = "\<lambda>_. 0" and dx = zero_ctx_x64 and mem' = mem' and mx = ?x] x slot
    by (simp add: ctx_cells_def ctx_cells_x64_def Let_def)
  then show ?thesis by (simp add: Let_def)
qed

end
