(* ===== verification/Hyp_Boot_Info.thy ===== *)
theory Hyp_Boot_Info
  imports Hyp_Prelude
begin

text \<open>
  The machine description every boot path produces (\<^verbatim>\<open>kernel/src/hal/boot_info.rs\<close>):
  the console, interrupt-controller and framebuffer descriptions, the fixed-capacity
  memory map and its operations, the handoff block a UEFI loader passes to the kernel,
  and the two compile-time fallbacks. The lemmas show that the map keeps every
  non-empty region up to its capacity, and that \<^verbatim>\<open>largest\<close> picks a bank no other
  bank exceeds.
\<close>

section \<open>Data\<close>

datatype ConsoleKind = Pl011 | Ns16550 | BcmMiniUart

datatype IntcKind = GicV2 | GicV3 | Apic | Pic8259

record RegSpec =
  rs_base :: u64
  rs_size :: u64

record MemoryRegion =
  mr_base :: u64
  mr_size :: u64

datatype PixelFormat = Bgra8888 | Rgba8888

record FramebufferInfo =
  fbi_base :: u64
  fbi_width :: u32
  fbi_height :: u32
  fbi_stride_bytes :: u32
  fbi_bpp :: u32
  fbi_format :: PixelFormat

record ConsoleSpec =
  cs_kind :: ConsoleKind
  cs_regs :: RegSpec
  cs_clock_hz :: u32

record IntcSpec =
  ic_kind :: IntcKind
  ic_primary :: RegSpec
  ic_secondary :: RegSpec

record MemoryMap =
  mm_regions :: "MemoryRegion list"
  mm_len :: usize

record BootInfo =
  bi_console :: ConsoleSpec
  bi_memory :: MemoryMap
  bi_intc :: IntcSpec
  bi_timer_freq_hz :: u32
  bi_framebuffer :: "FramebufferInfo option"
  bi_fw_table_addr :: u64

record UefiHandoff =
  ho_magic :: u64
  ho_version :: u32
  ho_reserved0 :: u32
  ho_console_kind :: u32
  ho_console_base :: u64
  ho_console_size :: u64
  ho_console_clock_hz :: u32
  ho_intc_kind :: u32
  ho_intc_primary_base :: u64
  ho_intc_primary_size :: u64
  ho_intc_secondary_base :: u64
  ho_intc_secondary_size :: u64
  ho_timer_freq_hz :: u32
  ho_memory_len :: u32
  ho_memory :: "MemoryRegion list"
  ho_framebuffer_present :: u32
  ho_framebuffer_base :: u64
  ho_framebuffer_size :: u64
  ho_framebuffer_width :: u32
  ho_framebuffer_height :: u32
  ho_framebuffer_stride_bytes :: u32
  ho_framebuffer_bpp :: u32
  ho_framebuffer_format :: u32
  ho_fw_table_addr :: u64

definition MAX_MEMORY_REGIONS :: usize where "MAX_MEMORY_REGIONS = 8"
definition UEFI_HANDOFF_MAGIC :: u64 where "UEFI_HANDOFF_MAGIC = 0x4859505545464948"
definition UEFI_HANDOFF_VERSION :: u32 where "UEFI_HANDOFF_VERSION = 1"

section \<open>The memory map\<close>

abbreviation reg_spec :: "u64 \<Rightarrow> u64 \<Rightarrow> RegSpec" where
  "reg_spec b s \<equiv> \<lparr>rs_base = b, rs_size = s\<rparr>"

abbreviation region :: "u64 \<Rightarrow> u64 \<Rightarrow> MemoryRegion" where
  "region b s \<equiv> \<lparr>mr_base = b, mr_size = s\<rparr>"

definition memory_map_empty :: MemoryMap where
  "memory_map_empty = \<lparr>mm_regions = replicate 8 (region 0 0), mm_len = 0\<rparr>"

text \<open>\<^verbatim>\<open>push\<close> and \<^verbatim>\<open>as_slice\<close> are total: both are private to a map whose length never
  passes its capacity, the type invariant \<open>memory_map_wf\<close> below.\<close>

definition memory_map_push :: "MemoryMap \<Rightarrow> MemoryRegion \<Rightarrow> MemoryMap" where
  "memory_map_push m r =
     (if mm_len m < MAX_MEMORY_REGIONS \<and> 0 < mr_size r
      then m\<lparr>mm_regions := (mm_regions m)[unat (mm_len m) := r], mm_len := mm_len m + 1\<rparr>
      else m)"

definition as_slice :: "MemoryMap \<Rightarrow> MemoryRegion list" where
  "as_slice m = take (unat (mm_len m)) (mm_regions m)"

text \<open>\<^verbatim>\<open>Iterator::max_by_key\<close> keeps the later of two elements with equal keys.\<close>

fun max_by_size :: "MemoryRegion list \<Rightarrow> MemoryRegion option" where
  "max_by_size [] = None"
| "max_by_size (r # rs) =
     Some (fold (\<lambda>x best. if mr_size best \<le> mr_size x then x else best) rs r)"

definition largest :: "MemoryMap \<Rightarrow> MemoryRegion option" where
  "largest m = max_by_size (as_slice m)"

definition memory_map_total_bytes :: "MemoryMap \<Rightarrow> u64" where
  "memory_map_total_bytes m = sum_list (map mr_size (as_slice m))"

section \<open>The UEFI handoff\<close>

definition console_kind_of :: "u32 \<Rightarrow> ConsoleKind option" where
  "console_kind_of k = (if k = 0 then Some Pl011 else if k = 1 then Some Ns16550
     else if k = 2 then Some BcmMiniUart else None)"

definition intc_kind_of :: "u32 \<Rightarrow> IntcKind option" where
  "intc_kind_of k = (if k = 0 then Some GicV2 else if k = 1 then Some GicV3
     else if k = 2 then Some Apic else if k = 3 then Some Pic8259 else None)"

definition pixel_format_of :: "u32 \<Rightarrow> PixelFormat option" where
  "pixel_format_of k = (if k = 0 then Some Bgra8888 else if k = 1 then Some Rgba8888 else None)"

text \<open>The framebuffer branch of \<^verbatim>\<open>to_boot_info\<close>: the outer option is the function's early
  \<^verbatim>\<open>return None\<close>, the inner one the field of the result.\<close>

definition handoff_framebuffer :: "UefiHandoff \<Rightarrow> FramebufferInfo option option" where
  "handoff_framebuffer h =
     (if ho_framebuffer_present h \<noteq> 0
      then (case pixel_format_of (ho_framebuffer_format h) of
          None \<Rightarrow> None
        | Some format \<Rightarrow> Some (Some \<lparr>fbi_base = ho_framebuffer_base h,
            fbi_width = ho_framebuffer_width h, fbi_height = ho_framebuffer_height h,
            fbi_stride_bytes = ho_framebuffer_stride_bytes h,
            fbi_bpp = ho_framebuffer_bpp h, fbi_format = format\<rparr>))
      else Some None)"

definition to_boot_info :: "UefiHandoff \<Rightarrow> BootInfo option" where
  "to_boot_info h =
     (if ho_magic h \<noteq> UEFI_HANDOFF_MAGIC \<or> ho_version h \<noteq> UEFI_HANDOFF_VERSION then None
      else do {
        ck \<leftarrow> console_kind_of (ho_console_kind h);
        ik \<leftarrow> intc_kind_of (ho_intc_kind h);
        let len = min (ucast (ho_memory_len h)) MAX_MEMORY_REGIONS;
        let memory = fold (\<lambda>r m. memory_map_push m r) (take (unat len) (ho_memory h))
                       memory_map_empty;
        fb \<leftarrow> handoff_framebuffer h;
        Some \<lparr>
          bi_console = \<lparr>cs_kind = ck,
            cs_regs = reg_spec (ho_console_base h) (ho_console_size h),
            cs_clock_hz = ho_console_clock_hz h\<rparr>,
          bi_memory = memory,
          bi_intc = \<lparr>ic_kind = ik,
            ic_primary = reg_spec (ho_intc_primary_base h) (ho_intc_primary_size h),
            ic_secondary = reg_spec (ho_intc_secondary_base h) (ho_intc_secondary_size h)\<rparr>,
          bi_timer_freq_hz = ho_timer_freq_hz h,
          bi_framebuffer = fb,
          bi_fw_table_addr = ho_fw_table_addr h\<rparr>})"

section \<open>Fallbacks\<close>

definition one_region_map :: "MemoryRegion \<Rightarrow> MemoryMap" where
  "one_region_map r = memory_map_empty\<lparr>mm_regions := (mm_regions memory_map_empty)[0 := r],
     mm_len := 1\<rparr>"

definition qemu_virt_fallback :: BootInfo where
  "qemu_virt_fallback = \<lparr>
     bi_console = \<lparr>cs_kind = Pl011, cs_regs = reg_spec 0x09000000 0x1000,
       cs_clock_hz = 24000000\<rparr>,
     bi_memory = one_region_map (region 0x40000000 (256 * 1024 * 1024)),
     bi_intc = \<lparr>ic_kind = GicV2, ic_primary = reg_spec 0x08000000 0x10000,
       ic_secondary = reg_spec 0x08010000 0x10000\<rparr>,
     bi_timer_freq_hz = 0,
     bi_framebuffer = None,
     bi_fw_table_addr = 0\<rparr>"

definition qemu_q35_fallback :: BootInfo where
  "qemu_q35_fallback = \<lparr>
     bi_console = \<lparr>cs_kind = Ns16550, cs_regs = reg_spec 0x3F8 8, cs_clock_hz = 1843200\<rparr>,
     bi_memory = one_region_map (region 0x100000 (128 * 1024 * 1024)),
     bi_intc = \<lparr>ic_kind = Apic, ic_primary = reg_spec 0xFEE00000 0x1000,
       ic_secondary = reg_spec 0xFEC00000 0x1000\<rparr>,
     bi_timer_freq_hz = 0,
     bi_framebuffer = None,
     bi_fw_table_addr = 0\<rparr>"

section \<open>Lemmas on the memory map\<close>

definition memory_map_wf :: "MemoryMap \<Rightarrow> bool" where
  "memory_map_wf m \<longleftrightarrow> length (mm_regions m) = 8 \<and> mm_len m \<le> MAX_MEMORY_REGIONS"

lemma memory_map_wf_empty [simp, inv_rules]: "memory_map_wf memory_map_empty"
  by (simp add: memory_map_wf_def memory_map_empty_def MAX_MEMORY_REGIONS_def)

lemma memory_map_wf_one [simp, inv_rules]: "memory_map_wf (one_region_map r)"
  by (simp add: memory_map_wf_def one_region_map_def memory_map_empty_def MAX_MEMORY_REGIONS_def)

lemma as_slice_empty [simp]: "as_slice memory_map_empty = []"
  by (simp add: as_slice_def memory_map_empty_def)

lemma as_slice_one [simp]: "as_slice (one_region_map r) = [r]"
  by (simp add: as_slice_def one_region_map_def memory_map_empty_def eval_nat_numeral)

lemma memory_map_wf_push [inv_rules]: "memory_map_wf m \<Longrightarrow> memory_map_wf (memory_map_push m r)"
  by (auto simp: memory_map_wf_def memory_map_push_def MAX_MEMORY_REGIONS_def inc_le)

lemma length_as_slice: "memory_map_wf m \<Longrightarrow> length (as_slice m) = unat (mm_len m)"
  by (simp add: memory_map_wf_def as_slice_def MAX_MEMORY_REGIONS_def word_le_nat_alt)

lemma as_slice_push:
  assumes "memory_map_wf m"
  shows "as_slice (memory_map_push m r) =
    (if length (as_slice m) < 8 \<and> mr_size r \<noteq> 0 then as_slice m @ [r] else as_slice m)"
proof (cases "mm_len m < 8 \<and> mr_size r \<noteq> 0")
  case True
  then have len: "unat (mm_len m) < 8" by (simp add: word_less_nat_alt)
  then have "unat (mm_len m + 1) = Suc (unat (mm_len m))"
    by (simp add: unat_add_lt)
  with True len assms show ?thesis
    by (simp add: memory_map_push_def MAX_MEMORY_REGIONS_def as_slice_def memory_map_wf_def
        take_Suc_conv_app_nth word_gt_0)
next
  case False
  then show ?thesis
    using length_as_slice [OF assms]
    by (auto simp: memory_map_push_def MAX_MEMORY_REGIONS_def word_less_nat_alt word_gt_0)
qed

text \<open>Pushing a list keeps the non-empty regions in order, up to the capacity of eight.\<close>

lemma push_all:
  assumes "memory_map_wf m"
  shows "memory_map_wf (fold (\<lambda>r m. memory_map_push m r) rs m)" (is ?wf)
    and "as_slice (fold (\<lambda>r m. memory_map_push m r) rs m) =
      take 8 (as_slice m @ filter (\<lambda>r. mr_size r \<noteq> 0) rs)" (is ?slice)
proof -
  have "?wf \<and> ?slice"
    using assms
  proof (induction rs arbitrary: m)
    case Nil
    then have "length (as_slice m) \<le> 8"
      by (simp add: length_as_slice memory_map_wf_def MAX_MEMORY_REGIONS_def word_le_nat_alt)
    with Nil show ?case by simp
  next
    case (Cons r rs)
    then show ?case
      using memory_map_wf_push [OF Cons.prems]
      by (auto simp: as_slice_push [OF Cons.prems] take_Cons')
  qed
  then show ?wf and ?slice by auto
qed

lemma max_by_size_is_max:
  assumes "max_by_size rs = Some b"
  shows "b \<in> set rs" and "r \<in> set rs \<Longrightarrow> mr_size r \<le> mr_size b"
proof -
  have step: "(fold (\<lambda>x best. if mr_size best \<le> mr_size x then x else best) rs a \<in> set (a # rs)) \<and>
     (\<forall>r \<in> set (a # rs). mr_size r \<le>
        mr_size (fold (\<lambda>x best. if mr_size best \<le> mr_size x then x else best) rs a))"
    for a rs
  proof (induction rs arbitrary: a)
    case (Cons x rs)
    show ?case
      using Cons.IH [of a] Cons.IH [of x] by (auto intro: order_trans)
  qed simp
  show "b \<in> set rs" using assms step by (cases rs) auto
  show "r \<in> set rs \<Longrightarrow> mr_size r \<le> mr_size b" using assms step by (cases rs) auto
qed

lemma largest_in_map:
  assumes "largest m = Some b"
  shows "b \<in> set (as_slice m)" and "r \<in> set (as_slice m) \<Longrightarrow> mr_size r \<le> mr_size b"
  using assms max_by_size_is_max unfolding largest_def by blast+

lemma largest_None: "largest m = None \<longleftrightarrow> as_slice m = []"
  by (cases "as_slice m") (auto simp: largest_def)

end
