(* ===== verification/Hyp_Pmm.thy ===== *)
theory Hyp_Pmm
  imports Hyp_Boot_Info
begin

text \<open>
  The physical memory manager (\<^verbatim>\<open>kernel/src/mm/pmm.rs\<close>): a bitmap allocator over the
  largest RAM bank. The state holds the fields of \<^verbatim>\<open>PmmInner\<close> and the two atomic
  counters. The frames of the pool are numbered from 0; \<open>used\<close> is the set of frames
  whose bit is set, and \<open>pmm_inv\<close> ties the bitmap, the free counter and the pool bounds
  together. The locale \<open>frame_allocator\<close> is the contract the virtual memory manager
  relies on; it is interpreted on the operations of this theory.
\<close>

section \<open>State and operations\<close>

definition PAGE_SIZE :: usize where "PAGE_SIZE = 4096"
definition MAX_MANAGED_BYTES :: usize where "MAX_MANAGED_BYTES = 256 * 1024 * 1024"
definition MAX_FRAMES :: usize where "MAX_FRAMES = MAX_MANAGED_BYTES div PAGE_SIZE"
definition BITMAP_WORDS :: usize where "BITMAP_WORDS = MAX_FRAMES div 64"

record Pmm =
  pmm_bitmap :: "u64 list"
  pmm_base :: usize
  pmm_num_frames :: usize
  pmm_next_hint :: usize
  pmm_free_frames :: usize
  pmm_total :: usize

definition pmm_new :: Pmm where
  "pmm_new = \<lparr>pmm_bitmap = replicate (unat BITMAP_WORDS) 0, pmm_base = 0, pmm_num_frames = 0,
     pmm_next_hint = 0, pmm_free_frames = 0, pmm_total = 0\<rparr>"

text \<open>\<open>kend\<close> is the address of the linker symbol \<^verbatim>\<open>__kernel_end\<close>.\<close>

definition pmm_init :: "u64 \<Rightarrow> BootInfo \<Rightarrow> Pmm \<Rightarrow> Pmm" where
  "pmm_init kend bi p =
     (case largest (bi_memory bi) of
        None \<Rightarrow> p
      | Some bank \<Rightarrow>
          let bank_start = mr_base bank;
              bank_end = saturating_add (mr_base bank) (mr_size bank);
              raw_base = (if bank_start \<le> kend \<and> kend < bank_end then kend else bank_start);
              base = (raw_base + PAGE_SIZE - 1) AND NOT (PAGE_SIZE - 1);
              usable_bytes = min (saturating_sub bank_end base) MAX_MANAGED_BYTES;
              num_frames = min (usable_bytes div PAGE_SIZE) MAX_FRAMES
          in p\<lparr>pmm_base := base, pmm_num_frames := num_frames, pmm_next_hint := 0,
               pmm_bitmap := map (\<lambda>_. 0) (pmm_bitmap p),
               pmm_free_frames := num_frames, pmm_total := num_frames * PAGE_SIZE\<rparr>)"

text \<open>The loop body of \<^verbatim>\<open>alloc_frame\<close> over the remaining values of \<open>i\<close>.\<close>

fun alloc_scan :: "Pmm \<Rightarrow> usize list \<Rightarrow> (Pmm \<times> usize option) option" where
  "alloc_scan p [] = Some (p, None)"
| "alloc_scan p (i # is) =
     (let idx = (pmm_next_hint p + i) mod pmm_num_frames p;
          word = idx div 64;
          bt = unat (idx mod 64)
      in do {
        w \<leftarrow> arr_get (pmm_bitmap p) word;
        if w AND push_bit bt 1 = 0
        then do {
          bm \<leftarrow> arr_set (pmm_bitmap p) word (w OR push_bit bt 1);
          Some (p\<lparr>pmm_bitmap := bm, pmm_next_hint := (idx + 1) mod pmm_num_frames p,
                  pmm_free_frames := pmm_free_frames p - 1\<rparr>,
                Some (pmm_base p + idx * PAGE_SIZE))}
        else alloc_scan p is})"

definition alloc_frame :: "Pmm \<Rightarrow> (Pmm \<times> usize option) option" where
  "alloc_frame p =
     (let n = pmm_num_frames p
      in if n = 0 then Some (p, None) else alloc_scan p (urange 0 n))"

definition free_frame :: "Pmm \<Rightarrow> usize \<Rightarrow> Pmm option" where
  "free_frame p addr =
     (if addr < pmm_base p then Some p
      else let off = addr - pmm_base p
      in if off mod PAGE_SIZE \<noteq> 0 then Some p
      else let idx = off div PAGE_SIZE
      in if pmm_num_frames p \<le> idx then Some p
      else let word = idx div 64; bt = unat (idx mod 64)
      in do {
        w \<leftarrow> arr_get (pmm_bitmap p) word;
        if w AND push_bit bt 1 = 0 then Some p
        else do {
          bm \<leftarrow> arr_set (pmm_bitmap p) word (w AND NOT (push_bit bt 1));
          Some (p\<lparr>pmm_bitmap := bm, pmm_free_frames := pmm_free_frames p + 1\<rparr>)}})"

definition pmm_total_bytes :: "Pmm \<Rightarrow> usize" where
  "pmm_total_bytes p = pmm_total p"

definition pmm_free_bytes :: "Pmm \<Rightarrow> usize" where
  "pmm_free_bytes p = pmm_free_frames p * PAGE_SIZE"

section \<open>The contract of a frame allocator\<close>

text \<open>\<open>k\<close> allocations in a row; \<^const>\<open>None\<close> if one panics, a short list when the pool
  runs out.\<close>

primrec alloc_many :: "('s \<Rightarrow> ('s \<times> 'a option) option) \<Rightarrow> nat \<Rightarrow> 's \<Rightarrow> ('s \<times> 'a list) option" where
  "alloc_many alloc 0 s = Some (s, [])"
| "alloc_many alloc (Suc k) s =
     (case alloc s of
        None \<Rightarrow> None
      | Some (s', None) \<Rightarrow> Some (s', [])
      | Some (s', Some a) \<Rightarrow> map_option (map_prod id ((#) a)) (alloc_many alloc k s'))"

locale frame_allocator =
  fixes inv :: "'s \<Rightarrow> bool"
    and pool :: "'s \<Rightarrow> 'a set"
    and live :: "'s \<Rightarrow> 'a set"
    and alloc :: "'s \<Rightarrow> ('s \<times> 'a option) option"
    and free :: "'s \<Rightarrow> 'a \<Rightarrow> 's option"
  assumes finite_pool: "finite (pool s)"
    and live_pool: "inv s \<Longrightarrow> live s \<subseteq> pool s"
    and alloc_total: "inv s \<Longrightarrow> alloc s \<noteq> None"
    and alloc_Some: "inv s \<Longrightarrow> alloc s = Some (s', Some a) \<Longrightarrow>
      inv s' \<and> pool s' = pool s \<and> a \<in> pool s \<and> a \<notin> live s \<and> live s' = insert a (live s)"
    and alloc_None: "inv s \<Longrightarrow> alloc s = Some (s', None) \<Longrightarrow> s' = s \<and> live s = pool s"
    and free_ok: "inv s \<Longrightarrow>
      \<exists>s'. free s a = Some s' \<and> inv s' \<and> pool s' = pool s \<and> live s' = live s - {a}"
begin

text \<open>A pool with room always hands out a frame.\<close>

lemma alloc_succeeds:
  assumes "inv s" and "live s \<noteq> pool s"
  obtains s' a where "alloc s = Some (s', Some a)"
  using alloc_total [OF assms(1)] alloc_None [OF assms(1)] assms(2)
  by (metis not_Some_eq surj_pair)

lemma alloc_then_free:
  assumes "inv s" and "alloc s = Some (s', Some a)"
  shows "\<exists>s''. free s' a = Some s'' \<and> inv s'' \<and> pool s'' = pool s \<and> live s'' = live s"
  using alloc_Some [OF assms] free_ok [of s' a] by (metis Diff_insert_absorb)

text \<open>\<open>k\<close> allocations from a pool with \<open>k\<close> free frames give \<open>k\<close> distinct fresh frames.\<close>

lemma alloc_many_fresh:
  assumes "inv s" and "k \<le> card (pool s - live s)"
  shows "\<exists>s' as. alloc_many alloc k s = Some (s', as) \<and> inv s' \<and> length as = k \<and> distinct as
    \<and> set as \<subseteq> pool s - live s \<and> pool s' = pool s \<and> live s' = live s \<union> set as"
  using assms
proof (induction k arbitrary: s)
  case 0
  then show ?case by simp
next
  case (Suc k)
  have "live s \<noteq> pool s" using Suc.prems(2) by auto
  then obtain s1 a where a: "alloc s = Some (s1, Some a)"
    using alloc_succeeds Suc.prems(1) by blast
  note step = alloc_Some [OF Suc.prems(1) a]
  have "pool s1 - live s1 = (pool s - live s) - {a}" and "a \<in> pool s - live s"
    using step by auto
  then have "k \<le> card (pool s1 - live s1)"
    using Suc.prems(2) finite_pool by (simp add: card_Diff_singleton)
  then obtain s' as where "alloc_many alloc k s1 = Some (s', as)" "inv s'" "length as = k"
      "distinct as" "set as \<subseteq> pool s1 - live s1" "pool s' = pool s1" "live s' = live s1 \<union> set as"
    using Suc.IH step by blast
  then show ?case using a step by auto
qed

end

section \<open>Abstraction and invariant\<close>

abbreviation frame_bit :: "Pmm \<Rightarrow> nat \<Rightarrow> bool" where
  "frame_bit p j \<equiv> bit (pmm_bitmap p ! (j div 64)) (j mod 64)"

definition used :: "Pmm \<Rightarrow> nat set" where
  "used p = {j. j < unat (pmm_num_frames p) \<and> frame_bit p j}"

definition frame_addr :: "Pmm \<Rightarrow> nat \<Rightarrow> usize" where
  "frame_addr p j = pmm_base p + word_of_nat (j * 4096)"

definition pmm_pool :: "Pmm \<Rightarrow> usize set" where
  "pmm_pool p = frame_addr p ` {..<unat (pmm_num_frames p)}"

definition pmm_live :: "Pmm \<Rightarrow> usize set" where
  "pmm_live p = frame_addr p ` used p"

definition pmm_inv :: "Pmm \<Rightarrow> bool" where
  "pmm_inv p \<longleftrightarrow> length (pmm_bitmap p) = 1024 \<and> unat (pmm_num_frames p) \<le> 65536
     \<and> unat (pmm_next_hint p) \<le> 65536 \<and> unat (pmm_base p) mod 4096 = 0
     \<and> unat (pmm_base p) + unat (pmm_num_frames p) * 4096 < 2 ^ 64
     \<and> unat (pmm_free_frames p) + card (used p) = unat (pmm_num_frames p)
     \<and> unat (pmm_total p) = unat (pmm_num_frames p) * 4096"

text \<open>The state in which frame \<open>j\<close> has been taken, respectively returned.\<close>

definition take_frame :: "Pmm \<Rightarrow> nat \<Rightarrow> Pmm" where
  "take_frame p j = p\<lparr>pmm_bitmap := (pmm_bitmap p)[j div 64 :=
       Bit_Operations.set_bit (j mod 64) (pmm_bitmap p ! (j div 64))],
     pmm_next_hint := (word_of_nat j + 1) mod pmm_num_frames p,
     pmm_free_frames := pmm_free_frames p - 1\<rparr>"

definition give_frame :: "Pmm \<Rightarrow> nat \<Rightarrow> Pmm" where
  "give_frame p j = p\<lparr>pmm_bitmap := (pmm_bitmap p)[j div 64 :=
       unset_bit (j mod 64) (pmm_bitmap p ! (j div 64))],
     pmm_free_frames := pmm_free_frames p + 1\<rparr>"

lemma finite_used [simp]: "finite (used p)"
  by (simp add: used_def)

lemma used_lt: "j \<in> used p \<Longrightarrow> j < unat (pmm_num_frames p)"
  by (simp add: used_def)

lemma bit_list_update:
  assumes "i div 64 < length bm"
  shows "bit (bm[i div 64 := w] ! (j div 64)) (j mod 64) =
     (if j div 64 = i div 64 then bit w (j mod 64) else bit (bm ! (j div 64)) (j mod 64))"
  using assms by (auto simp: nth_list_update)

lemma used_take_frame:
  assumes "length (pmm_bitmap p) = 1024" "j < unat (pmm_num_frames p)" "j < 65536"
  shows "used (take_frame p j) = insert j (used p)"
proof -
  have "j div 64 < 1024" using assms(3) by simp
  moreover have "i = j" if "i div 64 = j div 64" "i mod 64 = j mod 64" for i
    using that by (metis div_mult_mod_eq)
  ultimately show ?thesis
    using assms(1,2)
    by (auto simp: used_def take_frame_def bit_list_update bit_set_bit_iff possible_bit_word
        split: if_splits)
qed

lemma used_give_frame:
  assumes "length (pmm_bitmap p) = 1024" "j < 65536"
  shows "used (give_frame p j) = used p - {j}"
proof -
  have "j div 64 < 1024" using assms(2) by simp
  moreover have "i = j" if "i div 64 = j div 64" "i mod 64 = j mod 64" for i
    using that by (metis div_mult_mod_eq)
  ultimately show ?thesis
    using assms(1)
    by (auto simp: used_def give_frame_def bit_list_update bit_unset_bit_iff split: if_splits)
qed

lemma pmm_inv_take [inv_rules]:
  assumes "pmm_inv p" "j < unat (pmm_num_frames p)" "j \<notin> used p"
  shows "pmm_inv (take_frame p j)"
proof -
  have j: "j < 65536" using assms by (simp add: pmm_inv_def)
  have u: "used (take_frame p j) = insert j (used p)"
    using assms j by (intro used_take_frame) (auto simp: pmm_inv_def)
  have "card (used p) < unat (pmm_num_frames p)"
  proof -
    have "used p \<subset> {..<unat (pmm_num_frames p)}" using assms(2,3) used_lt by fastforce
    then show ?thesis using psubset_card_mono [of "{..<unat (pmm_num_frames p)}"] by simp
  qed
  then have "pmm_free_frames p \<noteq> 0" using assms(1) by (auto simp: pmm_inv_def)
  then have "unat (pmm_free_frames p - 1) = unat (pmm_free_frames p) - 1" "0 < unat (pmm_free_frames p)"
    by (simp_all add: unat_minus_one unat_gt_0)
  moreover have "unat ((word_of_nat j + 1) mod pmm_num_frames p) \<le> 65536"
  proof -
    have "unat ((word_of_nat j + 1) mod pmm_num_frames p) < unat (pmm_num_frames p)"
      using assms(2) by (simp add: unat_mod_distrib)
    then show ?thesis using assms(1) by (simp add: pmm_inv_def)
  qed
  ultimately show ?thesis
    using assms u by (simp add: pmm_inv_def take_frame_def)
qed

lemma pmm_inv_give [inv_rules]:
  assumes "pmm_inv p" "j \<in> used p"
  shows "pmm_inv (give_frame p j)"
proof -
  have j: "j < 65536" using assms used_lt by (fastforce simp: pmm_inv_def)
  have u: "used (give_frame p j) = used p - {j}"
    using assms j by (intro used_give_frame) (auto simp: pmm_inv_def)
  have "unat (pmm_free_frames p + 1) = unat (pmm_free_frames p) + 1"
    using assms(1) unat_add_lt [of "pmm_free_frames p" 1] by (simp add: pmm_inv_def)
  moreover have "0 < card (used p)" using assms(2) by (auto simp: card_gt_0_iff)
  ultimately show ?thesis
    using assms u by (simp add: pmm_inv_def give_frame_def card_Diff_singleton)
qed

lemma frame_addr_simps [simp]:
  "frame_addr (take_frame p i) j = frame_addr p j"
  "frame_addr (give_frame p i) j = frame_addr p j"
  "pmm_num_frames (take_frame p i) = pmm_num_frames p"
  "pmm_num_frames (give_frame p i) = pmm_num_frames p"
  by (simp_all add: frame_addr_def take_frame_def give_frame_def)

lemma unat_frame_addr:
  assumes "pmm_inv p" "j < unat (pmm_num_frames p)"
  shows "unat (frame_addr p j) = unat (pmm_base p) + j * 4096"
proof -
  have "unat (pmm_base p) + j * 4096 < 2 ^ 64"
    using assms by (auto simp: pmm_inv_def)
  then show ?thesis
    by (simp add: frame_addr_def unat_word_ariths unat_of_nat take_bit_nat_eq_self)
qed

lemma frame_addr_inj:
  assumes "pmm_inv p"
  shows "inj_on (frame_addr p) {..<unat (pmm_num_frames p)}"
proof (rule inj_onI)
  fix i j
  assume "i \<in> {..<unat (pmm_num_frames p)}" "j \<in> {..<unat (pmm_num_frames p)}"
    and "frame_addr p i = frame_addr p j"
  then show "i = j" using unat_frame_addr [OF assms] by (metis add_left_cancel lessThan_iff
        mult_cancel2 zero_neq_numeral)
qed

section \<open>Allocation\<close>

definition scan_idx :: "Pmm \<Rightarrow> usize \<Rightarrow> nat" where
  "scan_idx p i = (unat (pmm_next_hint p) + unat i) mod unat (pmm_num_frames p)"

lemma scan_word_idx:
  assumes "pmm_inv p" "i < pmm_num_frames p"
  shows "unat ((pmm_next_hint p + i) mod pmm_num_frames p) = scan_idx p i"
    and "scan_idx p i < unat (pmm_num_frames p)"
    and "(pmm_next_hint p + i) mod pmm_num_frames p = word_of_nat (scan_idx p i)"
proof -
  have "unat i < unat (pmm_num_frames p)" using assms(2) by (simp add: word_less_nat_alt)
  then have "unat (pmm_next_hint p + i) = unat (pmm_next_hint p) + unat i"
    using assms by (intro unat_add_lt) (auto simp: pmm_inv_def)
  then show *: "unat ((pmm_next_hint p + i) mod pmm_num_frames p) = scan_idx p i"
    by (simp add: scan_idx_def unat_mod_distrib)
  show "scan_idx p i < unat (pmm_num_frames p)"
    using \<open>unat i < _\<close> by (simp add: scan_idx_def)
  show "(pmm_next_hint p + i) mod pmm_num_frames p = word_of_nat (scan_idx p i)"
    by (simp flip: *)
qed

lemma alloc_scan_find:
  assumes "pmm_inv p" "\<forall>i \<in> set is. i < pmm_num_frames p"
  shows "alloc_scan p is =
    (case find (\<lambda>i. scan_idx p i \<notin> used p) is of
       None \<Rightarrow> Some (p, None)
     | Some i \<Rightarrow> Some (take_frame p (scan_idx p i), Some (frame_addr p (scan_idx p i))))"
  using assms(2)
proof (induction "is")
  case (Cons i "is")
  define j where "j = scan_idx p i"
  have i: "i < pmm_num_frames p" using Cons.prems by simp
  note idx = scan_word_idx [OF assms(1) i, folded j_def]
  have j: "j < 65536" "j div 64 < 1024" using idx(2) assms(1) by (auto simp: pmm_inv_def)
  have len: "length (pmm_bitmap p) = 1024" using assms(1) by (simp add: pmm_inv_def)
  have wd: "unat ((pmm_next_hint p + i) mod pmm_num_frames p div 64) = j div 64"
    and bt: "unat ((pmm_next_hint p + i) mod pmm_num_frames p mod 64) = j mod 64"
    using idx(1) by (simp_all add: unat_div_distrib unat_mod_distrib)
  have mem: "j \<in> used p \<longleftrightarrow> frame_bit p j" using idx(2) by (simp add: used_def)
  have free: "pmm_bitmap p ! (j div 64) AND push_bit (j mod 64) 1 = 0 \<longleftrightarrow> \<not> frame_bit p j"
    by (simp add: push_bit_of_1 and_exp_eq_0_iff_not_bit)
  show ?case
  proof (cases "j \<in> used p")
    case True
    then show ?thesis
      using Cons j mem free len wd bt by (simp add: arr_get_def j_def [symmetric] Let_def)
  next
    case False
    have "alloc_scan p (i # is) = Some (take_frame p j, Some (frame_addr p j))"
      using False mem free len wd bt j idx(3)
      by (simp add: arr_get_def arr_set_def Let_def take_frame_def frame_addr_def PAGE_SIZE_def
          set_bit_eq_or push_bit_of_1)
    then show ?thesis using False by (simp add: j_def)
  qed
qed simp

text \<open>The scan visits every frame of the pool once, whatever the hint.\<close>

lemma scan_covers:
  assumes "pmm_inv p" "j < unat (pmm_num_frames p)"
  shows "\<exists>i \<in> set (urange 0 (pmm_num_frames p)). scan_idx p i = j"
proof -
  let ?n = "unat (pmm_num_frames p)" and ?h = "unat (pmm_next_hint p)"
  define k where "k = (j + (?n - ?h mod ?n)) mod ?n"
  have n: "0 < ?n" using assms(2) by simp
  then have k: "k < ?n" by (simp add: k_def)
  have "?h mod ?n < ?n" using n by simp
  then have split: "?h mod ?n + (j + (?n - ?h mod ?n)) = j + ?n" by simp
  have "(?h + k) mod ?n = (?h mod ?n + (j + (?n - ?h mod ?n))) mod ?n"
    unfolding k_def by (simp add: mod_add_left_eq mod_add_right_eq)
  also have "\<dots> = j" using assms(2) by (simp only: split) simp
  finally have "(?h + k) mod ?n = j" .
  moreover have u: "unat (word_of_nat k :: usize) = k"
    using k by (intro unat_word_of_nat_below [of _ "pmm_num_frames p"]) simp
  ultimately have "scan_idx p (word_of_nat k) = j" by (simp add: scan_idx_def)
  moreover have "word_of_nat k \<in> set (urange 0 (pmm_num_frames p))"
    using k u by (simp add: set_urange word_less_nat_alt)
  ultimately show ?thesis by blast
qed

lemma alloc_frame_cases:
  assumes "pmm_inv p"
  shows "(alloc_frame p = Some (p, None) \<and> used p = {..<unat (pmm_num_frames p)}) \<or>
    (\<exists>j < unat (pmm_num_frames p). j \<notin> used p \<and>
       alloc_frame p = Some (take_frame p j, Some (frame_addr p j)))"
proof (cases "pmm_num_frames p = 0")
  case True
  then show ?thesis by (simp add: alloc_frame_def used_def)
next
  case False
  have bound: "\<forall>i \<in> set (urange 0 (pmm_num_frames p)). i < pmm_num_frames p"
    by (simp add: set_urange)
  have eq: "alloc_frame p = alloc_scan p (urange 0 (pmm_num_frames p))"
    using False by (simp add: alloc_frame_def)
  show ?thesis
  proof (cases "find (\<lambda>i. scan_idx p i \<notin> used p) (urange 0 (pmm_num_frames p))")
    case None
    then have "\<forall>i \<in> set (urange 0 (pmm_num_frames p)). scan_idx p i \<in> used p"
      by (simp add: find_None_iff)
    then have "used p = {..<unat (pmm_num_frames p)}"
      using scan_covers [OF assms] used_lt by fastforce
    with None show ?thesis by (simp add: eq alloc_scan_find [OF assms bound])
  next
    case (Some i)
    then have "i \<in> set (urange 0 (pmm_num_frames p))" and "scan_idx p i \<notin> used p"
      by (auto simp: find_Some_iff)
    with Some show ?thesis
      using scan_word_idx(2) [OF assms] bound by (auto simp: eq alloc_scan_find [OF assms bound])
  qed
qed

section \<open>Release\<close>

lemma free_frame_live:
  assumes inv: "pmm_inv p" and j: "j \<in> used p"
  shows "free_frame p (frame_addr p j) = Some (give_frame p j)"
proof -
  have jn: "j < unat (pmm_num_frames p)" using j by (rule used_lt)
  have j16: "j < 65536" "j div 64 < 1024" using inv jn by (auto simp: pmm_inv_def)
  have len: "length (pmm_bitmap p) = 1024" using inv by (simp add: pmm_inv_def)
  have addr: "unat (frame_addr p j) = unat (pmm_base p) + j * 4096"
    using inv jn by (rule unat_frame_addr)
  have ge: "\<not> frame_addr p j < pmm_base p" using addr by (simp add: word_less_nat_alt)
  have off: "unat (frame_addr p j - pmm_base p) = j * 4096"
    using ge addr by (simp add: unat_sub not_less)
  then have idx: "unat ((frame_addr p j - pmm_base p) div PAGE_SIZE) = j"
    and md: "(frame_addr p j - pmm_base p) mod PAGE_SIZE = 0"
    by (simp_all add: PAGE_SIZE_def unat_div_distrib unat_mod_distrib unat_eq_zero [symmetric]
        del: unat_eq_zero)
  have wd: "unat ((frame_addr p j - pmm_base p) div PAGE_SIZE div 64) = j div 64"
    and bt: "unat ((frame_addr p j - pmm_base p) div PAGE_SIZE mod 64) = j mod 64"
    using idx by (simp_all add: unat_div_distrib unat_mod_distrib)
  have fr: "pmm_bitmap p ! (j div 64) AND push_bit (j mod 64) 1 \<noteq> 0"
    using j by (simp add: used_def push_bit_of_1 and_exp_eq_0_iff_not_bit)
  show ?thesis
    using ge md idx jn fr wd bt len j16
    by (simp add: free_frame_def Let_def arr_get_def arr_set_def give_frame_def word_le_nat_alt
        unset_bit_eq_and_not push_bit_of_1)
qed

lemma free_frame_other:
  assumes inv: "pmm_inv p" and notin: "addr \<notin> pmm_live p"
  shows "free_frame p addr = Some p"
proof -
  have len: "length (pmm_bitmap p) = 1024" "unat (pmm_num_frames p) \<le> 65536"
    using inv by (simp_all add: pmm_inv_def)
  show ?thesis
  proof (cases "addr < pmm_base p \<or> (addr - pmm_base p) mod PAGE_SIZE \<noteq> 0
      \<or> pmm_num_frames p \<le> (addr - pmm_base p) div PAGE_SIZE")
    case True
    then show ?thesis by (auto simp: free_frame_def Let_def)
  next
    case False
    define j where "j = unat ((addr - pmm_base p) div PAGE_SIZE)"
    have ge: "pmm_base p \<le> addr" using False by (simp add: not_less)
    have jn: "j < unat (pmm_num_frames p)" using False by (simp add: j_def word_less_nat_alt not_le)
    have "unat (addr - pmm_base p) mod 4096 = 0"
      using False by (simp add: PAGE_SIZE_def flip: unat_eq_zero) (simp add: unat_mod_distrib)
    then have "unat (addr - pmm_base p) = j * 4096"
      by (simp add: j_def PAGE_SIZE_def unat_div_distrib) (metis div_mult_mod_eq add_0_right)
    then have "unat addr = unat (pmm_base p) + j * 4096"
      using ge by (simp add: unat_sub word_le_nat_alt)
    then have "addr = frame_addr p j" using unat_frame_addr [OF inv jn] word_unat_eq_iff by metis
    then have "\<not> frame_bit p j" using notin jn by (auto simp: pmm_live_def used_def)
    then have fr: "pmm_bitmap p ! (j div 64) AND push_bit (j mod 64) 1 = 0"
      by (simp add: push_bit_of_1 and_exp_eq_0_iff_not_bit)
    have wd: "unat ((addr - pmm_base p) div PAGE_SIZE div 64) = j div 64"
      and bt: "unat ((addr - pmm_base p) div PAGE_SIZE mod 64) = j mod 64"
      by (simp_all add: j_def unat_div_distrib unat_mod_distrib)
    have "j div 64 < 1024" using jn len by simp
    then show ?thesis
      using False fr wd bt len by (auto simp: free_frame_def Let_def arr_get_def)
  qed
qed

section \<open>The contract holds\<close>

lemma pool_take [simp]: "pmm_pool (take_frame p j) = pmm_pool p"
  and pool_give [simp]: "pmm_pool (give_frame p j) = pmm_pool p"
  by (simp_all add: pmm_pool_def)

lemma live_take:
  assumes "pmm_inv p" "j < unat (pmm_num_frames p)"
  shows "pmm_live (take_frame p j) = insert (frame_addr p j) (pmm_live p)"
  using assms by (simp add: pmm_live_def used_take_frame pmm_inv_def)

lemma live_iff:
  assumes "pmm_inv p" "j < unat (pmm_num_frames p)"
  shows "frame_addr p j \<in> pmm_live p \<longleftrightarrow> j \<in> used p"
  using assms frame_addr_inj [OF assms(1)] used_lt
  by (fastforce simp: pmm_live_def inj_on_def)

lemma live_give:
  assumes "pmm_inv p" "j \<in> used p"
  shows "pmm_live (give_frame p j) = pmm_live p - {frame_addr p j}"
proof -
  have "j < 65536" using assms used_lt by (fastforce simp: pmm_inv_def)
  then have "used (give_frame p j) = used p - {j}"
    using assms(1) by (intro used_give_frame) (auto simp: pmm_inv_def)
  moreover have "inj_on (frame_addr p) (used p)"
    using frame_addr_inj [OF assms(1)] by (rule inj_on_subset) (auto simp: used_lt)
  ultimately show ?thesis
    using assms(2) by (auto simp: pmm_live_def inj_on_def)
qed

interpretation fa: frame_allocator pmm_inv pmm_pool pmm_live alloc_frame free_frame
proof
  fix s s' :: Pmm and a :: usize
  show "finite (pmm_pool s)" by (simp add: pmm_pool_def)
  show "pmm_live s \<subseteq> pmm_pool s" by (auto simp: pmm_live_def pmm_pool_def used_lt)
  assume inv: "pmm_inv s"
  show "alloc_frame s \<noteq> None" using alloc_frame_cases [OF inv] by auto
  show "pmm_inv s' \<and> pmm_pool s' = pmm_pool s \<and> a \<in> pmm_pool s \<and> a \<notin> pmm_live s
      \<and> pmm_live s' = insert a (pmm_live s)" if "alloc_frame s = Some (s', Some a)"
    using alloc_frame_cases [OF inv] that
    by (auto simp: pmm_inv_take inv live_take live_iff) (simp add: pmm_pool_def)
  show "s' = s \<and> pmm_live s = pmm_pool s" if "alloc_frame s = Some (s', None)"
    using alloc_frame_cases [OF inv] that by (auto simp: pmm_live_def pmm_pool_def)
  show "\<exists>s'. free_frame s a = Some s' \<and> pmm_inv s' \<and> pmm_pool s' = pmm_pool s
      \<and> pmm_live s' = pmm_live s - {a}"
  proof (cases "a \<in> pmm_live s")
    case True
    then obtain j where "j \<in> used s" "a = frame_addr s j" by (auto simp: pmm_live_def)
    then show ?thesis using inv by (simp add: free_frame_live pmm_inv_give live_give)
  next
    case False
    then show ?thesis using inv by (simp add: free_frame_other)
  qed
qed

section \<open>Initialisation\<close>

lemma unat_align_up_page:
  assumes "unat a + 4095 < 2 ^ 64"
  shows "unat ((a + PAGE_SIZE - 1) AND NOT (PAGE_SIZE - 1)) = (unat a + 4095) div 4096 * 4096"
proof -
  have "(a + PAGE_SIZE - 1) AND NOT (PAGE_SIZE - 1) = (a + 4095) AND NOT (mask 12)"
    by (simp add: PAGE_SIZE_def mask_eq_exp_minus_1 add.commute)
  moreover have "unat (a + 4095) = unat a + 4095"
    using assms by (subst unat_add_lt) auto
  ultimately show ?thesis by (simp only: and_not_mask_nat) simp
qed

lemma used_clear:
  assumes "unat (pmm_num_frames p) \<le> 65536" and "pmm_bitmap p = replicate 1024 0"
  shows "used p = {}"
proof -
  have "j div 64 < 1024" if "j < unat (pmm_num_frames p)" for j using that assms(1) by simp
  then show ?thesis using assms(2) by (auto simp: used_def)
qed

text \<open>The pool bounds computed by \<^verbatim>\<open>init\<close>, in natural numbers: \<open>raw\<close> is the address the pool
  may start from, \<open>fin\<close> the end of the bank.\<close>

lemma pmm_init_bounds:
  fixes bank :: MemoryRegion and kend :: u64
  defines "fin \<equiv> unat (mr_base bank) + unat (mr_size bank)"
    and "raw \<equiv> (if mr_base bank \<le> kend \<and> unat kend < unat (mr_base bank) + unat (mr_size bank)
      then unat kend else unat (mr_base bank))"
  assumes big: "largest (bi_memory bi) = Some bank" and fit: "fin + 4095 < 2 ^ 64"
  shows "unat (pmm_base (pmm_init kend bi p)) = (raw + 4095) div 4096 * 4096"
    and "unat (pmm_num_frames (pmm_init kend bi p)) =
      min ((fin - (raw + 4095) div 4096 * 4096) div 4096) 65536"
proof -
  have fin: "unat (saturating_add (mr_base bank) (mr_size bank)) = fin"
    using fit by (simp add: unat_saturating_add fin_def)
  define rw where "rw = (if mr_base bank \<le> kend \<and> kend < saturating_add (mr_base bank) (mr_size bank)
     then kend else mr_base bank)"
  have rw: "unat rw = raw"
    using fin by (simp add: rw_def raw_def fin_def word_less_nat_alt)
  have "raw + 4095 < 2 ^ 64" using fit by (simp add: raw_def fin_def)
  then have base: "unat ((rw + PAGE_SIZE - 1) AND NOT (PAGE_SIZE - 1)) = (raw + 4095) div 4096 * 4096"
    using unat_align_up_page [of rw] rw by simp
  show "unat (pmm_base (pmm_init kend bi p)) = (raw + 4095) div 4096 * 4096"
    using big base by (simp add: pmm_init_def Let_def rw_def)
  show "unat (pmm_num_frames (pmm_init kend bi p)) =
      min ((fin - (raw + 4095) div 4096 * 4096) div 4096) 65536"
  proof -
    have "min x 268435456 div 4096 = min (x div 4096) 65536" for x :: nat by (simp add: min_def) linarith
    then show ?thesis
      using big base fin
      by (simp add: pmm_init_def Let_def rw_def [symmetric] unat_min unat_div_distrib
          unat_saturating_sub MAX_FRAMES_def MAX_MANAGED_BYTES_def PAGE_SIZE_def)
  qed
qed

lemma pmm_init_inv:
  assumes big: "largest (bi_memory bi) = Some bank"
    and fit: "unat (mr_base bank) + unat (mr_size bank) + 4095 < 2 ^ 64"
    and len: "length (pmm_bitmap p) = 1024"
  shows "pmm_inv (pmm_init kend bi p)" and "used (pmm_init kend bi p) = {}"
proof -
  let ?q = "pmm_init kend bi p"
  note b = pmm_init_bounds [OF big fit, of kend p]
  have n: "unat (pmm_num_frames ?q) \<le> 65536" using b(2) by simp
  have bm: "pmm_bitmap ?q = replicate 1024 0"
    using big len by (simp add: pmm_init_def Let_def map_replicate_const)
  show u: "used ?q = {}"
    using n bm by (rule used_clear)
  have "unat (pmm_base ?q) + unat (pmm_num_frames ?q) * 4096 < 2 ^ 64"
  proof (cases "pmm_num_frames ?q = 0")
    case True
    then show ?thesis by simp
  next
    case False
    define f where "f = unat (mr_base bank) + unat (mr_size bank)"
    define c where "c = unat (pmm_base ?q)"
    have "unat (pmm_num_frames ?q) \<le> (f - c) div 4096" using b by (simp add: f_def c_def)
    moreover have "(f - c) div 4096 * 4096 \<le> f - c" by (rule div_times_less_eq_dividend)
    ultimately have "unat (pmm_num_frames ?q) * 4096 \<le> f - c"
      by (meson le_trans mult_le_mono1)
    moreover have "0 < unat (pmm_num_frames ?q)" using False by (simp add: unat_gt_0)
    ultimately have "c + unat (pmm_num_frames ?q) * 4096 \<le> f" by simp
    then show ?thesis using fit by (simp add: f_def c_def)
  qed
  moreover have "pmm_total ?q = pmm_num_frames ?q * PAGE_SIZE" "pmm_free_frames ?q = pmm_num_frames ?q"
      "pmm_next_hint ?q = 0"
    using big by (simp_all add: pmm_init_def Let_def)
  moreover have "unat (pmm_num_frames ?q * PAGE_SIZE) = unat (pmm_num_frames ?q) * 4096"
    using n by (simp add: PAGE_SIZE_def unat_mult_lt)
  ultimately show "pmm_inv ?q"
    using n u bm b(1) by (simp add: pmm_inv_def)
qed

lemma pmm_pool_in_bank:
  assumes big: "largest (bi_memory bi) = Some bank"
    and fit: "unat (mr_base bank) + unat (mr_size bank) + 4095 < 2 ^ 64"
    and len: "length (pmm_bitmap p) = 1024"
    and a: "a \<in> pmm_pool (pmm_init kend bi p)"
  shows "unat a mod 4096 = 0" and "unat (mr_base bank) \<le> unat a"
    and "unat a + 4096 \<le> unat (mr_base bank) + unat (mr_size bank)"
    and "mr_base bank \<le> kend \<Longrightarrow> unat kend < unat (mr_base bank) + unat (mr_size bank) \<Longrightarrow> kend \<le> a"
proof -
  let ?q = "pmm_init kend bi p"
  define fin where "fin = unat (mr_base bank) + unat (mr_size bank)"
  define base where "base = unat (pmm_base ?q)"
  note b = pmm_init_bounds [OF big fit, of kend p, folded fin_def]
  obtain j where j: "j < unat (pmm_num_frames ?q)" and aj: "a = frame_addr ?q j"
    using a by (auto simp: pmm_pool_def)
  have ua: "unat a = base + j * 4096"
    using unat_frame_addr [OF pmm_init_inv(1) [OF big fit len] j] aj by (simp add: base_def)
  then show "unat a mod 4096 = 0" using b(1) by (simp add: base_def)
  have up: "x \<le> (x + 4095) div 4096 * 4096" for x :: nat by linarith
  show "unat (mr_base bank) \<le> unat a"
    using b(1) ua up [of "unat (mr_base bank)"] up [of "unat kend"]
    by (auto simp: base_def word_le_nat_alt split: if_splits)
  show "kend \<le> a" if "mr_base bank \<le> kend" "unat kend < unat (mr_base bank) + unat (mr_size bank)"
    using b(1) ua up [of "unat kend"] that by (simp add: base_def word_le_nat_alt fin_def)
  have "j < (fin - base) div 4096" using j b by (simp add: base_def)
  then have "(j + 1) * 4096 \<le> (fin - base) div 4096 * 4096" by simp
  then have "(j + 1) * 4096 \<le> fin - base" using div_times_less_eq_dividend le_trans by blast
  then show "unat a + 4096 \<le> unat (mr_base bank) + unat (mr_size bank)"
    using ua by (simp add: fin_def)
qed

text \<open>The allocator as the QEMU virt board boots it, with a kernel image of 4 MiB.\<close>

definition virt_pmm :: Pmm where
  "virt_pmm = pmm_init 0x40400000 qemu_virt_fallback pmm_new"

lemma virt_bank:
  "largest (bi_memory qemu_virt_fallback) = Some \<lparr>mr_base = 0x40000000, mr_size = 256 * 1024 * 1024\<rparr>"
  by code_simp

lemma pmm_new_length [simp]: "length (pmm_bitmap pmm_new) = 1024"
  by (simp add: pmm_new_def BITMAP_WORDS_def MAX_FRAMES_def MAX_MANAGED_BYTES_def PAGE_SIZE_def)

lemma virt_pmm_num_frames: "pmm_num_frames virt_pmm = 64512"
  by (simp add: virt_pmm_def pmm_init_def virt_bank Let_def PAGE_SIZE_def MAX_FRAMES_def
      MAX_MANAGED_BYTES_def saturating_add_def saturating_sub_def checked_add_def min_def)

lemma virt_pmm_inv: "pmm_inv virt_pmm" and virt_pmm_used: "used virt_pmm = {}"
  unfolding virt_pmm_def by (rule pmm_init_inv [OF virt_bank]; simp)+

lemma virt_pmm_live: "pmm_live virt_pmm = {}" "pmm_live virt_pmm \<noteq> pmm_pool virt_pmm"
  by (simp_all add: pmm_live_def pmm_pool_def virt_pmm_used virt_pmm_num_frames lessThan_empty_iff)

section \<open>Properties\<close>

text \<open>C1: while the pool has a free frame, \<^verbatim>\<open>alloc_frame\<close> returns the address of a frame of
  the pool that is not in use and marks exactly that frame; once every frame is in use it
  returns \<^verbatim>\<open>None\<close> and changes nothing. It never indexes the bitmap out of range.\<close>

theorem alloc_frame_correct:
  assumes "pmm_inv p"
  shows "if pmm_live p = pmm_pool p then alloc_frame p = Some (p, None)
    else \<exists>p' a. alloc_frame p = Some (p', Some a) \<and> pmm_inv p' \<and> pmm_pool p' = pmm_pool p
      \<and> a \<in> pmm_pool p \<and> a \<notin> pmm_live p \<and> pmm_live p' = insert a (pmm_live p)"
proof (cases "pmm_live p = pmm_pool p")
  case True
  then have "alloc_frame p \<noteq> Some (p', Some a)" for p' a
    using fa.alloc_Some [OF assms, of p' a] by auto
  then have "alloc_frame p = Some (p, None)" using alloc_frame_cases [OF assms] by auto
  with True show ?thesis by simp
next
  case False
  then obtain p' a where "alloc_frame p = Some (p', Some a)"
    using fa.alloc_succeeds [OF assms] by blast
  then show ?thesis using False fa.alloc_Some [OF assms] by auto
qed

theorem alloc_frame_correct_witness:
  "pmm_inv virt_pmm \<and> (\<exists>p' a. alloc_frame virt_pmm = Some (p', Some a) \<and> pmm_live p' = {a})"
  using alloc_frame_correct [OF virt_pmm_inv] virt_pmm_inv virt_pmm_live by auto

text \<open>C2: freeing a frame that \<^verbatim>\<open>alloc_frame\<close> has just returned gives back the set of frames
  in use and the free-byte count from before; freeing any address that is not a frame in
  use (a foreign or unaligned address, a second free) leaves the state as it is.\<close>

theorem free_frame_correct:
  assumes inv: "pmm_inv p"
  shows "(\<forall>p' a. alloc_frame p = Some (p', Some a) \<longrightarrow>
      (\<exists>p''. free_frame p' a = Some p'' \<and> pmm_inv p'' \<and> pmm_live p'' = pmm_live p
         \<and> pmm_free_bytes p'' = pmm_free_bytes p))
    \<and> (\<forall>a. a \<notin> pmm_live p \<longrightarrow> free_frame p a = Some p)"
proof (intro conjI allI impI)
  fix p' a assume al: "alloc_frame p = Some (p', Some a)"
  then obtain j where j: "j < unat (pmm_num_frames p)" "j \<notin> used p" "p' = take_frame p j"
      "a = frame_addr p j"
    using alloc_frame_cases [OF inv] by auto
  have "used p' = insert j (used p)"
    using j inv used_take_frame [of p j] by (simp add: pmm_inv_def)
  then have u: "j \<in> used p'" and inv': "pmm_inv p'"
    using j pmm_inv_take [OF inv j(1,2)] by simp_all
  have "free_frame p' a = Some (give_frame p' j)"
    using free_frame_live [OF inv' u] j by simp
  moreover have "pmm_live (give_frame p' j) = pmm_live p"
    using live_give [OF inv' u] j live_take [OF inv] live_iff [OF inv] by simp
  moreover have "pmm_free_frames (give_frame p' j) = pmm_free_frames p"
    using j by (simp add: give_frame_def take_frame_def)
  ultimately show "\<exists>p''. free_frame p' a = Some p'' \<and> pmm_inv p'' \<and> pmm_live p'' = pmm_live p
       \<and> pmm_free_bytes p'' = pmm_free_bytes p"
    using pmm_inv_give [OF inv' u] by (simp add: pmm_free_bytes_def)
qed (rule free_frame_other [OF inv])

theorem free_frame_correct_witness:
  "pmm_inv virt_pmm \<and> 0x40400000 \<notin> pmm_live virt_pmm \<and> free_frame virt_pmm 0x40400000 = Some virt_pmm \<and>
   (\<exists>p' a p''. alloc_frame virt_pmm = Some (p', Some a) \<and> free_frame p' a = Some p'' \<and> pmm_live p'' = {})"
proof -
  obtain p' a where "alloc_frame virt_pmm = Some (p', Some a)"
    using fa.alloc_succeeds [OF virt_pmm_inv virt_pmm_live(2)] by blast
  then show ?thesis using free_frame_correct [OF virt_pmm_inv] virt_pmm_inv virt_pmm_live(1) by auto
qed

text \<open>C3: after boot, \<open>k\<close> allocations from a pool of at least \<open>k\<close> frames return \<open>k\<close>
  different page-aligned frames that lie wholly inside the largest RAM bank and, when the
  kernel image ends inside that bank, above the end of the image.\<close>

theorem boot_frames_disjoint:
  assumes "largest (bi_memory bi) = Some bank"
    and "unat (mr_base bank) + unat (mr_size bank) + 4095 < 2 ^ 64"
    and "k \<le> unat (pmm_num_frames (pmm_init kend bi pmm_new))"
  shows "\<exists>p as. alloc_many alloc_frame k (pmm_init kend bi pmm_new) = Some (p, as)
    \<and> length as = k \<and> distinct as
    \<and> (\<forall>a \<in> set as. unat a mod 4096 = 0 \<and> unat (mr_base bank) \<le> unat a
         \<and> unat a + 4096 \<le> unat (mr_base bank) + unat (mr_size bank)
         \<and> (mr_base bank \<le> kend \<and> unat kend < unat (mr_base bank) + unat (mr_size bank)
              \<longrightarrow> kend \<le> a))"
proof -
  let ?q = "pmm_init kend bi pmm_new"
  note len = pmm_new_length
  have inv: "pmm_inv ?q" and none: "pmm_live ?q = {}"
    using pmm_init_inv [OF assms(1,2) len] by (simp_all add: pmm_live_def)
  have "card (pmm_pool ?q) = unat (pmm_num_frames ?q)"
    by (simp add: pmm_pool_def card_image [OF frame_addr_inj [OF inv]])
  then have "k \<le> card (pmm_pool ?q - pmm_live ?q)" using assms(3) none by simp
  then obtain p as where "alloc_many alloc_frame k ?q = Some (p, as)" "length as = k" "distinct as"
      "set as \<subseteq> pmm_pool ?q"
    using fa.alloc_many_fresh [OF inv] by blast
  then show ?thesis
    using pmm_pool_in_bank [OF assms(1,2) len] by (intro exI [of _ p] exI [of _ as]) blast
qed

theorem boot_frames_disjoint_witness:
  "\<exists>p as. alloc_many alloc_frame 1000 (pmm_init 0x40400000 qemu_virt_fallback pmm_new) = Some (p, as)
    \<and> length as = 1000 \<and> distinct as \<and> (\<forall>a \<in> set as. 0x40400000 \<le> a)"
proof -
  have "unat (pmm_num_frames (pmm_init 0x40400000 qemu_virt_fallback pmm_new)) = 64512"
    using virt_pmm_num_frames by (simp add: virt_pmm_def)
  then show ?thesis
    using boot_frames_disjoint [OF virt_bank, of 1000 "0x40400000"] by auto
qed

end
