(* ===== verification/Hyp_Vmm.thy ===== *)
theory Hyp_Vmm
  imports Hyp_BTree Hyp_Pmm
begin

text \<open>
  Address types and the virtual memory manager (\<^verbatim>\<open>kernel/src/mm/address.rs\<close>,
  \<^verbatim>\<open>kernel/src/mm/vmm.rs\<close>). An address space is a root frame and a map from the first
  address of each mapping to the mapping. \<^verbatim>\<open>map\<close> may take a root frame from the frame
  allocator and clears it, so the operations pass the allocator and the contents of
  physical memory along.
\<close>

section \<open>Addresses\<close>

datatype PhysAddr = PhysAddr (pa_raw: u64)
datatype VirtAddr = VirtAddr (va_raw: u64)

definition pa_align_down :: "PhysAddr \<Rightarrow> u64 \<Rightarrow> PhysAddr" where
  "pa_align_down a align = PhysAddr (pa_raw a AND NOT (align - 1))"

definition pa_align_up :: "PhysAddr \<Rightarrow> u64 \<Rightarrow> PhysAddr" where
  "pa_align_up a align = PhysAddr ((pa_raw a + align - 1) AND NOT (align - 1))"

section \<open>Address spaces\<close>

datatype MapError = ZeroLength | Unaligned | LengthOverflow | Overlap | OutOfMemory

record Mapping =
  mp_va :: VirtAddr
  mp_pa :: PhysAddr
  mp_len :: usize

record AddressSpace =
  as_root :: PhysAddr
  as_mappings :: "(u64, Mapping) btree"

type_synonym mem = "u64 \<Rightarrow> u8"

definition new_unmaterialised :: AddressSpace where
  "new_unmaterialised = \<lparr>as_root = PhysAddr 0, as_mappings = []\<rparr>"

definition normalise_len :: "usize \<Rightarrow> MapError + usize" where
  "normalise_len n =
     (if n = 0 then Inl ZeroLength
      else rbind (ok_or (checked_add n (PAGE_SIZE - 1)) LengthOverflow)
             (\<lambda>r. Inr (r AND NOT (PAGE_SIZE - 1))))"

definition ensure_page_aligned :: "u64 \<Rightarrow> MapError + unit" where
  "ensure_page_aligned a = (if a AND (PAGE_SIZE - 1) = 0 then Inr () else Inl Unaligned)"

definition checked_end :: "u64 \<Rightarrow> usize \<Rightarrow> MapError + u64" where
  "checked_end start n = ok_or (checked_add start n) LengthOverflow"

definition ranges_overlap :: "u64 \<Rightarrow> u64 \<Rightarrow> u64 \<Rightarrow> u64 \<Rightarrow> bool" where
  "ranges_overlap a_start a_end b_start b_end \<longleftrightarrow> a_start < b_end \<and> b_start < a_end"

text \<open>\<^verbatim>\<open>core::ptr::write_bytes(frame, b, n)\<close> on the bytes of memory.\<close>

definition write_bytes :: "mem \<Rightarrow> u64 \<Rightarrow> u8 \<Rightarrow> usize \<Rightarrow> mem" where
  "write_bytes m frame b n = (\<lambda>a. if a - frame < n then b else m a)"

definition ensure_root ::
  "Pmm \<Rightarrow> mem \<Rightarrow> AddressSpace \<Rightarrow> (Pmm \<times> mem \<times> AddressSpace \<times> (MapError + unit)) option" where
  "ensure_root p m s =
     (if pa_raw (as_root s) \<noteq> 0 then Some (p, m, s, Inr ())
      else do {
        (p', f) \<leftarrow> alloc_frame p;
        Some (case f of
          None \<Rightarrow> (p', m, s, Inl OutOfMemory)
        | Some frame \<Rightarrow>
            (p', write_bytes m frame 0 PAGE_SIZE, s\<lparr>as_root := PhysAddr frame\<rparr>, Inr ()))
      })"

text \<open>The loop of \<^verbatim>\<open>map\<close> over the existing mappings.\<close>

fun map_conflict :: "u64 \<Rightarrow> u64 \<Rightarrow> Mapping list \<Rightarrow> MapError + unit" where
  "map_conflict va fin [] = Inr ()"
| "map_conflict va fin (existing # rest) =
     rbind (checked_end (va_raw (mp_va existing)) (mp_len existing)) (\<lambda>existing_end.
       if ranges_overlap va fin (va_raw (mp_va existing)) existing_end then Inl Overlap
       else map_conflict va fin rest)"

text \<open>The checks of \<^verbatim>\<open>map\<close> before it changes anything; the value is the rounded length.\<close>

definition map_checks :: "AddressSpace \<Rightarrow> VirtAddr \<Rightarrow> PhysAddr \<Rightarrow> usize \<Rightarrow> MapError + usize" where
  "map_checks s va pa n =
     rbind (normalise_len n) (\<lambda>len.
     rbind (ensure_page_aligned (va_raw va)) (\<lambda>_.
     rbind (ensure_page_aligned (pa_raw pa)) (\<lambda>_.
     rbind (checked_end (va_raw va) len) (\<lambda>fin.
     rbind (map_conflict (va_raw va) fin (bt_values (as_mappings s))) (\<lambda>_. Inr len)))))"

definition as_map ::
  "Pmm \<Rightarrow> mem \<Rightarrow> AddressSpace \<Rightarrow> VirtAddr \<Rightarrow> PhysAddr \<Rightarrow> usize
     \<Rightarrow> (Pmm \<times> mem \<times> AddressSpace \<times> (MapError + unit)) option" where
  "as_map p m s va pa n =
     (case map_checks s va pa n of
        Inl e \<Rightarrow> Some (p, m, s, Inl e)
      | Inr len \<Rightarrow> do {
          (p', m', s', r) \<leftarrow> ensure_root p m s;
          Some (case r of
            Inl e \<Rightarrow> (p', m', s', Inl e)
          | Inr _ \<Rightarrow> (p', m', s'\<lparr>as_mappings := bt_insert (as_mappings s') (va_raw va)
                       \<lparr>mp_va = va, mp_pa = pa, mp_len = len\<rparr>\<rparr>, Inr ()))
        })"

definition as_unmap :: "AddressSpace \<Rightarrow> VirtAddr \<Rightarrow> AddressSpace \<times> Mapping option" where
  "as_unmap s va = (s\<lparr>as_mappings := bt_remove (as_mappings s) (va_raw va)\<rparr>,
     bt_get (as_mappings s) (va_raw va))"

definition translate :: "AddressSpace \<Rightarrow> VirtAddr \<Rightarrow> PhysAddr option" where
  "translate s va = do {
     (start, mapping) \<leftarrow> bt_last_le (as_mappings s) (va_raw va);
     offset \<leftarrow> checked_sub (va_raw va) start;
     if offset < mp_len mapping then Some (PhysAddr (pa_raw (mp_pa mapping) + offset)) else None
   }"

definition as_mapping_list :: "AddressSpace \<Rightarrow> Mapping list" where
  "as_mapping_list s = bt_values (as_mappings s)"

section \<open>Invariant and abstract view\<close>

definition page_aligned :: "u64 \<Rightarrow> bool" where
  "page_aligned a \<longleftrightarrow> unat a mod 4096 = 0"

definition round_up :: "nat \<Rightarrow> nat" where
  "round_up n = (n + 4095) div 4096 * 4096"

definition mapping_ok :: "u64 \<Rightarrow> Mapping \<Rightarrow> bool" where
  "mapping_ok k m \<longleftrightarrow> va_raw (mp_va m) = k \<and> page_aligned k \<and> page_aligned (pa_raw (mp_pa m))
     \<and> 0 < unat (mp_len m) \<and> unat (mp_len m) mod 4096 = 0 \<and> unat k + unat (mp_len m) < 2 ^ 64"

definition as_inv :: "AddressSpace \<Rightarrow> bool" where
  "as_inv s \<longleftrightarrow> bt_wf (as_mappings s) \<and> (\<forall>(k, m) \<in> set (as_mappings s). mapping_ok k m)
     \<and> (\<forall>(k, m) \<in> set (as_mappings s). \<forall>(k', m') \<in> set (as_mappings s).
          k < k' \<longrightarrow> unat k + unat (mp_len m) \<le> unat k')"

text \<open>The addresses a range of \<open>n\<close> bytes from \<open>start\<close> covers.\<close>

definition in_range :: "u64 \<Rightarrow> nat \<Rightarrow> u64 \<Rightarrow> bool" where
  "in_range start n a \<longleftrightarrow> unat start \<le> unat a \<and> unat a < unat start + n"

text \<open>What \<^verbatim>\<open>map\<close> promises: the error it reports, in the order the conditions are
  checked, or the length it maps.\<close>

definition map_spec :: "AddressSpace \<Rightarrow> VirtAddr \<Rightarrow> PhysAddr \<Rightarrow> usize \<Rightarrow> MapError + nat" where
  "map_spec s va pa n =
     (if n = 0 then Inl ZeroLength
      else if 2 ^ 64 \<le> unat n + 4095 then Inl LengthOverflow
      else if \<not> page_aligned (va_raw va) \<or> \<not> page_aligned (pa_raw pa) then Inl Unaligned
      else if 2 ^ 64 \<le> unat (va_raw va) + round_up (unat n) then Inl LengthOverflow
      else if \<exists>a. in_range (va_raw va) (round_up (unat n)) a \<and> translate s (VirtAddr a) \<noteq> None
        then Inl Overlap
      else Inr (round_up (unat n)))"

lemma as_inv_new [simp, inv_rules]: "as_inv new_unmaterialised"
  by (simp add: as_inv_def new_unmaterialised_def)

lemma as_inv_get:
  assumes "as_inv s" "bt_get (as_mappings s) k = Some m"
  shows "mapping_ok k m"
  using assms by (auto simp: as_inv_def bt_get_Some_in)

lemma as_invI:
  assumes "bt_wf (as_mappings s)" "\<And>k m. bt_get (as_mappings s) k = Some m \<Longrightarrow> mapping_ok k m"
    and "\<And>k m k' m'. bt_get (as_mappings s) k = Some m \<Longrightarrow> bt_get (as_mappings s) k' = Some m' \<Longrightarrow>
      k < k' \<Longrightarrow> unat k + unat (mp_len m) \<le> unat k'"
  shows "as_inv s"
  using assms by (auto simp: as_inv_def bt_get_Some_in)

lemma option_eqI: "(\<And>q. x = Some q \<longleftrightarrow> y = Some q) \<Longrightarrow> x = y"
  by (cases x; cases y) auto

lemma as_inv_disjoint:
  assumes "as_inv s" "bt_get (as_mappings s) k = Some m" "bt_get (as_mappings s) k' = Some m'" "k < k'"
  shows "unat k + unat (mp_len m) \<le> unat k'"
  using assms by (fastforce simp: as_inv_def bt_get_Some_in)

lemma translate_iff:
  assumes inv: "as_inv s"
  shows "translate s (VirtAddr a) = Some q \<longleftrightarrow>
    (\<exists>k m. bt_get (as_mappings s) k = Some m \<and> in_range k (unat (mp_len m)) a
       \<and> q = PhysAddr (pa_raw (mp_pa m) + (a - k)))" (is "_ \<longleftrightarrow> ?R")
proof -
  have wf: "bt_wf (as_mappings s)" using inv by (simp add: as_inv_def)
  have lt: "a - k < n \<longleftrightarrow> unat a < unat k + unat n" if "k \<le> a" for k n :: u64
    using that by (auto simp: word_less_nat_alt word_le_nat_alt unat_sub)
  show ?thesis
  proof
    assume "translate s (VirtAddr a) = Some q"
    then show ?R
      by (auto simp: translate_def bind_eq_Some_conv bt_last_le_Some [OF wf] in_range_def lt
          word_le_nat_alt split: if_splits) blast
  next
    assume ?R
    then obtain k m where g: "bt_get (as_mappings s) k = Some m" "in_range k (unat (mp_len m)) a"
      "q = PhysAddr (pa_raw (mp_pa m) + (a - k))" by blast
    have "j \<le> k" if "bt_get (as_mappings s) j \<noteq> None" "j \<le> a" for j
    proof (rule ccontr)
      assume "\<not> j \<le> k"
      then have "unat k + unat (mp_len m) \<le> unat j"
        using that g as_inv_disjoint [OF inv g(1)] by (auto simp: not_le)
      then show False using g(2) that(2) by (simp add: in_range_def word_le_nat_alt)
    qed
    then have "bt_last_le (as_mappings s) a = Some (k, m)"
      using g by (simp add: bt_last_le_Some [OF wf] in_range_def word_le_nat_alt)
    moreover have "k \<le> a" using g(2) by (simp add: in_range_def word_le_nat_alt)
    ultimately show "translate s (VirtAddr a) = Some q"
      using g lt [of k "mp_len m"] by (simp add: translate_def in_range_def checked_sub_def)
  qed
qed

lemma translate_mapped:
  assumes "as_inv s"
  shows "translate s (VirtAddr a) \<noteq> None \<longleftrightarrow>
    (\<exists>(k, m) \<in> set (as_mappings s). in_range k (unat (mp_len m)) a)"
proof -
  have "translate s (VirtAddr a) \<noteq> None \<longleftrightarrow> (\<exists>q. translate s (VirtAddr a) = Some q)" by auto
  also have "\<dots> \<longleftrightarrow> (\<exists>k m. bt_get (as_mappings s) k = Some m \<and> in_range k (unat (mp_len m)) a)"
    by (auto simp: translate_iff [OF assms])
  finally show ?thesis using assms by (auto simp: as_inv_def bt_get_Some_in)
qed

section \<open>The checks of map\<close>

lemma unat_round_up:
  assumes "unat (n::u64) + 4095 < 2 ^ 64"
  shows "unat (word_of_nat (round_up (unat n)) :: u64) = round_up (unat n)"
proof -
  have "round_up (unat n) \<le> unat n + 4095" by (simp add: round_up_def)
  then show ?thesis using assms by (intro unat_word_of_nat) simp
qed

lemma page_mask: "PAGE_SIZE - 1 = mask 12"
  by (simp add: PAGE_SIZE_def mask_eq_exp_minus_1)

lemma normalise_len_eq:
  "normalise_len n = (if n = 0 then Inl ZeroLength else if 2 ^ 64 \<le> unat n + 4095
     then Inl LengthOverflow else Inr (word_of_nat (round_up (unat n))))"
proof (cases "2 ^ 64 \<le> unat n + 4095")
  case False
  have "unat ((n + mask 12) AND NOT (mask 12)) = round_up (unat n)"
    using False align_up_nat [of n 12] by (simp add: round_up_def)
  then have "unat ((n + (PAGE_SIZE - 1)) AND NOT (PAGE_SIZE - 1)) = round_up (unat n)"
    by (simp only: page_mask)
  then have "(n + (PAGE_SIZE - 1)) AND NOT (PAGE_SIZE - 1) = word_of_nat (round_up (unat n))"
    using False unat_round_up [of n] by (simp add: word_unat_eq_iff)
  then show ?thesis
    using False by (simp add: normalise_len_def checked_add_def PAGE_SIZE_def)
qed (simp add: normalise_len_def checked_add_def PAGE_SIZE_def)

lemma ensure_page_aligned_eq:
  "ensure_page_aligned a = (if page_aligned a then Inr () else Inl Unaligned)"
proof -
  have "unat (a AND mask 12) = unat a mod 4096" by (simp only: and_mask_nat) simp
  then have "unat (a AND (PAGE_SIZE - 1)) = unat a mod 4096" by (simp only: page_mask)
  then have "a AND (PAGE_SIZE - 1) = 0 \<longleftrightarrow> unat a mod 4096 = 0" by (metis unat_eq_zero)
  then show ?thesis by (simp add: ensure_page_aligned_def page_aligned_def)
qed

lemma round_up_pos: "0 < n \<Longrightarrow> 0 < round_up n \<and> round_up n mod 4096 = 0"
  by (auto simp: round_up_def)

lemma map_conflict_eq:
  assumes "\<forall>e \<in> set es. mapping_ok (fst e) (snd e)" and "va < fin"
  shows "map_conflict va fin (map snd es) =
    (if \<exists>(k, m) \<in> set es. unat va < unat k + unat (mp_len m) \<and> unat k < unat fin
     then Inl Overlap else Inr ())"
  using assms
proof (induction es)
  case (Cons e es)
  obtain k m where e: "e = (k, m)" by (cases e)
  have ok: "mapping_ok k m" using Cons.prems e by simp
  then have "checked_end (va_raw (mp_va m)) (mp_len m) = Inr (k + mp_len m)"
    and "unat (k + mp_len m) = unat k + unat (mp_len m)"
    by (simp_all add: checked_end_def checked_add_def mapping_ok_def unat_add_lt)
  then show ?case
    using Cons ok e
    by (simp add: ranges_overlap_def word_less_nat_alt mapping_ok_def split del: if_split)
       (auto split: if_splits)
qed simp

text \<open>Two ranges meet at their ends exactly when they share an address.\<close>

lemma ranges_meet:
  assumes "0 < n" "0 < n'" "unat va + n < 2 ^ 64" "unat k + n' < 2 ^ 64"
  shows "unat va < unat k + n' \<and> unat k < unat va + n \<longleftrightarrow> (\<exists>a. in_range va n a \<and> in_range k n' a)"
proof
  assume "unat va < unat k + n' \<and> unat k < unat va + n"
  then have "in_range va n (max va k) \<and> in_range k n' (max va k)"
    using assms by (auto simp: in_range_def unat_max)
  then show "\<exists>a. in_range va n a \<and> in_range k n' a" ..
qed (auto simp: in_range_def)

lemma map_checks_spec:
  assumes inv: "as_inv s"
  shows "map_checks s va pa n =
    (case map_spec s va pa n of Inl e \<Rightarrow> Inl e | Inr len \<Rightarrow> Inr (word_of_nat len))"
proof (cases "n = 0 \<or> 2 ^ 64 \<le> unat n + 4095 \<or> \<not> page_aligned (va_raw va) \<or> \<not> page_aligned (pa_raw pa)
      \<or> 2 ^ 64 \<le> unat (va_raw va) + round_up (unat n)")
  case True
  then show ?thesis
    using unat_round_up [of n]
    by (auto simp: map_checks_def map_spec_def normalise_len_eq ensure_page_aligned_eq
        checked_end_def checked_add_def)
next
  case False
  let ?n = "round_up (unat n)" and ?len = "word_of_nat (round_up (unat n)) :: u64"
  have len: "unat ?len = ?n" using False by (simp add: unat_round_up)
  have pos: "0 < ?n" using False round_up_pos [of "unat n"] by (simp add: unat_gt_0)
  have fin: "unat (va_raw va + ?len) = unat (va_raw va) + ?n"
    using False len by (simp add: unat_add_lt)
  have ok: "\<forall>e \<in> set (as_mappings s). mapping_ok (fst e) (snd e)"
    using inv by (auto simp: as_inv_def)
  have lt: "va_raw va < va_raw va + ?len" using fin pos by (simp add: word_less_nat_alt)
  have meet: "unat (va_raw va) < unat k + unat (mp_len m) \<and> unat k < unat (va_raw va) + ?n \<longleftrightarrow>
      (\<exists>a. in_range (va_raw va) ?n a \<and> in_range k (unat (mp_len m)) a)"
    if "(k, m) \<in> set (as_mappings s)" for k m
    using that ok False pos by (intro ranges_meet) (auto simp: mapping_ok_def)
  have "(\<exists>(k, m) \<in> set (as_mappings s). unat (va_raw va) < unat k + unat (mp_len m)
        \<and> unat k < unat (va_raw va + ?len))
      \<longleftrightarrow> (\<exists>a. in_range (va_raw va) ?n a \<and> translate s (VirtAddr a) \<noteq> None)"
    unfolding translate_mapped [OF inv] fin using meet by fastforce
  then show ?thesis
    using False len map_conflict_eq [OF ok lt]
    by (simp add: map_checks_def map_spec_def normalise_len_eq ensure_page_aligned_eq
        checked_end_def checked_add_def bt_values_def)
qed

lemma map_spec_Inr:
  assumes "map_spec s va pa n = Inr len"
  shows "len = round_up (unat n)" "0 < len" "len mod 4096 = 0" "page_aligned (va_raw va)"
    "page_aligned (pa_raw pa)" "unat (va_raw va) + len < 2 ^ 64"
    "\<And>a. in_range (va_raw va) len a \<Longrightarrow> translate s (VirtAddr a) = None"
    "unat (word_of_nat len :: u64) = len"
  using assms round_up_pos [of "unat n"] unat_round_up [of n]
  by (auto simp: map_spec_def unat_gt_0 not_le split: if_splits)

section \<open>The effect of map and unmap\<close>

definition add_mapping :: "AddressSpace \<Rightarrow> VirtAddr \<Rightarrow> PhysAddr \<Rightarrow> usize \<Rightarrow> AddressSpace" where
  "add_mapping s va pa len = s\<lparr>as_mappings := bt_insert (as_mappings s) (va_raw va)
     \<lparr>mp_va = va, mp_pa = pa, mp_len = len\<rparr>\<rparr>"

lemma add_mapping_inv [inv_rules]:
  assumes inv: "as_inv s" and spec: "map_spec s va pa n = Inr len"
  shows "as_inv (add_mapping s va pa (word_of_nat len))"
proof -
  let ?m = "\<lparr>mp_va = va, mp_pa = pa, mp_len = word_of_nat len\<rparr>"
  note sp = map_spec_Inr [OF spec]
  have wf: "bt_wf (as_mappings s)" using inv by (simp add: as_inv_def)
  note wf' = bt_wf_insert [OF wf, of "va_raw va" ?m]
  have new: "mapping_ok (va_raw va) ?m" using sp by (simp add: mapping_ok_def)
  have free: "\<not> in_range k (unat (mp_len m)) a"
    if "bt_get (as_mappings s) k = Some m" "in_range (va_raw va) len a" for k m a
    using that sp(7) translate_mapped [OF inv, of a] bt_get_Some_in [OF wf] by auto
  have apart: "unat (va_raw va) + len \<le> unat k \<or> unat k + unat (mp_len m) \<le> unat (va_raw va)"
    if g: "bt_get (as_mappings s) k = Some m" for k m
    using ranges_meet [of len "unat (mp_len m)" "va_raw va" k] free [OF g] sp as_inv_get [OF inv g]
    by (auto simp: mapping_ok_def)
  show ?thesis
  proof (rule as_invI)
    show "mapping_ok k m" if "bt_get (as_mappings (add_mapping s va pa (word_of_nat len))) k = Some m" for k m
      using that new as_inv_get [OF inv] by (simp add: add_mapping_def split: if_splits)
    show "unat k + unat (mp_len m) \<le> unat k'"
      if "bt_get (as_mappings (add_mapping s va pa (word_of_nat len))) k = Some m"
        "bt_get (as_mappings (add_mapping s va pa (word_of_nat len))) k' = Some m'" "k < k'" for k m k' m'
      using that apart [of k m] apart [of k' m'] as_inv_disjoint [OF inv, of k m k' m'] sp(8)
      by (auto simp: add_mapping_def word_less_nat_alt split: if_splits)
  qed (simp add: add_mapping_def wf')
qed

lemma add_mapping_translate:
  assumes inv: "as_inv s" and spec: "map_spec s va pa n = Inr len"
  shows "translate (add_mapping s va pa (word_of_nat len)) (VirtAddr a) =
    (if in_range (va_raw va) len a then Some (PhysAddr (pa_raw pa + (a - va_raw va)))
     else translate s (VirtAddr a))"
proof -
  let ?s = "add_mapping s va pa (word_of_nat len)"
  note sp = map_spec_Inr [OF spec] and inv' = add_mapping_inv [OF inv spec]
  have fresh: "bt_get (as_mappings s) (va_raw va) = None"
  proof (rule ccontr)
    assume "bt_get (as_mappings s) (va_raw va) \<noteq> None"
    then obtain m where g: "bt_get (as_mappings s) (va_raw va) = Some m" by blast
    then have "in_range (va_raw va) (unat (mp_len m)) (va_raw va)"
      using as_inv_get [OF inv g] by (simp add: in_range_def mapping_ok_def)
    moreover have "translate s (VirtAddr (va_raw va)) = None"
      using sp(2) by (intro sp(7)) (simp add: in_range_def)
    ultimately show False using g translate_iff [OF inv, of "va_raw va"] by auto
  qed
  show ?thesis
  proof (cases "in_range (va_raw va) len a")
    case True
    then have "translate ?s (VirtAddr a) = Some (PhysAddr (pa_raw pa + (a - va_raw va)))"
      by (subst translate_iff [OF inv'], intro exI [of _ "va_raw va"]) (simp add: add_mapping_def sp(8))
    with True show ?thesis by simp
  next
    case False
    have "bt_get (as_mappings ?s) k = Some m \<and> in_range k (unat (mp_len m)) a
        \<longleftrightarrow> bt_get (as_mappings s) k = Some m \<and> in_range k (unat (mp_len m)) a" for k m
      using False fresh sp(8) by (auto simp: add_mapping_def split: if_splits)
    then have "translate ?s (VirtAddr a) = translate s (VirtAddr a)"
      by (intro option_eqI) (simp add: translate_iff [OF inv] translate_iff [OF inv'] flip: conj_assoc)
    with False show ?thesis by simp
  qed
qed

lemma unmap_inv [inv_rules]:
  assumes inv: "as_inv s"
  shows "as_inv (fst (as_unmap s va))"
proof (rule as_invI)
  show "bt_wf (as_mappings (fst (as_unmap s va)))"
    using inv by (simp add: as_unmap_def bt_wf_remove as_inv_def)
qed (use as_inv_get [OF inv] as_inv_disjoint [OF inv] in
      \<open>simp_all add: as_unmap_def split: if_splits\<close>)

lemma unmap_translate:
  assumes inv: "as_inv s" and g: "bt_get (as_mappings s) (va_raw va) = Some m"
  shows "translate (fst (as_unmap s va)) (VirtAddr a) =
    (if in_range (va_raw va) (unat (mp_len m)) a then None else translate s (VirtAddr a))"
proof -
  let ?s = "fst (as_unmap s va)"
  note inv' = unmap_inv [OF inv, of va]
  have other: "k = va_raw va" if "bt_get (as_mappings s) k = Some m'" "in_range k (unat (mp_len m')) a"
      "in_range (va_raw va) (unat (mp_len m)) a" for k m'
    using that as_inv_disjoint [OF inv that(1) g] as_inv_disjoint [OF inv g that(1)]
    by (cases k "va_raw va" rule: linorder_cases) (auto simp: in_range_def)
  show ?thesis
  proof (cases "in_range (va_raw va) (unat (mp_len m)) a")
    case True
    then have "translate ?s (VirtAddr a) \<noteq> Some q" for q
      unfolding translate_iff [OF inv'] using other by (auto simp: as_unmap_def split: if_splits)
    with True show ?thesis by auto
  next
    case False
    then have "bt_get (as_mappings ?s) k = Some m' \<and> in_range k (unat (mp_len m')) a
        \<longleftrightarrow> bt_get (as_mappings s) k = Some m' \<and> in_range k (unat (mp_len m')) a" for k m'
      using g by (auto simp: as_unmap_def split: if_splits)
    then have "translate ?s (VirtAddr a) = translate s (VirtAddr a)"
      by (intro option_eqI) (simp add: translate_iff [OF inv] translate_iff [OF inv'] flip: conj_assoc)
    with False show ?thesis by simp
  qed
qed

lemma map_spec_root [simp]: "map_spec (s\<lparr>as_root := r\<rparr>) = map_spec s"
  by (intro ext) (simp add: map_spec_def translate_def)

lemma as_inv_root [simp]: "as_inv (s\<lparr>as_root := r\<rparr>) \<longleftrightarrow> as_inv s"
  by (simp add: as_inv_def)

lemma translate_root [simp]: "translate (s\<lparr>as_root := r\<rparr>) = translate s"
  by (intro ext) (simp add: translate_def)

lemma ensure_root_cases:
  assumes "pmm_inv p"
  obtains (kept) "pa_raw (as_root s) \<noteq> 0" "ensure_root p m s = Some (p, m, s, Inr ())"
  | (full) "pa_raw (as_root s) = 0" "pmm_live p = pmm_pool p"
      "ensure_root p m s = Some (p, m, s, Inl OutOfMemory)"
  | (fresh) p' f where "pa_raw (as_root s) = 0" "pmm_live p \<noteq> pmm_pool p"
      "ensure_root p m s = Some (p', write_bytes m f 0 4096, s\<lparr>as_root := PhysAddr f\<rparr>, Inr ())"
      "pmm_inv p'" "f \<in> pmm_pool p" "f \<notin> pmm_live p" "pmm_live p' = insert f (pmm_live p)"
proof (cases "pa_raw (as_root s) = 0")
  case root: True
  show ?thesis
  proof (cases "pmm_live p = pmm_pool p")
    case True
    then have "alloc_frame p \<noteq> Some (p', Some a)" for p' a
      using fa.alloc_Some [OF assms, of p' a] by auto
    then have "alloc_frame p = Some (p, None)" using alloc_frame_cases [OF assms] by auto
    then have "ensure_root p m s = Some (p, m, s, Inl OutOfMemory)"
      using root by (simp add: ensure_root_def)
    with root True show ?thesis by (rule full)
  next
    case False
    then obtain p' f where "alloc_frame p = Some (p', Some f)"
      using fa.alloc_succeeds [OF assms] by blast
    then show ?thesis
      using root False fa.alloc_Some [OF assms, of p' f]
      by (intro fresh [of p' f]) (simp_all add: ensure_root_def PAGE_SIZE_def)
  qed
next
  case False
  then have "ensure_root p m s = Some (p, m, s, Inr ())" by (simp add: ensure_root_def)
  with False show ?thesis by (rule kept)
qed

lemma as_map_eq:
  assumes "as_inv s"
  shows "as_map p m s va pa n = (case map_spec s va pa n of
      Inl e \<Rightarrow> Some (p, m, s, Inl e)
    | Inr len \<Rightarrow> do {
        (p', m', s', r) \<leftarrow> ensure_root p m s;
        Some (case r of Inl e \<Rightarrow> (p', m', s', Inl e)
          | Inr _ \<Rightarrow> (p', m', add_mapping s' va pa (word_of_nat len), Inr ()))
      })"
  unfolding as_map_def map_checks_spec [OF assms] add_mapping_def by (simp split: sum.split)

lemma as_map_adds:
  assumes inv: "as_inv s" and "pmm_inv p \<and> as_map p m s va pa n = Some (p', m', s', Inr ())"
  obtains len t where "map_spec t va pa n = Inr len" "as_inv t" "translate t = translate s"
    "s' = add_mapping t va pa (word_of_nat len)"
proof -
  have pmm: "pmm_inv p" and ok: "as_map p m s va pa n = Some (p', m', s', Inr ())"
    using assms(2) by simp_all
  obtain len where len: "map_spec s va pa n = Inr len"
    using ok by (cases "map_spec s va pa n") (simp_all add: as_map_eq [OF inv])
  from pmm show ?thesis
  proof (cases rule: ensure_root_cases [where s = s and m = m])
    case kept
    then show ?thesis using that [of s len] ok len inv by (simp add: as_map_eq [OF inv])
  next
    case full
    then show ?thesis using ok len by (simp add: as_map_eq [OF inv])
  next
    case (fresh q f)
    then show ?thesis
      using that [of "s\<lparr>as_root := PhysAddr f\<rparr>" len] ok len inv by (simp add: as_map_eq [OF inv])
  qed
qed

lemma sub_less_iff:
  fixes f :: u64
  assumes "unat f + 4096 \<le> 2 ^ 64"
  shows "a - f < 4096 \<longleftrightarrow> in_range f 4096 a"
proof (cases "f \<le> a")
  case True
  then show ?thesis by (auto simp: in_range_def word_less_nat_alt word_le_nat_alt unat_sub)
next
  case False
  then have "unat (a - f) = 2 ^ 64 + unat a - unat f"
    by (simp add: unat_sub_if' word_le_nat_alt)
  then show ?thesis using False assms by (simp add: in_range_def word_less_nat_alt word_le_nat_alt)
qed

section \<open>Properties\<close>

text \<open>C6: \<^verbatim>\<open>map\<close> never panics and meets its specification: on success exactly the addresses
  of the page-rounded range translate to the given physical range and every other address
  translates as before; on any error (zero length, overflow, misalignment, overlap with an
  address already mapped, no frame for the root) the address space, the frame allocator and
  memory are unchanged. The mappings stay aligned and disjoint.\<close>

theorem as_map_correct:
  assumes inv: "as_inv s" and pmm: "pmm_inv p"
  shows "\<exists>p' m' s' r. as_map p m s va pa n = Some (p', m', s', r) \<and> as_inv s' \<and> pmm_inv p' \<and>
    (case map_spec s va pa n of
       Inl e \<Rightarrow> r = Inl e \<and> p' = p \<and> m' = m \<and> s' = s
     | Inr len \<Rightarrow>
         if pa_raw (as_root s) = 0 \<and> pmm_live p = pmm_pool p
         then r = Inl OutOfMemory \<and> p' = p \<and> m' = m \<and> s' = s
         else r = Inr () \<and> (\<forall>a. translate s' (VirtAddr a) =
           (if in_range (va_raw va) len a then Some (PhysAddr (pa_raw pa + (a - va_raw va)))
            else translate s (VirtAddr a))))"
proof (cases "map_spec s va pa n")
  case (Inl e)
  then show ?thesis using inv pmm by (simp add: as_map_eq)
next
  case (Inr len)
  from pmm show ?thesis
  proof (cases rule: ensure_root_cases [where s = s and m = m])
    case kept
    with Inr inv pmm show ?thesis
      by (simp add: as_map_eq add_mapping_inv add_mapping_translate)
  next
    case full
    with Inr inv pmm show ?thesis by (simp add: as_map_eq)
  next
    case (fresh p' f)
    let ?s = "s\<lparr>as_root := PhysAddr f\<rparr>"
    have spec: "as_inv ?s" "map_spec ?s va pa n = Inr len" using inv Inr by simp_all
    then show ?thesis
      using Inr inv fresh add_mapping_inv [OF spec] add_mapping_translate [OF spec]
      by (simp add: as_map_eq)
  qed
qed

theorem as_map_correct_witness:
  "as_inv new_unmaterialised \<and> pmm_inv virt_pmm \<and>
   (\<exists>p' m' s'. as_map virt_pmm (\<lambda>_. 7) new_unmaterialised (VirtAddr 0x1000) (PhysAddr 0x8000) 5 = Some (p', m', s', Inr ())
      \<and> translate s' (VirtAddr 0x1234) = Some (PhysAddr 0x8234))"
proof -
  have none: "translate new_unmaterialised v = None" for v
    by (simp add: translate_def new_unmaterialised_def bt_last_le_def)
  have "map_spec new_unmaterialised (VirtAddr 0x1000) (PhysAddr 0x8000) 5 = Inr 4096"
    by (simp add: map_spec_def none page_aligned_def round_up_def)
  then show ?thesis
    using as_map_correct [OF as_inv_new virt_pmm_inv, of "\<lambda>_. 7" "VirtAddr 0x1000" "PhysAddr 0x8000" 5]
      virt_pmm_inv
    by (auto simp: virt_pmm_live(2) in_range_def)
qed

text \<open>the first successful \<^verbatim>\<open>map\<close> gives the address space a root: a frame of the pool that
  was not in use, all of whose 4096 bytes are zero, and no byte outside that frame changes.
  Later calls leave the root, the frame allocator and memory alone.\<close>

theorem as_map_root:
  assumes inv: "as_inv s" and pmm: "pmm_inv p"
    and ok: "as_map p m s va pa n = Some (p', m', s', Inr ())"
  shows "if pa_raw (as_root s) \<noteq> 0 then as_root s' = as_root s \<and> p' = p \<and> m' = m
    else let f = pa_raw (as_root s') in f \<in> pmm_pool p \<and> f \<notin> pmm_live p
      \<and> pmm_live p' = insert f (pmm_live p)
      \<and> (\<forall>a. m' a = (if in_range f 4096 a then 0 else m a))"
proof -
  obtain len where len: "map_spec s va pa n = Inr len"
    using ok by (cases "map_spec s va pa n") (simp_all add: as_map_eq [OF inv])
  from pmm show ?thesis
  proof (cases rule: ensure_root_cases [where s = s and m = m])
    case (fresh q f)
    obtain j where "j < unat (pmm_num_frames p)" "f = frame_addr p j"
      using fresh(5) by (auto simp: pmm_pool_def)
    then have "unat f + 4096 \<le> 2 ^ 64"
      using unat_frame_addr [OF pmm, of j] pmm by (simp add: pmm_inv_def)
    then have "a - f < 4096 \<longleftrightarrow> in_range f 4096 a" for a
      by (rule sub_less_iff)
    then show ?thesis
      using ok fresh len by (auto simp: as_map_eq [OF inv] add_mapping_def Let_def write_bytes_def)
  qed (use ok len in \<open>auto simp: as_map_eq [OF inv] add_mapping_def\<close>)
qed

theorem as_map_root_witness:
  "\<exists>p' m' s'. as_map virt_pmm (\<lambda>_. 7) new_unmaterialised (VirtAddr 0x1000) (PhysAddr 0x8000) 5 = Some (p', m', s', Inr ())
     \<and> m' (pa_raw (as_root s')) = 0 \<and> pa_raw (as_root s') \<in> pmm_pool virt_pmm"
proof -
  have spec: "map_spec new_unmaterialised (VirtAddr 0x1000) (PhysAddr 0x8000) 5 = Inr 4096"
    by (simp add: map_spec_def translate_def new_unmaterialised_def bt_last_le_def page_aligned_def
        round_up_def)
  have root: "pa_raw (as_root new_unmaterialised) = 0" by (simp add: new_unmaterialised_def)
  obtain p' m' s' where ok: "as_map virt_pmm (\<lambda>_. 7) new_unmaterialised (VirtAddr 0x1000)
      (PhysAddr 0x8000) 5 = Some (p', m', s', Inr ())"
    using virt_pmm_inv
    by (cases rule: ensure_root_cases [where s = new_unmaterialised and m = "\<lambda>_. 7"])
      (use spec root virt_pmm_live(2) in \<open>auto simp: as_map_eq\<close>)
  then show ?thesis
    using as_map_root [OF as_inv_new virt_pmm_inv ok] root by (auto simp: Let_def in_range_def)
qed

text \<open>C7: \<^verbatim>\<open>unmap\<close> at the start of a mapping returns that mapping, and afterwards exactly
  its addresses no longer translate; at any other address it returns \<^verbatim>\<open>None\<close> and every
  translation stays. Unmapping what \<^verbatim>\<open>map\<close> has just added gives back the old translation.\<close>

theorem as_unmap_correct:
  assumes inv: "as_inv s"
  shows "as_inv (fst (as_unmap s va))
    \<and> (case snd (as_unmap s va) of
         None \<Rightarrow> fst (as_unmap s va) = s
       | Some m \<Rightarrow> mp_va m = va \<and> (\<forall>a. translate (fst (as_unmap s va)) (VirtAddr a) =
           (if in_range (va_raw va) (unat (mp_len m)) a then None else translate s (VirtAddr a))))
    \<and> (\<forall>p m pa n p' m' s' a. pmm_inv p \<and> as_map p m s va pa n = Some (p', m', s', Inr ()) \<longrightarrow>
         translate (fst (as_unmap s' va)) (VirtAddr a) = translate s (VirtAddr a))"
proof (intro conjI allI impI)
  show "as_inv (fst (as_unmap s va))" using inv by (rule unmap_inv)
  have "filter (\<lambda>e. fst e \<noteq> k) ms = ms" if "map_of ms k = None" for ms :: "(u64 \<times> Mapping) list" and k
    using that by (auto simp: filter_id_conv map_of_eq_None_iff image_iff)
  then have "fst (as_unmap s va) = s" if "snd (as_unmap s va) = None"
    using that by (simp add: as_unmap_def bt_remove_def bt_get_def)
  moreover have "mp_va m = va" if "snd (as_unmap s va) = Some m" for m
    using that as_inv_get [OF inv, of "va_raw va" m]
    by (simp add: as_unmap_def mapping_ok_def VirtAddr.expand)
  ultimately show "case snd (as_unmap s va) of
         None \<Rightarrow> fst (as_unmap s va) = s
       | Some m \<Rightarrow> mp_va m = va \<and> (\<forall>a. translate (fst (as_unmap s va)) (VirtAddr a) =
           (if in_range (va_raw va) (unat (mp_len m)) a then None else translate s (VirtAddr a)))"
    using unmap_translate [OF inv] by (auto simp: as_unmap_def split: option.split)
next
  fix p m pa n p' m' s' a
  assume "pmm_inv p \<and> as_map p m s va pa n = Some (p', m', s', Inr ())"
  then obtain len t where spec: "map_spec t va pa n = Inr len" and t: "as_inv t" "translate t = translate s"
    and s': "s' = add_mapping t va pa (word_of_nat len)"
    by (rule as_map_adds [OF inv])
  have "bt_get (as_mappings s') (va_raw va) = Some \<lparr>mp_va = va, mp_pa = pa, mp_len = word_of_nat len\<rparr>"
    by (simp add: s' add_mapping_def)
  then show "translate (fst (as_unmap s' va)) (VirtAddr a) = translate s (VirtAddr a)"
    using unmap_translate [of s' va _ a] add_mapping_inv [OF t(1) spec]
      add_mapping_translate [OF t(1) spec, of a] map_spec_Inr(7,8) [OF spec] t
    by (simp add: s')
qed

theorem as_unmap_correct_witness:
  "as_inv new_unmaterialised \<and> as_unmap new_unmaterialised (VirtAddr 0) = (new_unmaterialised, None)"
  using as_unmap_correct [OF as_inv_new, of "VirtAddr 0"]
  by (simp add: as_unmap_def new_unmaterialised_def bt_remove_def bt_get_def)

end
