(* ===== verification/Hyp_Utf8.thy ===== *)
theory Hyp_Utf8
  imports Hyp_Prelude
begin

text \<open>
  The parts of Rust's \<^verbatim>\<open>str\<close> and \<^verbatim>\<open>String\<close> that the kernel uses: strings as lists of
  bytes, UTF-8 validation and lossy decoding as \<^verbatim>\<open>core::str\<close> defines them, and splitting
  at a character. A \<^verbatim>\<open>str\<close> is a \<^typ>\<open>string\<close>, a \<^verbatim>\<open>[u8]\<close> a list of \<^typ>\<open>u8\<close>.
\<close>

section \<open>Bytes and characters\<close>

definition byte_of :: "char \<Rightarrow> u8" where
  "byte_of c = of_char c"

definition char_of_byte :: "u8 \<Rightarrow> char" where
  "char_of_byte b = char_of (unat b)"

definition as_bytes :: "string \<Rightarrow> u8 list" where
  "as_bytes s = map byte_of s"

definition of_bytes :: "u8 list \<Rightarrow> string" where
  "of_bytes bs = map char_of_byte bs"

section \<open>UTF-8\<close>

definition utf8_char_width :: "u8 \<Rightarrow> nat" where
  "utf8_char_width b =
     (if b < 0x80 then 1 else if b < 0xC2 then 0 else if b < 0xE0 then 2
      else if b < 0xF0 then 3 else if b < 0xF5 then 4 else 0)"

definition safe_get :: "u8 list \<Rightarrow> nat \<Rightarrow> u8" where
  "safe_get bs i = (if i < length bs then bs ! i else 0)"

definition cont_byte :: "u8 \<Rightarrow> bool" where
  "cont_byte b \<longleftrightarrow> b AND 192 = 128"

definition second3 :: "u8 \<Rightarrow> u8 \<Rightarrow> bool" where
  "second3 b c \<longleftrightarrow> (b = 0xE0 \<and> 0xA0 \<le> c \<and> c \<le> 0xBF) \<or> (0xE1 \<le> b \<and> b \<le> 0xEC \<and> 0x80 \<le> c \<and> c \<le> 0xBF)
     \<or> (b = 0xED \<and> 0x80 \<le> c \<and> c \<le> 0x9F) \<or> (0xEE \<le> b \<and> b \<le> 0xEF \<and> 0x80 \<le> c \<and> c \<le> 0xBF)"

definition second4 :: "u8 \<Rightarrow> u8 \<Rightarrow> bool" where
  "second4 b c \<longleftrightarrow> (b = 0xF0 \<and> 0x90 \<le> c \<and> c \<le> 0xBF) \<or> (0xF1 \<le> b \<and> b \<le> 0xF3 \<and> 0x80 \<le> c \<and> c \<le> 0xBF)
     \<or> (b = 0xF4 \<and> 0x80 \<le> c \<and> c \<le> 0x8F)"

text \<open>The first character of a byte string: whether it is well formed, and the number of
  bytes it or its malformed prefix takes.\<close>

definition utf8_next :: "u8 list \<Rightarrow> bool \<times> nat" where
  "utf8_next bs =
     (let b = safe_get bs 0; w = utf8_char_width b in
      if w = 1 then (True, 1)
      else if w = 2 then (if cont_byte (safe_get bs 1) then (True, 2) else (False, 1))
      else if w = 3 then
        (if \<not> second3 b (safe_get bs 1) then (False, 1)
         else if \<not> cont_byte (safe_get bs 2) then (False, 2) else (True, 3))
      else if w = 4 then
        (if \<not> second4 b (safe_get bs 1) then (False, 1)
         else if \<not> cont_byte (safe_get bs 2) then (False, 2)
         else if \<not> cont_byte (safe_get bs 3) then (False, 3) else (True, 4))
      else (False, 1))"

lemma utf8_next_pos: "0 < snd (utf8_next bs)"
  by (simp add: utf8_next_def Let_def)

function from_utf8_lossy :: "u8 list \<Rightarrow> u8 list" where
  "from_utf8_lossy bs =
     (if bs = [] then []
      else let (ok, n) = utf8_next bs in
           (if ok then take n bs else [0xEF, 0xBF, 0xBD]) @ from_utf8_lossy (drop n bs))"
  by pat_completeness auto
termination
proof (relation "measure length")
  fix bs :: "u8 list" and x ok n
  assume "bs \<noteq> []" "x = utf8_next bs" "(ok, n) = x"
  then have "0 < n" using utf8_next_pos [of bs] by (cases "utf8_next bs") auto
  then show "(drop n bs, bs) \<in> measure length" using \<open>bs \<noteq> []\<close> by (cases bs) auto
qed simp

function from_utf8_ok :: "u8 list \<Rightarrow> bool" where
  "from_utf8_ok bs \<longleftrightarrow>
     (if bs = [] then True
      else let (ok, n) = utf8_next bs in ok \<and> from_utf8_ok (drop n bs))"
  by pat_completeness auto
termination
proof (relation "measure length")
  fix bs :: "u8 list" and x ok n
  assume "bs \<noteq> []" "x = utf8_next bs" "(ok, n) = x"
  then have "0 < n" using utf8_next_pos [of bs] by (cases "utf8_next bs") auto
  then show "(drop n bs, bs) \<in> measure length" using \<open>bs \<noteq> []\<close> by (cases bs) auto
qed simp

text \<open>\<^verbatim>\<open>str::chars\<close>: the Unicode scalar values of a string, from its UTF-8 bytes.\<close>

definition utf8_scalar :: "u8 list \<Rightarrow> u32" where
  "utf8_scalar bs =
     (let b = (\<lambda>i. ucast (safe_get bs i) :: u32); w = utf8_char_width (safe_get bs 0) in
      if w = 2 then push_bit 6 (b 0 AND 31) OR (b 1 AND 63)
      else if w = 3 then push_bit 12 (b 0 AND 15) OR push_bit 6 (b 1 AND 63) OR (b 2 AND 63)
      else if w = 4 then push_bit 18 (b 0 AND 7) OR push_bit 12 (b 1 AND 63) OR push_bit 6 (b 2 AND 63) OR (b 3 AND 63)
      else b 0)"

function utf8_chars :: "u8 list \<Rightarrow> u32 list" where
  "utf8_chars bs = (if bs = [] then [] else utf8_scalar bs # utf8_chars (drop (snd (utf8_next bs)) bs))"
  by pat_completeness auto
termination
proof (relation "measure length")
  fix bs :: "u8 list"
  assume "bs \<noteq> []"
  then show "(drop (snd (utf8_next bs)) bs, bs) \<in> measure length"
    using utf8_next_pos [of bs] by (cases bs) auto
qed simp

definition chars :: "string \<Rightarrow> u32 list" where
  "chars s = utf8_chars (as_bytes s)"

declare from_utf8_lossy.simps [simp del] from_utf8_ok.simps [simp del] utf8_chars.simps [simp del]

lemma cont_byte_0 [simp]: "\<not> cont_byte 0" "\<not> second3 b 0" "\<not> second4 b 0"
  by (simp_all add: cont_byte_def second3_def second4_def)

text \<open>A well-formed character lies inside the bytes, and what follows it does not matter.\<close>

lemma utf8_next_ok:
  assumes "utf8_next bs = (True, n)" "bs \<noteq> []"
  shows "n \<le> length bs" "utf8_next (take n bs @ cs) = (True, n)"
proof -
  have z: "i < length bs" if "cont_byte (safe_get bs i)" for i
    using that by (auto simp: safe_get_def split: if_splits)
  have "1 \<le> length bs" using assms(2) by (cases bs) auto
  then show n: "n \<le> length bs"
    using assms(1) z [of 1] z [of 2] z [of 3]
    by (auto simp: utf8_next_def Let_def split: if_splits)
  have same: "safe_get (take n bs @ cs) i = safe_get bs i" if "i < n" for i
    using that n by (simp add: safe_get_def nth_append)
  have "0 < n" using utf8_next_pos [of bs] assms(1) by simp
  then show "utf8_next (take n bs @ cs) = (True, n)"
    using assms(1) same by (auto simp: utf8_next_def Let_def split: if_splits)
qed

lemma from_utf8_lossy_valid: "from_utf8_ok bs \<Longrightarrow> from_utf8_lossy bs = bs"
proof (induction bs rule: from_utf8_ok.induct)
  case (1 bs)
  show ?case
  proof (cases "bs = []")
    case False
    obtain ok n where n: "utf8_next bs = (ok, n)" by (cases "utf8_next bs")
    then have "ok" "from_utf8_ok (drop n bs)"
      using 1(2) False by (simp_all add: from_utf8_ok.simps [of bs])
    then show ?thesis using 1(1) n False by (simp add: from_utf8_lossy.simps [of bs])
  qed (simp add: from_utf8_lossy.simps)
qed

lemma from_utf8_ok_char:
  "utf8_next (c @ cs) = (True, length c) \<Longrightarrow> c \<noteq> [] \<Longrightarrow> from_utf8_ok (c @ cs) = from_utf8_ok cs"
  by (subst from_utf8_ok.simps) simp

lemma from_utf8_lossy_ok: "from_utf8_ok (from_utf8_lossy bs)"
proof (induction bs rule: from_utf8_lossy.induct)
  case (1 bs)
  show ?case
  proof (cases "bs = []")
    case False
    obtain ok n where n: "utf8_next bs = (ok, n)" by (cases "utf8_next bs")
    have "0 < n" using n utf8_next_pos [of bs] by simp
    have IH: "from_utf8_ok (from_utf8_lossy (drop n bs))" using 1 False n by simp
    show ?thesis
    proof (cases ok)
      case True
      then have "n \<le> length bs" "utf8_next (take n bs @ from_utf8_lossy (drop n bs)) = (True, n)"
        using utf8_next_ok [of bs n] n False by simp_all
      then show ?thesis
        using IH n True False \<open>0 < n\<close> from_utf8_ok_char [of "take n bs" "from_utf8_lossy (drop n bs)"]
        by (simp add: from_utf8_lossy.simps [of bs] min_def)
    next
      case bad: False
      have "utf8_next ([0xEF, 0xBF, 0xBD] @ cs) = (True, 3)" for cs
        by (simp add: utf8_next_def Let_def safe_get_def utf8_char_width_def second3_def cont_byte_def)
      then show ?thesis
        using IH n bad False from_utf8_ok_char [of "[0xEF, 0xBF, 0xBD]" "from_utf8_lossy (drop n bs)"]
        by (simp add: from_utf8_lossy.simps [of bs])
    qed
  qed (simp add: from_utf8_lossy.simps from_utf8_ok.simps)
qed

lemma from_utf8_ascii: "(\<forall>b \<in> set bs. b < 0x80) \<Longrightarrow> from_utf8_ok bs"
proof (induction bs)
  case (Cons b bs)
  then have "utf8_next ([b] @ bs) = (True, 1)"
    by (simp add: utf8_next_def Let_def safe_get_def utf8_char_width_def)
  then show ?case using Cons from_utf8_ok_char [of "[b]" bs] by simp
qed (simp add: from_utf8_ok.simps)

section \<open>Splitting strings\<close>

text \<open>\<^verbatim>\<open>s.split(c)\<close> and \<^verbatim>\<open>s.rsplit_once(c)\<close>.\<close>

fun split_char :: "char \<Rightarrow> string \<Rightarrow> string list" where
  "split_char c [] = [[]]"
| "split_char c (x # xs) =
     (if x = c then [] # split_char c xs
      else (case split_char c xs of [] \<Rightarrow> [[x]] | y # ys \<Rightarrow> (x # y) # ys))"

definition rsplit_once :: "string \<Rightarrow> char \<Rightarrow> (string \<times> string) option" where
  "rsplit_once s c =
     (case dropWhile (\<lambda>x. x \<noteq> c) (rev s) of
        [] \<Rightarrow> None
      | _ # r \<Rightarrow> Some (rev r, rev (takeWhile (\<lambda>x. x \<noteq> c) (rev s))))"

lemma split_char_nonempty: "split_char c s \<noteq> []"
  by (induction s) (auto split: list.split)

lemma split_char_sep: "split_char c (s @ c # t) = split_char c s @ split_char c t"
  by (induction s) (auto simp: split_char_nonempty split: list.split)

lemma split_char_none: "c \<notin> set s \<Longrightarrow> split_char c s = [s]"
  by (induction s) auto

lemma rsplit_once_Some:
  "rsplit_once s c = Some (a, b) \<Longrightarrow> s = a @ c # b \<and> c \<notin> set b"
proof -
  assume r: "rsplit_once s c = Some (a, b)"
  let ?d = "dropWhile (\<lambda>x. x \<noteq> c) (rev s)" and ?t = "takeWhile (\<lambda>x. x \<noteq> c) (rev s)"
  obtain x r' where d: "?d = x # r'" "a = rev r'" "b = rev ?t"
    using r by (auto simp: rsplit_once_def split: list.splits)
  then have "x = c" using hd_dropWhile [of "\<lambda>x. x \<noteq> c" "rev s"] by force
  then have "rev s = ?t @ c # r'" using d takeWhile_dropWhile_id [of "\<lambda>x. x \<noteq> c" "rev s"] by simp
  then have "s = rev (?t @ c # r')" by (metis rev_rev_ident)
  then have "s = a @ c # b" using d by simp
  moreover have "c \<notin> set b" using d set_takeWhileD by fastforce
  ultimately show ?thesis ..
qed

lemma rsplit_once_None: "rsplit_once s c = None \<longleftrightarrow> c \<notin> set s"
proof -
  have "rsplit_once s c = None \<longleftrightarrow> dropWhile (\<lambda>x. x \<noteq> c) (rev s) = []"
    unfolding rsplit_once_def by (cases "dropWhile (\<lambda>x. x \<noteq> c) (rev s)") (simp_all only: list.case, simp_all)
  then show ?thesis by (auto simp: dropWhile_eq_Nil_conv)
qed

lemma from_utf8_ok_ascii: "list_all (\<lambda>b. b < 0x80) bs \<Longrightarrow> from_utf8_ok bs"
proof (induction bs)
  case Nil
  then show ?case by (simp add: from_utf8_ok.simps)
next
  case (Cons b bs)
  then show ?case
    using from_utf8_ok_char [of "[b]" bs] by (simp add: utf8_next_def safe_get_def utf8_char_width_def)
qed

end
