(* ===== verification/Hyp_Sched.thy ===== *)
theory Hyp_Sched
  imports Hyp_Vmm Hyp_Utf8 "HOL-Library.Multiset"
begin

text \<open>
  Processes, threads and the round-robin scheduler (\<^verbatim>\<open>kernel/src/proc/process.rs\<close>,
  \<^verbatim>\<open>kernel/src/proc/thread.rs\<close>, \<^verbatim>\<open>kernel/src/proc/scheduler.rs\<close>, and \<^verbatim>\<open>IrqLock\<close> of
  \<^verbatim>\<open>kernel/src/sync.rs\<close>). The type \<open>'c\<close> is the architecture's \<^verbatim>\<open>Context\<close>, the registers a
  context switch saves and restores. The machine holds the live registers, whether
  interrupts are masked, and the scheduler's statics. A thread that is not running resumes
  either in the epilogue of the \<^verbatim>\<open>yield_now\<close> call that suspended it, which restores the
  interrupt mask saved in its frame, or in the trampoline; \<open>th_resume\<close> records which.
\<close>

section \<open>Processes\<close>

record Process =
  pr_pid :: u64
  pr_name :: string
  pr_aspace :: AddressSpace

record ProcTable =
  pt_next_pid :: u64
  pt_processes :: "(u64, Process) btree"

definition proctable_new :: ProcTable where
  "proctable_new = \<lparr>pt_next_pid = 1, pt_processes = []\<rparr>"

definition alloc_pid :: "ProcTable \<Rightarrow> ProcTable \<times> u64" where
  "alloc_pid t = (t\<lparr>pt_next_pid := pt_next_pid t + 1\<rparr>, pt_next_pid t)"

definition new_kernel :: "ProcTable \<Rightarrow> string \<Rightarrow> ProcTable \<times> Process" where
  "new_kernel t name =
     (let (t', pid) = alloc_pid t in (t', \<lparr>pr_pid = pid, pr_name = name, pr_aspace = new_unmaterialised\<rparr>))"

definition process_init :: "ProcTable \<Rightarrow> ProcTable" where
  "process_init t =
     (let (t', k) = new_kernel t ''kernel'' in
      t'\<lparr>pt_processes := bt_insert (pt_processes t') (pr_pid k) k\<rparr>)"

definition kernel_pid :: "ProcTable \<Rightarrow> u64 option" where
  "kernel_pid t = (case bt_keys (pt_processes t) of [] \<Rightarrow> None | k # _ \<Rightarrow> Some k)"

definition process_list :: "ProcTable \<Rightarrow> (u64 \<times> string) list" where
  "process_list t = map (\<lambda>(p, proc). (p, pr_name proc)) (pt_processes t)"

section \<open>Threads\<close>

datatype ThreadState = Ready | Running | Blocked | Exited

definition STACK_SIZE :: usize where "STACK_SIZE = 16 * 1024"

datatype Resume = Trampoline | YieldReturn bool

record 'c Thread =
  th_tid :: u64
  th_name :: string
  th_state :: ThreadState
  th_ctx :: 'c
  th_pid :: u64
  th_stack :: usize
  th_resume :: Resume

text \<open>\<open>initc entry arg stack_top\<close> is the context that \<^verbatim>\<open>init_context\<close> builds, \<open>sp\<close> the address
  of the stack the heap returned, \<open>tid\<close> the id \<^verbatim>\<open>alloc_tid\<close> returned.\<close>

definition thread_new ::
  "(usize \<Rightarrow> usize \<Rightarrow> usize \<Rightarrow> 'c) \<Rightarrow> u64 \<Rightarrow> string \<Rightarrow> u64 \<Rightarrow> usize \<Rightarrow> usize \<Rightarrow> usize \<Rightarrow> 'c Thread" where
  "thread_new initc tid name pid entry arg sp =
     \<lparr>th_tid = tid, th_name = name, th_state = Ready, th_ctx = initc entry arg (sp + STACK_SIZE),
      th_pid = pid, th_stack = sp, th_resume = Trampoline\<rparr>"

definition boot_thread :: "'c \<Rightarrow> u64 \<Rightarrow> u64 \<Rightarrow> 'c Thread" where
  "boot_thread dflt tid pid =
     \<lparr>th_tid = tid, th_name = ''boot'', th_state = Running, th_ctx = dflt, th_pid = pid,
      th_stack = 0, th_resume = Trampoline\<rparr>"

section \<open>The scheduler\<close>

record 'c Sched =
  sc_current :: "'c Thread option"
  sc_ready :: "'c Thread list"
  sc_need_resched :: bool

record 'c Machine =
  k_regs :: 'c
  k_masked :: bool
  k_sched :: "'c Sched"
  k_next_tid :: u64
  k_procs :: ProcTable

definition sched_new :: "'c Sched" where
  "sched_new = \<lparr>sc_current = None, sc_ready = [], sc_need_resched = False\<rparr>"

definition alloc_tid :: "'c Machine \<Rightarrow> 'c Machine \<times> u64" where
  "alloc_tid k = (k\<lparr>k_next_tid := k_next_tid k + 1\<rparr>, k_next_tid k)"

definition sched_init :: "'c \<Rightarrow> 'c Machine \<Rightarrow> 'c Machine option" where
  "sched_init dflt k = do {
     pid \<leftarrow> kernel_pid (k_procs k);
     let (k, tid) = alloc_tid k;
     Some (k\<lparr>k_sched := (k_sched k)\<lparr>sc_current := Some (boot_thread dflt tid pid)\<rparr>\<rparr>)
   }"

definition spawn ::
  "(usize \<Rightarrow> usize \<Rightarrow> usize \<Rightarrow> 'c) \<Rightarrow> usize \<Rightarrow> 'c Machine \<Rightarrow> string \<Rightarrow> usize \<Rightarrow> usize
     \<Rightarrow> ('c Machine \<times> u64) option" where
  "spawn initc sp k name entry arg = do {
     pid \<leftarrow> kernel_pid (k_procs k);
     let (k, tid) = alloc_tid k;
     let t = thread_new initc tid name pid entry arg sp;
     Some (k\<lparr>k_sched := (k_sched k)\<lparr>sc_ready := sc_ready (k_sched k) @ [t]\<rparr>\<rparr>, tid)
   }"

definition sched_on_tick :: "'c Machine \<Rightarrow> 'c Machine" where
  "sched_on_tick k = k\<lparr>k_sched := (k_sched k)\<lparr>sc_need_resched := True\<rparr>\<rparr>"

text \<open>\<^verbatim>\<open>IrqLock::new\<close> and its \<^verbatim>\<open>drop\<close>.\<close>

definition irq_lock :: "'c Machine \<Rightarrow> 'c Machine \<times> bool" where
  "irq_lock k = (k\<lparr>k_masked := True\<rparr>, k_masked k)"

definition irq_unlock :: "'c Machine \<Rightarrow> bool \<Rightarrow> 'c Machine" where
  "irq_unlock k saved = k\<lparr>k_masked := saved\<rparr>"

text \<open>What runs after the registers of thread \<open>t\<close> have been loaded.\<close>

definition resume :: "'c Machine \<Rightarrow> 'c Thread \<Rightarrow> 'c Machine" where
  "resume k t = (case th_resume t of
     Trampoline \<Rightarrow> k\<lparr>k_regs := th_ctx t\<rparr>
   | YieldReturn saved \<Rightarrow> irq_unlock (k\<lparr>k_regs := th_ctx t\<rparr>) saved)"

definition yield_now :: "'c Machine \<Rightarrow> 'c Machine option" where
  "yield_now k = (
     let (k, saved) = irq_lock k;
         s = (k_sched k)\<lparr>sc_need_resched := False\<rparr> in
     case sc_ready s of
       [] \<Rightarrow> Some (irq_unlock (k\<lparr>k_sched := s\<rparr>) saved)
     | next # rest \<Rightarrow> do {
         current \<leftarrow> sc_current s;
         let current = current\<lparr>th_state := Ready, th_ctx := k_regs k, th_resume := YieldReturn saved\<rparr>;
         let next = next\<lparr>th_state := Running\<rparr>;
         Some (resume (k\<lparr>k_sched := s\<lparr>sc_ready := rest @ [current], sc_current := Some next\<rparr>\<rparr>) next)
       })"

text \<open>\<^verbatim>\<open>exit_current\<close> also returns the thread whose box it drops.\<close>

definition exit_current :: "'c Machine \<Rightarrow> ('c Machine \<times> 'c Thread option) option" where
  "exit_current k = (
     let s = k_sched k;
         s = s\<lparr>sc_current := map_option (\<lambda>t. t\<lparr>th_state := Exited\<rparr>) (sc_current s)\<rparr>;
         (k, saved) = irq_lock (k\<lparr>k_sched := s\<rparr>) in
     case sc_ready s of
       [] \<Rightarrow> None
     | next # rest \<Rightarrow>
         let next = next\<lparr>th_state := Running\<rparr> in
         Some (resume (k\<lparr>k_sched := s\<lparr>sc_ready := rest, sc_current := Some next\<rparr>\<rparr>) next, sc_current s))"

text \<open>One turn of the loop of \<^verbatim>\<open>run\<close>; waiting for an interrupt does not change the state.\<close>

definition run_step :: "'c Machine \<Rightarrow> 'c Machine option" where
  "run_step k = (if sc_ready (k_sched k) \<noteq> [] then yield_now k else Some k)"

definition snapshot :: "'c Machine \<Rightarrow> (u64 \<times> string \<times> ThreadState) list" where
  "snapshot k =
     (case sc_current (k_sched k) of None \<Rightarrow> [] | Some c \<Rightarrow> [(th_tid c, th_name c, th_state c)])
     @ map (\<lambda>t. (th_tid t, th_name t, th_state t)) (sc_ready (k_sched k))"

definition proc_init :: "'c \<Rightarrow> 'c Machine \<Rightarrow> 'c Machine option" where
  "proc_init dflt k = sched_init dflt (k\<lparr>k_procs := process_init (k_procs k)\<rparr>)"

section \<open>Runs of the machine\<close>

text \<open>A step is one scheduler call, or the running thread changing its own registers and
  interrupt mask.\<close>

inductive sched_step :: "'c Machine \<Rightarrow> 'c Machine \<Rightarrow> bool" where
  exec: "sched_step k (k\<lparr>k_regs := r, k_masked := m\<rparr>)"
| tick: "sched_step k (sched_on_tick k)"
| yield: "yield_now k = Some k' \<Longrightarrow> sched_step k k'"
| spawn: "spawn initc sp k name entry arg = Some (k', tid) \<Longrightarrow> k_next_tid k \<noteq> - 1 \<Longrightarrow> sched_step k k'"
| exit: "exit_current k = Some (k', t) \<Longrightarrow> sched_step k k'"

inductive_cases sched_stepE: "sched_step k k'"

definition threads :: "'c Machine \<Rightarrow> 'c Thread list" where
  "threads k = (case sc_current (k_sched k) of None \<Rightarrow> [] | Some c \<Rightarrow> [c]) @ sc_ready (k_sched k)"

definition sched_inv :: "'c Machine \<Rightarrow> bool" where
  "sched_inv k \<longleftrightarrow>
     (\<exists>c. sc_current (k_sched k) = Some c \<and> th_state c = Running)
     \<and> (\<forall>t \<in> set (sc_ready (k_sched k)). th_state t = Ready)
     \<and> distinct (map th_tid (threads k))
     \<and> (\<forall>t \<in> set (threads k). th_tid t < k_next_tid k)
     \<and> kernel_pid (k_procs k) \<noteq> None"

section \<open>The effect of each call\<close>

text \<open>The thread \<open>t\<close> as \<^verbatim>\<open>yield_now\<close> leaves it in the queue.\<close>

definition suspended :: "'c Machine \<Rightarrow> 'c Thread \<Rightarrow> 'c Thread" where
  "suspended k t = t\<lparr>th_state := Ready, th_ctx := k_regs k, th_resume := YieldReturn (k_masked k)\<rparr>"

lemma resume_simps [simp]:
  "k_sched (resume k t) = k_sched k" "k_next_tid (resume k t) = k_next_tid k"
  "k_procs (resume k t) = k_procs k" "k_regs (resume k t) = th_ctx t"
  by (simp_all add: resume_def irq_unlock_def split: Resume.split)

lemma yield_idle:
  "sc_ready (k_sched k) = [] \<Longrightarrow>
     yield_now k = Some (k\<lparr>k_sched := (k_sched k)\<lparr>sc_need_resched := False\<rparr>\<rparr>)"
  by (simp add: yield_now_def irq_lock_def irq_unlock_def Let_def)

lemma yield_switch:
  assumes "sc_current (k_sched k) = Some c" "sc_ready (k_sched k) = n # rest"
  shows "yield_now k = Some (resume (k\<lparr>k_masked := True, k_sched := \<lparr>sc_current = Some (n\<lparr>th_state := Running\<rparr>),
     sc_ready = rest @ [suspended k c], sc_need_resched = False\<rparr>\<rparr>) (n\<lparr>th_state := Running\<rparr>))"
  using assms by (cases "k_sched k") (simp add: yield_now_def irq_lock_def Let_def suspended_def)

lemma exit_switch:
  assumes "sc_current (k_sched k) = Some c" "sc_ready (k_sched k) = n # rest"
  shows "exit_current k = Some (resume (k\<lparr>k_masked := True, k_sched := (k_sched k)\<lparr>
     sc_current := Some (n\<lparr>th_state := Running\<rparr>), sc_ready := rest\<rparr>\<rparr>) (n\<lparr>th_state := Running\<rparr>),
     Some (c\<lparr>th_state := Exited\<rparr>))"
  using assms by (cases "k_sched k") (simp add: exit_current_def irq_lock_def Let_def)

lemma exit_None: "exit_current k = None \<longleftrightarrow> sc_ready (k_sched k) = []"
  by (auto simp: exit_current_def irq_lock_def Let_def split: list.split)

lemma sched_invE:
  assumes "sched_inv k"
  obtains c where "sc_current (k_sched k) = Some c" "th_state c = Running"
    "threads k = c # sc_ready (k_sched k)"
  using assms by (auto simp: sched_inv_def threads_def)

lemma yield_inv [inv_rules]:
  assumes "sched_inv k" "yield_now k = Some k'"
  shows "sched_inv k'" "mset (map th_tid (threads k')) = mset (map th_tid (threads k))"
proof -
  obtain c where c: "sc_current (k_sched k) = Some c" "th_state c = Running"
      "threads k = c # sc_ready (k_sched k)" using assms(1) by (rule sched_invE)
  have "sched_inv k' \<and> mset (map th_tid (threads k')) = mset (map th_tid (threads k))"
  proof (cases "sc_ready (k_sched k)")
    case Nil
    then show ?thesis using assms c by (auto simp: yield_idle sched_inv_def threads_def)
  next
    case (Cons n rest)
    have k': "k_sched k' = \<lparr>sc_current = Some (n\<lparr>th_state := Running\<rparr>),
        sc_ready = rest @ [suspended k c], sc_need_resched = False\<rparr>"
      "k_next_tid k' = k_next_tid k" "k_procs k' = k_procs k"
      using assms(2) yield_switch [OF c(1) Cons] by auto
    then show ?thesis
      using assms(1) c Cons by (auto simp: sched_inv_def threads_def suspended_def)
  qed
  then show "sched_inv k'" "mset (map th_tid (threads k')) = mset (map th_tid (threads k))" by auto
qed

lemma exit_inv [inv_rules]:
  assumes "sched_inv k" "exit_current k = Some (k', t)"
  shows "sched_inv k'" "map th_tid (threads k) = th_tid (the t) # map th_tid (threads k')"
proof -
  obtain c where c: "sc_current (k_sched k) = Some c" "th_state c = Running"
      "threads k = c # sc_ready (k_sched k)" using assms(1) by (rule sched_invE)
  obtain n rest where r: "sc_ready (k_sched k) = n # rest"
    using assms(2) exit_None [of k] by (cases "sc_ready (k_sched k)") auto
  have k': "k_sched k' = (k_sched k)\<lparr>sc_current := Some (n\<lparr>th_state := Running\<rparr>), sc_ready := rest\<rparr>"
      "k_next_tid k' = k_next_tid k" "k_procs k' = k_procs k" "t = Some (c\<lparr>th_state := Exited\<rparr>)"
    using assms(2) exit_switch [OF c(1) r] by auto
  then show "sched_inv k'" "map th_tid (threads k) = th_tid (the t) # map th_tid (threads k')"
    using assms(1) c r by (auto simp: sched_inv_def threads_def)
qed

lemma spawn_inv [inv_rules]:
  assumes "sched_inv k" "k_next_tid k \<noteq> - 1" "spawn initc sp k name entry arg = Some (k', tid)"
  shows "sched_inv k'" "map th_tid (threads k') = map th_tid (threads k) @ [tid]"
proof -
  obtain pid where pid: "kernel_pid (k_procs k) = Some pid" using assms(1) by (auto simp: sched_inv_def)
  have lt: "x < k_next_tid k + 1" if "x \<le> k_next_tid k" for x
    using that unat_succ [OF assms(2)] by (simp add: word_less_nat_alt word_le_nat_alt)
  have k': "k' = k\<lparr>k_next_tid := k_next_tid k + 1, k_sched := (k_sched k)\<lparr>sc_ready := sc_ready (k_sched k)
      @ [thread_new initc (k_next_tid k) name pid entry arg sp]\<rparr>\<rparr>" "tid = k_next_tid k"
    using assms(3) pid by (auto simp: spawn_def alloc_tid_def)
  then show "sched_inv k'" "map th_tid (threads k') = map th_tid (threads k) @ [tid]"
    using assms(1) by (auto simp: sched_inv_def threads_def thread_new_def intro!: lt intro: less_imp_le)
qed

lemma sched_step_inv [inv_rules]: "sched_step k k' \<Longrightarrow> sched_inv k \<Longrightarrow> sched_inv k'"
proof (induction rule: sched_step.induct)
  case (exec k r m)
  then show ?case by (simp add: sched_inv_def threads_def)
next
  case (tick k)
  then show ?case by (simp add: sched_inv_def threads_def sched_on_tick_def)
qed (auto intro: yield_inv exit_inv spawn_inv)

section \<open>Turns\<close>

text \<open>\<open>n\<close> turns: before the \<open>j\<close>-th call of \<^verbatim>\<open>yield_now\<close> the running thread leaves the registers
  and the interrupt mask as \<open>env j\<close> says.\<close>

primrec turns :: "(nat \<Rightarrow> 'c \<times> bool) \<Rightarrow> nat \<Rightarrow> 'c Machine \<Rightarrow> 'c Machine option" where
  "turns env 0 k = Some k"
| "turns env (Suc j) k = do {
     k \<leftarrow> turns env j k;
     yield_now (k\<lparr>k_regs := fst (env j), k_masked := snd (env j)\<rparr>)
   }"

lemma sched_inv_exec [simp]: "sched_inv (k\<lparr>k_regs := r, k_masked := m\<rparr>) = sched_inv k"
  by (simp add: sched_inv_def threads_def)

lemma turns_queue:
  assumes "sched_inv k" "j \<le> length (sc_ready (k_sched k))"
  shows "\<exists>k' ys. turns env j k = Some k' \<and> sched_inv k' \<and> length ys = j
    \<and> sc_ready (k_sched k') = drop j (sc_ready (k_sched k)) @ ys"
  using assms(2)
proof (induction j)
  case (Suc j)
  then obtain k' ys where k': "turns env j k = Some k'" "sched_inv k'" "length ys = j"
      "sc_ready (k_sched k') = drop j (sc_ready (k_sched k)) @ ys" by auto
  let ?k = "k'\<lparr>k_regs := fst (env j), k_masked := snd (env j)\<rparr>"
  obtain n rest where n: "drop j (sc_ready (k_sched k)) = n # rest"
    using Suc.prems by (metis Cons_nth_drop_Suc Suc_le_lessD)
  then have rest: "drop (Suc j) (sc_ready (k_sched k)) = rest" by (metis drop_Suc list.sel(3) tl_drop)
  obtain c where c: "sc_current (k_sched k') = Some c" using k'(2) by (rule sched_invE)
  obtain k'' where y: "yield_now ?k = Some k''" "sc_ready (k_sched k'') = rest @ ys @ [suspended ?k c]"
    using yield_switch [of ?k c n "rest @ ys"] k'(4) n c by simp
  then show ?case
    using k' rest yield_inv(1) [of ?k k''] by (intro exI [of _ k''] exI [of _ "ys @ [suspended ?k c]"]) simp
qed (use assms(1) in simp)

lemma turns_reach:
  assumes "sched_inv k" "i < length (sc_ready (k_sched k))"
  shows "\<exists>k'. turns env (Suc i) k = Some k' \<and> sched_inv k'
    \<and> sc_current (k_sched k') = Some ((sc_ready (k_sched k) ! i)\<lparr>th_state := Running\<rparr>)
    \<and> k_regs k' = th_ctx (sc_ready (k_sched k) ! i)
    \<and> (case th_resume (sc_ready (k_sched k) ! i) of
         Trampoline \<Rightarrow> k_masked k' | YieldReturn m \<Rightarrow> k_masked k' = m)"
proof -
  obtain k1 ys where k1: "turns env i k = Some k1" "sched_inv k1"
      "sc_ready (k_sched k1) = drop i (sc_ready (k_sched k)) @ ys"
    using turns_queue [OF assms(1), of i env] assms(2) by auto
  let ?k = "k1\<lparr>k_regs := fst (env i), k_masked := snd (env i)\<rparr>" and ?n = "sc_ready (k_sched k) ! i"
  obtain rest where n: "sc_ready (k_sched k1) = ?n # rest"
    using k1(3) Cons_nth_drop_Suc [OF assms(2)] by (metis append_Cons)
  obtain c where c: "sc_current (k_sched k1) = Some c" using k1(2) by (rule sched_invE)
  obtain k' where k': "yield_now ?k = Some k'" "sc_current (k_sched k') = Some (?n\<lparr>th_state := Running\<rparr>)"
      "k_regs k' = th_ctx ?n"
      "case th_resume ?n of Trampoline \<Rightarrow> k_masked k' | YieldReturn m \<Rightarrow> k_masked k' = m"
    using yield_switch [of ?k c ?n rest] n c
    by (auto simp: resume_def irq_unlock_def split: Resume.split)
  then show ?thesis using k1 yield_inv(1) [of ?k k'] by (intro exI [of _ k']) simp
qed

lemma turns_Suc_left:
  "turns env (Suc j) k = do {
     k \<leftarrow> yield_now (k\<lparr>k_regs := fst (env 0), k_masked := snd (env 0)\<rparr>);
     turns (\<lambda>i. env (Suc i)) j k }"
  by (induction j) (simp_all add: bind_assoc)

section \<open>Boot\<close>

text \<open>The machine before \<^verbatim>\<open>proc::init\<close>: registers \<open>r\<close>, interrupts masked, empty statics.\<close>

definition machine_new :: "'c \<Rightarrow> 'c Machine" where
  "machine_new r = \<lparr>k_regs = r, k_masked = True, k_sched = sched_new, k_next_tid = 1,
     k_procs = proctable_new\<rparr>"

lemma proc_init_ok: "\<exists>k. proc_init dflt (machine_new r) = Some k \<and> sched_inv k"
  by (simp add: proc_init_def machine_new_def sched_new_def proctable_new_def process_init_def
      new_kernel_def alloc_pid_def sched_init_def kernel_pid_def bt_keys_def alloc_tid_def
      boot_thread_def sched_inv_def threads_def)

text \<open>A machine with the boot thread and two spawned threads; a context is one number.\<close>

definition demo_machine :: "nat Machine" where
  "demo_machine = the (do {
     k \<leftarrow> proc_init 0 (machine_new 0);
     (k, _) \<leftarrow> spawn (\<lambda>e a s. unat e) 0x1000 k ''a'' 11 0;
     (k, _) \<leftarrow> spawn (\<lambda>e a s. unat e) 0x9000 k ''b'' 12 0;
     Some k })"

lemma demo_machine_inv: "sched_inv demo_machine" and demo_ready:
    "map th_tid (sc_ready (k_sched demo_machine)) = [2, 3]"
    "map_option th_tid (sc_current (k_sched demo_machine)) = Some 1"
  by (simp_all add: demo_machine_def proc_init_def machine_new_def sched_new_def proctable_new_def
      process_init_def new_kernel_def alloc_pid_def sched_init_def kernel_pid_def bt_keys_def
      alloc_tid_def boot_thread_def sched_inv_def threads_def spawn_def thread_new_def)

section \<open>Properties\<close>

text \<open>C14: in every state the machine reaches from boot by register changes, timer ticks, yields,
  spawns and exits there is exactly one running thread, the current one; every queued thread
  is ready; thread ids are unique; \<^verbatim>\<open>yield_now\<close> never panics; and \<^verbatim>\<open>exit_current\<close> panics
  exactly when no other thread is ready.\<close>

theorem scheduler_invariant:
  assumes "proc_init dflt (machine_new r) = Some k0" and "sched_step\<^sup>*\<^sup>* k0 k"
  shows "sched_inv k \<and> length (filter (\<lambda>t. th_state t = Running) (threads k)) = 1
    \<and> yield_now k \<noteq> None \<and> (exit_current k = None \<longleftrightarrow> sc_ready (k_sched k) = [])"
proof -
  have "sched_inv k0" using proc_init_ok [of dflt r] assms(1) by auto
  with assms(2) have inv: "sched_inv k"
    by (induction rule: rtranclp_induct) (auto intro: sched_step_inv)
  then obtain c where c: "sc_current (k_sched k) = Some c" "th_state c = Running"
      "threads k = c # sc_ready (k_sched k)" by (rule sched_invE)
  have "filter (\<lambda>t. th_state t = Running) (sc_ready (k_sched k)) = []"
    using inv by (auto simp: sched_inv_def filter_empty_conv)
  moreover have "yield_now k \<noteq> None"
    by (cases "sc_ready (k_sched k)") (simp_all add: yield_idle yield_switch [OF c(1)])
  ultimately show ?thesis using inv c by (simp add: exit_None)
qed

theorem scheduler_invariant_witness:
  "\<exists>k. proc_init (0::nat) (machine_new 0) = Some k \<and> sched_step\<^sup>*\<^sup>* k (sched_on_tick k)
     \<and> yield_now (sched_on_tick k) \<noteq> None"
proof -
  obtain k where k: "proc_init (0::nat) (machine_new 0) = Some k" using proc_init_ok [of 0 0] by blast
  moreover have s: "sched_step\<^sup>*\<^sup>* k (sched_on_tick k)" by (simp add: r_into_rtranclp sched_step.tick)
  ultimately show ?thesis using scheduler_invariant [OF k s] by blast
qed

text \<open>C15: round robin. With \<open>n\<close> ready threads, the \<open>i\<close>-th of them runs after \<open>i + 1\<close> yields, and
  a thread that yields runs again after \<open>n\<close> further yields, with its registers and its
  interrupt mask exactly as it left them, whatever the other threads do to theirs.\<close>

theorem round_robin:
  assumes inv: "sched_inv k" and c: "sc_current (k_sched k) = Some c"
  defines "n \<equiv> length (sc_ready (k_sched k))"
  shows "(\<forall>i < n. \<exists>k'. turns env (Suc i) k = Some k'
      \<and> map_option th_tid (sc_current (k_sched k')) = Some (th_tid (sc_ready (k_sched k) ! i)))
    \<and> (\<exists>k'. turns env (Suc n) k = Some k'
      \<and> map_option th_tid (sc_current (k_sched k')) = Some (th_tid c)
      \<and> (0 < n \<longrightarrow> k_regs k' = fst (env 0) \<and> k_masked k' = snd (env 0)))"
proof (intro conjI allI impI)
  fix i assume "i < n"
  then show "\<exists>k'. turns env (Suc i) k = Some k'
      \<and> map_option th_tid (sc_current (k_sched k')) = Some (th_tid (sc_ready (k_sched k) ! i))"
    using turns_reach [OF inv, of i env] by (auto simp: n_def)
next
  let ?k = "k\<lparr>k_regs := fst (env 0), k_masked := snd (env 0)\<rparr>"
  show "\<exists>k'. turns env (Suc n) k = Some k'
      \<and> map_option th_tid (sc_current (k_sched k')) = Some (th_tid c)
      \<and> (0 < n \<longrightarrow> k_regs k' = fst (env 0) \<and> k_masked k' = snd (env 0))"
  proof (cases "sc_ready (k_sched k)")
    case Nil
    then show ?thesis using c by (simp add: n_def turns_Suc_left yield_idle)
  next
    case (Cons t rest)
    obtain k1 where k1: "yield_now ?k = Some k1" "sc_ready (k_sched k1) = rest @ [suspended ?k c]"
      using yield_switch [of ?k c t rest] c Cons by auto
    have inv1: "sched_inv k1" using yield_inv(1) [of ?k k1] inv k1(1) by simp
    have "length rest < length (sc_ready (k_sched k1))" using k1(2) by simp
    note reach = turns_reach [OF inv1 this, of "\<lambda>i. env (Suc i)"]
    have "turns env (Suc n) k = turns (\<lambda>i. env (Suc i)) (Suc (length rest)) k1"
      unfolding turns_Suc_left [of env] using k1(1) Cons by (simp add: n_def del: turns.simps)
    with reach show ?thesis
      using k1(2) by (auto simp: suspended_def nth_append simp del: turns.simps)
  qed
qed

theorem round_robin_witness:
  "\<exists>k'. turns (\<lambda>j. (j, False)) 3 demo_machine = Some k'
     \<and> map_option th_tid (sc_current (k_sched k')) = Some 1 \<and> k_regs k' = 0 \<and> \<not> k_masked k'"
proof -
  obtain c where c: "sc_current (k_sched demo_machine) = Some c" "th_tid c = 1"
    using demo_ready(2) by auto
  have "length (sc_ready (k_sched demo_machine)) = 2" using arg_cong [OF demo_ready(1), of length] by simp
  then show ?thesis
    using round_robin [OF demo_machine_inv c(1), of "\<lambda>j. (j, False)"] c(2) by (simp add: numeral_3_eq_3)
qed

text \<open>C16: a spawned thread starts with the registers \<^verbatim>\<open>init_context\<close> built for it when its turn
  comes, and it starts with interrupts masked: the mask that \<^verbatim>\<open>yield_now\<close> sets is restored
  only by a thread that returns from its own \<^verbatim>\<open>yield_now\<close>.\<close>

theorem spawned_thread_starts:
  assumes inv: "sched_inv k" and "k_next_tid k \<noteq> - 1"
    and sp: "spawn initc stack k name entry arg = Some (k1, tid)"
  shows "\<exists>k'. turns env (Suc (length (sc_ready (k_sched k)))) k1 = Some k'
    \<and> map_option th_tid (sc_current (k_sched k')) = Some tid
    \<and> k_regs k' = initc entry arg (stack + STACK_SIZE) \<and> k_masked k'"
proof -
  obtain pid where "kernel_pid (k_procs k) = Some pid" using inv by (auto simp: sched_inv_def)
  then have r: "sc_ready (k_sched k1) = sc_ready (k_sched k) @ [thread_new initc tid name pid entry arg stack]"
    using sp by (auto simp: spawn_def alloc_tid_def)
  have "length (sc_ready (k_sched k)) < length (sc_ready (k_sched k1))" using r by simp
  from turns_reach [OF spawn_inv(1) [OF assms] this, of env] show ?thesis
    by (auto simp: r nth_append thread_new_def)
qed

theorem spawned_thread_starts_witness:
  "\<exists>k1 k'. spawn (\<lambda>e a s. unat e) 0x8000 demo_machine ''c'' 77 0 = Some (k1, 4)
     \<and> turns (\<lambda>j. (j, False)) 3 k1 = Some k' \<and> k_regs k' = 77 \<and> k_masked k'"
proof -
  have d: "kernel_pid (k_procs demo_machine) = Some 1" "k_next_tid demo_machine = 4"
    by (simp_all add: demo_machine_def proc_init_def machine_new_def sched_new_def proctable_new_def
      process_init_def new_kernel_def alloc_pid_def sched_init_def kernel_pid_def bt_keys_def
      alloc_tid_def boot_thread_def spawn_def thread_new_def)
  obtain k1 where k1: "spawn (\<lambda>e a s. unat e) 0x8000 demo_machine ''c'' 77 0 = Some (k1, 4)"
    using d by (auto simp: spawn_def alloc_tid_def)
  have "length (sc_ready (k_sched demo_machine)) = 2" using arg_cong [OF demo_ready(1), of length] by simp
  then show ?thesis
    using spawned_thread_starts [OF demo_machine_inv _ k1, of "\<lambda>j. (j, False)"] d k1
    by (auto simp: numeral_3_eq_3)
qed

end
