(* ===== verification/Hyp_Ramfs.thy ===== *)
theory Hyp_Ramfs
  imports Hyp_BTree "HOL-Library.List_Lexorder" "HOL-Library.Char_ord"
begin

text \<open>
  The in-memory file system (\<^verbatim>\<open>kernel/src/fs/inode.rs\<close>, \<^verbatim>\<open>kernel/src/fs/ramfs.rs\<close>).
  Inodes are shared through \<^verbatim>\<open>Arc<dyn Inode>\<close>; they live in a list and a reference is an
  index into it. Directory entries always point to younger inodes, so the references form a
  tree. The locale \<open>file_tree\<close> states what path resolution needs of an \<^verbatim>\<open>Inode\<close>
  implementation; it is interpreted on the ramfs operations.
\<close>

section \<open>Inodes\<close>

datatype FsError = NotFound | NotADirectory | AlreadyExists | InvalidPath | Io | NotEmpty

datatype FileType = Regular | Directory

type_synonym inode_ref = nat

datatype NodeData = FileData "u8 list" | DirData "(string, inode_ref) btree"

record RamNode =
  rn_name :: string
  rn_data :: NodeData

type_synonym store = "RamNode list"

definition new_file :: "string \<Rightarrow> u8 list \<Rightarrow> RamNode" where
  "new_file name contents = \<lparr>rn_name = name, rn_data = FileData contents\<rparr>"

definition new_dir :: "string \<Rightarrow> RamNode" where
  "new_dir name = \<lparr>rn_name = name, rn_data = DirData []\<rparr>"

definition inode_ftype :: "store \<Rightarrow> inode_ref \<Rightarrow> FileType" where
  "inode_ftype s i = (case rn_data (s ! i) of FileData v \<Rightarrow> Regular | DirData m \<Rightarrow> Directory)"

definition inode_name :: "store \<Rightarrow> inode_ref \<Rightarrow> string" where
  "inode_name s i = rn_name (s ! i)"

definition inode_size :: "store \<Rightarrow> inode_ref \<Rightarrow> usize" where
  "inode_size s i =
     (case rn_data (s ! i) of FileData v \<Rightarrow> word_of_nat (length v) | DirData m \<Rightarrow> word_of_nat (length m))"

text \<open>\<^verbatim>\<open>read_at\<close> returns the count and the buffer it has filled.\<close>

definition inode_read_at ::
  "store \<Rightarrow> inode_ref \<Rightarrow> usize \<Rightarrow> u8 list \<Rightarrow> (FsError + (usize \<times> u8 list)) option" where
  "inode_read_at s i offset buf =
     (case rn_data (s ! i) of
        FileData v \<Rightarrow>
          if word_of_nat (length v) \<le> offset then Some (Inr (0, buf))
          else do {
            let n = min (word_of_nat (length v) - offset) (word_of_nat (length buf));
            part \<leftarrow> sub_slice v offset (offset + n);
            buf' \<leftarrow> copy_at buf 0 n part;
            Some (Inr (n, buf'))
          }
      | DirData m \<Rightarrow> Some (Inl Io))"

text \<open>\<^verbatim>\<open>Vec::resize\<close> panics when the new length is above \<^verbatim>\<open>isize::MAX\<close>.\<close>

definition vec_resize :: "'a list \<Rightarrow> usize \<Rightarrow> 'a \<Rightarrow> 'a list option" where
  "vec_resize v n x = (if unat n < 2 ^ 63
     then Some (take (unat n) v @ replicate (unat n - length v) x) else None)"

definition inode_write_at ::
  "store \<Rightarrow> inode_ref \<Rightarrow> usize \<Rightarrow> u8 list \<Rightarrow> (store \<times> (FsError + usize)) option" where
  "inode_write_at s i offset buf =
     (case rn_data (s ! i) of
        FileData v \<Rightarrow> do {
          let fin = offset + word_of_nat (length buf);
          v' \<leftarrow> (if word_of_nat (length v) < fin then vec_resize v fin 0 else Some v);
          v'' \<leftarrow> copy_at v' offset fin buf;
          Some (s[i := (s ! i)\<lparr>rn_data := FileData v''\<rparr>], Inr (word_of_nat (length buf)))
        }
      | DirData m \<Rightarrow> Some (s, Inl Io))"

definition inode_list :: "store \<Rightarrow> inode_ref \<Rightarrow> string list" where
  "inode_list s i = (case rn_data (s ! i) of DirData m \<Rightarrow> bt_keys m | FileData v \<Rightarrow> [])"

definition inode_lookup :: "store \<Rightarrow> inode_ref \<Rightarrow> string \<Rightarrow> inode_ref option" where
  "inode_lookup s i name = (case rn_data (s ! i) of DirData m \<Rightarrow> bt_get m name | FileData v \<Rightarrow> None)"

text \<open>Both \<^verbatim>\<open>create_file\<close> and \<^verbatim>\<open>create_dir\<close> allocate a node and enter it under its name.\<close>

definition inode_create_file ::
  "store \<Rightarrow> inode_ref \<Rightarrow> string \<Rightarrow> u8 list \<Rightarrow> store \<times> (FsError + inode_ref)" where
  "inode_create_file s i name contents =
     (case rn_data (s ! i) of
        DirData m \<Rightarrow>
          if bt_get m name \<noteq> None then (s, Inl AlreadyExists)
          else let n = length s; s' = s @ [new_file name contents] in
               (s'[i := (s' ! i)\<lparr>rn_data := DirData (bt_insert m name n)\<rparr>], Inr n)
      | FileData v \<Rightarrow> (s, Inl NotADirectory))"

definition inode_create_dir :: "store \<Rightarrow> inode_ref \<Rightarrow> string \<Rightarrow> store \<times> (FsError + inode_ref)" where
  "inode_create_dir s i name =
     (case rn_data (s ! i) of
        DirData m \<Rightarrow>
          if bt_get m name \<noteq> None then (s, Inl AlreadyExists)
          else let n = length s; s' = s @ [new_dir name] in
               (s'[i := (s' ! i)\<lparr>rn_data := DirData (bt_insert m name n)\<rparr>], Inr n)
      | FileData v \<Rightarrow> (s, Inl NotADirectory))"

definition inode_remove :: "store \<Rightarrow> inode_ref \<Rightarrow> string \<Rightarrow> store \<times> (FsError + unit)" where
  "inode_remove s i name =
     (case rn_data (s ! i) of
        DirData m \<Rightarrow>
          (case bt_get m name of
             None \<Rightarrow> (s, Inl NotFound)
           | Some entry \<Rightarrow>
               if inode_ftype s entry = Directory \<and> inode_list s entry \<noteq> [] then (s, Inl NotEmpty)
               else (s[i := (s ! i)\<lparr>rn_data := DirData (bt_remove m name)\<rparr>], Inr ()))
      | FileData v \<Rightarrow> (s, Inl NotADirectory))"

definition new_root :: "store \<Rightarrow> store \<times> inode_ref" where
  "new_root s = (s @ [new_dir ''''], length s)"

section \<open>Walking a path\<close>

text \<open>The loop of \<^verbatim>\<open>Root::resolve\<close>, over any implementation of the two \<^verbatim>\<open>Inode\<close> methods
  it calls.\<close>

fun walk :: "('i \<Rightarrow> FileType) \<Rightarrow> ('i \<Rightarrow> string \<Rightarrow> 'i option) \<Rightarrow> 'i \<Rightarrow> string list \<Rightarrow> FsError + 'i" where
  "walk ft lk cur [] = Inr cur"
| "walk ft lk cur (c # cs) =
     (if ft cur \<noteq> Directory then Inl NotADirectory
      else rbind (ok_or (lk cur c) NotFound) (\<lambda>i. walk ft lk i cs))"

lemma walk_append:
  "walk ft lk i (cs @ ds) = rbind (walk ft lk i cs) (\<lambda>j. walk ft lk j ds)"
proof (induction cs arbitrary: i)
  case (Cons c cs)
  then show ?case by (cases "lk i c") auto
qed simp

lemma walk_snoc_Inr:
  "walk ft lk i (cs @ [c]) = Inr j \<longleftrightarrow>
     (\<exists>p. walk ft lk i cs = Inr p \<and> ft p = Directory \<and> lk p c = Some j)"
  by (auto simp: walk_append rbind_Inr ok_or_def split: option.splits if_splits)

section \<open>What path resolution needs of an inode store\<close>

text \<open>\<open>edge s p n c\<close>: directory \<open>p\<close> of state \<open>s\<close> has an entry \<open>n\<close> that leads to \<open>c\<close>. Adding
  an entry to a leaf-free spot and removing the entry of a leaf are the two changes.\<close>

locale file_tree =
  fixes ok :: "'s \<Rightarrow> bool"
    and ft :: "'s \<Rightarrow> 'i \<Rightarrow> FileType"
    and lk :: "'s \<Rightarrow> 'i \<Rightarrow> string \<Rightarrow> 'i option"
    and add :: "'s \<Rightarrow> 'i \<Rightarrow> string \<Rightarrow> 's \<Rightarrow> 'i \<Rightarrow> bool"
    and del :: "'s \<Rightarrow> 'i \<Rightarrow> string \<Rightarrow> 's \<Rightarrow> 'i \<Rightarrow> bool"
  assumes lk_dir: "ok s \<Longrightarrow> lk s i n = Some j \<Longrightarrow> ft s i = Directory"
    and one_parent: "ok s \<Longrightarrow> lk s i n = Some k \<Longrightarrow> lk s j m = Some k \<Longrightarrow> i = j \<and> n = m"
    and add_ok: "ok s \<Longrightarrow> add s p n s' k \<Longrightarrow> ok s'"
    and add_lk: "ok s \<Longrightarrow> add s p n s' k \<Longrightarrow>
      lk s' i m = (if i = p \<and> m = n then Some k else if i = k then None else lk s i m)"
    and add_new: "ok s \<Longrightarrow> add s p n s' k \<Longrightarrow> lk s p n = None \<and> p \<noteq> k \<and> ft s p = Directory"
    and add_unused: "ok s \<Longrightarrow> add s p n s' k \<Longrightarrow> lk s i m \<noteq> Some k"
    and del_ok: "ok s \<Longrightarrow> del s p n s' k \<Longrightarrow> ok s'"
    and del_lk: "ok s \<Longrightarrow> del s p n s' k \<Longrightarrow>
      lk s' i m = (if i = p \<and> m = n then None else lk s i m)"
    and del_leaf: "ok s \<Longrightarrow> del s p n s' k \<Longrightarrow> lk s p n = Some k \<and> (\<forall>m. lk s k m = None)"
begin

abbreviation res :: "'s \<Rightarrow> 'i \<Rightarrow> string list \<Rightarrow> FsError + 'i" where
  "res s \<equiv> walk (ft s) (lk s)"

lemma res_snoc:
  "ok s \<Longrightarrow> res s r (cs @ [c]) = Inr j \<longleftrightarrow> (\<exists>p. res s r cs = Inr p \<and> lk s p c = Some j)"
  using lk_dir by (auto simp: walk_snoc_Inr)

lemma res_add:
  assumes "ok s" "add s p n s' k" and "r \<noteq> k"
  shows "res s' r cs = Inr j \<longleftrightarrow>
    res s r cs = Inr j \<or> (j = k \<and> (\<exists>ds. cs = ds @ [n] \<and> res s r ds = Inr p))"
proof (induction cs arbitrary: j rule: rev_induct)
  case (snoc c cs)
  have nk: "res s r ds \<noteq> Inr k" for ds
  proof (cases ds rule: rev_cases)
    case (snoc es e)
    then show ?thesis using add_unused [OF assms(1,2)] res_snoc [OF assms(1)] by auto
  qed (use assms(3) in auto)
  have "res s' r (cs @ [c]) = Inr j \<longleftrightarrow> (\<exists>q. res s' r cs = Inr q \<and> lk s' q c = Some j)"
    using res_snoc [OF add_ok [OF assms(1,2)]] .
  also have "\<dots> \<longleftrightarrow> (\<exists>q. res s r cs = Inr q \<and> (if q = p \<and> c = n then j = k else lk s q c = Some j))"
    unfolding snoc.IH
    by (rule iff_exI, use add_lk [OF assms(1,2), of _ c] add_new [OF assms(1,2)] nk in \<open>auto split: if_splits\<close>)
  also have "\<dots> \<longleftrightarrow> res s r (cs @ [c]) = Inr j \<or> (j = k \<and> c = n \<and> res s r cs = Inr p)"
    using res_snoc [OF assms(1), of r cs c j] add_new [OF assms(1,2)] by auto
  finally show ?case by auto
qed simp

lemma res_add_new:
  assumes "ok s" "add s p n s' k" "r \<noteq> k" "res s r cs = Inr p"
  shows "res s' r (cs @ [n]) = Inr k"
  using res_add [OF assms(1-3)] assms(4) by auto

lemma res_del:
  assumes "ok s" "del s p n s' k" and "r \<noteq> k"
  shows "res s' r cs = Inr j \<longleftrightarrow> res s r cs = Inr j \<and> j \<noteq> k"
proof (induction cs arbitrary: j rule: rev_induct)
  case (snoc c cs)
  note leaf = del_leaf [OF assms(1,2)]
  have "res s' r (cs @ [c]) = Inr j \<longleftrightarrow> (\<exists>q. res s' r cs = Inr q \<and> lk s' q c = Some j)"
    using res_snoc [OF del_ok [OF assms(1,2)]] .
  also have "\<dots> \<longleftrightarrow> (\<exists>q. res s r cs = Inr q \<and> q \<noteq> k \<and> \<not> (q = p \<and> c = n) \<and> lk s q c = Some j)"
    unfolding snoc.IH using del_lk [OF assms(1,2), of _ c] by (auto split: if_splits)
  also have "\<dots> \<longleftrightarrow> (\<exists>q. res s r cs = Inr q \<and> lk s q c = Some j) \<and> j \<noteq> k"
    using leaf one_parent [OF assms(1)] by fastforce
  finally show ?case using res_snoc [OF assms(1)] by simp
qed (use assms(3) in auto)

text \<open>Below a root without a parent, a node has only one path.\<close>

lemma res_unique:
  assumes "ok s" and top: "\<And>i n. lk s i n \<noteq> Some r"
  shows "res s r cs = Inr p \<Longrightarrow> res s r ds = Inr p \<Longrightarrow> cs = ds"
proof (induction cs arbitrary: p ds rule: rev_induct)
  case Nil
  then show ?case using top res_snoc [OF assms(1), of r] by (cases ds rule: rev_cases) auto
next
  case (snoc c cs)
  obtain q where q: "res s r cs = Inr q" "lk s q c = Some p"
    using snoc.prems(1) res_snoc [OF assms(1)] by auto
  obtain es e where ds: "ds = es @ [e]"
    using snoc.prems(2) q(2) top by (cases ds rule: rev_cases) auto
  obtain q' where "res s r es = Inr q'" "lk s q' e = Some p"
    using snoc.prems(2) ds res_snoc [OF assms(1)] by auto
  then show ?case using snoc.IH [OF q(1)] one_parent [OF assms(1) q(2)] ds by auto
qed

end

section \<open>The ramfs store is a file tree\<close>

text \<open>Every directory is a map with the names of its entries' nodes as keys, entries lead to
  younger nodes, no node is entered twice, and files are shorter than \<^verbatim>\<open>isize::MAX\<close>.\<close>

definition fs_ok :: "store \<Rightarrow> bool" where
  "fs_ok s \<longleftrightarrow>
     (\<forall>i < length s. case rn_data (s ! i) of
        FileData v \<Rightarrow> length v < 2 ^ 63
      | DirData m \<Rightarrow> bt_wf m \<and> (\<forall>(n, j) \<in> set m. i < j \<and> j < length s \<and> rn_name (s ! j) = n))
     \<and> (\<forall>i < length s. \<forall>j < length s. \<forall>n m k. inode_lookup s i n = Some k \<longrightarrow>
          inode_lookup s j m = Some k \<longrightarrow> i = j)"

definition valid_lookup :: "store \<Rightarrow> inode_ref \<Rightarrow> string \<Rightarrow> inode_ref option" where
  "valid_lookup s i n = (if i < length s then inode_lookup s i n else None)"

definition add_entry :: "store \<Rightarrow> inode_ref \<Rightarrow> RamNode \<Rightarrow> store" where
  "add_entry s p node = (s[p := (s ! p)\<lparr>rn_data := (case rn_data (s ! p) of
       DirData m \<Rightarrow> DirData (bt_insert m (rn_name node) (length s)) | d \<Rightarrow> d)\<rparr>]) @ [node]"

definition del_entry :: "store \<Rightarrow> inode_ref \<Rightarrow> string \<Rightarrow> store" where
  "del_entry s p n = s[p := (s ! p)\<lparr>rn_data := (case rn_data (s ! p) of
       DirData m \<Rightarrow> DirData (bt_remove m n) | d \<Rightarrow> d)\<rparr>]"

definition leaf_node :: "RamNode \<Rightarrow> bool" where
  "leaf_node node \<longleftrightarrow> (case rn_data node of FileData v \<Rightarrow> length v < 2 ^ 63 | DirData m \<Rightarrow> m = [])"

text \<open>The two ways the operations change the tree.\<close>

definition fs_add :: "store \<Rightarrow> inode_ref \<Rightarrow> string \<Rightarrow> store \<Rightarrow> inode_ref \<Rightarrow> bool" where
  "fs_add s p n s' k \<longleftrightarrow> p < length s \<and> inode_ftype s p = Directory \<and> inode_lookup s p n = None
     \<and> k = length s \<and> (\<exists>node. leaf_node node \<and> rn_name node = n \<and> s' = add_entry s p node)"

definition fs_del :: "store \<Rightarrow> inode_ref \<Rightarrow> string \<Rightarrow> store \<Rightarrow> inode_ref \<Rightarrow> bool" where
  "fs_del s p n s' k \<longleftrightarrow> p < length s \<and> inode_lookup s p n = Some k
     \<and> (\<forall>m. inode_lookup s k m = None) \<and> s' = del_entry s p n"

lemma fs_ok_lookup:
  assumes "fs_ok s" "i < length s" "inode_lookup s i n = Some j"
  shows "i < j" "j < length s" "rn_name (s ! j) = n"
proof -
  obtain m where m: "rn_data (s ! i) = DirData m" "bt_get m n = Some j"
    using assms(3) by (auto simp: inode_lookup_def split: NodeData.splits)
  then have "bt_wf m" "\<forall>(n, j) \<in> set m. i < j \<and> j < length s \<and> rn_name (s ! j) = n"
    using assms(1,2) unfolding fs_ok_def by force+
  then show "i < j" "j < length s" "rn_name (s ! j) = n"
    using m(2) by (auto simp: bt_get_Some_in)
qed

lemma fs_okI:
  assumes "\<And>i. i < length s \<Longrightarrow> case rn_data (s ! i) of FileData v \<Rightarrow> length v < 2 ^ 63 | DirData m \<Rightarrow> bt_wf m"
    and "\<And>i n j. i < length s \<Longrightarrow> inode_lookup s i n = Some j \<Longrightarrow>
      i < j \<and> j < length s \<and> rn_name (s ! j) = n"
    and "\<And>i j n m k. i < length s \<Longrightarrow> j < length s \<Longrightarrow> inode_lookup s i n = Some k \<Longrightarrow>
      inode_lookup s j m = Some k \<Longrightarrow> i = j"
  shows "fs_ok s"
proof -
  have "case rn_data (s ! i) of FileData v \<Rightarrow> length v < 2 ^ 63
      | DirData m \<Rightarrow> bt_wf m \<and> (\<forall>(n, j) \<in> set m. i < j \<and> j < length s \<and> rn_name (s ! j) = n)"
    if "i < length s" for i
    using assms(1) [OF that] assms(2) [OF that]
    by (auto simp: inode_lookup_def bt_get_Some_in split: NodeData.splits)
  then show ?thesis unfolding fs_ok_def using assms(3) by blast
qed

lemma add_entry_data:
  assumes "p < length s" "i \<le> length s"
  shows "rn_data (add_entry s p node ! i) =
    (if i = length s then rn_data node
     else if i = p then (case rn_data (s ! p) of
       DirData m \<Rightarrow> DirData (bt_insert m (rn_name node) (length s)) | d \<Rightarrow> d)
     else rn_data (s ! i))"
  using assms by (auto simp: add_entry_def nth_append nth_list_update)

lemma lookup_add_entry:
  assumes "leaf_node node" "inode_ftype s p = Directory" "p < length s" "i \<le> length s"
  shows "inode_lookup (add_entry s p node) i n =
    (if i = length s then None else if i = p \<and> n = rn_name node then Some (length s)
     else inode_lookup s i n)"
proof (cases "i = length s")
  case True
  then show ?thesis
    using assms(1) by (auto simp: inode_lookup_def add_entry_def nth_append leaf_node_def bt_get_def
        split: NodeData.splits)
next
  case False
  then show ?thesis
    using assms(2-4)
    by (cases "i = p") (auto simp: inode_lookup_def add_entry_def nth_append inode_ftype_def
        split: NodeData.splits)
qed

lemma lookup_del_entry:
  assumes "p < length s"
  shows "inode_lookup (del_entry s p n) i m = (if i = p \<and> m = n then None else inode_lookup s i m)"
  using assms by (cases "i = p") (auto simp: inode_lookup_def del_entry_def split: NodeData.splits)

lemma fs_ok_data:
  assumes "fs_ok s" "i < length s"
  shows "case rn_data (s ! i) of FileData v \<Rightarrow> length v < 2 ^ 63 | DirData m \<Rightarrow> bt_wf m"
  using assms unfolding fs_ok_def by (cases "rn_data (s ! i)") force+

lemma fs_ok_one_parent:
  assumes "fs_ok s" "i < length s" "j < length s" "inode_lookup s i n = Some k" "inode_lookup s j m = Some k"
  shows "i = j \<and> n = m"
proof
  show "i = j"
    using assms(1) [unfolded fs_ok_def, THEN conjunct2] assms(2-5) by blast
  show "n = m" using fs_ok_lookup(3) [OF assms(1)] assms(2-5) by metis
qed

lemma fs_ok_add [inv_rules]:
  assumes inv: "fs_ok s" and add: "fs_add s p n s' k"
  shows "fs_ok s'"
proof -
  obtain node where p: "p < length s" "inode_ftype s p = Directory" "inode_lookup s p n = None"
    and n: "leaf_node node" "rn_name node = n" "s' = add_entry s p node"
    using add unfolding fs_add_def by blast
  have len: "length s' = Suc (length s)" by (simp add: n add_entry_def)
  have lk: "inode_lookup s' i m = (if i = length s then None else if i = p \<and> m = n then Some (length s)
     else inode_lookup s i m)" if "i < length s'" for i m
    using that lookup_add_entry [OF n(1) p(2,1), of i m] n len by simp
  have name: "rn_name (s' ! j) = (if j = length s then n else rn_name (s ! j))" if "j < length s'" for j
    using that n len p(1) by (auto simp: add_entry_def nth_append nth_list_update)
  show ?thesis
  proof (rule fs_okI)
    show "case rn_data (s' ! i) of FileData v \<Rightarrow> length v < 2 ^ 63 | DirData m \<Rightarrow> bt_wf m"
      if "i < length s'" for i
      using that fs_ok_data [OF inv, of i] n(1) len p(1)
      by (cases "i = length s"; cases "i = p")
         (auto simp: n(3) add_entry_data leaf_node_def bt_wf_insert split: NodeData.splits)
    show "i < j \<and> j < length s' \<and> rn_name (s' ! j) = m"
      if "i < length s'" "inode_lookup s' i m = Some j" for i m j
      using that lk [of i m] fs_ok_lookup [OF inv, of i m j] name [of j] len
      by (auto split: if_splits)
    show "i = j" if "i < length s'" "j < length s'" "inode_lookup s' i m = Some l"
        "inode_lookup s' j m' = Some l" for i j m m' l
      using that lk [of i m] lk [of j m'] fs_ok_lookup(2) [OF inv, of i m l]
        fs_ok_lookup(2) [OF inv, of j m' l] fs_ok_one_parent [OF inv, of i j m l m'] len
      by (auto split: if_splits)
  qed
qed

lemma fs_ok_del [inv_rules]:
  assumes inv: "fs_ok s" and del: "fs_del s p n s' k"
  shows "fs_ok s'"
proof -
  have p: "p < length s" "s' = del_entry s p n" using del by (auto simp: fs_del_def)
  have len: "length s' = length s" by (simp add: p del_entry_def)
  note lk = lookup_del_entry [OF p(1), of n, folded p(2)]
  have name: "rn_name (s' ! j) = rn_name (s ! j)" for j
    using p by (cases "j = p") (simp_all add: del_entry_def)
  show ?thesis
  proof (rule fs_okI)
    show "case rn_data (s' ! i) of FileData v \<Rightarrow> length v < 2 ^ 63 | DirData m \<Rightarrow> bt_wf m"
      if "i < length s'" for i
      using that fs_ok_data [OF inv, of i] p len
      by (cases "i = p") (auto simp: del_entry_def bt_wf_remove split: NodeData.splits)
    show "i < j \<and> j < length s' \<and> rn_name (s' ! j) = m"
      if "i < length s'" "inode_lookup s' i m = Some j" for i m j
      using that lk [of i m] fs_ok_lookup [OF inv, of i m j] name [of j] len by (simp split: if_splits)
    show "i = j" if "i < length s'" "j < length s'" "inode_lookup s' i m = Some l"
        "inode_lookup s' j m' = Some l" for i j m m' l
      using that lk [of i m] lk [of j m'] fs_ok_one_parent [OF inv, of i j m l m'] len
      by (simp split: if_splits)
  qed
qed

interpretation ram: file_tree fs_ok inode_ftype valid_lookup fs_add fs_del
proof
  fix s p n s' k i m j
  show "inode_ftype s i = Directory" if "valid_lookup s i n = Some j"
    using that by (auto simp: valid_lookup_def inode_lookup_def inode_ftype_def
        split: NodeData.splits if_splits)
  assume inv: "fs_ok s"
  show "i = j \<and> n = m" if "valid_lookup s i n = Some k" "valid_lookup s j m = Some k" for i j n m k
    using that fs_ok_one_parent [OF inv, of i j n k m] by (simp add: valid_lookup_def split: if_splits)
  show "fs_ok s'" if "fs_add s p n s' k" using fs_ok_add [OF inv that] .
  show "fs_ok s'" if "fs_del s p n s' k" using fs_ok_del [OF inv that] .
  show "valid_lookup s' i m = (if i = p \<and> m = n then Some k else if i = k then None else valid_lookup s i m)"
    if a: "fs_add s p n s' k"
    using a lookup_add_entry [of _ s p i m]
    by (auto simp: fs_add_def valid_lookup_def add_entry_def split: if_splits)
  show "valid_lookup s p n = None \<and> p \<noteq> k \<and> inode_ftype s p = Directory" if "fs_add s p n s' k"
    using that by (auto simp: fs_add_def valid_lookup_def)
  show "valid_lookup s i m \<noteq> Some k" if "fs_add s p n s' k"
    using that fs_ok_lookup(2) [OF inv, of i m k] by (auto simp: fs_add_def valid_lookup_def)
  show "valid_lookup s' i m = (if i = p \<and> m = n then None else valid_lookup s i m)"
    if "fs_del s p n s' k"
    using that lookup_del_entry [of p s n i m]
    by (auto simp: fs_del_def valid_lookup_def del_entry_def split: if_splits)
  show "valid_lookup s p n = Some k \<and> (\<forall>m. valid_lookup s k m = None)" if "fs_del s p n s' k"
    using that by (auto simp: fs_del_def valid_lookup_def)
qed

section \<open>The operations as changes of the tree\<close>

lemma walk_valid:
  "fs_ok s \<Longrightarrow> i < length s \<Longrightarrow>
     walk (inode_ftype s) (inode_lookup s) i cs = walk (inode_ftype s) (valid_lookup s) i cs"
proof (induction cs arbitrary: i)
  case (Cons c cs)
  then show ?case
    using fs_ok_lookup(2) [OF Cons.prems, of c]
    by (cases "inode_lookup s i c") (auto simp: valid_lookup_def)
qed simp

lemma create_file_eq:
  assumes "i < length s"
  shows "inode_create_file s i n c =
    (if inode_ftype s i \<noteq> Directory then (s, Inl NotADirectory)
     else if inode_lookup s i n \<noteq> None then (s, Inl AlreadyExists)
     else (add_entry s i (new_file n c), Inr (length s)))"
  using assms
  by (auto simp: inode_create_file_def inode_ftype_def inode_lookup_def add_entry_def new_file_def
      Let_def nth_append list_update_append split: NodeData.splits)

lemma create_dir_eq:
  assumes "i < length s"
  shows "inode_create_dir s i n =
    (if inode_ftype s i \<noteq> Directory then (s, Inl NotADirectory)
     else if inode_lookup s i n \<noteq> None then (s, Inl AlreadyExists)
     else (add_entry s i (new_dir n), Inr (length s)))"
  using assms
  by (auto simp: inode_create_dir_def inode_ftype_def inode_lookup_def add_entry_def new_dir_def
      Let_def nth_append list_update_append split: NodeData.splits)

lemma fs_add_file:
  "i < length s \<Longrightarrow> inode_ftype s i = Directory \<Longrightarrow> inode_lookup s i n = None \<Longrightarrow> length c < 2 ^ 63 \<Longrightarrow>
     fs_add s i n (add_entry s i (new_file n c)) (length s)"
  unfolding fs_add_def by (intro conjI exI [of _ "new_file n c"]) (simp_all add: leaf_node_def new_file_def)

lemma fs_add_dir:
  "i < length s \<Longrightarrow> inode_ftype s i = Directory \<Longrightarrow> inode_lookup s i n = None \<Longrightarrow>
     fs_add s i n (add_entry s i (new_dir n)) (length s)"
  unfolding fs_add_def by (intro conjI exI [of _ "new_dir n"]) (simp_all add: leaf_node_def new_dir_def)

lemma remove_eq:
  "inode_remove s i n =
    (if inode_ftype s i \<noteq> Directory then (s, Inl NotADirectory)
     else case inode_lookup s i n of
       None \<Rightarrow> (s, Inl NotFound)
     | Some k \<Rightarrow> if inode_list s k \<noteq> [] then (s, Inl NotEmpty) else (del_entry s i n, Inr ()))"
  by (auto simp: inode_remove_def inode_ftype_def inode_lookup_def inode_list_def del_entry_def
      split: NodeData.splits option.splits)

lemma list_Nil_lookup: "inode_list s k = [] \<Longrightarrow> inode_lookup s k m = None"
  by (auto simp: inode_list_def inode_lookup_def bt_keys_def bt_get_def split: NodeData.splits)

lemma fs_del_entry:
  "i < length s \<Longrightarrow> inode_lookup s i n = Some k \<Longrightarrow> inode_list s k = [] \<Longrightarrow>
     fs_del s i n (del_entry s i n) k"
  by (auto simp: fs_del_def list_Nil_lookup)

lemma fs_ok_write [inv_rules]:
  assumes inv: "fs_ok s" and v: "rn_data (s ! i) = FileData v" and w: "length w < 2 ^ 63"
  shows "fs_ok (s[i := (s ! i)\<lparr>rn_data := FileData w\<rparr>])" (is "fs_ok ?s")
proof -
  have lk: "inode_lookup ?s j n = inode_lookup s j n" for j n
    using v by (auto simp: inode_lookup_def nth_update_any)
  have name: "rn_name (?s ! j) = rn_name (s ! j)" for j
    by (simp add: nth_update_any)
  show ?thesis
  proof (rule fs_okI)
    show "case rn_data (?s ! j) of FileData v \<Rightarrow> length v < 2 ^ 63 | DirData m \<Rightarrow> bt_wf m"
      if "j < length ?s" for j
      using that w fs_ok_data [OF inv, of j] by (cases "j = i") simp_all
    show "j < k \<and> k < length ?s \<and> rn_name (?s ! k) = n"
      if "j < length ?s" "inode_lookup ?s j n = Some k" for j n k
      using that fs_ok_lookup [OF inv, of j n k] by (simp add: lk name)
    show "j = j'" if "j < length ?s" "j' < length ?s" "inode_lookup ?s j n = Some k"
        "inode_lookup ?s j' m = Some k" for j j' n m k
      using that fs_ok_one_parent [OF inv, of j j' n k m] by (simp add: lk)
  qed
qed

lemma walk_write:
  assumes "rn_data (s ! i) = FileData v"
  shows "walk (inode_ftype (s[i := (s ! i)\<lparr>rn_data := FileData w\<rparr>]))
      (inode_lookup (s[i := (s ! i)\<lparr>rn_data := FileData w\<rparr>])) r cs
    = walk (inode_ftype s) (inode_lookup s) r cs"
proof -
  have "inode_lookup (s[i := (s ! i)\<lparr>rn_data := FileData w\<rparr>]) = inode_lookup s"
    and "inode_ftype (s[i := (s ! i)\<lparr>rn_data := FileData w\<rparr>]) = inode_ftype s"
    using assms by (auto simp: fun_eq_iff inode_lookup_def inode_ftype_def nth_update_any)
  then show ?thesis by simp
qed

end
