(* ===== verification/Hyp_Vfs.thy ===== *)
theory Hyp_Vfs
  imports Hyp_Ramfs Hyp_Utf8
begin

text \<open>
  The VFS layer (\<^verbatim>\<open>kernel/src/fs/vfs.rs\<close>, \<^verbatim>\<open>kernel/src/fs/mod.rs\<close>): path resolution, open
  files and whole-file reads over the ramfs store. \<^verbatim>\<open>expect\<close> on the mount point panics
  before \<^verbatim>\<open>init\<close>, so the operations return an option.
\<close>

section \<open>Open flags and files\<close>

type_synonym OpenFlags = u32

definition OPEN_READ :: OpenFlags where "OPEN_READ = push_bit 0 1"
definition OPEN_WRITE :: OpenFlags where "OPEN_WRITE = push_bit 1 1"
definition OPEN_CREATE :: OpenFlags where "OPEN_CREATE = push_bit 2 1"
definition OPEN_APPEND :: OpenFlags where "OPEN_APPEND = push_bit 3 1"

definition flags_contains :: "OpenFlags \<Rightarrow> OpenFlags \<Rightarrow> bool" where
  "flags_contains fl f \<longleftrightarrow> fl AND f = f"

record File =
  fl_inode :: inode_ref
  fl_offset :: usize
  fl_flags :: OpenFlags

definition file_read :: "store \<Rightarrow> File \<Rightarrow> u8 list \<Rightarrow> (File \<times> (FsError + (usize \<times> u8 list))) option" where
  "file_read s f buf =
     (if \<not> flags_contains (fl_flags f) OPEN_READ then Some (f, Inl Io)
      else do {
        r \<leftarrow> inode_read_at s (fl_inode f) (fl_offset f) buf;
        Some (case r of
          Inl e \<Rightarrow> (f, Inl e)
        | Inr (n, buf') \<Rightarrow> (f\<lparr>fl_offset := fl_offset f + n\<rparr>, Inr (n, buf')))
      })"

definition file_write :: "store \<Rightarrow> File \<Rightarrow> u8 list \<Rightarrow> (store \<times> File \<times> (FsError + usize)) option" where
  "file_write s f buf =
     (if \<not> flags_contains (fl_flags f) OPEN_WRITE then Some (s, f, Inl Io)
      else do {
        let f = (if flags_contains (fl_flags f) OPEN_APPEND
                 then f\<lparr>fl_offset := inode_size s (fl_inode f)\<rparr> else f);
        (s', r) \<leftarrow> inode_write_at s (fl_inode f) (fl_offset f) buf;
        Some (case r of
          Inl e \<Rightarrow> (s', f, Inl e)
        | Inr n \<Rightarrow> (s', f\<lparr>fl_offset := fl_offset f + n\<rparr>, Inr n))
      })"

definition file_seek :: "File \<Rightarrow> usize \<Rightarrow> File" where
  "file_seek f off = f\<lparr>fl_offset := off\<rparr>"

section \<open>The root of the namespace\<close>

record Vfs =
  vfs_nodes :: store
  vfs_mount :: "inode_ref option"

definition vfs_empty :: Vfs where
  "vfs_empty = \<lparr>vfs_nodes = [], vfs_mount = None\<rparr>"

definition mount_inode :: "Vfs \<Rightarrow> inode_ref option" where
  "mount_inode v = vfs_mount v"

definition strip_slash :: "string \<Rightarrow> string" where
  "strip_slash p = (case p of c # cs \<Rightarrow> if c = CHR ''/'' then cs else p | [] \<Rightarrow> p)"

definition path_components :: "string \<Rightarrow> string list" where
  "path_components p = filter (\<lambda>c. c \<noteq> []) (split_char (CHR ''/'') p)"

definition resolve :: "Vfs \<Rightarrow> string \<Rightarrow> (FsError + inode_ref) option" where
  "resolve v path =
     (if path = [] then Some (Inl InvalidPath)
      else do {
        let path = strip_slash path;
        cur \<leftarrow> mount_inode v;
        if path = [] then Some (Inr cur)
        else Some (walk (inode_ftype (vfs_nodes v)) (inode_lookup (vfs_nodes v)) cur (path_components path))
      })"

definition list_root :: "Vfs \<Rightarrow> string list option" where
  "list_root v = map_option (inode_list (vfs_nodes v)) (mount_inode v)"

definition root_create_file :: "Vfs \<Rightarrow> string \<Rightarrow> u8 list \<Rightarrow> (Vfs \<times> (FsError + inode_ref)) option" where
  "root_create_file v name contents = do {
     r \<leftarrow> mount_inode v;
     let (s, res) = inode_create_file (vfs_nodes v) r name contents;
     Some (v\<lparr>vfs_nodes := s\<rparr>, res)
   }"

definition root_create_dir :: "Vfs \<Rightarrow> string \<Rightarrow> (Vfs \<times> (FsError + inode_ref)) option" where
  "root_create_dir v name = do {
     r \<leftarrow> mount_inode v;
     let (s, res) = inode_create_dir (vfs_nodes v) r name;
     Some (v\<lparr>vfs_nodes := s\<rparr>, res)
   }"

definition split_parent :: "string \<Rightarrow> string \<times> string" where
  "split_parent path =
     (case rsplit_once path (CHR ''/'') of
        Some (p, n) \<Rightarrow> if p = [] then (''/'', n) else (p, n)
      | None \<Rightarrow> (''/'', path))"

definition vfs_open :: "Vfs \<Rightarrow> string \<Rightarrow> OpenFlags \<Rightarrow> (Vfs \<times> (FsError + File)) option" where
  "vfs_open v path flags = do {
     res \<leftarrow> resolve v path;
     (v', inode) \<leftarrow> (case res of
         Inr i \<Rightarrow> Some (v, Inr i)
       | Inl e \<Rightarrow>
           if e = NotFound \<and> flags_contains flags OPEN_CREATE then do {
             let (parent_path, name) = split_parent path;
             parent \<leftarrow> resolve v parent_path;
             Some (case parent of
               Inl e' \<Rightarrow> (v, Inl e')
             | Inr p \<Rightarrow> let (s, r) = inode_create_file (vfs_nodes v) p name [] in (v\<lparr>vfs_nodes := s\<rparr>, r))
           } else Some (v, Inl e));
     Some (v', rbind inode (\<lambda>i. Inr \<lparr>fl_inode = i, fl_offset = 0, fl_flags = flags\<rparr>))
   }"

definition vfs_remove :: "Vfs \<Rightarrow> string \<Rightarrow> (Vfs \<times> (FsError + unit)) option" where
  "vfs_remove v path = do {
     let (parent_path, name) = split_parent path;
     parent \<leftarrow> resolve v parent_path;
     Some (case parent of
       Inl e \<Rightarrow> (v, Inl e)
     | Inr p \<Rightarrow> let (s, r) = inode_remove (vfs_nodes v) p name in (v\<lparr>vfs_nodes := s\<rparr>, r))
   }"

definition vfs_init :: "Vfs \<Rightarrow> Vfs" where
  "vfs_init v =
     (case vfs_mount v of
        Some _ \<Rightarrow> v
      | None \<Rightarrow> let (s, r) = new_root (vfs_nodes v) in v\<lparr>vfs_nodes := s, vfs_mount := Some r\<rparr>)"

text \<open>\<open>version\<close> stands for the contents \<^verbatim>\<open>format_version\<close> builds from the build environment.\<close>

definition fs_init :: "u8 list \<Rightarrow> Vfs \<Rightarrow> Vfs option" where
  "fs_init version v = do {
     let v = vfs_init v;
     (v, _) \<leftarrow> root_create_file v ''welcome''
       (as_bytes (''Welcome to Hyperion OS!'' @ [CHR 13, CHR 10] @ ''Try: help'' @ [CHR 13, CHR 10]));
     (v, _) \<leftarrow> root_create_file v ''version'' version;
     (v, _) \<leftarrow> root_create_dir v ''dev'';
     (v, _) \<leftarrow> root_create_dir v ''tmp'';
     Some v
   }"

section \<open>Reading a whole file\<close>

lemma file_read_progress:
  assumes "file_read s f chunk = Some (f', Inr (n, c))" "n \<noteq> 0"
  shows "\<exists>v. rn_data (s ! fl_inode f) = FileData v \<and> f' = f\<lparr>fl_offset := fl_offset f + n\<rparr>
    \<and> n \<le> word_of_nat (length v) - fl_offset f"
proof -
  obtain r where r: "inode_read_at s (fl_inode f) (fl_offset f) chunk = Some r"
      "(case r of Inl e \<Rightarrow> (f, Inl e) | Inr (n, b) \<Rightarrow> (f\<lparr>fl_offset := fl_offset f + n\<rparr>, Inr (n, b)))
        = (f', Inr (n, c))"
    using assms(1) by (auto simp: file_read_def bind_eq_Some_conv split: if_splits)
  then have "r = Inr (n, c)" "f' = f\<lparr>fl_offset := fl_offset f + n\<rparr>"
    by (auto split: sum.splits)
  then show ?thesis
    using r(1) assms(2)
    by (auto simp: inode_read_at_def bind_eq_Some_conv Let_def split: if_splits NodeData.splits)
qed

text \<open>The loop of \<^verbatim>\<open>read_to_string\<close>.\<close>

function read_to_end :: "store \<Rightarrow> File \<Rightarrow> u8 list \<Rightarrow> u8 list \<Rightarrow> (FsError + u8 list) option" where
  "read_to_end s f chunk out =
     (case file_read s f chunk of
        None \<Rightarrow> None
      | Some (f', Inl e) \<Rightarrow> Some (Inl e)
      | Some (f', Inr (n, chunk')) \<Rightarrow>
          if n = 0 then Some (Inr out)
          else (case sub_slice chunk' 0 n of
                  None \<Rightarrow> None
                | Some part \<Rightarrow> read_to_end s f' chunk' (out @ part)))"
  by pat_completeness auto
termination
proof (relation "measure (\<lambda>(s, f, chunk, out). case rn_data (s ! fl_inode f) of
    FileData v \<Rightarrow> unat (word_of_nat (length v) - fl_offset f) | DirData m \<Rightarrow> 0)", goal_cases)
  case (2 s f chunk out x f' r nc n chunk' part)
  then obtain v where v: "rn_data (s ! fl_inode f) = FileData v" "f' = f\<lparr>fl_offset := fl_offset f + n\<rparr>"
      "n \<le> word_of_nat (length v) - fl_offset f"
    using file_read_progress [of s f chunk f' n chunk'] by auto
  have "unat (word_of_nat (length v) - fl_offset f - n) < unat (word_of_nat (length v) - fl_offset f)"
    using v(3) 2 unat_gt_0 [of n] by (simp add: unat_sub word_le_nat_alt)
  then show ?case using v by (simp add: diff_diff_eq)
qed simp

declare read_to_end.simps [simp del]

definition read_to_string :: "Vfs \<Rightarrow> string \<Rightarrow> (Vfs \<times> (FsError + string)) option" where
  "read_to_string v path = do {
     (v', r) \<leftarrow> vfs_open v path OPEN_READ;
     case r of
       Inl e \<Rightarrow> Some (v', Inl e)
     | Inr f \<Rightarrow> do {
         res \<leftarrow> read_to_end (vfs_nodes v') f (replicate 256 0) [];
         Some (v', rbind res (\<lambda>out. Inr (of_bytes (from_utf8_lossy out))))
       }
   }"

section \<open>Reads and writes as functions on the contents\<close>

definition overwrite :: "u8 list \<Rightarrow> nat \<Rightarrow> u8 list \<Rightarrow> u8 list" where
  "overwrite v off buf = take off (v @ replicate (off - length v) 0) @ buf @ drop (off + length buf) v"

lemma length_overwrite: "length (overwrite v off buf) = max (length v) (off + length buf)"
  by (simp add: overwrite_def)

lemma nth_overwrite:
  assumes "k < length (overwrite v off buf)"
  shows "overwrite v off buf ! k =
     (if off \<le> k \<and> k < off + length buf then buf ! (k - off)
      else if k < length v then v ! k else 0)"
proof -
  define a where "a = take off (v @ replicate (off - length v) 0)"
  have la: "length a = off" by (simp add: a_def)
  have ov: "overwrite v off buf = a @ buf @ drop (off + length buf) v" by (simp add: overwrite_def a_def)
  consider "k < off" | "off \<le> k" "k < off + length buf" | "off + length buf \<le> k" by linarith
  then show ?thesis
  proof cases
    case 1
    then show ?thesis by (simp add: ov nth_append la) (simp add: a_def nth_append)
  next
    case 2
    then have "k - off < length buf" by linarith
    with 2 show ?thesis by (simp add: ov nth_append la)
  next
    case 3
    then have "\<not> k - off < length buf" "k < length v" "k - off - length buf = k - (off + length buf)"
      using assms by (auto simp: length_overwrite)
    with 3 show ?thesis by (simp add: ov nth_append la)
  qed
qed

lemma read_at_file:
  assumes v: "rn_data (s ! i) = FileData v" and "length v < 2 ^ 63" "length buf < 2 ^ 63"
    and n_def: "n = min (length v - unat off) (length buf)"
  shows "inode_read_at s i off buf =
    Some (Inr (word_of_nat n, take n (drop (unat off) v) @ drop n buf))"
proof -
  have len: "unat (word_of_nat (length v) :: usize) = length v"
      "unat (word_of_nat (length buf) :: usize) = length buf"
    using assms(2,3) by (simp_all add: unat_word_of_nat)
  show ?thesis
  proof (cases "length v \<le> unat off")
    case True
    then show ?thesis using v len by (simp add: inode_read_at_def n_def word_le_nat_alt)
  next
    case False
    let ?n = "min (word_of_nat (length v) - off) (word_of_nat (length buf))"
    have le: "off \<le> word_of_nat (length v)" using False len by (simp add: word_le_nat_alt)
    have n: "unat ?n = n" using len le by (simp add: unat_min unat_sub n_def)
    have fin: "unat (off + ?n) = unat off + n"
      using False assms(2) n by (subst unat_add_lt) (auto simp: n_def)
    have wn: "?n = word_of_nat n" using n by (metis of_nat_unat ucast_id)
    have "unat off + n \<le> length v" "n \<le> length buf" using False by (auto simp: n_def)
    then show ?thesis
      using False v len n fin
      by (simp add: inode_read_at_def word_le_nat_alt sub_slice_def copy_at_def Let_def wn)
  qed
qed

lemma write_at_file:
  assumes v: "rn_data (s ! i) = FileData v" and "length v < 2 ^ 63" "unat off + length buf < 2 ^ 63"
  shows "inode_write_at s i off buf =
    Some (s[i := (s ! i)\<lparr>rn_data := FileData (overwrite v (unat off) buf)\<rparr>], Inr (word_of_nat (length buf)))"
proof -
  have len: "unat (word_of_nat (length v) :: usize) = length v"
      "unat (word_of_nat (length buf) :: usize) = length buf"
    using assms(2,3) by (simp_all add: unat_word_of_nat)
  have fin: "unat (off + word_of_nat (length buf)) = unat off + length buf"
    using assms(3) len by (subst unat_add_lt) auto
  show ?thesis
    using v len fin assms(3)
    by (auto simp: inode_write_at_def Let_def word_less_nat_alt word_le_nat_alt vec_resize_def copy_at_def
        overwrite_def not_less)
qed

section \<open>Paths\<close>

lemma path_components_strip: "path_components (strip_slash p) = path_components p"
  by (cases p) (simp_all add: strip_slash_def path_components_def)

lemma path_components_Nil [simp]: "path_components [] = []"
  by (simp add: path_components_def)

lemma resolve_eq:
  assumes "vfs_mount v = Some r" "path \<noteq> []"
  shows "resolve v path =
    Some (walk (inode_ftype (vfs_nodes v)) (inode_lookup (vfs_nodes v)) r (path_components path))"
proof (cases "strip_slash path = []")
  case True
  then have "path_components path = []" using path_components_strip [of path] by simp
  then show ?thesis using assms True by (simp add: resolve_def mount_inode_def Let_def)
next
  case False
  then show ?thesis
    using assms by (simp add: resolve_def mount_inode_def Let_def path_components_strip)
qed

lemma path_components_slash: "path_components (p @ CHR ''/'' # n) = path_components p @ path_components n"
  by (simp add: path_components_def split_char_sep)

lemma path_components_name: "CHR ''/'' \<notin> set n \<Longrightarrow> path_components n = (if n = [] then [] else [n])"
  by (simp add: path_components_def split_char_none)

lemma split_parent_components:
  assumes "split_parent path = (q, n)"
  shows "q \<noteq> []" "path_components path = path_components q @ (if n = [] then [] else [n])"
proof -
  have root: "path_components ''/'' = []" by (simp add: path_components_def)
  have "q \<noteq> [] \<and> path_components path = path_components q @ (if n = [] then [] else [n])"
  proof (cases "rsplit_once path (CHR ''/'')")
    case None
    then have "q = ''/''" "n = path" using assms by (simp_all add: split_parent_def)
    then show ?thesis
      using None path_components_name [of path] root by (simp add: rsplit_once_None)
  next
    case (Some ab)
    obtain a b where ab: "ab = (a, b)" by (cases ab)
    have p: "path = a @ CHR ''/'' # b" "CHR ''/'' \<notin> set b"
      using rsplit_once_Some [of path "CHR ''/''" a b] Some ab by auto
    have "path_components path = path_components a @ (if b = [] then [] else [b])"
      using p path_components_slash [of a b] path_components_name [of b] by simp
    then show ?thesis using assms Some ab root by (auto simp: split_parent_def split: if_splits)
  qed
  then show "q \<noteq> []" "path_components path = path_components q @ (if n = [] then [] else [n])"
    by blast+
qed

section \<open>The invariant of the namespace\<close>

definition vfs_ok :: "Vfs \<Rightarrow> bool" where
  "vfs_ok v \<longleftrightarrow> fs_ok (vfs_nodes v) \<and> vfs_mount v = Some 0 \<and> vfs_nodes v \<noteq> []
     \<and> inode_ftype (vfs_nodes v) 0 = Directory"

text \<open>The inode a list of components leads to.\<close>

definition at_path :: "Vfs \<Rightarrow> string list \<Rightarrow> FsError + inode_ref" where
  "at_path v cs = walk (inode_ftype (vfs_nodes v)) (inode_lookup (vfs_nodes v)) 0 cs"

lemma resolve_Nil [simp]: "resolve v [] = Some (Inl InvalidPath)"
  by (simp add: resolve_def)

lemma resolve_at_path: "vfs_ok v \<Longrightarrow> path \<noteq> [] \<Longrightarrow> resolve v path = Some (at_path v (path_components path))"
  by (simp add: vfs_ok_def resolve_eq at_path_def)

lemma at_path_res:
  "vfs_ok v \<Longrightarrow> at_path v cs = walk (inode_ftype (vfs_nodes v)) (valid_lookup (vfs_nodes v)) 0 cs"
  by (simp add: vfs_ok_def at_path_def walk_valid)

lemma at_path_valid: "vfs_ok v \<Longrightarrow> at_path v cs = Inr i \<Longrightarrow> i < length (vfs_nodes v)"
proof (induction cs arbitrary: i rule: rev_induct)
  case Nil
  then show ?case by (simp add: at_path_def vfs_ok_def)
next
  case (snoc c cs)
  then obtain p where "at_path v cs = Inr p" "inode_lookup (vfs_nodes v) p c = Some i"
    by (auto simp: at_path_def walk_snoc_Inr)
  then show ?case using snoc fs_ok_lookup(2) [of "vfs_nodes v" p c i] by (auto simp: vfs_ok_def)
qed

lemma root_no_parent: "fs_ok s \<Longrightarrow> valid_lookup s i n \<noteq> Some 0"
  using fs_ok_lookup(1) [of s i n 0] by (auto simp: valid_lookup_def)

lemma at_path_unique:
  assumes "vfs_ok v" "at_path v cs = Inr i" "at_path v ds = Inr i"
  shows "cs = ds"
  using assms ram.res_unique [of "vfs_nodes v" 0 cs i ds] root_no_parent
  by (auto simp: at_path_res vfs_ok_def)

lemma vfs_ok_add [inv_rules]:
  assumes "vfs_ok v" "fs_add (vfs_nodes v) p n s k"
  shows "vfs_ok (v\<lparr>vfs_nodes := s\<rparr>)"
proof -
  obtain node where s: "s = add_entry (vfs_nodes v) p node" using assms(2) by (auto simp: fs_add_def)
  have "inode_ftype s 0 = Directory"
    using assms by (auto simp: s vfs_ok_def inode_ftype_def fs_add_def add_entry_data split: NodeData.splits)
  moreover have "s \<noteq> []" by (simp add: s add_entry_def)
  ultimately show ?thesis using assms fs_ok_add by (auto simp: vfs_ok_def)
qed

lemma vfs_ok_del [inv_rules]:
  assumes "vfs_ok v" "fs_del (vfs_nodes v) p n s k"
  shows "vfs_ok (v\<lparr>vfs_nodes := s\<rparr>)"
proof -
  have s: "s = del_entry (vfs_nodes v) p n" using assms(2) by (auto simp: fs_del_def)
  have "inode_ftype s 0 = Directory"
    using assms(1) by (auto simp: s vfs_ok_def inode_ftype_def del_entry_def nth_update_any split: NodeData.splits)
  moreover have "s \<noteq> []" using assms(1) by (simp add: s del_entry_def vfs_ok_def)
  ultimately show ?thesis using assms fs_ok_del by (auto simp: vfs_ok_def)
qed

lemma at_path_add:
  assumes ok: "vfs_ok v" and add: "fs_add (vfs_nodes v) p n s k" and p: "at_path v cs = Inr p"
  shows "at_path (v\<lparr>vfs_nodes := s\<rparr>) ds = Inr j \<longleftrightarrow>
    (if ds = cs @ [n] then j = k else at_path v ds = Inr j)"
proof -
  have inv: "fs_ok (vfs_nodes v)" and k: "0 \<noteq> k" using ok add by (auto simp: vfs_ok_def fs_add_def)
  have eq: "at_path (v\<lparr>vfs_nodes := s\<rparr>) ds = Inr j \<longleftrightarrow>
      at_path v ds = Inr j \<or> (j = k \<and> (\<exists>es. ds = es @ [n] \<and> at_path v es = Inr p))"
    using ram.res_add [OF inv add k] at_path_res [OF ok] at_path_res [OF vfs_ok_add [OF ok add]] by simp
  have "at_path v (cs @ [n]) \<noteq> Inr j" for j
  proof
    assume "at_path v (cs @ [n]) = Inr j"
    then have "inode_lookup (vfs_nodes v) p n = Some j" using p by (auto simp: at_path_def walk_snoc_Inr)
    then show False using add by (simp add: fs_add_def)
  qed
  moreover have "at_path v es = Inr p \<longleftrightarrow> es = cs" for es using p at_path_unique [OF ok _ p] by blast
  ultimately show ?thesis unfolding eq by simp
qed

lemma at_path_del:
  assumes ok: "vfs_ok v" and del: "fs_del (vfs_nodes v) p n s k" and p: "at_path v cs = Inr p"
  shows "at_path (v\<lparr>vfs_nodes := s\<rparr>) ds = Inr j \<longleftrightarrow> at_path v ds = Inr j \<and> ds \<noteq> cs @ [n]"
proof -
  have inv: "fs_ok (vfs_nodes v)" using ok by (simp add: vfs_ok_def)
  have lk: "p < length (vfs_nodes v)" "inode_lookup (vfs_nodes v) p n = Some k"
    using del by (auto simp: fs_del_def)
  then have k: "0 \<noteq> k" using fs_ok_lookup(1) [OF inv] by fastforce
  have eq: "at_path (v\<lparr>vfs_nodes := s\<rparr>) ds = Inr j \<longleftrightarrow> at_path v ds = Inr j \<and> j \<noteq> k"
    using ram.res_del [OF inv del k] at_path_res [OF ok] at_path_res [OF vfs_ok_del [OF ok del]] by simp
  have "inode_ftype (vfs_nodes v) p = Directory"
    using lk by (auto simp: inode_lookup_def inode_ftype_def split: NodeData.splits)
  then have "at_path v (cs @ [n]) = Inr k" using p lk by (auto simp: at_path_def walk_snoc_Inr)
  then show ?thesis using eq at_path_unique [OF ok, of ds k "cs @ [n]"] by auto
qed

lemma read_to_end_file:
  assumes v: "rn_data (s ! fl_inode f) = FileData v" and len: "length v < 2 ^ 63"
    and rd: "flags_contains (fl_flags f) OPEN_READ" and "length chunk = 256"
  shows "read_to_end s f chunk out = Some (Inr (out @ drop (unat (fl_offset f)) v))"
  using v rd assms(4)
proof (induction "length v - unat (fl_offset f)" arbitrary: f chunk out rule: less_induct)
  case less
  define n where "n = min (length v - unat (fl_offset f)) 256"
  let ?f = "f\<lparr>fl_offset := fl_offset f + word_of_nat n\<rparr>"
    and ?c = "take n (drop (unat (fl_offset f)) v) @ drop n chunk"
  have n: "unat (word_of_nat n :: usize) = n" by (rule unat_word_of_nat) (simp add: n_def)
  have rd: "file_read s f chunk = Some (?f, Inr (word_of_nat n, ?c))"
    using less.prems read_at_file [OF less.prems(1) len, of chunk n "fl_offset f"]
    by (simp add: file_read_def n_def)
  show ?case
  proof (cases "n = 0")
    case True
    then show ?thesis using rd by (subst read_to_end.simps) (simp add: n_def)
  next
    case False
    then have lt: "unat (fl_offset f) < length v" by (simp add: n_def)
    have off: "unat (fl_offset f + word_of_nat n) = unat (fl_offset f) + n"
      using lt len n by (subst unat_add_lt) (auto simp: n_def)
    have c: "length ?c = 256" "take n ?c = take n (drop (unat (fl_offset f)) v)"
      using less.prems(3) by (auto simp: n_def)
    have nz: "(word_of_nat n :: usize) \<noteq> 0" using False n by (metis unat_0)
    have sl: "sub_slice ?c 0 (word_of_nat n) = Some (take n (drop (unat (fl_offset f)) v))"
      using c n by (simp add: n_def)
    have "read_to_end s f chunk out = read_to_end s ?f ?c (out @ take n (drop (unat (fl_offset f)) v))"
      using rd nz sl by (subst read_to_end.simps) (simp del: sub_slice_Some)
    also have "\<dots> = Some (Inr ((out @ take n (drop (unat (fl_offset f)) v)) @ drop (unat (fl_offset f) + n) v))"
      using less.hyps [of ?f ?c] less.prems c off lt False by simp
    finally show ?thesis by (simp add: add.commute flip: drop_drop)
  qed
qed

section \<open>The file system after boot\<close>

lemma vfs_ok_init [simp, inv_rules]: "vfs_ok (vfs_init vfs_empty)"
  by (auto simp: vfs_ok_def vfs_init_def vfs_empty_def new_root_def new_dir_def inode_ftype_def
      fs_ok_def inode_lookup_def bt_get_def)

lemma root_create_file_ok:
  assumes "vfs_ok v" "length c < 2 ^ 63"
  shows "\<exists>v' r. root_create_file v n c = Some (v', r) \<and> vfs_ok v'"
proof (cases "inode_lookup (vfs_nodes v) 0 n")
  case None
  then have "fs_add (vfs_nodes v) 0 n (add_entry (vfs_nodes v) 0 (new_file n c)) (length (vfs_nodes v))"
    using assms by (intro fs_add_file) (auto simp: vfs_ok_def)
  then show ?thesis
    using assms None vfs_ok_add [OF assms(1)]
    by (simp add: root_create_file_def mount_inode_def vfs_ok_def create_file_eq)
next
  case (Some k)
  then show ?thesis using assms by (simp add: root_create_file_def mount_inode_def vfs_ok_def create_file_eq)
qed

lemma root_create_dir_ok:
  assumes "vfs_ok v"
  shows "\<exists>v' r. root_create_dir v n = Some (v', r) \<and> vfs_ok v'"
proof (cases "inode_lookup (vfs_nodes v) 0 n")
  case None
  then have "fs_add (vfs_nodes v) 0 n (add_entry (vfs_nodes v) 0 (new_dir n)) (length (vfs_nodes v))"
    using assms by (intro fs_add_dir) (auto simp: vfs_ok_def)
  then show ?thesis
    using assms None vfs_ok_add [OF assms]
    by (simp add: root_create_dir_def mount_inode_def vfs_ok_def create_dir_eq)
next
  case (Some k)
  then show ?thesis using assms by (simp add: root_create_dir_def mount_inode_def vfs_ok_def create_dir_eq)
qed

lemma welcome_len:
  "length (as_bytes (''Welcome to Hyperion OS!'' @ [CHR 13, CHR 10] @ ''Try: help'' @ [CHR 13, CHR 10])) < 2 ^ 63"
  by (simp add: as_bytes_def)

lemma fs_init_ok:
  assumes "length version < 2 ^ 63"
  shows "\<exists>v. fs_init version vfs_empty = Some v \<and> vfs_ok v"
proof -
  obtain v1 r1 where 1: "root_create_file (vfs_init vfs_empty) ''welcome'' (as_bytes
      (''Welcome to Hyperion OS!'' @ [CHR 13, CHR 10] @ ''Try: help'' @ [CHR 13, CHR 10])) = Some (v1, r1)" "vfs_ok v1"
    using root_create_file_ok [OF vfs_ok_init welcome_len] by blast
  obtain v2 r2 where 2: "root_create_file v1 ''version'' version = Some (v2, r2)" "vfs_ok v2"
    using root_create_file_ok [OF 1(2) assms] by blast
  obtain v3 r3 where 3: "root_create_dir v2 ''dev'' = Some (v3, r3)" "vfs_ok v3"
    using root_create_dir_ok [OF 2(2)] by blast
  obtain v4 r4 where 4: "root_create_dir v3 ''tmp'' = Some (v4, r4)" "vfs_ok v4"
    using root_create_dir_ok [OF 3(2)] by blast
  show ?thesis using 1 2 3 4 by (simp add: fs_init_def)
qed

text \<open>The file system of a booted kernel whose version file is the two bytes \<open>v1\<close>.\<close>

definition boot_vfs :: Vfs where
  "boot_vfs = the (fs_init [118, 49] vfs_empty)"

lemma boot_vfs_ok: "vfs_ok boot_vfs"
  using fs_init_ok [of "[118, 49]"] by (auto simp: boot_vfs_def)

lemma boot_vfs_version:
  "resolve boot_vfs ''/version'' = Some (Inr 2) \<and> rn_data (vfs_nodes boot_vfs ! 2) = FileData [118, 49]
     \<and> length (vfs_nodes boot_vfs) = 5 \<and> resolve boot_vfs ''/tmp'' = Some (Inr 4)
     \<and> inode_list (vfs_nodes boot_vfs) 4 = [] \<and> inode_ftype (vfs_nodes boot_vfs) 4 = Directory
     \<and> resolve boot_vfs ''/tmp/a'' = Some (Inl NotFound)"
  by code_simp

section \<open>Properties\<close>

text \<open>C11: writing through a handle and reading back. A \<^verbatim>\<open>write\<close> at offset \<open>off\<close> (the end of
  the file with \<^verbatim>\<open>APPEND\<close>) stores the bytes there, fills any gap after the old end with
  zeros, keeps every other byte and advances the offset; seeking back and reading the same
  number of bytes returns exactly what was written. The namespace is not changed.\<close>

theorem file_write_read:
  assumes ok: "vfs_ok v" and f: "rn_data (vfs_nodes v ! fl_inode f) = FileData c"
    and i: "fl_inode f < length (vfs_nodes v)"
    and rw: "flags_contains (fl_flags f) OPEN_READ" "flags_contains (fl_flags f) OPEN_WRITE"
    and off: "off = (if flags_contains (fl_flags f) OPEN_APPEND then length c else unat (fl_offset f))"
    and len: "off + length buf < 2 ^ 63" "length into = length buf"
  shows "\<exists>s' c' f'. file_write (vfs_nodes v) f buf = Some (s', f', Inr (word_of_nat (length buf)))
    \<and> rn_data (s' ! fl_inode f) = FileData c' \<and> length c' = max (length c) (off + length buf)
    \<and> (\<forall>k < length c'. c' ! k = (if off \<le> k \<and> k < off + length buf then buf ! (k - off)
           else if k < length c then c ! k else 0))
    \<and> unat (fl_offset f') = off + length buf
    \<and> snd (the (file_read s' (file_seek f' (word_of_nat off)) into)) = Inr (word_of_nat (length buf), buf)
    \<and> vfs_ok (v\<lparr>vfs_nodes := s'\<rparr>) \<and> (\<forall>cs. at_path (v\<lparr>vfs_nodes := s'\<rparr>) cs = at_path v cs)"
proof -
  let ?s = "vfs_nodes v" and ?c = "overwrite c off buf"
  let ?s' = "?s[fl_inode f := (?s ! fl_inode f)\<lparr>rn_data := FileData ?c\<rparr>]"
    and ?f' = "f\<lparr>fl_offset := word_of_nat off + word_of_nat (length buf)\<rparr>"
  have c: "length c < 2 ^ 63" using fs_ok_data [of ?s, OF _ i] ok f by (simp add: vfs_ok_def)
  have uo: "unat (word_of_nat off :: usize) = off" using len by (simp add: unat_word_of_nat)
  have c': "length ?c < 2 ^ 63" using len c by (simp add: length_overwrite)
  define g where "g = f\<lparr>fl_offset := word_of_nat off\<rparr>"
  have g: "(if flags_contains (fl_flags f) OPEN_APPEND then f\<lparr>fl_offset := inode_size ?s (fl_inode f)\<rparr> else f) = g"
    unfolding g_def off using f by (simp add: inode_size_def)
  have "inode_write_at ?s (fl_inode g) (fl_offset g) buf = Some (?s', Inr (word_of_nat (length buf)))"
    using write_at_file [OF f c, of "word_of_nat off" buf] uo len by (simp add: g_def)
  then have w: "file_write ?s f buf = Some (?s', ?f', Inr (word_of_nat (length buf)))"
    unfolding file_write_def Let_def g using rw(2) by (simp add: g_def)
  have data: "rn_data (?s' ! fl_inode f) = FileData ?c" using i by simp
  have rd: "inode_read_at ?s' (fl_inode f) (word_of_nat off) into = Some (Inr (word_of_nat (length buf), buf))"
  proof -
    have n: "length buf = min (length ?c - unat (word_of_nat off :: usize)) (length into)"
      using len(2) uo by (simp add: length_overwrite)
    have "length into < 2 ^ 63" using len by simp
    from read_at_file [OF data c' this n] show ?thesis
      unfolding uo using len(2) by (simp add: overwrite_def)
  qed
  have uf: "unat (fl_offset ?f') = off + length buf"
    using len uo by (simp, subst unat_add_lt) (simp_all add: unat_word_of_nat)
  have ft: "inode_ftype ?s' 0 = inode_ftype ?s 0"
    using f by (auto simp: inode_ftype_def nth_update_any)
  have ok': "vfs_ok (v\<lparr>vfs_nodes := ?s'\<rparr>)"
    using ok ft fs_ok_write [of ?s, OF _ f c'] by (simp add: vfs_ok_def)
  have walk: "\<forall>cs. at_path (v\<lparr>vfs_nodes := ?s'\<rparr>) cs = at_path v cs"
    using walk_write [OF f] by (simp add: at_path_def)
  have rb: "snd (the (file_read ?s' (file_seek ?f' (word_of_nat off)) into)) = Inr (word_of_nat (length buf), buf)"
    using rd rw by (simp add: file_read_def file_seek_def)
  show ?thesis
    by (intro exI conjI allI impI, rule w, rule data, rule length_overwrite, erule nth_overwrite,
        rule uf, rule rb, rule ok', rule walk [rule_format])
qed

theorem file_write_read_witness:
  "\<exists>s' f'. file_write (vfs_nodes boot_vfs) \<lparr>fl_inode = 2, fl_offset = 4, fl_flags = 3\<rparr> [7, 8] = Some (s', f', Inr 2)
     \<and> snd (the (file_read s' (file_seek f' 4) [0, 0])) = Inr (2, [7, 8]) \<and> rn_data (s' ! 2) = FileData [118, 49, 0, 0, 7, 8]"
proof -
  let ?f = "\<lparr>fl_inode = 2, fl_offset = 4, fl_flags = 3\<rparr> :: File"
  have n: "rn_data (vfs_nodes boot_vfs ! 2) = FileData [118, 49]" "2 < length (vfs_nodes boot_vfs)"
    using boot_vfs_version by auto
  have fl: "flags_contains (fl_flags ?f) OPEN_READ" "flags_contains (fl_flags ?f) OPEN_WRITE"
      "\<not> flags_contains (fl_flags ?f) OPEN_APPEND"
    by (simp_all add: flags_contains_def OPEN_READ_def OPEN_WRITE_def OPEN_APPEND_def)
  obtain s' c' f' where w: "file_write (vfs_nodes boot_vfs) ?f [7, 8] = Some (s', f', Inr 2)"
      "rn_data (s' ! 2) = FileData c'" "length c' = 6"
      "\<forall>k < length c'. c' ! k = (if 4 \<le> k \<and> k < 4 + length [7, 8 :: u8] then [7, 8] ! (k - 4)
           else if k < length [118, 49 :: u8] then [118, 49] ! k else 0)"
      "snd (the (file_read s' (file_seek f' 4) [0, 0])) = Inr (2, [7, 8])"
    using file_write_read [OF boot_vfs_ok, of ?f "[118, 49]" 4 "[7, 8]" "[0, 0]"] n fl by auto
  have "c' = map (\<lambda>k. if 4 \<le> k \<and> k < 4 + length [7, 8 :: u8] then [7, 8] ! (k - 4)
      else if k < length [118, 49 :: u8] then [118, 49] ! k else 0) [0..<6]"
    using w(3) w(4) [rule_format] by (intro nth_equalityI) simp_all
  also have "\<dots> = [118, 49, 0, 0, 7, 8]" by (simp add: upt_rec)
  finally have "c' = [118, 49, 0, 0, 7, 8]" .
  with w show ?thesis by blast
qed

text \<open>\<^verbatim>\<open>read_to_string\<close> of a path that leads to a file always ends and returns the whole
  contents, decoded with malformed UTF-8 replaced, and the result is well-formed UTF-8 and
  equal to the contents when these are. A directory gives \<^verbatim>\<open>Io\<close>, an unresolved path the
  error of \<^verbatim>\<open>resolve\<close>, and nothing is changed.\<close>

theorem read_to_string_correct:
  assumes ok: "vfs_ok v"
  shows "read_to_string v path = Some (v,
    (case resolve v path of
       Some (Inr i) \<Rightarrow> (case rn_data (vfs_nodes v ! i) of
           FileData c \<Rightarrow> Inr (of_bytes (from_utf8_lossy c)) | DirData m \<Rightarrow> Inl Io)
     | Some (Inl e) \<Rightarrow> Inl e | None \<Rightarrow> Inl Io))
    \<and> resolve v path \<noteq> None
    \<and> (\<forall>c. from_utf8_ok (from_utf8_lossy c) \<and> (from_utf8_ok c \<longrightarrow> from_utf8_lossy c = c))"
proof -
  obtain r where r: "resolve v path = Some r"
    using ok by (cases "path = []") (auto simp: resolve_at_path)
  have nc: "\<not> flags_contains OPEN_READ OPEN_CREATE" and rd: "flags_contains OPEN_READ OPEN_READ"
    by (simp_all add: flags_contains_def OPEN_READ_def OPEN_CREATE_def)
  have "read_to_string v path = Some (v, (case r of Inl e \<Rightarrow> Inl e | Inr i \<Rightarrow>
      (case rn_data (vfs_nodes v ! i) of
         FileData c \<Rightarrow> Inr (of_bytes (from_utf8_lossy c)) | DirData m \<Rightarrow> Inl Io)))"
  proof (cases r)
    case (Inl e)
    then show ?thesis using r nc by (simp add: read_to_string_def vfs_open_def)
  next
    case (Inr i)
    let ?f = "\<lparr>fl_inode = i, fl_offset = 0, fl_flags = OPEN_READ\<rparr>"
    have i: "i < length (vfs_nodes v)"
      using ok r Inr at_path_valid [OF ok, of "path_components path" i]
      by (cases "path = []") (auto simp: resolve_at_path)
    have op: "read_to_string v path = do {
        res \<leftarrow> read_to_end (vfs_nodes v) ?f (replicate 256 0) [];
        Some (v, rbind res (\<lambda>out. Inr (of_bytes (from_utf8_lossy out)))) }"
      using r Inr by (simp add: read_to_string_def vfs_open_def)
    show ?thesis
    proof (cases "rn_data (vfs_nodes v ! i)")
      case (FileData c)
      then have "length c < 2 ^ 63" using fs_ok_data [of "vfs_nodes v" i] ok i by (simp add: vfs_ok_def)
      then show ?thesis using Inr FileData op rd by (simp add: read_to_end_file)
    next
      case (DirData m)
      then have "read_to_end (vfs_nodes v) ?f (replicate 256 0) [] = Some (Inl Io)"
        using rd by (subst read_to_end.simps) (simp add: file_read_def inode_read_at_def)
      then show ?thesis using Inr DirData op by simp
    qed
  qed
  then show ?thesis using r from_utf8_lossy_ok from_utf8_lossy_valid by (simp split: sum.split)
qed

theorem read_to_string_correct_witness:
  "vfs_ok boot_vfs \<and> read_to_string boot_vfs ''/version'' = Some (boot_vfs, Inr ''v1'')"
proof -
  have "of_bytes (from_utf8_lossy [118, 49]) = ''v1''" by code_simp
  then show ?thesis
    using read_to_string_correct [OF boot_vfs_ok, of "''/version''"] boot_vfs_ok boot_vfs_version by simp
qed

text \<open>C12: \<^verbatim>\<open>open\<close> with \<^verbatim>\<open>CREATE\<close> of a path that does not exist creates an empty file when the
  parent is a directory: afterwards exactly the paths with the same components lead to the
  new inode, and every other path leads where it led before. No entry with an empty name is
  ever made. If the parent does not resolve, its error is returned and nothing changes.\<close>

theorem vfs_open_create:
  assumes ok: "vfs_ok v" and nf: "resolve v path = Some (Inl NotFound)"
    and cr: "flags_contains flags OPEN_CREATE"
  shows "\<exists>q n p. split_parent path = (q, n) \<and> resolve v q = Some p \<and>
    (case p of
       Inl e \<Rightarrow> vfs_open v path flags = Some (v, Inl e)
     | Inr d \<Rightarrow>
        if inode_ftype (vfs_nodes v) d \<noteq> Directory then vfs_open v path flags = Some (v, Inl NotADirectory)
        else \<exists>v' k. vfs_open v path flags = Some (v', Inr \<lparr>fl_inode = k, fl_offset = 0, fl_flags = flags\<rparr>)
          \<and> vfs_ok v' \<and> n \<noteq> [] \<and> rn_data (vfs_nodes v' ! k) = FileData [] \<and> inode_name (vfs_nodes v') k = n
          \<and> (\<forall>path' j. path' \<noteq> [] \<longrightarrow> (resolve v' path' = Some (Inr j) \<longleftrightarrow>
               (if path_components path' = path_components path then j = k
                else resolve v path' = Some (Inr j)))))"
proof -
  obtain q n where sp: "split_parent path = (q, n)" by (cases "split_parent path")
  note q = split_parent_components [OF sp]
  have path: "path \<noteq> []" using nf by auto
  define p where "p = at_path v (path_components q)"
  have rq: "resolve v q = Some p" using ok q(1) by (simp add: p_def resolve_at_path)
  have nfp: "at_path v (path_components path) = Inl NotFound" using ok path nf by (simp add: resolve_at_path)
  show ?thesis
  proof (cases p)
    case (Inl e)
    then show ?thesis using sp rq nf cr by (simp add: vfs_open_def)
  next
    case (Inr d)
    let ?s = "vfs_nodes v"
    have d: "d < length ?s" using at_path_valid [OF ok] Inr by (simp add: p_def)
    show ?thesis
    proof (cases "inode_ftype ?s d = Directory")
      case False
      then show ?thesis using sp rq nf cr Inr d by (simp add: vfs_open_def create_file_eq)
    next
      case True
      have n: "n \<noteq> []" using nfp q(2) Inr by (auto simp: p_def)
      have lk: "inode_lookup ?s d n = None"
      proof (rule ccontr)
        assume "inode_lookup ?s d n \<noteq> None"
        then obtain j where "inode_lookup ?s d n = Some j" by blast
        then have "at_path v (path_components q @ [n]) = Inr j"
          using Inr True by (auto simp: p_def at_path_def walk_snoc_Inr)
        then show False using nfp q(2) n by simp
      qed
      let ?s' = "add_entry ?s d (new_file n [])"
      have add: "fs_add ?s d n ?s' (length ?s)" using fs_add_file [OF d True lk, of "[]"] by simp
      have op: "vfs_open v path flags = Some (v\<lparr>vfs_nodes := ?s'\<rparr>,
          Inr \<lparr>fl_inode = length ?s, fl_offset = 0, fl_flags = flags\<rparr>)"
        using sp rq nf cr Inr d True lk by (simp add: vfs_open_def create_file_eq)
      have ok': "vfs_ok (v\<lparr>vfs_nodes := ?s'\<rparr>)" by (rule vfs_ok_add [OF ok add])
      have "resolve (v\<lparr>vfs_nodes := ?s'\<rparr>) path' = Some (Inr j) \<longleftrightarrow>
          (if path_components path' = path_components path then j = length ?s
           else resolve v path' = Some (Inr j))" if "path' \<noteq> []" for path' j
        using at_path_add [OF ok add, of "path_components q" "path_components path'" j] Inr q(2) n that
        by (simp add: p_def resolve_at_path ok ok')
      then show ?thesis
        using sp rq Inr True op ok' n by (simp add: add_entry_def nth_append inode_name_def new_file_def)
    qed
  qed
qed

theorem vfs_open_create_witness:
  "\<exists>v'. vfs_open boot_vfs ''/tmp/a'' OPEN_CREATE = Some (v', Inr \<lparr>fl_inode = 5, fl_offset = 0, fl_flags = OPEN_CREATE\<rparr>)
     \<and> resolve v' ''tmp//a'' = Some (Inr 5) \<and> resolve v' ''/version'' = Some (Inr 2)"
proof -
  have c: "path_components ''tmp//a'' = path_components ''/tmp/a''"
      "path_components ''/version'' \<noteq> path_components ''/tmp/a''"
      "split_parent ''/tmp/a'' = (''/tmp'', ''a'')" by code_simp+
  have op: "vfs_open boot_vfs ''/tmp/a'' OPEN_CREATE =
      Some (boot_vfs\<lparr>vfs_nodes := add_entry (vfs_nodes boot_vfs) 4 (new_file ''a'' [])\<rparr>,
        Inr \<lparr>fl_inode = 5, fl_offset = 0, fl_flags = OPEN_CREATE\<rparr>)"
    using boot_vfs_version c list_Nil_lookup [of "vfs_nodes boot_vfs" 4 "''a''"]
    by (simp add: vfs_open_def create_file_eq flags_contains_def)
  have "flags_contains OPEN_CREATE OPEN_CREATE" by (simp add: flags_contains_def)
  then show ?thesis
    using vfs_open_create [OF boot_vfs_ok, of "''/tmp/a''" OPEN_CREATE] boot_vfs_version c op by auto
qed

text \<open>C13: \<^verbatim>\<open>remove\<close> refuses a missing entry, a non-empty directory and a parent that is not a
  directory, and then changes nothing; otherwise exactly the paths with the same components
  stop resolving and every other path leads where it led before.\<close>

theorem vfs_remove_correct:
  assumes ok: "vfs_ok v" and sp: "split_parent path = (q, n)" "n \<noteq> []"
  shows "case resolve v q of
      None \<Rightarrow> False
    | Some (Inl e) \<Rightarrow> vfs_remove v path = Some (v, Inl e)
    | Some (Inr d) \<Rightarrow>
        if inode_ftype (vfs_nodes v) d \<noteq> Directory then vfs_remove v path = Some (v, Inl NotADirectory)
        else (case resolve v path of
            Some (Inr k) \<Rightarrow>
              if inode_list (vfs_nodes v) k \<noteq> [] then vfs_remove v path = Some (v, Inl NotEmpty)
              else \<exists>v'. vfs_remove v path = Some (v', Inr ()) \<and> vfs_ok v'
                \<and> (\<forall>path' j. path' \<noteq> [] \<longrightarrow> (resolve v' path' = Some (Inr j) \<longleftrightarrow>
                     resolve v path' = Some (Inr j) \<and> path_components path' \<noteq> path_components path))
          | _ \<Rightarrow> vfs_remove v path = Some (v, Inl NotFound))"
proof -
  note q = split_parent_components [OF sp(1)]
  have path: "path \<noteq> []" using q(2) sp(2) by auto
  define p where "p = at_path v (path_components q)"
  have rq: "resolve v q = Some p" using ok q(1) by (simp add: p_def resolve_at_path)
  let ?s = "vfs_nodes v"
  show ?thesis
  proof (cases p)
    case (Inl e)
    then show ?thesis using sp rq by (simp add: vfs_remove_def)
  next
    case (Inr d)
    have d: "d < length ?s" using at_path_valid [OF ok] Inr by (simp add: p_def)
    have rp: "resolve v path = Some (if inode_ftype ?s d \<noteq> Directory then Inl NotADirectory
        else ok_or (inode_lookup ?s d n) NotFound)"
      using Inr q(2) sp(2) path
      by (simp add: resolve_at_path [OF ok] p_def at_path_def walk_append ok_or_def split: option.split)
    show ?thesis
    proof (cases "inode_ftype ?s d = Directory \<and> inode_lookup ?s d n \<noteq> None")
      case False
      then show ?thesis using sp rq Inr rp by (auto simp: vfs_remove_def remove_eq)
    next
      case True
      then obtain k where k: "inode_lookup ?s d n = Some k" by blast
      have rm: "vfs_remove v path = Some (if inode_list ?s k \<noteq> [] then (v, Inl NotEmpty)
          else (v\<lparr>vfs_nodes := del_entry ?s d n\<rparr>, Inr ()))"
        using sp rq Inr True k by (simp add: vfs_remove_def remove_eq)
      show ?thesis
      proof (cases "inode_list ?s k = []")
        case empty: True
        have del: "fs_del ?s d n (del_entry ?s d n) k" by (rule fs_del_entry [OF d k empty])
        have ok': "vfs_ok (v\<lparr>vfs_nodes := del_entry ?s d n\<rparr>)" by (rule vfs_ok_del [OF ok del])
        have "resolve (v\<lparr>vfs_nodes := del_entry ?s d n\<rparr>) path' = Some (Inr j) \<longleftrightarrow>
            resolve v path' = Some (Inr j) \<and> path_components path' \<noteq> path_components path"
          if "path' \<noteq> []" for path' j
          using at_path_del [OF ok del, of "path_components q" "path_components path'" j] Inr q(2) sp(2) that
          by (simp add: p_def resolve_at_path ok ok')
        then show ?thesis using rq Inr True k rp rm empty ok' by simp
      qed (use rq Inr True k rp rm in simp)
    qed
  qed
qed

theorem vfs_remove_correct_witness:
  "\<exists>v'. vfs_remove boot_vfs ''/tmp'' = Some (v', Inr ()) \<and> (\<forall>j. resolve v' ''/tmp'' \<noteq> Some (Inr j))
     \<and> resolve v' ''/version'' = Some (Inr 2)"
proof -
  have c: "split_parent ''/tmp'' = (''/'', ''tmp'')" "path_components ''/version'' \<noteq> path_components ''/tmp''"
    by code_simp+
  have "resolve boot_vfs ''/'' = Some (Inr 0)" "inode_ftype (vfs_nodes boot_vfs) 0 = Directory"
    using boot_vfs_ok by (auto simp: vfs_ok_def resolve_def mount_inode_def strip_slash_def)
  then show ?thesis
    using vfs_remove_correct [OF boot_vfs_ok c(1)] boot_vfs_version c(2) by auto
qed

end
