(* ===== verification/Hyp_Bytes.thy ===== *)
theory Hyp_Bytes
  imports Hyp_Prelude
begin

text \<open>
  Byte-order conversions of the standard library: \<^verbatim>\<open>from_le_bytes\<close>, \<^verbatim>\<open>to_le_bytes\<close>,
  \<^verbatim>\<open>from_be_bytes\<close> and \<^verbatim>\<open>to_be_bytes\<close> of the unsigned types, as functions on byte lists.
\<close>

fun le_val :: "u8 list \<Rightarrow> nat" where
  "le_val [] = 0"
| "le_val (b # bs) = unat b + 256 * le_val bs"

fun le_digits :: "nat \<Rightarrow> nat \<Rightarrow> u8 list" where
  "le_digits 0 v = []"
| "le_digits (Suc n) v = word_of_nat v # le_digits n (v div 256)"

definition from_le_bytes :: "u8 list \<Rightarrow> 'a::len word" where
  "from_le_bytes bs = word_of_nat (le_val bs)"

definition to_le_bytes :: "'a::len word \<Rightarrow> u8 list" where
  "to_le_bytes w = le_digits (LENGTH('a) div 8) (unat w)"

definition from_be_bytes :: "u8 list \<Rightarrow> 'a::len word" where
  "from_be_bytes bs = from_le_bytes (rev bs)"

definition to_be_bytes :: "'a::len word \<Rightarrow> u8 list" where
  "to_be_bytes w = rev (to_le_bytes w)"

lemma length_le_digits [simp]: "length (le_digits n v) = n"
  by (induction n arbitrary: v) simp_all

lemma length_to_le_bytes [simp]: "length (to_le_bytes (w::'a::len word)) = LENGTH('a) div 8"
  by (simp add: to_le_bytes_def)

lemma length_to_be_bytes [simp]: "length (to_be_bytes (w::'a::len word)) = LENGTH('a) div 8"
  by (simp add: to_be_bytes_def)

lemma le_val_bound: "le_val bs < 256 ^ length bs"
proof (induction bs)
  case (Cons b bs)
  have "unat b < 256" using unsigned_less [of b, where ?'a = nat] by simp
  then show ?case using Cons by (simp add: algebra_simps)
qed simp

lemma le_val_digits: "v < 256 ^ n \<Longrightarrow> le_val (le_digits n v) = v"
proof (induction n arbitrary: v)
  case (Suc n)
  have "v div 256 < 256 ^ n"
    using Suc.prems by (simp add: less_mult_imp_div_less mult.commute)
  then have "le_val (le_digits n (v div 256)) = v div 256" by (rule Suc.IH)
  then show ?case by (simp add: unat_of_nat take_bit_nat_def)
qed simp

lemma le_digits_val: "length bs = n \<Longrightarrow> le_digits n (le_val bs) = bs"
proof (induction bs arbitrary: n)
  case (Cons b bs)
  have b: "unat b < 256" using unsigned_less [of b, where ?'a = nat] by simp
  have "(word_of_nat (unat b + 256 * le_val bs) :: u8) = b"
    using b by (simp add: word_unat_eq_iff unat_of_nat take_bit_nat_def del: of_nat_add of_nat_mult)
  moreover have "(unat b + 256 * le_val bs) div 256 = le_val bs" using b by simp
  ultimately show ?case using Cons by (auto simp del: of_nat_add of_nat_mult)
qed simp

lemma le_bytes_roundtrip:
  "8 dvd LENGTH('a) \<Longrightarrow> from_le_bytes (to_le_bytes w) = (w::'a::len word)"
proof -
  assume "8 dvd LENGTH('a)"
  then have "(256::nat) ^ (LENGTH('a) div 8) = 2 ^ LENGTH('a)"
    using power_mult [of "2::nat" 8 "LENGTH('a) div 8"] by simp
  then have "unat w < 256 ^ (LENGTH('a) div 8)"
    using unsigned_less [of w, where ?'a = nat] by simp
  then show ?thesis by (simp add: from_le_bytes_def to_le_bytes_def le_val_digits)
qed

lemma from_le_to_le_16 [simp]: "from_le_bytes (to_le_bytes w) = (w::u16)"
  by (rule le_bytes_roundtrip) simp

lemma from_le_to_le_32 [simp]: "from_le_bytes (to_le_bytes w) = (w::u32)"
  by (rule le_bytes_roundtrip) simp

lemma from_le_to_le_64 [simp]: "from_le_bytes (to_le_bytes w) = (w::u64)"
  by (rule le_bytes_roundtrip) simp

lemma from_be_to_be_16 [simp]: "from_be_bytes (to_be_bytes w) = (w::u16)"
  by (simp add: from_be_bytes_def to_be_bytes_def)

lemma from_be_to_be_32 [simp]: "from_be_bytes (to_be_bytes w) = (w::u32)"
  by (simp add: from_be_bytes_def to_be_bytes_def)

lemma from_be_to_be_64 [simp]: "from_be_bytes (to_be_bytes w) = (w::u64)"
  by (simp add: from_be_bytes_def to_be_bytes_def)

lemma to_le_bytes_16: "[to_le_bytes (w::u16) ! 0, to_le_bytes w ! 1] = to_le_bytes w"
  by (simp add: to_le_bytes_def numeral_2_eq_2)

section \<open>Byte-addressed memory\<close>

type_synonym memory = "u64 \<Rightarrow> u8"

definition mem_write :: "memory \<Rightarrow> u64 \<Rightarrow> u8 list \<Rightarrow> memory" where
  "mem_write m a bs = (\<lambda>x. if unat (x - a) < length bs then bs ! unat (x - a) else m x)"

definition mem_read :: "memory \<Rightarrow> u64 \<Rightarrow> nat \<Rightarrow> u8 list" where
  "mem_read m a n = map (\<lambda>i. m (a + word_of_nat i)) [0..<n]"

definition mem_range :: "u64 \<Rightarrow> nat \<Rightarrow> u64 set" where
  "mem_range a n = {x. unat (x - a) < n}"

lemma length_mem_read [simp]: "length (mem_read m a n) = n"
  by (simp add: mem_read_def)

lemma mem_write_outside: "x \<notin> mem_range a (length bs) \<Longrightarrow> mem_write m a bs x = m x"
  by (simp add: mem_write_def mem_range_def)

lemma in_region: "i < n \<Longrightarrow> i < 2 ^ 64 \<Longrightarrow> a + word_of_nat i \<in> mem_range a n"
  by (simp add: mem_range_def unat_word_of_nat)

lemma mem_read_write_same:
  assumes "length bs = n" "n \<le> 2 ^ 64"
  shows "mem_read (mem_write m a bs) a n = bs"
  using assms by (intro nth_equalityI) (simp_all add: mem_read_def mem_write_def unat_word_of_nat)

lemma mem_read_cong:
  "n \<le> 2 ^ 64 \<Longrightarrow> (\<And>x. x \<in> mem_range a n \<Longrightarrow> m x = m' x) \<Longrightarrow> mem_read m a n = mem_read m' a n"
  by (simp add: mem_read_def in_region)

lemma mem_read_write_other:
  "n \<le> 2 ^ 64 \<Longrightarrow> mem_range a n \<inter> mem_range b (length bs) = {} \<Longrightarrow> mem_read (mem_write m b bs) a n = mem_read m a n"
  by (rule mem_read_cong) (auto intro!: mem_write_outside)

lemma mem_write_hd: "mem_write m a (b # bs) a = b"
  by (simp add: mem_write_def)

lemma region_iff:
  assumes "unat a + n \<le> 2 ^ 64"
  shows "x \<in> mem_range a n \<longleftrightarrow> unat a \<le> unat x \<and> unat x < unat a + n"
proof (cases "a \<le> x")
  case True
  then show ?thesis by (auto simp: mem_range_def unat_sub word_le_nat_alt)
next
  case False
  have "unat (x - a) = 2 ^ 64 + unat x - unat a"
    using False unat_sub_if' [of x a] by (simp add: word_le_nat_alt)
  then show ?thesis using False assms by (simp add: mem_range_def word_le_nat_alt)
qed

lemma region_disjoint:
  assumes "unat a + n \<le> unat b" "unat b + m \<le> 2 ^ 64"
  shows "mem_range a n \<inter> mem_range b m = {}" "mem_range b m \<inter> mem_range a n = {}"
  using assms by (auto simp: region_iff)

section \<open>Structures in memory\<close>

text \<open>Little-endian reads, and that a memory holds a byte string at an address.\<close>

definition rd32 :: "memory \<Rightarrow> u64 \<Rightarrow> u32" where
  "rd32 mem a = from_le_bytes (mem_read mem a 4)"

definition rd64 :: "memory \<Rightarrow> u64 \<Rightarrow> u64" where
  "rd64 mem a = from_le_bytes (mem_read mem a 8)"

definition holds :: "memory \<Rightarrow> u64 \<Rightarrow> u8 list \<Rightarrow> bool" where
  "holds mem a bs \<longleftrightarrow> mem_read mem a (length bs) = bs"

lemma holds_append: "holds mem a (xs @ ys) \<longleftrightarrow> holds mem a xs \<and> holds mem (a + word_of_nat (length xs)) ys"
proof -
  have "mem_read mem a (length xs + n) = mem_read mem a (length xs) @ mem_read mem (a + word_of_nat (length xs)) n" for n
    by (rule nth_equalityI) (auto simp: mem_read_def nth_append add.assoc simp flip: of_nat_add)
  then show ?thesis by (simp add: holds_def)
qed

lemma holds_32 [simp]: "holds mem a (to_le_bytes (w :: u32)) \<Longrightarrow> rd32 mem a = w"
  by (simp add: holds_def rd32_def)

lemma holds_64 [simp]: "holds mem a (to_le_bytes (w :: u64)) \<Longrightarrow> rd64 mem a = w"
  by (simp add: holds_def rd64_def)

lemma holds_byte: "holds mem a (b # bs) \<longleftrightarrow> mem a = b \<and> holds mem (a + 1) bs"
  using holds_append [of mem a "[b]" bs] by (simp add: holds_def mem_read_def)

lemma rd32_write_same [simp]: "rd32 (mem_write m a (to_le_bytes (v :: u32))) a = v"
  by (simp add: rd32_def mem_read_write_same)

lemma rd32_write_other:
  "mem_range a 4 \<inter> mem_range b (length bs) = {} \<Longrightarrow> rd32 (mem_write m b bs) a = rd32 m a"
  by (simp add: rd32_def mem_read_write_other)

lemma rd64_write_other:
  "mem_range a 8 \<inter> mem_range b (length bs) = {} \<Longrightarrow> rd64 (mem_write m b bs) a = rd64 m a"
  by (simp add: rd64_def mem_read_write_other)

lemma le_val_append: "le_val (xs @ ys) = le_val xs + 256 ^ length xs * le_val ys"
  by (induction xs) (simp_all add: algebra_simps)

lemma rd64_halves: "unat (rd64 m a) = unat (rd32 m a) + 2 ^ 32 * unat (rd32 m (a + 4))"
proof -
  have split: "mem_read m a 8 = mem_read m a 4 @ mem_read m (a + 4) 4"
    using holds_append [of m a "mem_read m a 4" "mem_read m (a + 4) 4"]
    by (simp add: holds_def)
  have 4: "unat (rd32 m p) = le_val (mem_read m p 4)" for p
    using le_val_bound [of "mem_read m p 4"] by (simp add: rd32_def from_le_bytes_def unat_word_of_nat)
  have 8: "unat (rd64 m a) = le_val (mem_read m a 8)"
    using le_val_bound [of "mem_read m a 8"] by (simp add: rd64_def from_le_bytes_def unat_word_of_nat)
  show ?thesis unfolding 4 8 split le_val_append by simp
qed

lemma rd64_low: "rd32 m (a + 4) = 0 \<Longrightarrow> rd64 m a = ucast (rd32 m a)"
  using rd64_halves [of m a] by (simp add: unat_ucast_widen flip: unat_inj_iff)

lemma le_val_zeros [simp]: "le_val (replicate n 0) = 0"
  by (induction n) simp_all

lemma rd_zero:
  assumes "\<And>x. x \<in> mem_range a n \<Longrightarrow> m x = 0"
  shows "n = 4 \<Longrightarrow> rd32 m a = 0" "n = 8 \<Longrightarrow> rd64 m a = 0"
proof -
  have "mem_read m a n = replicate n 0" if "n \<le> 2 ^ 64"
    using that assms by (intro nth_equalityI) (simp_all add: mem_read_def in_region)
  then show "n = 4 \<Longrightarrow> rd32 m a = 0" "n = 8 \<Longrightarrow> rd64 m a = 0"
    by (simp_all add: rd32_def rd64_def from_le_bytes_def)
qed

end
