(* ===== verification/Hyp_Virtqueue.thy ===== *)
theory Hyp_Virtqueue
  imports Hyp_Bytes
begin

text \<open>
  The split virtqueue of \<^verbatim>\<open>kernel/src/drivers/virtio/queue.rs\<close>: the descriptor table with its
  free list threaded through \<^verbatim>\<open>next\<close>, and the two rings kept as the byte vectors the device
  reads and writes. The device writes the used ring behind the driver's back, so the polling
  loop takes the contents of that ring at each poll as a parameter.

  Shown: the free list invariant is kept by allocation and release, a chain comes out linked
  and goes back whole, and both rings are FIFO queues across the wrap of their 16-bit indexes.
\<close>

section \<open>Descriptors and the queue\<close>

record Desc =
  d_addr :: u64
  d_len :: u32
  d_flags :: u16
  d_next :: u16

definition VRING_DESC_F_NEXT :: u16 where "VRING_DESC_F_NEXT = 1"
definition VRING_DESC_F_WRITE :: u16 where "VRING_DESC_F_WRITE = 2"

definition desc_default :: Desc where
  "desc_default = \<lparr>d_addr = 0, d_len = 0, d_flags = 0, d_next = 0\<rparr>"

record Virtqueue =
  vq_size :: u16
  vq_desc :: "Desc list"
  vq_avail :: "u8 list"
  vq_used :: "u8 list"
  vq_free_head :: u16
  vq_num_free :: u16
  vq_last_used_idx :: u16

definition is_power_of_two :: "u16 \<Rightarrow> bool" where
  "is_power_of_two n \<longleftrightarrow> list_ex (\<lambda>k. unat n = 2 ^ k) [0..<16]"

definition virtqueue_new :: "u16 \<Rightarrow> Virtqueue option" where
  "virtqueue_new sz =
     (if is_power_of_two sz \<and> 0 < sz
      then Some \<lparr>vq_size = sz,
        vq_desc = map (\<lambda>i. desc_default\<lparr>d_next := (if i + 1 < sz then i + 1 else 0),
                                        d_flags := VRING_DESC_F_NEXT\<rparr>) (urange 0 sz),
        vq_avail = replicate (4 + 2 * unat sz + 2) 0,
        vq_used = replicate (4 + 8 * unat sz + 2) 0,
        vq_free_head = 0, vq_num_free = sz, vq_last_used_idx = 0\<rparr>
      else None)"

section \<open>Descriptor allocation\<close>

definition alloc_desc :: "Virtqueue \<Rightarrow> (Virtqueue \<times> u16 option) option" where
  "alloc_desc q =
     (if vq_num_free q = 0 then Some (q, None)
      else do {
        let idx = vq_free_head q;
        d \<leftarrow> arr_get (vq_desc q) idx;
        Some (q\<lparr>vq_free_head := d_next d, vq_num_free := vq_num_free q - 1,
                vq_desc := (vq_desc q)[unat idx := desc_default]\<rparr>, Some idx)
      })"

text \<open>The loop of \<^verbatim>\<open>alloc_chain\<close>; its \<^verbatim>\<open>?\<close> leaves the function with the queue as it is then.\<close>

fun alloc_rest :: "usize list \<Rightarrow> Virtqueue \<Rightarrow> u16 \<Rightarrow> (Virtqueue \<times> unit option) option" where
  "alloc_rest [] q prev = Some (q, Some ())"
| "alloc_rest (_ # is) q prev = do {
     (q, r) \<leftarrow> alloc_desc q;
     case r of
       None \<Rightarrow> Some (q, None)
     | Some nxt \<Rightarrow> do {
         d \<leftarrow> arr_get (vq_desc q) prev;
         alloc_rest is (q\<lparr>vq_desc := (vq_desc q)[unat prev :=
           d\<lparr>d_flags := d_flags d OR VRING_DESC_F_NEXT, d_next := nxt\<rparr>]\<rparr>) nxt
       }
   }"

definition alloc_chain :: "Virtqueue \<Rightarrow> usize \<Rightarrow> (Virtqueue \<times> u16 option) option" where
  "alloc_chain q n =
     (if vq_num_free q < ucast n \<or> n = 0 then Some (q, None)
      else do {
        (q, r) \<leftarrow> alloc_desc q;
        case r of
          None \<Rightarrow> Some (q, None)
        | Some head \<Rightarrow> do {
            (q, r) \<leftarrow> alloc_rest (urange 1 n) q head;
            Some (q, map_option (\<lambda>_. head) r)
          }
      })"

text \<open>A chain with a cycle is never left, so the loop is a partial function.\<close>

partial_function (option) free_chain :: "Virtqueue \<Rightarrow> u16 \<Rightarrow> Virtqueue option" where
  "free_chain q idx = do {
     d \<leftarrow> arr_get (vq_desc q) idx;
     let q' = q\<lparr>vq_desc := (vq_desc q)[unat idx :=
                   d\<lparr>d_flags := VRING_DESC_F_NEXT, d_next := vq_free_head q\<rparr>],
                vq_free_head := idx, vq_num_free := vq_num_free q + 1\<rparr>;
     if d_flags d AND VRING_DESC_F_NEXT = 0 then Some q' else free_chain q' (d_next d)
   }"

section \<open>The rings\<close>

definition push_avail :: "Virtqueue \<Rightarrow> u16 \<Rightarrow> Virtqueue option" where
  "push_avail q head = do {
     let size = (ucast (vq_size q) :: usize);
     let a = vq_avail q;
     a2 \<leftarrow> arr_get a (2::usize);
     a3 \<leftarrow> arr_get a (3::usize);
     let avail_idx = (from_le_bytes [a2, a3] :: u16);
     let slot = (ucast avail_idx :: usize) AND (size - 1);
     let off = 4 + slot * 2;
     let bytes = to_le_bytes head;
     a \<leftarrow> arr_set a off (bytes ! 0);
     a \<leftarrow> arr_set a (off + 1) (bytes ! 1);
     let nb = to_le_bytes (avail_idx + 1);
     a \<leftarrow> arr_set a (2::usize) (nb ! 0);
     a \<leftarrow> arr_set a (3::usize) (nb ! 1);
     Some (q\<lparr>vq_avail := a\<rparr>)
   }"

definition pop_used :: "Virtqueue \<Rightarrow> (Virtqueue \<times> (u32 \<times> u32) option) option" where
  "pop_used q = do {
     let u = vq_used q;
     u2 \<leftarrow> arr_get u (2::usize);
     u3 \<leftarrow> arr_get u (3::usize);
     let device_idx = (from_le_bytes [u2, u3] :: u16);
     if device_idx = vq_last_used_idx q then Some (q, None)
     else do {
       let size = (ucast (vq_size q) :: usize);
       let slot = (ucast (vq_last_used_idx q) :: usize) AND (size - 1);
       let off = 4 + slot * 8;
       b0 \<leftarrow> arr_get u off; b1 \<leftarrow> arr_get u (off + 1);
       b2 \<leftarrow> arr_get u (off + 2); b3 \<leftarrow> arr_get u (off + 3);
       b4 \<leftarrow> arr_get u (off + 4); b5 \<leftarrow> arr_get u (off + 5);
       b6 \<leftarrow> arr_get u (off + 6); b7 \<leftarrow> arr_get u (off + 7);
       Some (q\<lparr>vq_last_used_idx := vq_last_used_idx q + 1\<rparr>,
             Some (from_le_bytes [b0, b1, b2, b3], from_le_bytes [b4, b5, b6, b7]))
     }
   }"

text \<open>\<^verbatim>\<open>wait_used\<close>: poll \<^term>\<open>k\<close> sees the used ring \<^term>\<open>ring k\<close> the device has written by then.\<close>

partial_function (option) wait_used ::
  "(nat \<Rightarrow> u8 list) \<Rightarrow> nat \<Rightarrow> Virtqueue \<Rightarrow> (Virtqueue \<times> (u32 \<times> u32)) option" where
  "wait_used ring k q = do {
     (q, r) \<leftarrow> pop_used (q\<lparr>vq_used := ring k\<rparr>);
     case r of Some elem \<Rightarrow> Some (q, elem) | None \<Rightarrow> wait_used ring (Suc k) q
   }"

section \<open>The queue as the device sees it\<close>

definition vq_shape :: "Virtqueue \<Rightarrow> bool" where
  "vq_shape q \<longleftrightarrow> (\<exists>k<16. unat (vq_size q) = 2 ^ k) \<and> length (vq_desc q) = unat (vq_size q) \<and>
     length (vq_avail q) = 4 + 2 * unat (vq_size q) + 2 \<and>
     length (vq_used q) = 4 + 8 * unat (vq_size q) + 2"

definition le_at16 :: "u8 list \<Rightarrow> nat \<Rightarrow> u16" where
  "le_at16 xs i = from_le_bytes [xs ! i, xs ! (i + 1)]"

definition le_at32 :: "u8 list \<Rightarrow> nat \<Rightarrow> u32" where
  "le_at32 xs i = from_le_bytes [xs ! i, xs ! (i + 1), xs ! (i + 2), xs ! (i + 3)]"

definition slot_of :: "Virtqueue \<Rightarrow> u16 \<Rightarrow> nat" where
  "slot_of q i = unat i mod unat (vq_size q)"

definition avail_idx :: "Virtqueue \<Rightarrow> u16" where
  "avail_idx q = le_at16 (vq_avail q) 2"

definition avail_entry :: "Virtqueue \<Rightarrow> u16 \<Rightarrow> u16" where
  "avail_entry q i = le_at16 (vq_avail q) (4 + 2 * slot_of q i)"

definition used_idx :: "Virtqueue \<Rightarrow> u16" where
  "used_idx q = le_at16 (vq_used q) 2"

definition used_entry :: "Virtqueue \<Rightarrow> u16 \<Rightarrow> u32 \<times> u32" where
  "used_entry q i = (le_at32 (vq_used q) (4 + 8 * slot_of q i), le_at32 (vq_used q) (8 + 8 * slot_of q i))"

lemma vq_shape_size:
  assumes "vq_shape q"
  obtains k where "k < 16" "unat (vq_size q) = 2 ^ k" "ucast (vq_size q) - 1 = (mask k :: usize)"
proof -
  obtain k where k: "k < 16" "unat (vq_size q) = 2 ^ k" using assms by (auto simp: vq_shape_def)
  have "ucast (vq_size q) = (word_of_nat (unat (vq_size q)) :: usize)" by simp
  also have "\<dots> = 2 ^ k" using k(2) by simp
  finally show thesis using that k by (simp add: mask_eq_exp_minus_1)
qed

lemma slot_lt: "vq_shape q \<Longrightarrow> slot_of q i < unat (vq_size q)"
  by (auto simp: slot_of_def vq_shape_def)

lemma size_le: "vq_shape q \<Longrightarrow> unat (vq_size q) \<le> 32768"
proof -
  assume "vq_shape q"
  then obtain k where "k < 16" "unat (vq_size q) = 2 ^ k" by (rule vq_shape_size)
  then show ?thesis using power_increasing [of k 15 "2::nat"] by simp
qed

lemma unat_slot:
  assumes "vq_shape q"
  shows "unat ((ucast (i::u16) :: usize) AND (ucast (vq_size q) - 1)) = slot_of q i"
proof -
  obtain k where k: "k < 16" "unat (vq_size q) = 2 ^ k" "ucast (vq_size q) - 1 = (mask k :: usize)"
    using assms by (rule vq_shape_size)
  have "unat (ucast i :: usize) = unat i" by (simp add: unat_ucast_widen)
  then show ?thesis using k by (simp only: and_mask_nat slot_of_def)
qed

lemma unat_slot_off:
  assumes "vq_shape q" "c < 16" "m \<le> 8"
  shows "unat (4 + (ucast (i::u16) AND (ucast (vq_size q) - 1)) * word_of_nat m + word_of_nat c :: usize) =
    4 + slot_of q i * m + c"
proof -
  define w where "w = (ucast i AND (ucast (vq_size q) - 1) :: usize)"
  have w: "unat w = slot_of q i" "slot_of q i < 32768"
    using unat_slot [OF assms(1)] slot_lt [OF assms(1), of i] size_le [OF assms(1)] by (auto simp: w_def)
  have "slot_of q i * m \<le> 32768 * 8" using w(2) assms(3) by (intro mult_le_mono) auto
  moreover have "4 + w * word_of_nat m + word_of_nat c = (word_of_nat (4 + unat w * m + c) :: usize)"
    by simp
  ultimately show ?thesis
    unfolding w_def [symmetric] using w assms(2) by (simp only: ) (rule unat_word_of_nat, simp)
qed

section \<open>Ring operations\<close>

definition put16 :: "u8 list \<Rightarrow> nat \<Rightarrow> u16 \<Rightarrow> u8 list" where
  "put16 xs i v = xs[i := to_le_bytes v ! 0, i + 1 := to_le_bytes v ! 1]"

lemma length_put16 [simp]: "length (put16 xs i v) = length xs"
  by (simp add: put16_def)

lemma le_at16_put16: "i + 1 < length xs \<Longrightarrow> le_at16 (put16 xs i v) i = v"
  using to_le_bytes_16 [of v] by (simp add: le_at16_def put16_def)

lemma le_at16_put16_other: "i + 1 < j \<or> j + 1 < i \<Longrightarrow> le_at16 (put16 xs i v) j = le_at16 xs j"
  by (auto simp: le_at16_def put16_def)

lemma arr_get_at: "unat i = n \<Longrightarrow> n < length xs \<Longrightarrow> arr_get xs i = Some (xs ! n)"
  by (simp add: arr_get_def)

lemma arr_set_at: "unat i = n \<Longrightarrow> n < length xs \<Longrightarrow> arr_set xs i v = Some (xs[n := v])"
  by (simp add: arr_set_def)

lemma push_avail_eq:
  assumes "vq_shape q"
  shows "push_avail q h = Some (q\<lparr>vq_avail :=
    put16 (put16 (vq_avail q) (4 + 2 * slot_of q (avail_idx q)) h) 2 (avail_idx q + 1)\<rparr>)"
proof -
  have s: "slot_of q (avail_idx q) < unat (vq_size q)" using assms by (rule slot_lt)
  have len: "length (vq_avail q) = 6 + 2 * unat (vq_size q)" using assms by (simp add: vq_shape_def)
  define off where "off = (4 + (ucast (avail_idx q) AND (ucast (vq_size q) - 1)) * 2 :: usize)"
  have off: "unat off = 4 + 2 * slot_of q (avail_idx q)" "unat (off + 1) = 4 + 2 * slot_of q (avail_idx q) + 1"
    using unat_slot_off [OF assms, of 0 2 "avail_idx q"] unat_slot_off [OF assms, of 1 2 "avail_idx q"]
    by (simp_all add: off_def mult.commute)
  have get: "arr_get (vq_avail q) (2::usize) = Some (vq_avail q ! 2)"
    "arr_get (vq_avail q) (3::usize) = Some (vq_avail q ! 3)"
    using len by (simp_all add: arr_get_def)
  have idx: "from_le_bytes [vq_avail q ! 2, vq_avail q ! 3] = avail_idx q"
    by (simp add: avail_idx_def le_at16_def)
  show ?thesis
    unfolding push_avail_def Let_def get bind.bind_lunit idx off_def [symmetric]
    using s len by (simp add: arr_set_at [OF off(1)] arr_set_at [OF off(2)] put16_def) (simp add: arr_set_def)
qed

lemma pop_used_eq:
  assumes "vq_shape q"
  shows "pop_used q = Some (if used_idx q = vq_last_used_idx q then (q, None)
    else (q\<lparr>vq_last_used_idx := vq_last_used_idx q + 1\<rparr>, Some (used_entry q (vq_last_used_idx q))))"
proof -
  let ?l = "vq_last_used_idx q"
  have s: "slot_of q ?l < unat (vq_size q)" using assms by (rule slot_lt)
  have len: "length (vq_used q) = 6 + 8 * unat (vq_size q)" using assms by (simp add: vq_shape_def)
  define off where "off = (4 + (ucast ?l AND (ucast (vq_size q) - 1)) * 8 :: usize)"
  have off: "arr_get (vq_used q) (off + word_of_nat c) = Some (vq_used q ! (4 + 8 * slot_of q ?l + c))" if "c < 8" for c
    using unat_slot_off [OF assms, of c 8 ?l] that s len
    by (intro arr_get_at) (simp_all add: off_def mult.commute)
  have get: "arr_get (vq_used q) (2::usize) = Some (vq_used q ! 2)"
    "arr_get (vq_used q) (3::usize) = Some (vq_used q ! 3)"
    using len by (simp_all add: arr_get_def)
  have idx: "from_le_bytes [vq_used q ! 2, vq_used q ! 3] = used_idx q"
    by (simp add: used_idx_def le_at16_def)
  show ?thesis
    unfolding pop_used_def Let_def get bind.bind_lunit idx off_def [symmetric]
    using off [of 0] off [of 1] off [of 2] off [of 3] off [of 4] off [of 5] off [of 6] off [of 7]
    by (simp add: used_entry_def le_at32_def del: arr_get_Some)
qed

lemma push_avail_ring:
  assumes "vq_shape q" "push_avail q h = Some q'"
  shows "vq_shape q'" "avail_idx q' = avail_idx q + 1" "avail_entry q' (avail_idx q) = h"
    "slot_of q i \<noteq> slot_of q (avail_idx q) \<Longrightarrow> avail_entry q' i = avail_entry q i"
    "q'\<lparr>vq_avail := vq_avail q\<rparr> = q" "slot_of q' = slot_of q"
proof -
  have s: "slot_of q (avail_idx q) < unat (vq_size q)" using assms(1) by (rule slot_lt)
  have len: "length (vq_avail q) = 6 + 2 * unat (vq_size q)" using assms(1) by (simp add: vq_shape_def)
  have q': "q' = q\<lparr>vq_avail :=
      put16 (put16 (vq_avail q) (4 + 2 * slot_of q (avail_idx q)) h) 2 (avail_idx q + 1)\<rparr>"
    using assms(2) by (simp add: push_avail_eq [OF assms(1)])
  show slot: "slot_of q' = slot_of q" by (simp add: q' slot_of_def fun_eq_iff)
  show "vq_shape q'" using assms(1) by (simp add: q' vq_shape_def)
  show "avail_idx q' = avail_idx q + 1"
    using len by (simp add: q' avail_idx_def le_at16_put16)
  show "avail_entry q' (avail_idx q) = h"
    unfolding avail_entry_def slot using s len by (simp add: q' le_at16_put16_other le_at16_put16)
  show "avail_entry q' i = avail_entry q i" if "slot_of q i \<noteq> slot_of q (avail_idx q)"
    unfolding avail_entry_def slot using that
    by (simp add: q' le_at16_put16_other [of 2]) (rule le_at16_put16_other, arith)
  show "q'\<lparr>vq_avail := vq_avail q\<rparr> = q" by (simp add: q')
qed

lemma push_avail_total: "vq_shape q \<Longrightarrow> \<exists>q'. push_avail q h = Some q'"
  by (simp add: push_avail_eq)

fun push_all :: "Virtqueue \<Rightarrow> u16 list \<Rightarrow> Virtqueue option" where
  "push_all q [] = Some q"
| "push_all q (h # hs) = do { q \<leftarrow> push_avail q h; push_all q hs }"

lemma slot_neq:
  assumes "vq_shape q" "0 < n" "n < unat (vq_size q)"
  shows "slot_of q (i + word_of_nat n) \<noteq> slot_of q i"
proof
  obtain k where k: "k < 16" "unat (vq_size q) = 2 ^ k" using assms(1) by (rule vq_shape_size)
  have "(2::nat) ^ k dvd 2 ^ 16" using k(1) by (intro le_imp_power_dvd) simp
  then have m: "(m mod 65536) mod 2 ^ k = m mod 2 ^ k" for m :: nat
    by (simp add: mod_mod_cancel)
  assume "slot_of q (i + word_of_nat n) = slot_of q i"
  then have "(unat i + n) mod 2 ^ k = unat i mod 2 ^ k"
    by (simp add: slot_of_def k(2) unat_word_ariths unat_of_nat take_bit_nat_def m mod_add_right_eq)
  then have "2 ^ k dvd n"
    by (metis add_diff_cancel_left' le_add1 mod_eq_dvd_iff_nat)
  then show False using assms(2,3) k(2) by (simp add: nat_dvd_not_less)
qed

lemma push_all_entries:
  assumes "vq_shape q" "length hs \<le> unat (vq_size q)"
  shows "\<exists>q'. push_all q hs = Some q' \<and> vq_shape q' \<and> slot_of q' = slot_of q \<and>
    avail_idx q' = avail_idx q + word_of_nat (length hs) \<and>
    (\<forall>j<length hs. avail_entry q' (avail_idx q + word_of_nat j) = hs ! j) \<and>
    (\<forall>i. (\<forall>j<length hs. slot_of q i \<noteq> slot_of q (avail_idx q + word_of_nat j)) \<longrightarrow>
         avail_entry q' i = avail_entry q i) \<and> q'\<lparr>vq_avail := vq_avail q\<rparr> = q"
  using assms
proof (induction hs arbitrary: q)
  case (Cons h hs)
  obtain q1 where q1: "push_avail q h = Some q1" using push_avail_total Cons.prems(1) by blast
  note r = push_avail_ring [OF Cons.prems(1) q1]
  have sz: "vq_size q1 = vq_size q" using arg_cong [OF r(5), of vq_size] by simp
  obtain q' where q': "push_all q1 hs = Some q'" "vq_shape q'" "slot_of q' = slot_of q1"
    "avail_idx q' = avail_idx q1 + word_of_nat (length hs)"
    "\<forall>j<length hs. avail_entry q' (avail_idx q1 + word_of_nat j) = hs ! j"
    "\<forall>i. (\<forall>j<length hs. slot_of q1 i \<noteq> slot_of q1 (avail_idx q1 + word_of_nat j)) \<longrightarrow>
         avail_entry q' i = avail_entry q1 i" "q'\<lparr>vq_avail := vq_avail q1\<rparr> = q1"
    using Cons.IH [OF r(1)] Cons.prems(2) sz by auto
  have step: "avail_idx q1 + word_of_nat j = avail_idx q + word_of_nat (Suc j)" for j
    by (simp add: r(2))
  have rest: "avail_entry q' i = avail_entry q i"
    if a: "\<forall>j<Suc (length hs). slot_of q i \<noteq> slot_of q (avail_idx q + word_of_nat j)" for i
  proof -
    have "slot_of q1 i \<noteq> slot_of q1 (avail_idx q1 + word_of_nat j)" if "j < length hs" for j
      using a [rule_format, of "Suc j"] that unfolding step r(6) by simp
    moreover have "slot_of q i \<noteq> slot_of q (avail_idx q)" using a [rule_format, of 0] by simp
    ultimately show ?thesis using q'(6) r(4) by simp
  qed
  have hd: "avail_entry q' (avail_idx q) = h"
  proof -
    have "slot_of q (avail_idx q) \<noteq> slot_of q (avail_idx q1 + word_of_nat j)" if "j < length hs" for j
      unfolding step using slot_neq [OF Cons.prems(1), of "Suc j" "avail_idx q"] that Cons.prems(2) by simp
    then show ?thesis using q'(6) r(3) by (auto simp: r(6))
  qed
  have "avail_entry q' (avail_idx q + word_of_nat j) = (h # hs) ! j" if "j < Suc (length hs)" for j
  proof (cases j)
    case (Suc i)
    then show ?thesis using q'(5) [rule_format, of i] that unfolding step by simp
  qed (simp add: hd)
  moreover have "q'\<lparr>vq_avail := vq_avail q\<rparr> = q"
    using arg_cong [OF q'(7), of "vq_avail_update (\<lambda>_. vq_avail q)"] r(5) by simp
  ultimately show ?case using q1 q' r rest by (simp add: add.assoc)
qed simp

fun pop_all :: "nat \<Rightarrow> Virtqueue \<Rightarrow> (Virtqueue \<times> (u32 \<times> u32) list) option" where
  "pop_all 0 q = Some (q, [])"
| "pop_all (Suc n) q = do {
     (q, r) \<leftarrow> pop_used q;
     case r of None \<Rightarrow> Some (q, []) | Some e \<Rightarrow> do { (q, es) \<leftarrow> pop_all n q; Some (q, e # es) }
   }"

lemma pop_all_entries:
  assumes "vq_shape q" "used_idx q = vq_last_used_idx q + word_of_nat n" "n < 65536"
  shows "pop_all n q = Some (q\<lparr>vq_last_used_idx := used_idx q\<rparr>,
    map (\<lambda>j. used_entry q (vq_last_used_idx q + word_of_nat j)) [0..<n])"
  using assms
proof (induction n arbitrary: q)
  case (Suc n)
  let ?q = "q\<lparr>vq_last_used_idx := vq_last_used_idx q + 1\<rparr>"
  have q: "vq_shape ?q" "used_idx ?q = used_idx q" "used_entry ?q = used_entry q"
    using Suc.prems(1) by (simp_all add: vq_shape_def used_idx_def used_entry_def slot_of_def fun_eq_iff)
  have "(word_of_nat (Suc n) :: u16) \<noteq> 0"
    using Suc.prems(3) by (simp add: word_of_nat_eq_0_iff nat_dvd_not_less del: of_nat_Suc)
  then have "used_idx q \<noteq> vq_last_used_idx q" by (simp add: Suc.prems(2) del: of_nat_Suc)
  then have pop: "pop_used q = Some (?q, Some (used_entry q (vq_last_used_idx q)))"
    by (simp add: pop_used_eq [OF Suc.prems(1)])
  have "pop_all n ?q = Some (?q\<lparr>vq_last_used_idx := used_idx ?q\<rparr>,
      map (\<lambda>j. used_entry ?q (vq_last_used_idx ?q + word_of_nat j)) [0..<n])"
    using Suc.prems by (intro Suc.IH q(1)) (simp_all add: q)
  then show ?case
    by (simp add: pop q map_upt_Suc add.assoc del: upt_Suc)
qed simp

lemma wait_used_skip:
  assumes "vq_shape q" "length (ring k) = length (vq_used q)"
    "le_at16 (ring k) 2 = vq_last_used_idx q"
  shows "wait_used ring k q = wait_used ring (Suc k) (q\<lparr>vq_used := ring k\<rparr>)"
proof -
  have "vq_shape (q\<lparr>vq_used := ring k\<rparr>)" using assms(1,2) by (simp add: vq_shape_def)
  then show ?thesis
    by (subst wait_used.simps) (simp add: pop_used_eq used_idx_def assms(3))
qed

lemma wait_used_hit:
  assumes "vq_shape q" "length (ring k) = length (vq_used q)"
    "le_at16 (ring k) 2 \<noteq> vq_last_used_idx q"
  shows "wait_used ring k q = Some (q\<lparr>vq_used := ring k, vq_last_used_idx := vq_last_used_idx q + 1\<rparr>,
    used_entry (q\<lparr>vq_used := ring k\<rparr>) (vq_last_used_idx q))"
proof -
  have "vq_shape (q\<lparr>vq_used := ring k\<rparr>)" using assms(1,2) by (simp add: vq_shape_def)
  then show ?thesis
    using assms(3) by (subst wait_used.simps) (simp add: pop_used_eq used_idx_def)
qed

lemma wait_used_returns:
  assumes "vq_shape q" "\<And>j. length (ring j) = length (vq_used q)"
    "\<And>j. k \<le> j \<Longrightarrow> j < k + n \<Longrightarrow> le_at16 (ring j) 2 = vq_last_used_idx q"
    "le_at16 (ring (k + n)) 2 \<noteq> vq_last_used_idx q"
  shows "wait_used ring k q = Some (q\<lparr>vq_used := ring (k + n), vq_last_used_idx := vq_last_used_idx q + 1\<rparr>,
    used_entry (q\<lparr>vq_used := ring (k + n)\<rparr>) (vq_last_used_idx q))"
  using assms
proof (induction n arbitrary: k q)
  case 0
  then show ?case by (simp add: wait_used_hit)
next
  case (Suc n)
  let ?q = "q\<lparr>vq_used := ring k\<rparr>"
  have "wait_used ring k q = wait_used ring (Suc k) ?q"
    using Suc.prems by (intro wait_used_skip) simp_all
  also have "\<dots> = Some (?q\<lparr>vq_used := ring (Suc k + n), vq_last_used_idx := vq_last_used_idx ?q + 1\<rparr>,
      used_entry (?q\<lparr>vq_used := ring (Suc k + n)\<rparr>) (vq_last_used_idx ?q))"
  proof (rule Suc.IH)
    show "vq_shape ?q" using Suc.prems(1,2) by (simp add: vq_shape_def)
    show "length (ring j) = length (vq_used ?q)" for j using Suc.prems(2) by simp
    show "le_at16 (ring j) 2 = vq_last_used_idx ?q" if "Suc k \<le> j" "j < Suc k + n" for j
      using Suc.prems(3) [of j] that by simp
    show "le_at16 (ring (Suc k + n)) 2 \<noteq> vq_last_used_idx ?q" using Suc.prems(4) by simp
  qed
  finally show ?case by simp
qed

section \<open>The free list\<close>

fun linked :: "Desc list \<Rightarrow> u16 list \<Rightarrow> bool" where
  "linked ds (a # b # r) \<longleftrightarrow> d_next (ds ! unat a) = b \<and> linked ds (b # r)"
| "linked ds _ \<longleftrightarrow> True"

definition vq_inv :: "Virtqueue \<Rightarrow> u16 list \<Rightarrow> bool" where
  "vq_inv q fl \<longleftrightarrow> vq_shape q \<and> distinct fl \<and> (\<forall>i\<in>set fl. unat i < unat (vq_size q)) \<and>
     vq_num_free q = word_of_nat (length fl) \<and> (fl \<noteq> [] \<longrightarrow> vq_free_head q = hd fl) \<and>
     linked (vq_desc q) fl"

text \<open>A chain as the device follows it: every descriptor but the last carries the NEXT flag.\<close>

fun chain :: "Desc list \<Rightarrow> u16 list \<Rightarrow> bool" where
  "chain ds [] \<longleftrightarrow> False"
| "chain ds [a] \<longleftrightarrow> d_flags (ds ! unat a) AND VRING_DESC_F_NEXT = 0"
| "chain ds (a # b # r) \<longleftrightarrow> d_flags (ds ! unat a) AND VRING_DESC_F_NEXT \<noteq> 0 \<and>
     d_next (ds ! unat a) = b \<and> chain ds (b # r)"

lemma linked_cong: "(\<And>i. i \<in> set fl \<Longrightarrow> ds ! unat i = ds' ! unat i) \<Longrightarrow> linked ds fl = linked ds' fl"
  by (induction ds fl rule: linked.induct) auto

lemma chain_cong: "(\<And>i. i \<in> set c \<Longrightarrow> ds ! unat i = ds' ! unat i) \<Longrightarrow> chain ds c = chain ds' c"
  by (induction ds c rule: chain.induct) auto

lemma chain_links:
  assumes "\<forall>i\<in>set c. d_next (ds ! unat i) = d_next (ds' ! unat i) \<and>
    d_flags (ds ! unat i) AND VRING_DESC_F_NEXT = d_flags (ds' ! unat i) AND VRING_DESC_F_NEXT"
  shows "chain ds c = chain ds' c"
  using assms by (induction ds c rule: chain.induct) auto

lemma linked_tl: "linked ds (a # fl) \<Longrightarrow> linked ds fl"
  by (cases fl) auto

lemma linked_hd: "linked ds (a # fl) \<Longrightarrow> fl \<noteq> [] \<Longrightarrow> d_next (ds ! unat a) = hd fl"
  by (cases fl) auto

lemma free_list_length:
  assumes "vq_inv q fl"
  shows "length fl \<le> unat (vq_size q)" "length fl \<le> 32768" "unat (vq_num_free q) = length fl"
proof -
  have "distinct (map unat fl)"
    using assms by (simp add: distinct_map inj_on_def vq_inv_def unat_inj_iff)
  then have "card (unat ` set fl) = length fl"
    using distinct_card [of "map unat fl"] by simp
  moreover have "card (unat ` set fl) \<le> card {..<unat (vq_size q)}"
    using assms by (intro card_mono) (auto simp: vq_inv_def)
  ultimately show l: "length fl \<le> unat (vq_size q)" by simp
  then show l2: "length fl \<le> 32768"
    using assms size_le [of q] by (simp add: vq_inv_def)
  then show "unat (vq_num_free q) = length fl"
    using assms by (simp add: vq_inv_def unat_word_of_nat)
qed

lemma alloc_desc_empty: "vq_inv q [] \<Longrightarrow> alloc_desc q = Some (q, None)"
  by (simp add: alloc_desc_def vq_inv_def)

lemma alloc_desc_step:
  assumes "vq_inv q (a # fl)"
  shows "alloc_desc q = Some (q\<lparr>vq_free_head := d_next (vq_desc q ! unat a), vq_num_free := vq_num_free q - 1,
      vq_desc := (vq_desc q)[unat a := desc_default]\<rparr>, Some a)"
    and "vq_inv (q\<lparr>vq_free_head := d_next (vq_desc q ! unat a), vq_num_free := vq_num_free q - 1,
      vq_desc := (vq_desc q)[unat a := desc_default]\<rparr>) fl"
proof -
  have a: "unat a < unat (vq_size q)" "vq_free_head q = a" "length (vq_desc q) = unat (vq_size q)"
    using assms by (simp_all add: vq_inv_def vq_shape_def)
  have "unat (vq_num_free q) \<noteq> 0" using free_list_length(3) [OF assms] by simp
  then have "vq_num_free q \<noteq> 0" by auto
  then show "alloc_desc q = Some (q\<lparr>vq_free_head := d_next (vq_desc q ! unat a), vq_num_free := vq_num_free q - 1,
      vq_desc := (vq_desc q)[unat a := desc_default]\<rparr>, Some a)"
    using a by (simp add: alloc_desc_def Let_def arr_get_def)
  have "linked ((vq_desc q)[unat a := desc_default]) fl = linked (vq_desc q) fl"
    using assms by (intro linked_cong) (auto simp: vq_inv_def nth_update_any unat_inj_iff)
  then show "vq_inv (q\<lparr>vq_free_head := d_next (vq_desc q ! unat a), vq_num_free := vq_num_free q - 1,
      vq_desc := (vq_desc q)[unat a := desc_default]\<rparr>) fl"
    using assms linked_tl [of "vq_desc q" a fl] linked_hd [of "vq_desc q" a fl]
    by (simp add: vq_inv_def vq_shape_def)
qed

text \<open>What allocating the rest of a chain after \<^term>\<open>prev\<close> leaves in the table.\<close>

lemma alloc_rest_chain:
  assumes "vq_inv q fl" "length is \<le> length fl" "prev \<notin> set fl" "unat prev < unat (vq_size q)"
    "d_flags (vq_desc q ! unat prev) = 0"
  shows "\<exists>q'. alloc_rest is q prev = Some (q', Some ()) \<and> vq_inv q' (drop (length is) fl) \<and>
    chain (vq_desc q') (prev # take (length is) fl) \<and>
    (\<forall>i. i \<notin> set (prev # take (length is) fl) \<longrightarrow> vq_desc q' ! unat i = vq_desc q ! unat i) \<and>
    vq_avail q' = vq_avail q \<and> vq_used q' = vq_used q \<and> vq_size q' = vq_size q \<and>
    vq_last_used_idx q' = vq_last_used_idx q"
  using assms
proof (induction "is" arbitrary: q fl prev)
  case Nil
  then show ?case by simp
next
  case (Cons i "is")
  then obtain a fl' where fl: "fl = a # fl'" by (cases fl) auto
  define q1 where "q1 = q\<lparr>vq_free_head := d_next (vq_desc q ! unat a), vq_num_free := vq_num_free q - 1,
      vq_desc := (vq_desc q)[unat a := desc_default]\<rparr>"
  define q2 where "q2 = q1\<lparr>vq_desc := (vq_desc q1)[unat prev :=
      (vq_desc q1 ! unat prev)\<lparr>d_flags := VRING_DESC_F_NEXT, d_next := a\<rparr>]\<rparr>"
  have inv: "vq_inv q (a # fl')" using Cons.prems(1) fl by simp
  note step = alloc_desc_step [OF inv, folded q1_def]
  have ne: "unat prev \<noteq> unat a" "unat a < length (vq_desc q)" "length (vq_desc q) = unat (vq_size q)"
    using Cons.prems(1,3) fl by (auto simp: vq_inv_def vq_shape_def unat_inj_iff)
  have q1: "vq_desc q1 ! unat prev = vq_desc q ! unat prev" "vq_desc q1 ! unat a = desc_default"
    "length (vq_desc q1) = unat (vq_size q)" "vq_size q1 = vq_size q"
    using ne by (simp_all add: q1_def)
  have rec: "alloc_rest (i # is) q prev = alloc_rest is q2 a"
    using step(1) Cons.prems(4,5) q1 by (simp add: q2_def arr_get_def)
  have lk: "linked (vq_desc q2) fl' = linked (vq_desc q1) fl'"
    using Cons.prems(3) fl by (intro linked_cong) (auto simp: q2_def nth_update_any unat_inj_iff)
  have inv2: "vq_inv q2 fl'" using step(2) lk by (simp add: vq_inv_def vq_shape_def q2_def)
  obtain q' where q': "alloc_rest is q2 a = Some (q', Some ())" "vq_inv q' (drop (length is) fl')"
    "chain (vq_desc q') (a # take (length is) fl')"
    "\<forall>i. i \<notin> set (a # take (length is) fl') \<longrightarrow> vq_desc q' ! unat i = vq_desc q2 ! unat i"
    "vq_avail q' = vq_avail q2" "vq_used q' = vq_used q2" "vq_size q' = vq_size q2"
    "vq_last_used_idx q' = vq_last_used_idx q2"
    using Cons.IH [OF inv2, of a] Cons.prems(2) inv ne q1
    by (auto simp: fl vq_inv_def q2_def desc_default_def)
  have "prev \<notin> set (a # take (length is) fl')"
    using Cons.prems(3) fl by (auto dest: in_set_takeD)
  then have p: "vq_desc q' ! unat prev = (vq_desc q ! unat prev)\<lparr>d_flags := VRING_DESC_F_NEXT, d_next := a\<rparr>"
    using q'(4) Cons.prems(4) q1 by (simp add: q2_def)
  have "vq_desc q' ! unat j = vq_desc q ! unat j" if "j \<notin> set (prev # a # take (length is) fl')" for j
    using q'(4) that by (auto simp: q2_def q1_def nth_update_any unat_inj_iff)
  then show ?case
    using rec q' p by (simp add: fl q2_def q1_def VRING_DESC_F_NEXT_def)
qed

lemma alloc_chain_guard:
  assumes "vq_inv q fl" "n < 0x10000"
  shows "vq_num_free q < ucast (n::usize) \<longleftrightarrow> length fl < unat n"
  using assms(2) free_list_length(3) [OF assms(1)]
  by (simp add: word_less_nat_alt unsigned_ucast_eq take_bit_nat_eq_self)

lemma alloc_chain_ok:
  assumes "vq_inv q fl" "0 < n" "unat n \<le> length fl"
  shows "\<exists>q'. alloc_chain q n = Some (q', Some (hd fl)) \<and> vq_inv q' (drop (unat n) fl) \<and>
    chain (vq_desc q') (take (unat n) fl) \<and>
    (\<forall>i. i \<notin> set (take (unat n) fl) \<longrightarrow> vq_desc q' ! unat i = vq_desc q ! unat i) \<and>
    vq_avail q' = vq_avail q \<and> vq_used q' = vq_used q \<and> vq_size q' = vq_size q \<and>
    vq_last_used_idx q' = vq_last_used_idx q"
proof -
  have n: "n < 0x10000" "0 < unat n"
    using assms(2,3) free_list_length(2) [OF assms(1)] by (simp_all add: word_less_nat_alt)
  obtain a fl' where fl: "fl = a # fl'" using assms(3) n(2) by (cases fl) auto
  obtain m where m: "unat n = Suc m" using n(2) by (cases "unat n") auto
  define q1 where "q1 = q\<lparr>vq_free_head := d_next (vq_desc q ! unat a), vq_num_free := vq_num_free q - 1,
      vq_desc := (vq_desc q)[unat a := desc_default]\<rparr>"
  have inv: "vq_inv q (a # fl')" using assms(1) fl by simp
  note step = alloc_desc_step [OF inv, folded q1_def]
  have a: "unat a < unat (vq_size q1)" "a \<notin> set fl'" "d_flags (vq_desc q1 ! unat a) = 0"
    using inv by (auto simp: vq_inv_def vq_shape_def q1_def desc_default_def)
  obtain q' where q': "alloc_rest (urange 1 n) q1 a = Some (q', Some ())"
    "vq_inv q' (drop m fl')" "chain (vq_desc q') (a # take m fl')"
    "\<forall>i. i \<notin> set (a # take m fl') \<longrightarrow> vq_desc q' ! unat i = vq_desc q1 ! unat i"
    "vq_avail q' = vq_avail q1" "vq_used q' = vq_used q1" "vq_size q' = vq_size q1"
    "vq_last_used_idx q' = vq_last_used_idx q1"
    using alloc_rest_chain [OF step(2) _ a(2,1,3), of "urange 1 n"] assms(3) fl by (auto simp: m)
  have "vq_desc q' ! unat i = vq_desc q ! unat i" if "i \<notin> set (take (unat n) fl)" for i
    using q'(4) that by (auto simp: m fl q1_def nth_update_any unat_inj_iff)
  moreover have "alloc_chain q n = Some (q', Some a)"
    using alloc_chain_guard [OF assms(1) n(1)] assms(2,3) step(1) q'(1) by (simp add: alloc_chain_def)
  ultimately show ?thesis using q' by (simp add: m fl q1_def)
qed

text \<open>Allocating a chain of \<^term>\<open>n\<close> descriptors. When the free list is shorter than \<^term>\<open>n\<close>
  nothing is taken and the queue is unchanged; otherwise the first \<^term>\<open>n\<close> free descriptors come
  out linked as one chain headed by the returned index, the free list keeps the rest in order,
  and no other descriptor and no ring byte changes.\<close>

theorem alloc_chain_correct:
  assumes "vq_inv q fl" "0 < n" "n < 0x10000"
  shows "if unat n \<le> length fl
    then \<exists>q'. alloc_chain q n = Some (q', Some (hd fl)) \<and> vq_inv q' (drop (unat n) fl) \<and>
      chain (vq_desc q') (take (unat n) fl) \<and>
      (\<forall>i. i \<notin> set (take (unat n) fl) \<longrightarrow> vq_desc q' ! unat i = vq_desc q ! unat i) \<and>
      vq_avail q' = vq_avail q \<and> vq_used q' = vq_used q \<and> vq_last_used_idx q' = vq_last_used_idx q
    else alloc_chain q n = Some (q, None)"
proof (cases "unat n \<le> length fl")
  case True
  then show ?thesis using alloc_chain_ok [OF assms(1,2)] by auto
next
  case False
  then show ?thesis using alloc_chain_guard [OF assms(1,3)] by (simp add: alloc_chain_def)
qed

theorem alloc_chain_correct_witness:
  "\<exists>q'. alloc_chain (the (virtqueue_new 4)) 3 = Some (q', Some 0) \<and> vq_inv q' [3] \<and>
     chain (vq_desc q') [0, 1, 2]"
proof -
  have "vq_inv (the (virtqueue_new 4)) [0, 1, 2, 3]"
    by (simp add: virtqueue_new_def vq_inv_def vq_shape_def is_power_of_two_def desc_default_def
        urange_def upt_rec) (rule exI [of _ 2], simp)
  from alloc_chain_correct [OF this, of 3] show ?thesis
    by auto
qed

lemma free_step_inv:
  assumes "vq_inv q fl" "a \<notin> set fl" "unat a < unat (vq_size q)"
  shows "vq_inv (q\<lparr>vq_desc := (vq_desc q)[unat a :=
      (vq_desc q ! unat a)\<lparr>d_flags := VRING_DESC_F_NEXT, d_next := vq_free_head q\<rparr>],
      vq_free_head := a, vq_num_free := vq_num_free q + 1\<rparr>) (a # fl)"
proof -
  let ?ds = "(vq_desc q)[unat a :=
      (vq_desc q ! unat a)\<lparr>d_flags := VRING_DESC_F_NEXT, d_next := vq_free_head q\<rparr>]"
  have "linked ?ds fl = linked (vq_desc q) fl"
    using assms(2) by (intro linked_cong) (auto simp: nth_update_any unat_inj_iff)
  then have "linked ?ds (a # fl)"
    using assms by (cases fl) (auto simp: vq_inv_def vq_shape_def)
  then show ?thesis using assms by (simp add: vq_inv_def vq_shape_def add.commute)
qed

lemma free_chain_whole:
  assumes "vq_inv q fl" "chain (vq_desc q) c" "distinct (c @ fl)" "\<forall>i\<in>set c. unat i < unat (vq_size q)"
  shows "\<exists>q'. free_chain q (hd c) = Some q' \<and> vq_inv q' (rev c @ fl) \<and>
    (\<forall>i. i \<notin> set c \<longrightarrow> vq_desc q' ! unat i = vq_desc q ! unat i) \<and>
    vq_avail q' = vq_avail q \<and> vq_used q' = vq_used q \<and> vq_last_used_idx q' = vq_last_used_idx q"
  using assms
proof (induction c arbitrary: q fl)
  case (Cons a c)
  define q1 where "q1 = q\<lparr>vq_desc := (vq_desc q)[unat a :=
      (vq_desc q ! unat a)\<lparr>d_flags := VRING_DESC_F_NEXT, d_next := vq_free_head q\<rparr>],
      vq_free_head := a, vq_num_free := vq_num_free q + 1\<rparr>"
  have inv: "vq_inv q1 (a # fl)"
    unfolding q1_def using Cons.prems by (intro free_step_inv) auto
  have a: "unat a < length (vq_desc q)" using Cons.prems(1,4) by (simp add: vq_inv_def vq_shape_def)
  have step: "free_chain q a = (if d_flags (vq_desc q ! unat a) AND VRING_DESC_F_NEXT = 0 then Some q1
      else free_chain q1 (d_next (vq_desc q ! unat a)))"
    using a by (subst free_chain.simps) (simp add: arr_get_def q1_def Let_def)
  have same: "vq_desc q1 ! unat i = vq_desc q ! unat i" if "i \<noteq> a" for i
    using that by (simp add: q1_def nth_update_any unat_inj_iff)
  show ?case
  proof (cases c)
    case Nil
    then show ?thesis using Cons.prems(2) step inv same by (auto simp: q1_def)
  next
    case (Cons b r)
    have ch: "d_flags (vq_desc q ! unat a) AND VRING_DESC_F_NEXT \<noteq> 0" "d_next (vq_desc q ! unat a) = b"
      "chain (vq_desc q) c" using Cons.prems(2) Cons by auto
    have "chain (vq_desc q1) c = chain (vq_desc q) c"
      using Cons.prems(3) by (intro chain_cong same) auto
    then have "chain (vq_desc q1) c" using ch(3) by simp
    then obtain q' where "free_chain q1 (hd c) = Some q'" "vq_inv q' (rev c @ a # fl)"
      "\<forall>i. i \<notin> set c \<longrightarrow> vq_desc q' ! unat i = vq_desc q1 ! unat i"
      "vq_avail q' = vq_avail q1" "vq_used q' = vq_used q1" "vq_last_used_idx q' = vq_last_used_idx q1"
      using Cons.IH [OF inv] Cons.prems(3,4) by (auto simp: q1_def)
    then show ?thesis using step ch same Cons by (auto simp: q1_def)
  qed
qed simp

text \<open>C26: Releasing a chain that was allocated: the loop ends, all its descriptors are free again
  (in reverse order, ahead of the old free list), the free count is right, and no other
  descriptor and no ring byte changes. Allocating and then releasing a chain therefore gives
  back every descriptor, whatever addresses and lengths the driver stored in it meanwhile.\<close>

theorem free_chain_correct:
  assumes "vq_inv q fl" "0 < n" "unat n \<le> length fl" "alloc_chain q n = Some (q1, Some head)"
    and "vq_inv q2 (drop (unat n) fl)" "vq_size q2 = vq_size q"
    and "\<forall>i\<in>set (take (unat n) fl). d_next (vq_desc q2 ! unat i) = d_next (vq_desc q1 ! unat i) \<and>
      d_flags (vq_desc q2 ! unat i) AND VRING_DESC_F_NEXT = d_flags (vq_desc q1 ! unat i) AND VRING_DESC_F_NEXT"
  shows "\<exists>q'. free_chain q2 head = Some q' \<and> vq_inv q' (rev (take (unat n) fl) @ drop (unat n) fl) \<and>
    vq_num_free q' = vq_num_free q \<and>
    (\<forall>i. i \<notin> set (take (unat n) fl) \<longrightarrow> vq_desc q' ! unat i = vq_desc q2 ! unat i) \<and>
    vq_avail q' = vq_avail q2 \<and> vq_used q' = vq_used q2 \<and> vq_last_used_idx q' = vq_last_used_idx q2"
proof -
  let ?c = "take (unat n) fl"
  have ch: "chain (vq_desc q1) ?c" "head = hd ?c"
    using alloc_chain_ok [OF assms(1,2,3)] assms(2,4) by (auto simp: word_less_nat_alt)
  have "chain (vq_desc q2) ?c = chain (vq_desc q1) ?c"
    using assms(7) by (rule chain_links)
  then have "chain (vq_desc q2) ?c" using ch(1) by simp
  moreover have "distinct (?c @ drop (unat n) fl)" "\<forall>i\<in>set ?c. unat i < unat (vq_size q2)"
    using assms(1,6) by (auto simp: vq_inv_def dest: in_set_takeD)
  ultimately obtain q' where q': "free_chain q2 (hd ?c) = Some q'" "vq_inv q' (rev ?c @ drop (unat n) fl)"
    "\<forall>i. i \<notin> set ?c \<longrightarrow> vq_desc q' ! unat i = vq_desc q2 ! unat i"
    "vq_avail q' = vq_avail q2" "vq_used q' = vq_used q2" "vq_last_used_idx q' = vq_last_used_idx q2"
    using free_chain_whole [OF assms(5)] by blast
  moreover have "vq_num_free q' = vq_num_free q"
    using q'(2) assms(1,3) by (simp add: vq_inv_def)
  ultimately show ?thesis using ch(2) by blast
qed

theorem free_chain_correct_witness:
  "\<exists>q'. free_chain (fst (the (alloc_chain (the (virtqueue_new 4)) 3))) 0 = Some q' \<and> vq_inv q' [2, 1, 0, 3]"
proof -
  have inv: "vq_inv (the (virtqueue_new 4)) [0, 1, 2, 3]"
    by (simp add: virtqueue_new_def vq_inv_def vq_shape_def is_power_of_two_def desc_default_def
        urange_def upt_rec) (rule exI [of _ 2], simp)
  have al: "alloc_chain (the (virtqueue_new 4)) 3 =
      Some (fst (the (alloc_chain (the (virtqueue_new 4)) 3)), Some 0)" by code_simp
  have inv': "vq_inv (fst (the (alloc_chain (the (virtqueue_new 4)) 3))) [3]"
    by (simp add: vq_inv_def vq_shape_def) (rule conjI, rule exI [of _ 2], code_simp, code_simp)
  have sz: "vq_size (fst (the (alloc_chain (the (virtqueue_new 4)) 3))) = vq_size (the (virtqueue_new 4))"
    by code_simp
  show ?thesis
    using free_chain_correct [OF inv _ _ al, of "fst (the (alloc_chain (the (virtqueue_new 4)) 3))"] inv' sz
    by auto
qed

text \<open>C27: Both rings are FIFO queues across the wrap of their 16-bit indexes. Heads pushed into the
  available ring, at most as many as the ring has slots, are found there by the device in
  order behind the old index, entries of other slots are kept, and the index advances by
  their number. The elements the device has put into the used ring are popped in order,
  after which the ring is empty for the driver. Nothing outside the rings is touched.\<close>

theorem virtqueue_rings_fifo:
  assumes "vq_shape q"
  shows "(length hs \<le> unat (vq_size q) \<longrightarrow>
      (\<exists>q'. push_all q hs = Some q' \<and> avail_idx q' = avail_idx q + word_of_nat (length hs) \<and>
        map (\<lambda>j. avail_entry q' (avail_idx q + word_of_nat j)) [0..<length hs] = hs \<and>
        (\<forall>i. (\<forall>j<length hs. slot_of q i \<noteq> slot_of q (avail_idx q + word_of_nat j)) \<longrightarrow>
             avail_entry q' i = avail_entry q i) \<and>
        q'\<lparr>vq_avail := vq_avail q\<rparr> = q)) \<and>
    (used_idx q = vq_last_used_idx q + word_of_nat n \<and> n < 65536 \<longrightarrow>
      (\<exists>q'. pop_all n q = Some (q', map (\<lambda>j. used_entry q (vq_last_used_idx q + word_of_nat j)) [0..<n]) \<and>
        q' = q\<lparr>vq_last_used_idx := used_idx q\<rparr> \<and> pop_used q' = Some (q', None)))"
proof (intro conjI impI, goal_cases)
  case 1
  then obtain q' where q': "push_all q hs = Some q'" "avail_idx q' = avail_idx q + word_of_nat (length hs)"
    "\<forall>j<length hs. avail_entry q' (avail_idx q + word_of_nat j) = hs ! j"
    "\<forall>i. (\<forall>j<length hs. slot_of q i \<noteq> slot_of q (avail_idx q + word_of_nat j)) \<longrightarrow>
         avail_entry q' i = avail_entry q i" "q'\<lparr>vq_avail := vq_avail q\<rparr> = q"
    using push_all_entries [OF assms, of hs] by blast
  have "map (\<lambda>j. avail_entry q' (avail_idx q + word_of_nat j)) [0..<length hs] = hs"
    using q'(3) by (intro nth_equalityI) simp_all
  then show ?case using q'(1,2,4,5) by blast
next
  case 2
  have "vq_shape (q\<lparr>vq_last_used_idx := used_idx q\<rparr>)" using assms by (simp add: vq_shape_def)
  then have "pop_used (q\<lparr>vq_last_used_idx := used_idx q\<rparr>) = Some (q\<lparr>vq_last_used_idx := used_idx q\<rparr>, None)"
    by (simp add: pop_used_eq used_idx_def)
  then show ?case using pop_all_entries [OF assms] 2 by blast
qed

text \<open>A queue whose indexes are about to wrap: two completions are waiting in the used ring.\<close>

definition wrapping_queue :: Virtqueue where
  "wrapping_queue = \<lparr>vq_size = 2, vq_desc = [desc_default, desc_default],
     vq_avail = [0, 0, 0xff, 0xff, 0, 0, 0, 0, 0, 0],
     vq_used = [0, 0, 1, 0, 1, 0, 0, 0, 5, 0, 0, 0, 0, 0, 0, 0, 9, 0, 0, 0, 0, 0],
     vq_free_head = 0, vq_num_free = 0, vq_last_used_idx = 0xffff\<rparr>"

lemma wrapping_queue_shape: "vq_shape wrapping_queue"
  by (simp add: vq_shape_def wrapping_queue_def) (rule exI [of _ 1], simp)

theorem virtqueue_rings_fifo_witness:
  "(\<exists>q'. push_all wrapping_queue [1, 0] = Some q' \<and> avail_idx q' = 1 \<and>
      [avail_entry q' 0xffff, avail_entry q' 0] = [1, 0]) \<and>
   (\<exists>q'. pop_all 2 wrapping_queue = Some (q', [(0, 9), (1, 5)]) \<and> pop_used q' = Some (q', None))"
proof -
  have idx: "avail_idx wrapping_queue = 0xffff" "length [1, 0::u16] \<le> unat (vq_size wrapping_queue)"
    "used_idx wrapping_queue = vq_last_used_idx wrapping_queue + word_of_nat 2"
    "vq_last_used_idx wrapping_queue = 0xffff"
    "used_entry wrapping_queue 0xffff = (0, 9)" "used_entry wrapping_queue 0 = (1, 5)"
    by (simp_all add: wrapping_queue_def avail_idx_def used_idx_def used_entry_def slot_of_def
        le_at16_def le_at32_def from_le_bytes_def)
  have w: "(65536::u16) = 0" "(65537::u16) = 1" by simp_all
  have u: "[0..<2] = [0, 1::nat]" "[0..<length [1, 0::u16]] = [0, 1::nat]" by (simp_all add: upt_rec)
  note f = virtqueue_rings_fifo [OF wrapping_queue_shape, of "[1, 0]" 2, unfolded u]
  have "\<exists>q'. push_all wrapping_queue [1, 0] = Some q' \<and>
      avail_idx q' = avail_idx wrapping_queue + word_of_nat (length [1, 0::u16]) \<and>
      map (\<lambda>j. avail_entry q' (avail_idx wrapping_queue + word_of_nat j)) [0, 1] = [1, 0]"
    using mp [OF conjunct1 [OF f] idx(2)] by (elim exE conjE) (intro exI conjI, assumption+)
  moreover have "\<exists>q'. pop_all 2 wrapping_queue = Some (q', map (\<lambda>j. used_entry wrapping_queue
      (vq_last_used_idx wrapping_queue + word_of_nat j)) [0, 1]) \<and> pop_used q' = Some (q', None)"
    using mp [OF conjunct2 [OF f]] idx(3) by auto
  ultimately show ?thesis by (simp add: idx(1,4,5,6) w del: push_all.simps)
qed

text \<open>The guard of \<^verbatim>\<open>alloc_chain\<close> compares the request truncated to 16 bits: a request for
  more than 65535 descriptors can pass it, fails in the middle of the loop, and leaves every
  descriptor allocated and unreachable.\<close>

lemma alloc_rest_exhausts:
  assumes "vq_inv q fl" "length fl < length is" "prev \<notin> set fl" "unat prev < unat (vq_size q)"
  shows "\<exists>q'. alloc_rest is q prev = Some (q', None) \<and> vq_inv q' []"
  using assms
proof (induction "is" arbitrary: q fl prev)
  case (Cons i "is")
  show ?case
  proof (cases fl)
    case Nil
    then show ?thesis using Cons.prems(1) alloc_desc_empty by auto
  next
    case (Cons a fl')
    define q1 where "q1 = q\<lparr>vq_free_head := d_next (vq_desc q ! unat a), vq_num_free := vq_num_free q - 1,
        vq_desc := (vq_desc q)[unat a := desc_default]\<rparr>"
    define q2 where "q2 = q1\<lparr>vq_desc := (vq_desc q1)[unat prev := (vq_desc q1 ! unat prev)
        \<lparr>d_flags := d_flags (vq_desc q1 ! unat prev) OR VRING_DESC_F_NEXT, d_next := a\<rparr>]\<rparr>"
    have inv: "vq_inv q (a # fl')" using Cons.prems(1) Cons by simp
    note step = alloc_desc_step [OF inv, folded q1_def]
    have sz: "length (vq_desc q1) = unat (vq_size q)" "vq_size q1 = vq_size q"
      using inv by (simp_all add: vq_inv_def vq_shape_def q1_def)
    have rec: "alloc_rest (i # is) q prev = alloc_rest is q2 a"
      using step(1) Cons.prems(4) sz by (simp add: q2_def arr_get_def)
    have "linked (vq_desc q2) fl' = linked (vq_desc q1) fl'"
      using Cons.prems(3) Cons by (intro linked_cong) (auto simp: q2_def nth_update_any unat_inj_iff)
    then have "vq_inv q2 fl'" using step(2) by (simp add: vq_inv_def vq_shape_def q2_def)
    then show ?thesis
      using Cons.IH [of q2 fl' a] rec Cons.prems(2) inv Cons sz by (auto simp: vq_inv_def q2_def)
  qed
qed simp

lemma alloc_chain_truncated:
  assumes "vq_inv q fl" "fl \<noteq> []" "0x10000 \<le> unat n" "unat (ucast n :: u16) \<le> length fl"
  shows "\<exists>q'. alloc_chain q n = Some (q', None) \<and> vq_inv q' []"
proof -
  obtain a fl' where fl: "fl = a # fl'" using assms(2) by (cases fl) auto
  define q1 where "q1 = q\<lparr>vq_free_head := d_next (vq_desc q ! unat a), vq_num_free := vq_num_free q - 1,
      vq_desc := (vq_desc q)[unat a := desc_default]\<rparr>"
  have inv: "vq_inv q (a # fl')" using assms(1) fl by simp
  note step = alloc_desc_step [OF inv, folded q1_def]
  have "length fl' < length (urange 1 n)"
    using free_list_length(2) [OF inv] assms(3) by simp
  moreover have "a \<notin> set fl'" "unat a < unat (vq_size q1)"
    using inv by (simp_all add: vq_inv_def q1_def)
  ultimately obtain q' where q': "alloc_rest (urange 1 n) q1 a = Some (q', None)" "vq_inv q' []"
    using alloc_rest_exhausts [OF step(2)] by blast
  have "\<not> vq_num_free q < ucast n" "n \<noteq> 0"
    using free_list_length(3) [OF inv] assms(3,4) fl by (auto simp: word_less_nat_alt)
  then have "alloc_chain q n = Some (q', None)" using step(1) q'(1) by (simp add: alloc_chain_def)
  then show ?thesis using q'(2) by blast
qed

end
