(* ===== verification/Hyp_Hw.thy ===== *)
theory Hyp_Hw
  imports Hyp_Prelude "HOL-Library.State_Monad"
begin

text \<open>
  Device registers. The drivers reach hardware through volatile reads and writes, port I/O and
  system registers. A device is a parameter: it answers every read with a value that may depend
  on all accesses made before, so no device behaviour is built in. Driver code runs in the state
  monad over the list of accesses made so far, which records the interaction in order.
\<close>

datatype Access =
    R32 usize u32 | W32 usize u32
  | R8 usize u8 | W8 usize u8
  | R64 usize u64 | W64 usize u64
  | In8 u16 u8 | Out8 u16 u8 | Out16 u16 u16 | Out32 u16 u32
  | Rdtsc u64
  | Hvc u32 "u64 list" u64
  | Mrs string u64 | Msr string u64
  | Fence string

type_synonym hist = "Access list"

record Bus =
  bus_r32 :: "hist \<Rightarrow> usize \<Rightarrow> u32"
  bus_r8 :: "hist \<Rightarrow> usize \<Rightarrow> u8"
  bus_r64 :: "hist \<Rightarrow> usize \<Rightarrow> u64"
  bus_in8 :: "hist \<Rightarrow> u16 \<Rightarrow> u8"
  bus_mrs :: "hist \<Rightarrow> string \<Rightarrow> u64"
  bus_tsc :: "hist \<Rightarrow> u64"
  bus_hvc :: "hist \<Rightarrow> u32 \<Rightarrow> u64 list \<Rightarrow> u64"

type_synonym 'a hw = "(hist, 'a) state"

definition read32 :: "Bus \<Rightarrow> usize \<Rightarrow> u32 hw" where
  "read32 bus a = State (\<lambda>h. (bus_r32 bus h a, h @ [R32 a (bus_r32 bus h a)]))"

definition write32 :: "usize \<Rightarrow> u32 \<Rightarrow> unit hw" where
  "write32 a v = State (\<lambda>h. ((), h @ [W32 a v]))"

definition read8 :: "Bus \<Rightarrow> usize \<Rightarrow> u8 hw" where
  "read8 bus a = State (\<lambda>h. (bus_r8 bus h a, h @ [R8 a (bus_r8 bus h a)]))"

definition write8 :: "usize \<Rightarrow> u8 \<Rightarrow> unit hw" where
  "write8 a v = State (\<lambda>h. ((), h @ [W8 a v]))"

definition read64 :: "Bus \<Rightarrow> usize \<Rightarrow> u64 hw" where
  "read64 bus a = State (\<lambda>h. (bus_r64 bus h a, h @ [R64 a (bus_r64 bus h a)]))"

definition write64 :: "usize \<Rightarrow> u64 \<Rightarrow> unit hw" where
  "write64 a v = State (\<lambda>h. ((), h @ [W64 a v]))"

definition inb :: "Bus \<Rightarrow> u16 \<Rightarrow> u8 hw" where
  "inb bus p = State (\<lambda>h. (bus_in8 bus h p, h @ [In8 p (bus_in8 bus h p)]))"

definition outb :: "u16 \<Rightarrow> u8 \<Rightarrow> unit hw" where
  "outb p v = State (\<lambda>h. ((), h @ [Out8 p v]))"

definition outw :: "u16 \<Rightarrow> u16 \<Rightarrow> unit hw" where
  "outw p v = State (\<lambda>h. ((), h @ [Out16 p v]))"

definition outl :: "u16 \<Rightarrow> u32 \<Rightarrow> unit hw" where
  "outl p v = State (\<lambda>h. ((), h @ [Out32 p v]))"

text \<open>The time stamp counter, and a call to the firmware with a function number and its arguments.\<close>

definition rdtsc :: "Bus \<Rightarrow> u64 hw" where
  "rdtsc bus = State (\<lambda>h. (bus_tsc bus h, h @ [Rdtsc (bus_tsc bus h)]))"

definition hvc :: "Bus \<Rightarrow> u32 \<Rightarrow> u64 list \<Rightarrow> u64 hw" where
  "hvc bus f args = State (\<lambda>h. (bus_hvc bus h f args, h @ [Hvc f args (bus_hvc bus h f args)]))"

definition mrs :: "Bus \<Rightarrow> string \<Rightarrow> u64 hw" where
  "mrs bus r = State (\<lambda>h. (bus_mrs bus h r, h @ [Mrs r (bus_mrs bus h r)]))"

definition msr :: "string \<Rightarrow> u64 \<Rightarrow> unit hw" where
  "msr r v = State (\<lambda>h. ((), h @ [Msr r v]))"

definition barrier :: "string \<Rightarrow> unit hw" where
  "barrier b = State (\<lambda>h. ((), h @ [Fence b]))"

lemmas hw_ops = read32_def write32_def read8_def write8_def read64_def write64_def inb_def outb_def
  mrs_def msr_def barrier_def outw_def outl_def rdtsc_def hvc_def

lemma run_state_if [simp]:
  "run_state (if c then m else m') s = (if c then run_state m s else run_state m' s)"
  by simp

fun is_write :: "Access \<Rightarrow> bool" where
  "is_write (W32 a v) = True"
| "is_write (W8 a v) = True"
| "is_write (W64 a v) = True"
| "is_write (Out8 a v) = True"
| "is_write (Out16 a v) = True"
| "is_write (Out32 a v) = True"
| "is_write (Msr a v) = True"
| "is_write (Hvc f a r) = True"
| "is_write _ = False"

definition writes :: "hist \<Rightarrow> Access list" where
  "writes h = filter is_write h"

lemma writes_append [simp]: "writes (h @ h') = writes h @ writes h'"
  by (simp add: writes_def)

lemma writes_Nil [simp]: "writes [] = []"
  by (simp add: writes_def)

lemma writes_Cons [simp]: "writes (a # h) = (if is_write a then a # writes h else writes h)"
  by (simp add: writes_def)

lemma hw_for_each:
  assumes "\<And>x h. snd (run_state (f x) h) = h @ g x"
  shows "snd (run_state (State_Monad.traverse_list f xs) h) = h @ concat (map g xs)"
  using assms
  by (induction xs arbitrary: h) (auto simp: split_def)

section \<open>Spin loops\<close>

text \<open>\<^verbatim>\<open>while poll() { spin_loop() }\<close>: one poll gives whether to go on and the accesses so far. A device
  that never answers leaves the loop running, the value \<^const>\<open>None\<close>.\<close>

partial_function (option) spin :: "(hist \<Rightarrow> bool \<times> hist) \<Rightarrow> hist \<Rightarrow> hist option" where
  "spin poll h = (if fst (poll h) then spin poll (snd (poll h)) else Some (snd (poll h)))"

text \<open>The device answers: from every state, some number of polls is enough.\<close>

definition answers :: "(hist \<Rightarrow> bool \<times> hist) \<Rightarrow> bool" where
  "answers poll \<longleftrightarrow> (\<forall>h. \<exists>n. \<not> fst (poll (((\<lambda>h. snd (poll h)) ^^ n) h)))"

lemma spin_ends:
  assumes "answers poll" "\<And>h. \<exists>a. snd (poll h) = h @ [a] \<and> P a"
  shows "\<exists>t. spin poll h = Some (h @ t) \<and> list_all P t"
proof -
  obtain n where "\<not> fst (poll (((\<lambda>h. snd (poll h)) ^^ n) h))" using assms(1) by (auto simp: answers_def)
  then show ?thesis
  proof (induction n arbitrary: h)
    case 0
    obtain a where "snd (poll h) = h @ [a]" "P a" using assms(2) by blast
    then show ?case using 0 by (subst spin.simps) auto
  next
    case (Suc n)
    obtain a where a: "snd (poll h) = h @ [a]" "P a" using assms(2) by blast
    show ?case
    proof (cases "fst (poll h)")
      case True
      obtain t where "spin poll (snd (poll h)) = Some (snd (poll h) @ t)" "list_all P t"
        using Suc.IH [of "snd (poll h)"] Suc.prems unfolding funpow_Suc_right comp_apply by blast
      then show ?thesis using a True by (intro exI [of _ "a # t"]) (simp add: spin.simps [of poll h])
    next
      case False
      then show ?thesis using a by (intro exI [of _ "[a]"]) (simp add: spin.simps [of poll h])
    qed
  qed
qed

text \<open>The loop ends with the first poll that says so.\<close>

lemma spin_last:
  assumes "answers poll"
  shows "\<exists>n. \<not> fst (poll (((\<lambda>h. snd (poll h)) ^^ n) h)) \<and> spin poll h = Some (snd (poll (((\<lambda>h. snd (poll h)) ^^ n) h)))"
proof -
  obtain n where "\<not> fst (poll (((\<lambda>h. snd (poll h)) ^^ n) h))" using assms by (auto simp: answers_def)
  then show ?thesis
  proof (induction n arbitrary: h)
    case 0
    then show ?case by (intro exI [of _ 0]) (simp add: spin.simps [of poll h])
  next
    case (Suc n)
    show ?case
    proof (cases "fst (poll h)")
      case True
      obtain k where "\<not> fst (poll (((\<lambda>h. snd (poll h)) ^^ k) (snd (poll h))))"
        "spin poll (snd (poll h)) = Some (snd (poll (((\<lambda>h. snd (poll h)) ^^ k) (snd (poll h)))))"
        using Suc.IH [of "snd (poll h)"] Suc.prems unfolding funpow_Suc_right comp_apply by blast
      then show ?thesis
        using True by (intro exI [of _ "Suc k"]) (simp add: spin.simps [of poll h] funpow_Suc_right del: funpow.simps)
    next
      case False
      then show ?thesis by (intro exI [of _ 0]) (simp add: spin.simps [of poll h])
    qed
  qed
qed

text \<open>A bus on which every read yields 0, to evaluate the definitions on.\<close>

definition zero_bus :: Bus where
  "zero_bus = \<lparr>bus_r32 = \<lambda>_ _. 0, bus_r8 = \<lambda>_ _. 0, bus_r64 = \<lambda>_ _. 0, bus_in8 = \<lambda>_ _. 0, bus_mrs = \<lambda>_ _. 0,
     bus_tsc = \<lambda>_. 0, bus_hvc = \<lambda>_ _ _. 0\<rparr>"

end
