(* ===== verification/Hyp_Mmio.thy ===== *)
theory Hyp_Mmio
  imports Hyp_Hw
begin

text \<open>
  The virtio-mmio transport of \<^verbatim>\<open>kernel/src/drivers/virtio/mmio.rs\<close>: register offsets, the slot
  probe, the status and feature handshake, queue configuration and the device configuration space.
\<close>

section \<open>Registers and constants\<close>

definition REG_MAGIC_VALUE :: usize where "REG_MAGIC_VALUE = 0x000"
definition REG_VERSION :: usize where "REG_VERSION = 0x004"
definition REG_DEVICE_ID :: usize where "REG_DEVICE_ID = 0x008"
definition REG_VENDOR_ID :: usize where "REG_VENDOR_ID = 0x00c"
definition REG_DEVICE_FEATURES :: usize where "REG_DEVICE_FEATURES = 0x010"
definition REG_DEVICE_FEATURES_SEL :: usize where "REG_DEVICE_FEATURES_SEL = 0x014"
definition REG_DRIVER_FEATURES :: usize where "REG_DRIVER_FEATURES = 0x020"
definition REG_DRIVER_FEATURES_SEL :: usize where "REG_DRIVER_FEATURES_SEL = 0x024"
definition REG_QUEUE_SEL :: usize where "REG_QUEUE_SEL = 0x030"
definition REG_QUEUE_NUM_MAX :: usize where "REG_QUEUE_NUM_MAX = 0x034"
definition REG_QUEUE_NUM :: usize where "REG_QUEUE_NUM = 0x038"
definition REG_QUEUE_READY :: usize where "REG_QUEUE_READY = 0x044"
definition REG_QUEUE_NOTIFY :: usize where "REG_QUEUE_NOTIFY = 0x050"
definition REG_INTERRUPT_STATUS :: usize where "REG_INTERRUPT_STATUS = 0x060"
definition REG_INTERRUPT_ACK :: usize where "REG_INTERRUPT_ACK = 0x064"
definition REG_STATUS :: usize where "REG_STATUS = 0x070"
definition REG_QUEUE_DESC_LOW :: usize where "REG_QUEUE_DESC_LOW = 0x080"
definition REG_QUEUE_DESC_HIGH :: usize where "REG_QUEUE_DESC_HIGH = 0x084"
definition REG_QUEUE_DRIVER_LOW :: usize where "REG_QUEUE_DRIVER_LOW = 0x090"
definition REG_QUEUE_DRIVER_HIGH :: usize where "REG_QUEUE_DRIVER_HIGH = 0x094"
definition REG_QUEUE_DEVICE_LOW :: usize where "REG_QUEUE_DEVICE_LOW = 0x0a0"
definition REG_QUEUE_DEVICE_HIGH :: usize where "REG_QUEUE_DEVICE_HIGH = 0x0a4"
definition REG_CONFIG :: usize where "REG_CONFIG = 0x100"

lemmas mmio_regs = REG_MAGIC_VALUE_def REG_VERSION_def REG_DEVICE_ID_def REG_VENDOR_ID_def REG_DEVICE_FEATURES_def REG_DEVICE_FEATURES_SEL_def REG_DRIVER_FEATURES_def REG_DRIVER_FEATURES_SEL_def REG_QUEUE_SEL_def REG_QUEUE_NUM_MAX_def REG_QUEUE_NUM_def REG_QUEUE_READY_def REG_QUEUE_NOTIFY_def REG_INTERRUPT_STATUS_def REG_INTERRUPT_ACK_def REG_STATUS_def REG_QUEUE_DESC_LOW_def REG_QUEUE_DESC_HIGH_def REG_QUEUE_DRIVER_LOW_def REG_QUEUE_DRIVER_HIGH_def REG_QUEUE_DEVICE_LOW_def REG_QUEUE_DEVICE_HIGH_def REG_CONFIG_def

definition VIRTIO_MAGIC :: u32 where "VIRTIO_MAGIC = 0x74726976"

definition STATUS_ACK :: u32 where "STATUS_ACK = 1"
definition STATUS_DRIVER :: u32 where "STATUS_DRIVER = 2"
definition STATUS_DRIVER_OK :: u32 where "STATUS_DRIVER_OK = 4"
definition STATUS_FEATURES_OK :: u32 where "STATUS_FEATURES_OK = 8"
definition STATUS_FAILED :: u32 where "STATUS_FAILED = 128"

definition VIRTIO_F_VERSION_1 :: u64 where "VIRTIO_F_VERSION_1 = push_bit 32 1"

definition VIRTIO_ID_NET :: u32 where "VIRTIO_ID_NET = 1"
definition VIRTIO_ID_BLOCK :: u32 where "VIRTIO_ID_BLOCK = 2"
definition VIRTIO_ID_CONSOLE :: u32 where "VIRTIO_ID_CONSOLE = 3"
definition VIRTIO_ID_GPU :: u32 where "VIRTIO_ID_GPU = 16"

record ProbeHeader =
  ph_device_id :: u32
  ph_vendor_id :: u32
  ph_version :: u32

datatype Transport = Transport (tr_base: usize)

datatype InitError = BadMagic | UnsupportedVersion | NoDevice | QueueTooSmall

fun init_error_text :: "InitError \<Rightarrow> string" where
  "init_error_text BadMagic = ''virtio: bad magic''"
| "init_error_text UnsupportedVersion = ''virtio: unsupported version''"
| "init_error_text NoDevice = ''virtio: no device in slot''"
| "init_error_text QueueTooSmall = ''virtio: queue too small''"

section \<open>Transport operations\<close>

definition probe :: "Bus \<Rightarrow> usize \<Rightarrow> ProbeHeader option hw" where
  "probe bus b = do {
     magic \<leftarrow> read32 bus (b + REG_MAGIC_VALUE);
     if magic \<noteq> VIRTIO_MAGIC then State_Monad.return None
     else do {
       device_id \<leftarrow> read32 bus (b + REG_DEVICE_ID);
       if device_id = 0 then State_Monad.return None
       else do {
         version \<leftarrow> read32 bus (b + REG_VERSION);
         vendor_id \<leftarrow> read32 bus (b + REG_VENDOR_ID);
         State_Monad.return (Some \<lparr>ph_device_id = device_id, ph_vendor_id = vendor_id, ph_version = version\<rparr>)
       }
     }
   }"

definition r32 :: "Bus \<Rightarrow> Transport \<Rightarrow> usize \<Rightarrow> u32 hw" where
  "r32 bus t off = read32 bus (tr_base t + off)"

definition w32 :: "Transport \<Rightarrow> usize \<Rightarrow> u32 \<Rightarrow> unit hw" where
  "w32 t off v = write32 (tr_base t + off) v"

definition init_begin :: "Bus \<Rightarrow> Transport \<Rightarrow> (InitError + unit) hw" where
  "init_begin bus t = do {
     magic \<leftarrow> r32 bus t REG_MAGIC_VALUE;
     if magic \<noteq> VIRTIO_MAGIC then State_Monad.return (Inl BadMagic)
     else do {
       version \<leftarrow> r32 bus t REG_VERSION;
       if version \<noteq> 1 \<and> version \<noteq> 2 then State_Monad.return (Inl UnsupportedVersion)
       else do {
         did \<leftarrow> r32 bus t REG_DEVICE_ID;
         if did = 0 then State_Monad.return (Inl NoDevice)
         else do {
           w32 t REG_STATUS 0;
           w32 t REG_STATUS STATUS_ACK;
           w32 t REG_STATUS (STATUS_ACK OR STATUS_DRIVER);
           State_Monad.return (Inr ())
         }
       }
     }
   }"

definition read_features :: "Bus \<Rightarrow> Transport \<Rightarrow> u64 hw" where
  "read_features bus t = do {
     w32 t REG_DEVICE_FEATURES_SEL 0;
     lo \<leftarrow> r32 bus t REG_DEVICE_FEATURES;
     w32 t REG_DEVICE_FEATURES_SEL 1;
     hi \<leftarrow> r32 bus t REG_DEVICE_FEATURES;
     State_Monad.return (push_bit 32 (ucast hi) OR ucast lo)
   }"

definition write_features :: "Bus \<Rightarrow> Transport \<Rightarrow> u64 \<Rightarrow> unit hw" where
  "write_features bus t features = do {
     w32 t REG_DRIVER_FEATURES_SEL 0;
     w32 t REG_DRIVER_FEATURES (ucast features);
     w32 t REG_DRIVER_FEATURES_SEL 1;
     w32 t REG_DRIVER_FEATURES (ucast (drop_bit 32 features));
     s \<leftarrow> r32 bus t REG_STATUS;
     w32 t REG_STATUS (s OR STATUS_FEATURES_OK)
   }"

definition queue_max :: "Bus \<Rightarrow> Transport \<Rightarrow> u32 \<Rightarrow> u32 hw" where
  "queue_max bus t queue_idx = do {
     w32 t REG_QUEUE_SEL queue_idx;
     r32 bus t REG_QUEUE_NUM_MAX
   }"

definition queue_configure :: "Transport \<Rightarrow> u32 \<Rightarrow> u32 \<Rightarrow> u64 \<Rightarrow> u64 \<Rightarrow> u64 \<Rightarrow> unit hw" where
  "queue_configure t queue_idx sz desc driver device = do {
     w32 t REG_QUEUE_SEL queue_idx;
     w32 t REG_QUEUE_NUM sz;
     w32 t REG_QUEUE_DESC_LOW (ucast desc);
     w32 t REG_QUEUE_DESC_HIGH (ucast (drop_bit 32 desc));
     w32 t REG_QUEUE_DRIVER_LOW (ucast driver);
     w32 t REG_QUEUE_DRIVER_HIGH (ucast (drop_bit 32 driver));
     w32 t REG_QUEUE_DEVICE_LOW (ucast device);
     w32 t REG_QUEUE_DEVICE_HIGH (ucast (drop_bit 32 device));
     w32 t REG_QUEUE_READY 1
   }"

definition queue_notify :: "Transport \<Rightarrow> u32 \<Rightarrow> unit hw" where
  "queue_notify t queue_idx = w32 t REG_QUEUE_NOTIFY queue_idx"

definition driver_ok :: "Bus \<Rightarrow> Transport \<Rightarrow> unit hw" where
  "driver_ok bus t = do {
     s \<leftarrow> r32 bus t REG_STATUS;
     w32 t REG_STATUS (s OR STATUS_DRIVER_OK)
   }"

definition config_read_u8 :: "Bus \<Rightarrow> Transport \<Rightarrow> usize \<Rightarrow> u8 hw" where
  "config_read_u8 bus t offset = read8 bus (tr_base t + REG_CONFIG + offset)"

definition config_read_u32 :: "Bus \<Rightarrow> Transport \<Rightarrow> usize \<Rightarrow> u32 hw" where
  "config_read_u32 bus t offset = read32 bus (tr_base t + REG_CONFIG + offset)"

definition config_read_u64 :: "Bus \<Rightarrow> Transport \<Rightarrow> usize \<Rightarrow> u64 hw" where
  "config_read_u64 bus t offset = do {
     lo \<leftarrow> config_read_u32 bus t offset;
     hi \<leftarrow> config_read_u32 bus t (offset + 4);
     State_Monad.return (push_bit 32 (ucast hi) OR ucast lo)
   }"

definition interrupt_status :: "Bus \<Rightarrow> Transport \<Rightarrow> u32 hw" where
  "interrupt_status bus t = r32 bus t REG_INTERRUPT_STATUS"

definition interrupt_ack :: "Transport \<Rightarrow> u32 \<Rightarrow> unit hw" where
  "interrupt_ack t m = w32 t REG_INTERRUPT_ACK m"

section \<open>The accesses each operation makes\<close>

lemma run_r32 [simp]: "run_state (r32 bus t off) h =
    (bus_r32 bus h (tr_base t + off), h @ [R32 (tr_base t + off) (bus_r32 bus h (tr_base t + off))])"
  by (simp add: r32_def read32_def)

lemma run_w32 [simp]: "run_state (w32 t off v) h = ((), h @ [W32 (tr_base t + off) v])"
  by (simp add: w32_def write32_def)

text \<open>The writes of the feature handshake and of queue configuration, in order.\<close>

definition write_features_trace :: "Transport \<Rightarrow> u64 \<Rightarrow> u32 \<Rightarrow> Access list" where
  "write_features_trace t f s =
     [W32 (tr_base t + REG_DRIVER_FEATURES_SEL) 0, W32 (tr_base t + REG_DRIVER_FEATURES) (ucast f),
      W32 (tr_base t + REG_DRIVER_FEATURES_SEL) 1, W32 (tr_base t + REG_DRIVER_FEATURES) (ucast (drop_bit 32 f)),
      W32 (tr_base t + REG_STATUS) (s OR STATUS_FEATURES_OK)]"

definition queue_trace :: "Transport \<Rightarrow> u32 \<Rightarrow> u32 \<Rightarrow> u64 \<Rightarrow> u64 \<Rightarrow> u64 \<Rightarrow> Access list" where
  "queue_trace t i n d a u = map (\<lambda>(r, v). W32 (tr_base t + r) v)
     [(REG_QUEUE_SEL, i), (REG_QUEUE_NUM, n), (REG_QUEUE_DESC_LOW, ucast d),
      (REG_QUEUE_DESC_HIGH, ucast (drop_bit 32 d)), (REG_QUEUE_DRIVER_LOW, ucast a),
      (REG_QUEUE_DRIVER_HIGH, ucast (drop_bit 32 a)), (REG_QUEUE_DEVICE_LOW, ucast u),
      (REG_QUEUE_DEVICE_HIGH, ucast (drop_bit 32 u)), (REG_QUEUE_READY, 1)]"

text \<open>An operation appends its accesses to the history; what it writes does not depend on the past.\<close>

definition appends :: "'a hw \<Rightarrow> ('a \<Rightarrow> Access list \<Rightarrow> bool) \<Rightarrow> bool" where
  "appends m P \<longleftrightarrow> (\<forall>h. \<exists>r h'. run_state m h = (r, h @ h') \<and> P r h')"

lemma appendsE:
  assumes "appends m P"
  obtains r h' where "run_state m h = (r, h @ h')" "P r h'"
  using assms unfolding appends_def by blast

lemma init_begin_appends:
  "appends (init_begin bus t) (\<lambda>r w. case r of Inl e \<Rightarrow> writes w = []
     | Inr u \<Rightarrow> writes w = map (W32 (tr_base t + REG_STATUS)) [0, STATUS_ACK, STATUS_ACK OR STATUS_DRIVER])"
  by (auto simp: appends_def init_begin_def)

lemma read_features_appends:
  "appends (read_features bus t) (\<lambda>r w. \<exists>lo hi. r = push_bit 32 (ucast hi) OR ucast lo \<and>
     w = [W32 (tr_base t + REG_DEVICE_FEATURES_SEL) 0, R32 (tr_base t + REG_DEVICE_FEATURES) lo,
          W32 (tr_base t + REG_DEVICE_FEATURES_SEL) 1, R32 (tr_base t + REG_DEVICE_FEATURES) hi])"
  by (auto simp: appends_def read_features_def)

lemma write_features_appends:
  "appends (write_features bus t f) (\<lambda>r w. \<exists>s. writes w = write_features_trace t f s)"
  by (auto simp: appends_def write_features_def write_features_trace_def)

lemma queue_max_appends:
  "appends (queue_max bus t i) (\<lambda>r w. writes w = [W32 (tr_base t + REG_QUEUE_SEL) i])"
  by (simp add: appends_def queue_max_def)

lemma queue_configure_appends:
  "appends (queue_configure t i n d a u) (\<lambda>r w. writes w = queue_trace t i n d a u)"
  by (simp add: appends_def queue_configure_def queue_trace_def)

lemma config_read_u64_appends: "appends (config_read_u64 bus t off) (\<lambda>r w. writes w = [])"
  by (simp add: appends_def config_read_u64_def config_read_u32_def read32_def)

lemma config_read_u8_appends: "appends (config_read_u8 bus t off) (\<lambda>r w. writes w = [])"
  by (simp add: appends_def config_read_u8_def read8_def)

lemma driver_ok_appends:
  "appends (driver_ok bus t) (\<lambda>r w. \<exists>s. writes w = [W32 (tr_base t + REG_STATUS) (s OR STATUS_DRIVER_OK)])"
  by (auto simp: appends_def driver_ok_def)

text \<open>The part of bring-up that every driver shares, up to the size of the first queue.\<close>

definition handshake :: "Transport \<Rightarrow> u64 \<Rightarrow> u32 \<Rightarrow> u32 \<Rightarrow> Access list" where
  "handshake t f s i = map (W32 (tr_base t + REG_STATUS)) [0, STATUS_ACK, STATUS_ACK OR STATUS_DRIVER] @
     map (W32 (tr_base t + REG_DEVICE_FEATURES_SEL)) [0, 1] @ write_features_trace t (f AND VIRTIO_F_VERSION_1) s @
     [W32 (tr_base t + REG_QUEUE_SEL) i]"

end
