(* ===== verification/Hyp_Virtio_Blk.thy ===== *)
theory Hyp_Virtio_Blk
  imports Hyp_Virtqueue Hyp_Mmio
begin

text \<open>
  The virtio block driver of \<^verbatim>\<open>kernel/src/drivers/virtio/blk.rs\<close>: bring-up over the MMIO
  transport, and sector reads and writes as three-descriptor chains in the request queue.
  The heap addresses of the request header, the status byte and the temporary buffer come from
  the allocator and are parameters. So is the device: on a notification it returns its next
  state, memory when the request is complete, and the used ring at every later poll.
\<close>

section \<open>Bring-up\<close>

definition VIRTIO_BLK_T_IN :: u32 where "VIRTIO_BLK_T_IN = 0"
definition VIRTIO_BLK_T_OUT :: u32 where "VIRTIO_BLK_T_OUT = 1"
definition VIRTIO_BLK_S_OK :: u8 where "VIRTIO_BLK_S_OK = 0"
definition BLK_QUEUE_SIZE :: u16 where "BLK_QUEUE_SIZE = 16"
definition SECTOR_SIZE :: usize where "SECTOR_SIZE = 512"

record ReqHeader =
  rq_ty :: u32
  rq_reserved :: u32
  rq_sector :: u64

definition req_header_bytes :: "ReqHeader \<Rightarrow> u8 list" where
  "req_header_bytes r = to_le_bytes (rq_ty r) @ to_le_bytes (rq_reserved r) @ to_le_bytes (rq_sector r)"

record VirtioBlk =
  vb_transport :: Transport
  vb_queue :: Virtqueue
  vb_capacity_sectors :: u64

definition blk_init :: "Bus \<Rightarrow> usize \<Rightarrow> u64 \<Rightarrow> u64 \<Rightarrow> u64 \<Rightarrow> (string + VirtioBlk) option hw" where
  "blk_init bus b desc_phys avail_phys used_phys = do {
     let t = Transport b;
     r \<leftarrow> init_begin bus t;
     case r of
       Inl e \<Rightarrow> State_Monad.return (Some (Inl ''init_begin failed''))
     | Inr u \<Rightarrow> do {
         device_feats \<leftarrow> read_features bus t;
         let driver_feats = device_feats AND VIRTIO_F_VERSION_1;
         write_features bus t driver_feats;
         mx \<leftarrow> queue_max bus t 0;
         if mx = 0 then State_Monad.return (Some (Inl ''virtio-blk: no requestq''))
         else let sz = min BLK_QUEUE_SIZE (ucast mx) in
           case virtqueue_new sz of
             None \<Rightarrow> State_Monad.return None
           | Some q \<Rightarrow> do {
               queue_configure t 0 (ucast sz) desc_phys avail_phys used_phys;
               capacity \<leftarrow> config_read_u64 bus t 0;
               driver_ok bus t;
               State_Monad.return (Some (Inr \<lparr>vb_transport = t,
                 vb_queue = q\<lparr>vq_last_used_idx := 0\<rparr>, vb_capacity_sectors = capacity\<rparr>))
             }
       }
   }"

section \<open>Requests\<close>

type_synonym 'd dma = "'d \<Rightarrow> Virtqueue \<Rightarrow> memory \<Rightarrow> 'd \<times> memory \<times> (nat \<Rightarrow> u8 list)"

definition set_desc :: "Virtqueue \<Rightarrow> u16 \<Rightarrow> u64 \<Rightarrow> u32 \<Rightarrow> u16 \<Rightarrow> Virtqueue option" where
  "set_desc q idx a l f = do {
     d \<leftarrow> arr_get (vq_desc q) idx;
     Some (q\<lparr>vq_desc := (vq_desc q)[unat idx := d\<lparr>d_addr := a, d_len := l, d_flags := f\<rparr>]\<rparr>)
   }"

definition next_desc :: "Virtqueue \<Rightarrow> u16 \<Rightarrow> u16 option" where
  "next_desc q idx = map_option d_next (arr_get (vq_desc q) idx)"

definition do_request ::
  "'d dma \<Rightarrow> u64 \<Rightarrow> u64 \<Rightarrow> 'd \<Rightarrow> memory \<Rightarrow> Virtqueue \<Rightarrow> u32 \<Rightarrow> u64 \<Rightarrow> usize \<Rightarrow> u64
     \<Rightarrow> ('d \<times> memory \<times> Virtqueue \<times> (string + unit)) option" where
  "do_request dev header_box status_box d mem q ty sector n data = do {
     let header = \<lparr>rq_ty = ty, rq_reserved = 0, rq_sector = sector\<rparr>;
     let mem = mem_write mem header_box (req_header_bytes header);
     let mem = mem_write mem status_box [0xff];
     (q, r) \<leftarrow> alloc_chain q 3;
     case r of
       None \<Rightarrow> Some (d, mem, q, Inl ''virtio-blk: virtqueue full'')
     | Some head \<Rightarrow> do {
         q \<leftarrow> set_desc q head header_box 16 VRING_DESC_F_NEXT;
         idx \<leftarrow> next_desc q head;
         let data_flags = (if ty = VIRTIO_BLK_T_IN then VRING_DESC_F_NEXT OR VRING_DESC_F_WRITE
                           else VRING_DESC_F_NEXT);
         q \<leftarrow> set_desc q idx data (ucast (n * SECTOR_SIZE)) data_flags;
         idx \<leftarrow> next_desc q idx;
         q \<leftarrow> set_desc q idx status_box 1 VRING_DESC_F_WRITE;
         q \<leftarrow> push_avail q head;
         let (d, mem, ring) = dev d q mem;
         (q, elem) \<leftarrow> wait_used ring 0 q;
         q \<leftarrow> free_chain q head;
         Some (d, mem, q, if mem status_box = VIRTIO_BLK_S_OK then Inr () else Inl ''virtio-blk: device error'')
       }
   }"

definition read_sectors ::
  "'d dma \<Rightarrow> u64 \<Rightarrow> u64 \<Rightarrow> 'd \<Rightarrow> memory \<Rightarrow> Virtqueue \<Rightarrow> u64 \<Rightarrow> usize \<Rightarrow> u64 \<Rightarrow> usize
     \<Rightarrow> ('d \<times> memory \<times> Virtqueue \<times> (string + unit)) option" where
  "read_sectors dev header_box status_box d mem q sector n buf buf_len =
     (if buf_len < n * SECTOR_SIZE then Some (d, mem, q, Inl ''buffer too small'')
      else do_request dev header_box status_box d mem q VIRTIO_BLK_T_IN sector n buf)"

definition write_sectors ::
  "'d dma \<Rightarrow> u64 \<Rightarrow> u64 \<Rightarrow> u64 \<Rightarrow> 'd \<Rightarrow> memory \<Rightarrow> Virtqueue \<Rightarrow> u64 \<Rightarrow> usize \<Rightarrow> u8 list
     \<Rightarrow> ('d \<times> memory \<times> Virtqueue \<times> (string + unit)) option" where
  "write_sectors dev header_box status_box tmp d mem q sector n buf =
     (if word_of_nat (length buf) < n * SECTOR_SIZE then Some (d, mem, q, Inl ''buffer too small'')
      else do {
        part \<leftarrow> sub_slice buf 0 (n * SECTOR_SIZE);
        let mem = mem_write mem tmp part;
        do_request dev header_box status_box d mem q VIRTIO_BLK_T_OUT sector n tmp
      })"

section \<open>A fresh queue\<close>

lemma linked_range:
  assumes "\<And>i. a \<le> i \<Longrightarrow> Suc i < b \<Longrightarrow> d_next (ds ! i) = word_of_nat (Suc i)" "b < 65536"
  shows "linked ds (map word_of_nat [a..<b])"
  using assms
proof (induction "b - a" arbitrary: a)
  case (Suc n)
  show ?case
  proof (cases "Suc a < b")
    case True
    have "linked ds (map word_of_nat [Suc a..<b])" using Suc by (intro Suc.hyps(1)) auto
    moreover have "[a..<b] = a # Suc a # [Suc (Suc a)..<b]" "[Suc a..<b] = Suc a # [Suc (Suc a)..<b]"
      using True by (simp_all add: upt_conv_Cons)
    moreover have "unat (word_of_nat a :: u16) = a" using True Suc.prems(2) by (simp add: unat_word_of_nat)
    ultimately show ?thesis using Suc.prems(1) [of a] True by (simp del: of_nat_Suc)
  next
    case False
    then have "[a..<b] = [a]" using Suc.hyps(2) by (simp add: upt_conv_Cons)
    then show ?thesis by simp
  qed
qed simp

lemma virtqueue_new_inv:
  assumes "virtqueue_new sz = Some q"
  shows "vq_inv q (urange 0 sz)" "vq_size q = sz" "vq_last_used_idx q = 0" "avail_idx q = 0" "used_idx q = 0"
proof -
  have sz: "is_power_of_two sz" "q = \<lparr>vq_size = sz,
        vq_desc = map (\<lambda>i. desc_default\<lparr>d_next := (if i + 1 < sz then i + 1 else 0),
                                        d_flags := VRING_DESC_F_NEXT\<rparr>) (urange 0 sz),
        vq_avail = replicate (4 + 2 * unat sz + 2) 0, vq_used = replicate (4 + 8 * unat sz + 2) 0,
        vq_free_head = 0, vq_num_free = sz, vq_last_used_idx = 0\<rparr>"
    using assms by (simp_all add: virtqueue_new_def split: if_splits)
  obtain k where k: "k < 16" "unat sz = 2 ^ k"
    using sz(1) by (auto simp: is_power_of_two_def list_ex_iff)
  have le: "unat sz \<le> 32768" using k power_increasing [of k 15 "2::nat"] by simp
  have "vq_shape q" using k by (auto simp: sz(2) vq_shape_def)
  moreover have "linked (vq_desc q) (map word_of_nat [0..<unat sz])"
  proof (rule linked_range)
    fix i assume i: "Suc i < unat sz"
    have "unat (word_of_nat (Suc i) :: u16) = Suc i" using i le by (intro unat_word_of_nat) simp
    then have "(word_of_nat i :: u16) + 1 < sz"
      using i by (simp add: word_less_nat_alt add.commute)
    then show "d_next (vq_desc q ! i) = word_of_nat (Suc i)"
      using i by (simp add: sz(2) nth_urange desc_default_def add.commute)
  qed (use le in simp)
  then have "linked (vq_desc q) (urange 0 sz)" by (simp add: urange_def)
  moreover have "hd (urange 0 sz) = 0"
    using k by (simp add: urange_def hd_map upt_conv_Cons)
  moreover have "\<forall>i\<in>set (urange 0 sz). unat i < unat sz"
    by (simp add: set_urange word_less_nat_alt)
  moreover have "vq_num_free q = word_of_nat (length (urange 0 sz))" "vq_free_head q = 0" "vq_size q = sz"
    by (simp_all add: sz(2))
  ultimately show "vq_inv q (urange 0 sz)" by (simp add: vq_inv_def)
  show "vq_size q = sz" "vq_last_used_idx q = 0" by (simp_all add: sz(2))
  show "avail_idx q = 0" "used_idx q = 0"
    by (simp_all add: sz(2) avail_idx_def used_idx_def le_at16_def from_le_bytes_def)
qed

section \<open>What a device does with a request\<close>

text \<open>The newest available chain of the queue is a block request (virtio 1.1, section 5.2.6):
  header, data and status descriptors \<^term>\<open>i0\<close>, \<^term>\<open>i1\<close>, \<^term>\<open>i2\<close>.\<close>

definition blk_request ::
  "Virtqueue \<Rightarrow> memory \<Rightarrow> u16 \<Rightarrow> u16 \<Rightarrow> u16 \<Rightarrow> u32 \<Rightarrow> u64 \<Rightarrow> u64 \<Rightarrow> nat \<Rightarrow> u64 \<Rightarrow> bool" where
  "blk_request q mem i0 i1 i2 ty sector data n status \<longleftrightarrow>
     avail_entry q (avail_idx q - 1) = i0 \<and> chain (vq_desc q) [i0, i1, i2] \<and>
     (\<forall>i\<in>{i0, i1, i2}. unat i < unat (vq_size q)) \<and>
     d_len (vq_desc q ! unat i0) = 16 \<and>
     mem_read mem (d_addr (vq_desc q ! unat i0)) 16 =
       req_header_bytes \<lparr>rq_ty = ty, rq_reserved = 0, rq_sector = sector\<rparr> \<and>
     d_addr (vq_desc q ! unat i1) = data \<and> unat (d_len (vq_desc q ! unat i1)) = 512 * n \<and>
     (d_flags (vq_desc q ! unat i1) AND VRING_DESC_F_WRITE \<noteq> 0 \<longleftrightarrow> ty = VIRTIO_BLK_T_IN) \<and>
     d_addr (vq_desc q ! unat i2) = status \<and> d_len (vq_desc q ! unat i2) = 1 \<and>
     d_flags (vq_desc q ! unat i2) AND VRING_DESC_F_WRITE \<noteq> 0"

text \<open>The device completes one chain: some poll is the first to see the used index advanced by one.\<close>

definition completes :: "Virtqueue \<Rightarrow> (nat \<Rightarrow> u8 list) \<Rightarrow> bool" where
  "completes q ring \<longleftrightarrow> (\<forall>k. length (ring k) = length (vq_used q)) \<and>
     (\<exists>k. (\<forall>j<k. le_at16 (ring j) 2 = used_idx q) \<and> le_at16 (ring k) 2 = used_idx q + 1)"

definition sectors :: "(u64 \<Rightarrow> u8 list) \<Rightarrow> u64 \<Rightarrow> nat \<Rightarrow> u8 list" where
  "sectors disk sector n = concat (map (\<lambda>k. disk (sector + word_of_nat k)) [0..<n])"

definition store_sectors :: "(u64 \<Rightarrow> u8 list) \<Rightarrow> u64 \<Rightarrow> nat \<Rightarrow> u8 list \<Rightarrow> u64 \<Rightarrow> u8 list" where
  "store_sectors disk sector n bs = (\<lambda>s. if unat (s - sector) < n
     then take 512 (drop (512 * unat (s - sector)) bs) else disk s)"

definition blk_device :: "('d \<Rightarrow> u64 \<Rightarrow> u8 list) \<Rightarrow> ('d \<Rightarrow> u64) \<Rightarrow> ('d \<Rightarrow> u16) \<Rightarrow> 'd dma \<Rightarrow> bool" where
  "blk_device disk cap seen dev \<longleftrightarrow>
     (\<forall>d s. length (disk d s) = 512) \<and>
     (\<forall>d q mem i0 i1 i2 ty sector data n status d' mem' ring.
        vq_shape q \<longrightarrow> seen d = avail_idx q - 1 \<longrightarrow> used_idx q = vq_last_used_idx q \<longrightarrow>
        blk_request q mem i0 i1 i2 ty sector data n status \<longrightarrow> dev d q mem = (d', mem', ring) \<longrightarrow>
        completes q ring \<and> seen d' = avail_idx q \<and> cap d' = cap d \<and>
        (if unat sector + n \<le> unat (cap d) \<and> ty = VIRTIO_BLK_T_IN
         then mem' = mem_write (mem_write mem data (sectors (disk d) sector n)) status [VIRTIO_BLK_S_OK] \<and>
           disk d' = disk d
         else if unat sector + n \<le> unat (cap d) \<and> ty = VIRTIO_BLK_T_OUT
         then mem' = mem_write mem status [VIRTIO_BLK_S_OK] \<and>
           disk d' = store_sectors (disk d) sector n (mem_read mem data (512 * n))
         else (\<exists>st. st \<noteq> VIRTIO_BLK_S_OK \<and> mem' = mem_write mem status [st] \<and> disk d' = disk d)))"

text \<open>The driver's side between requests: every descriptor that a request needs is free and all
  completions have been taken.\<close>

definition blk_idle :: "Virtqueue \<Rightarrow> u16 \<Rightarrow> bool" where
  "blk_idle q seen \<longleftrightarrow> (\<exists>fl. vq_inv q fl \<and> 3 \<le> length fl) \<and> used_idx q = vq_last_used_idx q \<and> avail_idx q = seen"

section \<open>The request path\<close>

lemma set_desc_eq: "unat i < length (vq_desc q) \<Longrightarrow> set_desc q i a l f =
    Some (q\<lparr>vq_desc := (vq_desc q)[unat i := (vq_desc q ! unat i)\<lparr>d_addr := a, d_len := l, d_flags := f\<rparr>]\<rparr>)"
  by (simp add: set_desc_def arr_get_def)

lemma next_desc_eq: "unat i < length (vq_desc q) \<Longrightarrow> next_desc q i = Some (d_next (vq_desc q ! unat i))"
  by (simp add: next_desc_def arr_get_def)

lemma vq_inv_descs:
  assumes "vq_inv q fl" "length ds = length (vq_desc q)" "\<And>i. i \<in> set fl \<Longrightarrow> ds ! unat i = vq_desc q ! unat i"
  shows "vq_inv (q\<lparr>vq_desc := ds\<rparr>) fl"
  using assms linked_cong [of fl ds "vq_desc q"] by (simp add: vq_inv_def vq_shape_def)

lemma push_avail_inv:
  assumes "vq_inv q fl" "push_avail q h = Some q'"
  shows "vq_inv q' fl" "vq_desc q' = vq_desc q" "vq_size q' = vq_size q" "vq_used q' = vq_used q"
    "vq_last_used_idx q' = vq_last_used_idx q" "used_idx q' = used_idx q" "avail_idx q' = avail_idx q + 1"
    "avail_entry q' (avail_idx q' - 1) = h"
proof -
  have s: "vq_shape q" using assms(1) by (simp add: vq_inv_def)
  note r = push_avail_ring [OF s assms(2)]
  have e: "q'\<lparr>vq_avail := vq_avail q\<rparr> = q" by (rule r(5))
  show d: "vq_desc q' = vq_desc q" using arg_cong [OF e, of vq_desc] by simp
  show z: "vq_size q' = vq_size q" using arg_cong [OF e, of vq_size] by simp
  show u: "vq_used q' = vq_used q" using arg_cong [OF e, of vq_used] by simp
  show "vq_last_used_idx q' = vq_last_used_idx q" using arg_cong [OF e, of vq_last_used_idx] by simp
  have "vq_num_free q' = vq_num_free q" "vq_free_head q' = vq_free_head q"
    using arg_cong [OF e, of vq_num_free] arg_cong [OF e, of vq_free_head] by simp_all
  then show "vq_inv q' fl" using assms(1) r(1) d z by (simp add: vq_inv_def)
  show "used_idx q' = used_idx q" by (simp add: used_idx_def u)
  show "avail_idx q' = avail_idx q + 1" by (rule r(2))
  then show "avail_entry q' (avail_idx q' - 1) = h" using r(3) by simp
qed

lemma wait_used_completes:
  assumes "vq_inv q fl" "used_idx q = vq_last_used_idx q" "completes q ring"
  shows "\<exists>q' e. wait_used ring 0 q = Some (q', e) \<and> vq_inv q' fl \<and> vq_desc q' = vq_desc q \<and>
    vq_size q' = vq_size q \<and> vq_avail q' = vq_avail q \<and> avail_idx q' = avail_idx q \<and>
    used_idx q' = vq_last_used_idx q'"
proof -
  obtain k where k: "\<forall>j<k. le_at16 (ring j) 2 = used_idx q" "le_at16 (ring k) 2 = used_idx q + 1"
    "\<And>k. length (ring k) = length (vq_used q)" using assms(3) by (auto simp: completes_def)
  have "wait_used ring 0 q = Some (q\<lparr>vq_used := ring (0 + k), vq_last_used_idx := vq_last_used_idx q + 1\<rparr>,
      used_entry (q\<lparr>vq_used := ring (0 + k)\<rparr>) (vq_last_used_idx q))"
    using k assms(1,2) by (intro wait_used_returns) (auto simp: vq_inv_def)
  then show ?thesis
    using assms k by (simp add: vq_inv_def vq_shape_def used_idx_def avail_idx_def)
qed

lemma chain_of_three:
  assumes "alloc_chain q 3 = Some (q1, Some h)" "vq_inv q (i0 # i1 # i2 # rest)"
  shows "h = i0" "vq_inv q1 rest" "d_next (vq_desc q1 ! unat i0) = i1" "d_next (vq_desc q1 ! unat i1) = i2"
    "vq_avail q1 = vq_avail q" "vq_used q1 = vq_used q" "vq_size q1 = vq_size q"
    "vq_last_used_idx q1 = vq_last_used_idx q"
proof -
  have "unat (3::usize) \<le> length (i0 # i1 # i2 # rest)" by simp
  from alloc_chain_ok [OF assms(2) _ this] assms(1)
  show "h = i0" "vq_inv q1 rest" "d_next (vq_desc q1 ! unat i0) = i1" "d_next (vq_desc q1 ! unat i1) = i2"
    "vq_avail q1 = vq_avail q" "vq_used q1 = vq_used q" "vq_size q1 = vq_size q"
    "vq_last_used_idx q1 = vq_last_used_idx q"
    by auto
qed

definition req_mem :: "memory \<Rightarrow> u64 \<Rightarrow> u64 \<Rightarrow> u32 \<Rightarrow> u64 \<Rightarrow> memory" where
  "req_mem mem ha sa ty sector = mem_write (mem_write mem ha
     (req_header_bytes \<lparr>rq_ty = ty, rq_reserved = 0, rq_sector = sector\<rparr>)) sa [0xff]"

lemma length_req_header [simp]: "length (req_header_bytes r) = 16"
  by (simp add: req_header_bytes_def)

lemma do_request_prepares:
  assumes inv: "vq_inv q (i0 # i1 # i2 # rest)" and sep: "mem_range ha 16 \<inter> mem_range sa 1 = {}"
    and n: "unat n * 512 < 2 ^ 32"
  shows "\<exists>q2. do_request dev ha sa d mem q ty sector n da =
      (case dev d q2 (req_mem mem ha sa ty sector) of (d', mem', ring) \<Rightarrow> do {
         (q, elem) \<leftarrow> wait_used ring 0 q2;
         q \<leftarrow> free_chain q i0;
         Some (d', mem', q, if mem' sa = VIRTIO_BLK_S_OK then Inr () else Inl ''virtio-blk: device error'')
       }) \<and>
    vq_inv q2 rest \<and> vq_size q2 = vq_size q \<and> avail_idx q2 = avail_idx q + 1 \<and> used_idx q2 = used_idx q \<and>
    vq_last_used_idx q2 = vq_last_used_idx q \<and>
    blk_request q2 (req_mem mem ha sa ty sector) i0 i1 i2 ty sector da (unat n) sa"
proof -
  obtain q1 h where al: "alloc_chain q 3 = Some (q1, Some h)"
    using alloc_chain_ok [OF inv, of 3] by auto
  note c = chain_of_three [OF al inv]
  have i: "unat i0 < length (vq_desc q1)" "unat i1 < length (vq_desc q1)" "unat i2 < length (vq_desc q1)"
    "unat i0 \<noteq> unat i1" "unat i0 \<noteq> unat i2" "unat i1 \<noteq> unat i2" "i0 \<notin> set rest" "i1 \<notin> set rest" "i2 \<notin> set rest"
    using inv c(2,7) by (auto simp: vq_inv_def vq_shape_def unat_inj_iff)
  define fl where "fl = (if ty = VIRTIO_BLK_T_IN then VRING_DESC_F_NEXT OR VRING_DESC_F_WRITE else VRING_DESC_F_NEXT)"
  define ds where "ds = (vq_desc q1)[unat i0 := (vq_desc q1 ! unat i0)\<lparr>d_addr := ha, d_len := 16, d_flags := VRING_DESC_F_NEXT\<rparr>,
    unat i1 := (vq_desc q1 ! unat i1)\<lparr>d_addr := da, d_len := ucast (n * SECTOR_SIZE), d_flags := fl\<rparr>,
    unat i2 := (vq_desc q1 ! unat i2)\<lparr>d_addr := sa, d_len := 1, d_flags := VRING_DESC_F_WRITE\<rparr>]"
  have ds: "ds ! unat i0 = (vq_desc q1 ! unat i0)\<lparr>d_addr := ha, d_len := 16, d_flags := VRING_DESC_F_NEXT\<rparr>"
    "ds ! unat i1 = (vq_desc q1 ! unat i1)\<lparr>d_addr := da, d_len := ucast (n * SECTOR_SIZE), d_flags := fl\<rparr>"
    "ds ! unat i2 = (vq_desc q1 ! unat i2)\<lparr>d_addr := sa, d_len := 1, d_flags := VRING_DESC_F_WRITE\<rparr>"
    using i by (simp_all add: ds_def nth_update_any)
  have inv2: "vq_inv (q1\<lparr>vq_desc := ds\<rparr>) rest"
    using c(2) i(7-9) by (intro vq_inv_descs) (auto simp: ds_def nth_update_any unat_inj_iff)
  have "vq_shape (q1\<lparr>vq_desc := ds\<rparr>)" using inv2 by (simp add: vq_inv_def)
  then obtain q2 where push: "push_avail (q1\<lparr>vq_desc := ds\<rparr>) i0 = Some q2"
    using push_avail_total by blast
  note p = push_avail_inv [OF inv2 push]
  have eq: "do_request dev ha sa d mem q ty sector n da =
      (case dev d q2 (req_mem mem ha sa ty sector) of (d', mem', ring) \<Rightarrow> do {
         (q, elem) \<leftarrow> wait_used ring 0 q2;
         q \<leftarrow> free_chain q i0;
         Some (d', mem', q, if mem' sa = VIRTIO_BLK_S_OK then Inr () else Inl ''virtio-blk: device error'')
       })"
    using i c(1,3,4) push by (simp add: do_request_def al req_mem_def set_desc_eq next_desc_eq ds_def fl_def)
  have len: "unat (ucast (n * SECTOR_SIZE) :: u32) = 512 * unat n"
    using n by (simp add: SECTOR_SIZE_def unat_mult_lt unsigned_ucast_eq take_bit_nat_eq_self)
  have "fl AND VRING_DESC_F_NEXT \<noteq> 0" "fl AND VRING_DESC_F_WRITE \<noteq> 0 \<longleftrightarrow> ty = VIRTIO_BLK_T_IN"
    "VRING_DESC_F_WRITE AND VRING_DESC_F_NEXT = 0" "VRING_DESC_F_NEXT AND VRING_DESC_F_NEXT \<noteq> 0"
    "VRING_DESC_F_WRITE AND VRING_DESC_F_WRITE \<noteq> 0"
    by (simp_all add: fl_def VRING_DESC_F_NEXT_def VRING_DESC_F_WRITE_def)
  moreover have "mem_read (req_mem mem ha sa ty sector) ha 16 =
      req_header_bytes \<lparr>rq_ty = ty, rq_reserved = 0, rq_sector = sector\<rparr>"
    using sep by (simp add: req_mem_def mem_read_write_other mem_read_write_same)
  ultimately have "blk_request q2 (req_mem mem ha sa ty sector) i0 i1 i2 ty sector da (unat n) sa"
    using p ds c(3,4,7) i(1-3) len inv by (simp add: blk_request_def vq_inv_def vq_shape_def)
  then show ?thesis
    using eq p c(5-8) by (auto simp: used_idx_def avail_idx_def)
qed

lemma do_request_served:
  assumes idle: "blk_idle q (seen d)" and dev: "blk_device disk cap seen dev"
    and sep: "mem_range ha 16 \<inter> mem_range sa 1 = {}" and n: "unat n * 512 < 2 ^ 32"
    and ty: "ty = VIRTIO_BLK_T_IN \<or> ty = VIRTIO_BLK_T_OUT"
  shows "\<exists>d' mem' q'. do_request dev ha sa d mem q ty sector n da = Some (d', mem', q',
      if unat sector + unat n \<le> unat (cap d) then Inr () else Inl ''virtio-blk: device error'') \<and>
    blk_idle q' (seen d') \<and> cap d' = cap d \<and>
    (if unat sector + unat n \<le> unat (cap d)
     then mem' = mem_write (if ty = VIRTIO_BLK_T_IN
         then mem_write (req_mem mem ha sa ty sector) da (sectors (disk d) sector (unat n))
         else req_mem mem ha sa ty sector) sa [VIRTIO_BLK_S_OK] \<and>
       disk d' = (if ty = VIRTIO_BLK_T_IN then disk d else store_sectors (disk d) sector (unat n)
         (mem_read (req_mem mem ha sa ty sector) da (512 * unat n)))
     else (\<exists>st. mem' = mem_write (req_mem mem ha sa ty sector) sa [st]) \<and> disk d' = disk d)"
proof -
  obtain fl where fl: "vq_inv q fl" "3 \<le> length fl" "used_idx q = vq_last_used_idx q" "avail_idx q = seen d"
    using idle by (auto simp: blk_idle_def)
  obtain i0 i1 i2 rest where ix: "fl = i0 # i1 # i2 # rest"
    using fl(2) by (auto simp: Suc_le_length_iff eval_nat_numeral)
  obtain q2 where q2: "do_request dev ha sa d mem q ty sector n da =
      (case dev d q2 (req_mem mem ha sa ty sector) of (d', mem', ring) \<Rightarrow> do {
         (q, elem) \<leftarrow> wait_used ring 0 q2;
         q \<leftarrow> free_chain q i0;
         Some (d', mem', q, if mem' sa = VIRTIO_BLK_S_OK then Inr () else Inl ''virtio-blk: device error'')
       })"
    "vq_inv q2 rest" "vq_size q2 = vq_size q" "avail_idx q2 = avail_idx q + 1" "used_idx q2 = used_idx q"
    "vq_last_used_idx q2 = vq_last_used_idx q"
    "blk_request q2 (req_mem mem ha sa ty sector) i0 i1 i2 ty sector da (unat n) sa"
    using do_request_prepares [OF fl(1) [unfolded ix] sep n, of dev d mem ty sector da] by blast
  obtain d' mem' ring where r: "dev d q2 (req_mem mem ha sa ty sector) = (d', mem', ring)"
    by (metis prod_cases3)
  have "vq_shape q2" "seen d = avail_idx q2 - 1" "used_idx q2 = vq_last_used_idx q2"
    using q2 fl by (simp_all add: vq_inv_def)
  with dev q2(7) r have c: "completes q2 ring" "seen d' = avail_idx q2" "cap d' = cap d"
    "if unat sector + unat n \<le> unat (cap d) \<and> ty = VIRTIO_BLK_T_IN
     then mem' = mem_write (mem_write (req_mem mem ha sa ty sector) da (sectors (disk d) sector (unat n))) sa
         [VIRTIO_BLK_S_OK] \<and> disk d' = disk d
     else if unat sector + unat n \<le> unat (cap d) \<and> ty = VIRTIO_BLK_T_OUT
     then mem' = mem_write (req_mem mem ha sa ty sector) sa [VIRTIO_BLK_S_OK] \<and>
       disk d' = store_sectors (disk d) sector (unat n) (mem_read (req_mem mem ha sa ty sector) da (512 * unat n))
     else (\<exists>st. st \<noteq> VIRTIO_BLK_S_OK \<and> mem' = mem_write (req_mem mem ha sa ty sector) sa [st] \<and> disk d' = disk d)"
    unfolding blk_device_def by blast+
  obtain q3 e where q3: "wait_used ring 0 q2 = Some (q3, e)" "vq_inv q3 rest" "vq_desc q3 = vq_desc q2"
    "vq_size q3 = vq_size q2" "avail_idx q3 = avail_idx q2" "used_idx q3 = vq_last_used_idx q3"
    using wait_used_completes [OF q2(2)] c(1) q2(5,6) fl(3) by metis
  have ch: "chain (vq_desc q3) [i0, i1, i2]" "distinct ([i0, i1, i2] @ rest)"
    "\<forall>i\<in>set [i0, i1, i2]. unat i < unat (vq_size q3)"
    using q2(3,7) q3(3,4) fl(1) ix by (auto simp: blk_request_def vq_inv_def)
  obtain q4 where q4: "free_chain q3 i0 = Some q4" "vq_inv q4 (rev [i0, i1, i2] @ rest)"
    "vq_avail q4 = vq_avail q3" "vq_used q4 = vq_used q3" "vq_last_used_idx q4 = vq_last_used_idx q3"
    using free_chain_whole [OF q3(2) ch] by auto
  have idle': "blk_idle q4 (seen d')"
    unfolding blk_idle_def using q4 q3 c(2)
    by (auto simp: avail_idx_def used_idx_def intro!: exI [of _ "rev [i0, i1, i2] @ rest"])
  have "do_request dev ha sa d mem q ty sector n da =
      Some (d', mem', q4, if mem' sa = VIRTIO_BLK_S_OK then Inr () else Inl ''virtio-blk: device error'')"
    using q2(1) r q3(1) q4(1) by simp
  moreover have "mem' sa = VIRTIO_BLK_S_OK \<longleftrightarrow> unat sector + unat n \<le> unat (cap d)"
    using c(4) ty by (auto simp: mem_write_hd VIRTIO_BLK_T_IN_def VIRTIO_BLK_T_OUT_def split: if_splits)
  ultimately show ?thesis using idle' c(3,4) ty
    by (auto simp: VIRTIO_BLK_T_IN_def VIRTIO_BLK_T_OUT_def split: if_splits)
qed

lemma length_sectors: "(\<And>s. length (disk s) = 512) \<Longrightarrow> length (sectors disk sector n) = 512 * n"
  by (induction n) (simp_all add: sectors_def)

lemma sectors_store:
  assumes "length bs = 512 * n" "n < 2 ^ 64"
  shows "sectors (store_sectors disk sector n bs) sector n = bs"
proof -
  have "concat (map (\<lambda>k. take 512 (drop (512 * k) bs)) [0..<m]) = take (512 * m) bs" for m
  proof (induction m)
    case (Suc m)
    then show ?case using take_add [of "512 * m" 512 bs] by (simp add: add.commute)
  qed simp
  moreover have "map (\<lambda>k. store_sectors disk sector n bs (sector + word_of_nat k)) [0..<n] =
      map (\<lambda>k. take 512 (drop (512 * k) bs)) [0..<n]"
    using assms(2) by (intro map_cong) (auto simp: store_sectors_def unat_word_of_nat)
  ultimately show ?thesis using assms(1) by (simp only: sectors_def)  simp
qed

lemma sector_bytes: "unat n * 512 < 2 ^ 32 \<Longrightarrow> unat (n * SECTOR_SIZE) = 512 * unat n"
  by (simp add: SECTOR_SIZE_def unat_mult_lt)

section \<open>A reference device\<close>

text \<open>A disk that serves each request at once: it reads the header through the chain, moves the
  data and writes the status, exactly as the contract above describes.\<close>

record RamDisk =
  rd_data :: "u64 \<Rightarrow> u8 list"
  rd_seen :: u16

definition disk_of :: "RamDisk \<Rightarrow> u64 \<Rightarrow> u8 list" where
  "disk_of d s = take 512 (rd_data d s @ replicate 512 0)"

definition ram_disk :: "u64 \<Rightarrow> RamDisk dma" where
  "ram_disk cap d q mem =
     (let i0 = avail_entry q (avail_idx q - 1);
          d0 = vq_desc q ! unat i0; d1 = vq_desc q ! unat (d_next d0); d2 = vq_desc q ! unat (d_next d1);
          hdr = mem_read mem (d_addr d0) 16;
          ty = (from_le_bytes (take 4 hdr) :: u32); sector = (from_le_bytes (drop 8 hdr) :: u64);
          n = unat (d_len d1) div 512;
          ring = (\<lambda>_. put16 (vq_used q) 2 (used_idx q + 1));
          d' = d\<lparr>rd_seen := avail_idx q\<rparr>
      in if unat sector + n \<le> unat cap \<and> ty = VIRTIO_BLK_T_IN
         then (d', mem_write (mem_write mem (d_addr d1) (sectors (disk_of d) sector n)) (d_addr d2) [VIRTIO_BLK_S_OK], ring)
         else if unat sector + n \<le> unat cap \<and> ty = VIRTIO_BLK_T_OUT
         then (d'\<lparr>rd_data := store_sectors (disk_of d) sector n (mem_read mem (d_addr d1) (512 * n))\<rparr>,
               mem_write mem (d_addr d2) [VIRTIO_BLK_S_OK], ring)
         else (d', mem_write mem (d_addr d2) [1], ring))"

lemma length_disk_of [simp]: "length (disk_of d s) = 512"
  by (simp add: disk_of_def)

lemma disk_of_seen [simp]: "disk_of (d\<lparr>rd_seen := i\<rparr>) = disk_of d"
  by (simp add: disk_of_def fun_eq_iff)

lemma disk_of_store:
  "length bs = 512 * n \<Longrightarrow> disk_of (d'\<lparr>rd_data := store_sectors (disk_of d) sector n bs\<rparr>) = store_sectors (disk_of d) sector n bs"
proof (rule ext)
  fix s assume l: "length bs = 512 * n"
  have "length (store_sectors (disk_of d) sector n bs s) = 512"
  proof (cases "unat (s - sector) < n")
    case True
    then have "512 * unat (s - sector) + 512 \<le> length bs" using l by simp
    then show ?thesis using True by (simp add: store_sectors_def)
  qed (simp add: store_sectors_def)
  then show "disk_of (d'\<lparr>rd_data := store_sectors (disk_of d) sector n bs\<rparr>) s = store_sectors (disk_of d) sector n bs s"
    by (simp add: disk_of_def)
qed

lemma completes_at_once: "vq_shape q \<Longrightarrow> completes q (\<lambda>_. put16 (vq_used q) 2 (used_idx q + 1))"
  by (auto simp: completes_def vq_shape_def le_at16_put16)

lemma req_header_fields [simp]:
  "from_le_bytes (take 4 (req_header_bytes r)) = rq_ty r"
  "from_le_bytes (drop 8 (req_header_bytes r)) = rq_sector r"
proof -
  have "take 4 (req_header_bytes r) = to_le_bytes (rq_ty r)" "drop 8 (req_header_bytes r) = to_le_bytes (rq_sector r)"
    by (simp_all add: req_header_bytes_def)
  then show "from_le_bytes (take 4 (req_header_bytes r)) = rq_ty r"
    "from_le_bytes (drop 8 (req_header_bytes r)) = rq_sector r" by simp_all
qed

lemma ram_disk_ok: "blk_device disk_of (\<lambda>_. cap) rd_seen (ram_disk cap)"
  unfolding blk_device_def
proof (rule conjI, simp, intro allI impI, goal_cases)
  case (1 d q mem i0 i1 i2 ty sector data n status d' mem' ring)
  let ?hdr = "req_header_bytes \<lparr>rq_ty = ty, rq_reserved = 0, rq_sector = sector\<rparr>"
  have r: "avail_entry q (avail_idx q - 1) = i0" "d_next (vq_desc q ! unat i0) = i1"
    "d_next (vq_desc q ! unat i1) = i2" "mem_read mem (d_addr (vq_desc q ! unat i0)) 16 = ?hdr"
    "d_addr (vq_desc q ! unat i1) = data" "unat (d_len (vq_desc q ! unat i1)) = 512 * n"
    "d_addr (vq_desc q ! unat i2) = status"
    using 1(4) by (simp_all add: blk_request_def)
  show ?case
    using 1(1,5) completes_at_once [of q]
    by (auto simp: ram_disk_def Let_def r disk_of_store VIRTIO_BLK_S_OK_def
        VIRTIO_BLK_T_IN_def VIRTIO_BLK_T_OUT_def split: if_splits intro: exI [of _ "1::u8"])
qed

definition empty_disk :: RamDisk where
  "empty_disk = \<lparr>rd_data = (\<lambda>_. []), rd_seen = 0\<rparr>"

definition blk_queue :: Virtqueue where
  "blk_queue = the (virtqueue_new 16)"

lemma blk_queue_idle: "blk_idle blk_queue (rd_seen empty_disk)"
proof -
  have "is_power_of_two 16" by (simp add: is_power_of_two_def list_ex_iff) (rule bexI [of _ 4], simp_all)
  then have "virtqueue_new 16 = Some blk_queue" by (simp add: blk_queue_def virtqueue_new_def)
  note q = virtqueue_new_inv [OF this]
  show ?thesis
    unfolding blk_idle_def using q by (auto simp: empty_disk_def intro!: exI [of _ "urange 0 16"])
qed

text \<open>Reading sectors through the driver, with any device that follows the virtio block
  protocol. A buffer that is too short is refused and nothing happens. Otherwise the call
  returns; in range it succeeds and the buffer holds exactly the sectors of the disk, out of
  range it reports a device error and the buffer keeps its contents. The disk is unchanged, no
  memory outside the buffer, the header and the status byte changes, and the queue is back in
  the idle state, ready for the next request.\<close>

theorem blk_read_correct:
  assumes "blk_device disk cap seen dev" "blk_idle q (seen d)" "unat n * 512 < 2 ^ 32"
    and "mem_range ha 16 \<inter> mem_range sa 1 = {}" "mem_range ha 16 \<inter> mem_range buf (512 * unat n) = {}"
    and "mem_range sa 1 \<inter> mem_range buf (512 * unat n) = {}"
  shows "if unat buf_len < 512 * unat n
    then read_sectors dev ha sa d mem q sector n buf buf_len = Some (d, mem, q, Inl ''buffer too small'')
    else \<exists>d' mem' q' r. read_sectors dev ha sa d mem q sector n buf buf_len = Some (d', mem', q', r) \<and>
      (if unat sector + unat n \<le> unat (cap d)
       then r = Inr () \<and> mem_read mem' buf (512 * unat n) = sectors (disk d) sector (unat n)
       else r = Inl ''virtio-blk: device error'' \<and>
         mem_read mem' buf (512 * unat n) = mem_read mem buf (512 * unat n)) \<and>
      (\<forall>x. x \<notin> mem_range ha 16 \<union> mem_range sa 1 \<union> mem_range buf (512 * unat n) \<longrightarrow> mem' x = mem x) \<and>
      disk d' = disk d \<and> cap d' = cap d \<and> blk_idle q' (seen d')"
proof (cases "unat buf_len < 512 * unat n")
  case True
  then show ?thesis
    by (simp add: read_sectors_def word_less_nat_alt sector_bytes [OF assms(3)])
next
  case False
  have small: "512 * unat n \<le> 2 ^ 64" using assms(3) by simp
  have len: "length (sectors (disk d) sector (unat n)) = 512 * unat n"
    using assms(1) by (intro length_sectors) (simp add: blk_device_def)
  have rd: "read_sectors dev ha sa d mem q sector n buf buf_len =
      do_request dev ha sa d mem q VIRTIO_BLK_T_IN sector n buf"
    using False by (simp add: read_sectors_def word_less_nat_alt sector_bytes [OF assms(3)])
  obtain d' mem' q' where r: "do_request dev ha sa d mem q VIRTIO_BLK_T_IN sector n buf = Some (d', mem', q',
      if unat sector + unat n \<le> unat (cap d) then Inr () else Inl ''virtio-blk: device error'')"
    "blk_idle q' (seen d')" "cap d' = cap d"
    "if unat sector + unat n \<le> unat (cap d)
     then mem' = mem_write (mem_write (req_mem mem ha sa VIRTIO_BLK_T_IN sector) buf
       (sectors (disk d) sector (unat n))) sa [VIRTIO_BLK_S_OK] \<and> disk d' = disk d
     else (\<exists>st. mem' = mem_write (req_mem mem ha sa VIRTIO_BLK_T_IN sector) sa [st]) \<and> disk d' = disk d"
    using do_request_served [OF assms(2,1,4,3), of VIRTIO_BLK_T_IN mem sector buf] by auto
  have "mem_read mem' buf (512 * unat n) = (if unat sector + unat n \<le> unat (cap d)
      then sectors (disk d) sector (unat n) else mem_read mem buf (512 * unat n))"
    using r(4) small len assms(5,6)
    by (auto simp: mem_read_write_same mem_read_write_other req_mem_def Int_commute split: if_splits)
  moreover have "mem' x = mem x" if "x \<notin> mem_range ha 16 \<union> mem_range sa 1 \<union> mem_range buf (512 * unat n)" for x
    using r(4) that len by (auto simp: req_mem_def mem_write_outside split: if_splits)
  moreover have "disk d' = disk d" using r(4) by (simp split: if_splits)
  ultimately show ?thesis
    using False rd r(1-3) by auto
qed

theorem blk_read_correct_witness:
  "\<exists>d' mem' q'. read_sectors (ram_disk 8) 0x1000 0x2000 empty_disk (\<lambda>_. 7) blk_queue 3 2 0x3000 1024 =
      Some (d', mem', q', Inr ()) \<and> mem_read mem' 0x3000 1024 = replicate 1024 0"
proof -
  have "sectors (disk_of empty_disk) 3 2 = replicate 1024 0"
    by (simp add: sectors_def disk_of_def empty_disk_def numeral_2_eq_2 replicate_add [symmetric])
  then show ?thesis
    using blk_read_correct [OF ram_disk_ok [where cap = 8] blk_queue_idle, where n = 2 and ha = "0x1000" and sa = "0x2000"
        and buf = "0x3000" and buf_len = 1024 and mem = "\<lambda>_. 7" and sector = 3]
    by (auto simp: region_disjoint)
qed

text \<open>C21: Sectors written through the driver are read back. For every device that follows the
  block protocol and every request in range, the write succeeds, a later read of the same
  sectors succeeds, and the read buffer then holds the bytes that were written.\<close>

theorem blk_write_then_read:
  assumes "blk_device disk cap seen dev" "blk_idle q (seen d)" "unat n * 512 < 2 ^ 32"
    and "unat sector + unat n \<le> unat (cap d)" "length bs = 512 * unat n" "512 * unat n \<le> unat buf_len"
    and "mem_range ha 16 \<inter> mem_range sa 1 = {}" "mem_range ha 16 \<inter> mem_range tmp (512 * unat n) = {}"
    and "mem_range sa 1 \<inter> mem_range tmp (512 * unat n) = {}"
    and "mem_range ha' 16 \<inter> mem_range sa' 1 = {}" "mem_range ha' 16 \<inter> mem_range buf (512 * unat n) = {}"
    and "mem_range sa' 1 \<inter> mem_range buf (512 * unat n) = {}"
  shows "\<exists>d1 mem1 q1 d2 mem2 q2.
    write_sectors dev ha sa tmp d mem q sector n bs = Some (d1, mem1, q1, Inr ()) \<and>
    read_sectors dev ha' sa' d1 mem1 q1 sector n buf buf_len = Some (d2, mem2, q2, Inr ()) \<and>
    mem_read mem2 buf (512 * unat n) = bs \<and> blk_idle q2 (seen d2)"
proof -
  have small: "512 * unat n \<le> 2 ^ 64" "unat n < 2 ^ 64" using assms(3) by simp_all
  have part: "sub_slice bs 0 (n * SECTOR_SIZE) = Some bs"
    using assms(5) by (simp add: sub_slice_def sector_bytes [OF assms(3)])
  have "unat (word_of_nat (length bs) :: usize) = 512 * unat n"
    using assms(3,5) by (subst unat_word_of_nat) simp_all
  then have wr: "write_sectors dev ha sa tmp d mem q sector n bs =
      do_request dev ha sa d (mem_write mem tmp bs) q VIRTIO_BLK_T_OUT sector n tmp"
    unfolding write_sectors_def word_less_nat_alt sector_bytes [OF assms(3)] part by simp
  have buf: "mem_read (req_mem (mem_write mem tmp bs) ha sa VIRTIO_BLK_T_OUT sector) tmp (512 * unat n) = bs"
    using assms(5,8,9) small by (simp add: req_mem_def mem_read_write_other mem_read_write_same Int_commute)
  obtain d1 mem1 q1 where w: "do_request dev ha sa d (mem_write mem tmp bs) q VIRTIO_BLK_T_OUT sector n tmp =
      Some (d1, mem1, q1, Inr ())" "blk_idle q1 (seen d1)" "cap d1 = cap d"
      "disk d1 = store_sectors (disk d) sector (unat n) bs"
    using do_request_served [OF assms(2,1,7,3), of VIRTIO_BLK_T_OUT "mem_write mem tmp bs" sector tmp] assms(4) buf
    by (auto simp: VIRTIO_BLK_T_IN_def VIRTIO_BLK_T_OUT_def)
  have rd: "read_sectors dev ha' sa' d1 mem1 q1 sector n buf buf_len =
      do_request dev ha' sa' d1 mem1 q1 VIRTIO_BLK_T_IN sector n buf"
    using assms(6) by (simp add: read_sectors_def word_less_nat_alt sector_bytes [OF assms(3)])
  have len: "length (sectors (disk d1) sector (unat n)) = 512 * unat n"
    using assms(1) by (intro length_sectors) (simp add: blk_device_def)
  obtain d2 mem2 q2 where r: "do_request dev ha' sa' d1 mem1 q1 VIRTIO_BLK_T_IN sector n buf =
      Some (d2, mem2, q2, Inr ())" "blk_idle q2 (seen d2)"
      "mem2 = mem_write (mem_write (req_mem mem1 ha' sa' VIRTIO_BLK_T_IN sector) buf
         (sectors (disk d1) sector (unat n))) sa' [VIRTIO_BLK_S_OK]"
    using do_request_served [OF w(2) assms(1) assms(10,3), of VIRTIO_BLK_T_IN mem1 sector buf] assms(4) w(3)
    by auto
  have "mem_read mem2 buf (512 * unat n) = bs"
    using r(3) len small assms(12) w(4) sectors_store [OF assms(5) small(2)]
    by (simp add: mem_read_write_same mem_read_write_other Int_commute)
  then show ?thesis using wr w(1) rd r(1,2) by auto
qed

theorem blk_write_then_read_witness:
  "\<exists>d1 mem1 q1 d2 mem2 q2.
    write_sectors (ram_disk 8) 0x1000 0x2000 0x4000 empty_disk (\<lambda>_. 7) blk_queue 3 1 (replicate 512 5) =
      Some (d1, mem1, q1, Inr ()) \<and>
    read_sectors (ram_disk 8) 0x1000 0x2000 d1 mem1 q1 3 1 0x3000 512 = Some (d2, mem2, q2, Inr ()) \<and>
    mem_read mem2 0x3000 512 = replicate 512 5"
  using blk_write_then_read [OF ram_disk_ok [where cap = 8] blk_queue_idle, where n = 1 and sector = 3
      and bs = "replicate 512 5" and buf_len = 512 and ha = "0x1000" and sa = "0x2000" and tmp = "0x4000"
      and ha' = "0x1000" and sa' = "0x2000" and buf = "0x3000" and mem = "\<lambda>_. 7"]
  by (auto simp: region_disjoint)

section \<open>Bring-up in order\<close>

lemma queue_ready_not_in_handshake: "W32 (tr_base t + REG_QUEUE_READY) v \<notin> set (handshake t f s i)"
  by (simp add: handshake_def write_features_trace_def mmio_regs)

text \<open>Bringing up a block device, whatever the device answers. When it succeeds, the writes to
  the device are exactly the virtio initialisation sequence: reset, ACK, DRIVER, no feature
  beyond VERSION_1 and none the device did not offer, FEATURES_OK, the queue with its ring
  addresses split into halves and its size, ready, and DRIVER_OK last; the new queue has every
  descriptor free. When it fails, no queue was enabled. It panics only if the device
  announces a queue size that is not a power of two.\<close>

theorem blk_init_handshake:
  "case run_state (blk_init bus b dp ap up) [] of (r, h) \<Rightarrow>
     (case r of
        Some (Inr dev) \<Rightarrow> \<exists>lo hi f s s'. f = push_bit 32 (ucast hi) OR ucast lo \<and>
          R32 (b + REG_DEVICE_FEATURES) lo \<in> set h \<and> R32 (b + REG_DEVICE_FEATURES) hi \<in> set h \<and>
          writes h = handshake (Transport b) f s 0 @
            queue_trace (Transport b) 0 (ucast (vq_size (vb_queue dev))) dp ap up @
            [W32 (b + REG_STATUS) (s' OR STATUS_DRIVER_OK)] \<and>
          vq_inv (vb_queue dev) (urange 0 (vq_size (vb_queue dev))) \<and> vq_size (vb_queue dev) \<le> 16
      | Some (Inl e) \<Rightarrow> \<forall>v. W32 (b + REG_QUEUE_READY) v \<notin> set (writes h)
      | None \<Rightarrow> \<exists>mx. mx \<noteq> 0 \<and> virtqueue_new (min 16 (ucast (mx::u32))) = None)"
proof -
  let ?t = "Transport b"
  obtain r1 h1 where 1: "run_state (init_begin bus ?t) [] = (r1, [] @ h1)"
    "case r1 of Inl e \<Rightarrow> writes h1 = [] | Inr u \<Rightarrow>
       writes h1 = map (W32 (tr_base ?t + REG_STATUS)) [0, STATUS_ACK, STATUS_ACK OR STATUS_DRIVER]"
    by (rule appendsE [OF init_begin_appends])
  obtain f h2 where 2: "run_state (read_features bus ?t) h1 = (f, h1 @ h2)"
    "\<exists>lo hi. f = push_bit 32 (ucast hi) OR ucast lo \<and>
     h2 = [W32 (tr_base ?t + REG_DEVICE_FEATURES_SEL) 0, R32 (tr_base ?t + REG_DEVICE_FEATURES) lo,
           W32 (tr_base ?t + REG_DEVICE_FEATURES_SEL) 1, R32 (tr_base ?t + REG_DEVICE_FEATURES) hi]"
    by (rule appendsE [OF read_features_appends])
  then obtain lo hi where f: "f = push_bit 32 (ucast hi) OR ucast lo"
    "writes h2 = map (W32 (tr_base ?t + REG_DEVICE_FEATURES_SEL)) [0, 1]"
    "R32 (b + REG_DEVICE_FEATURES) lo \<in> set h2" "R32 (b + REG_DEVICE_FEATURES) hi \<in> set h2"
    by auto
  obtain u h3 where 3: "run_state (write_features bus ?t (f AND VIRTIO_F_VERSION_1)) (h1 @ h2) = (u, (h1 @ h2) @ h3)"
    "\<exists>s. writes h3 = write_features_trace ?t (f AND VIRTIO_F_VERSION_1) s"
    by (rule appendsE [OF write_features_appends])
  then obtain s where s: "writes h3 = write_features_trace ?t (f AND VIRTIO_F_VERSION_1) s" by blast
  obtain mx h4 where 4: "run_state (queue_max bus ?t 0) (h1 @ h2 @ h3) = (mx, (h1 @ h2 @ h3) @ h4)"
    "writes h4 = [W32 (tr_base ?t + REG_QUEUE_SEL) 0]"
    by (rule appendsE [OF queue_max_appends])
  show ?thesis
  proof (cases r1)
    case (Inl e)
    then show ?thesis using 1 by (simp add: blk_init_def Let_def)
  next
    case (Inr v)
    let ?h = "h1 @ h2 @ h3 @ h4" and ?sz = "min BLK_QUEUE_SIZE (ucast mx) :: u16"
    have w: "writes ?h = handshake ?t f s 0" using 1(2) f(2) s 4(2) Inr by (simp add: handshake_def)
    show ?thesis
    proof (cases "mx = 0 \<or> virtqueue_new ?sz = None")
      case True
      then show ?thesis
        using 1(1) 2(1) 3(1) 4(1) Inr w queue_ready_not_in_handshake [of ?t _ f s 0]
        by (auto simp: blk_init_def Let_def BLK_QUEUE_SIZE_def)
    next
      case False
      then obtain q where q: "virtqueue_new ?sz = Some q" by auto
      obtain u5 h5 where 5: "run_state (queue_configure ?t 0 (ucast ?sz) dp ap up) ?h = (u5, ?h @ h5)"
        "writes h5 = queue_trace ?t 0 (ucast ?sz) dp ap up"
        by (rule appendsE [OF queue_configure_appends])
      obtain cap h6 where 6: "run_state (config_read_u64 bus ?t 0) (?h @ h5) = (cap, (?h @ h5) @ h6)" "writes h6 = []"
        by (rule appendsE [OF config_read_u64_appends])
      obtain u7 h7 where 7: "run_state (driver_ok bus ?t) (?h @ h5 @ h6) = (u7, (?h @ h5 @ h6) @ h7)"
        "\<exists>s'. writes h7 = [W32 (tr_base ?t + REG_STATUS) (s' OR STATUS_DRIVER_OK)]"
        by (rule appendsE [OF driver_ok_appends])
      then obtain s' where s': "writes h7 = [W32 (tr_base ?t + REG_STATUS) (s' OR STATUS_DRIVER_OK)]" by blast
      note n = virtqueue_new_inv [OF q]
      have "vq_inv (q\<lparr>vq_last_used_idx := 0\<rparr>) (urange 0 ?sz)" using n(1) by (simp add: vq_inv_def vq_shape_def)
      moreover have "?sz \<le> 16" by (simp add: BLK_QUEUE_SIZE_def)
      moreover have "run_state (blk_init bus b dp ap up) [] = (Some (Inr \<lparr>vb_transport = ?t,
          vb_queue = q\<lparr>vq_last_used_idx := 0\<rparr>, vb_capacity_sectors = cap\<rparr>), ?h @ h5 @ h6 @ h7)"
        using 1(1) 2(1) 3(1) 4(1) 5(1) 6(1) 7(1) Inr q False by (simp add: blk_init_def Let_def)
      moreover have "writes (?h @ h5 @ h6 @ h7) = handshake ?t f s 0 @ queue_trace ?t 0 (ucast ?sz) dp ap up @
          [W32 (b + REG_STATUS) (s' OR STATUS_DRIVER_OK)]"
        using w 5(2) 6(2) s' by simp
      ultimately show ?thesis
        using f(1,3,4) n(2)
        by (simp only: case_prod_conv option.case sum.case) (intro exI conjI, assumption, auto)
    qed
  qed
qed

end
