(* ===== verification/Hyp_Net.thy ===== *)
theory Hyp_Net
  imports Hyp_Bytes
begin

text \<open>
  The network layer of \<^verbatim>\<open>kernel/src/drivers/net/mod.rs\<close>: the device list, the Internet checksum
  and the UDP echo responder. A network device is known here by its MAC address and by what its
  \<^verbatim>\<open>recv\<close> and \<^verbatim>\<open>send\<close> return; the virtio implementation of those is in the driver's theory.
\<close>

section \<open>Devices\<close>

record NetDevice =
  nd_mac :: "u8 list"

definition net_register :: "'a list \<Rightarrow> 'a \<Rightarrow> 'a list" where
  "net_register devices dev = devices @ [dev]"

definition net_snapshot :: "NetDevice list \<Rightarrow> (usize \<times> u8 list) list" where
  "net_snapshot devices = map (\<lambda>(i, d). (word_of_nat i, nd_mac d)) (List.enumerate 0 devices)"

definition net_primary :: "'a list \<Rightarrow> 'a option" where
  "net_primary devices = (case devices of [] \<Rightarrow> None | d # _ \<Rightarrow> Some d)"

section \<open>The Internet checksum\<close>

text \<open>The \<^verbatim>\<open>while i + 1 < len\<close> loop and the trailing odd byte, on a 32-bit accumulator.\<close>

fun csum_add :: "u32 \<Rightarrow> u8 list \<Rightarrow> u32" where
  "csum_add acc (a # b # rest) = csum_add (acc + ucast (from_be_bytes [a, b] :: u16)) rest"
| "csum_add acc [a] = acc + push_bit 8 (ucast a)"
| "csum_add acc [] = acc"

lemma fold_step_nat:
  "unat ((s AND 0xffff) + drop_bit 16 (s::u32)) = unat s mod 65536 + unat s div 65536"
proof -
  have m: "(0xffff :: u32) = mask 16" by (simp add: mask_eq_exp_minus_1)
  have "unat (s AND 0xffff) = unat s mod 65536" unfolding m by (simp only: and_mask_nat) simp
  moreover have "unat (drop_bit 16 s) = unat s div 65536" using unat_drop_bit [of 16 s] by simp
  moreover have "unat s mod 65536 + unat s div 65536 < 2 ^ 32"
    using unsigned_less [of s, where ?'a = nat] by simp
  ultimately show ?thesis by (subst unat_add_lt) simp_all
qed

function csum_fold :: "u32 \<Rightarrow> u32" where
  "csum_fold acc = (if drop_bit 16 acc \<noteq> 0 then csum_fold ((acc AND 0xffff) + drop_bit 16 acc) else acc)"
  by pat_completeness auto
termination
proof (relation "measure unat", simp)
  fix acc :: u32
  assume "drop_bit 16 acc \<noteq> 0"
  then have "unat (drop_bit 16 acc) \<noteq> 0" by (simp only: unat_eq_zero not_False_eq_True)
  then have "unat acc div 65536 \<noteq> 0" unfolding unat_drop_bit by simp
  then show "((acc AND 0xffff) + drop_bit 16 acc, acc) \<in> measure unat"
    using fold_step_nat [of acc] mult_div_mod_eq [of 65536 "unat acc"]
    by (simp only: in_measure)
qed

declare csum_fold.simps [simp del]

definition csum16 :: "u8 list \<Rightarrow> u16" where
  "csum16 bytes = NOT (ucast (csum_fold (csum_add 0 bytes)))"

section \<open>The echo responder\<close>

text \<open>The frame with addresses swapped and the IP checksum field cleared.\<close>

definition echo_swapped :: "u8 list \<Rightarrow> u8 list \<Rightarrow> u8 list" where
  "echo_swapped mac frame = (
     let nf = take 6 (drop 6 frame) @ drop 6 frame;
         nf = take 6 nf @ mac @ drop 12 nf;
         nf = take (14 + 12) nf @ take 4 (drop (14 + 16) frame) @ drop (14 + 16) nf;
         nf = take (14 + 16) nf @ take 4 (drop (14 + 12) frame) @ drop (14 + 20) nf
     in nf[14 + 10 := 0, 14 + 11 := 0])"

text \<open>The IP checksum \<^term>\<open>c\<close> and the swapped UDP ports stored, the UDP checksum cleared.\<close>

definition echo_finish :: "nat \<Rightarrow> u16 \<Rightarrow> u16 \<Rightarrow> u16 \<Rightarrow> u8 list \<Rightarrow> u8 list" where
  "echo_finish u c dst src sw = sw[24 := ucast (drop_bit 8 c), 25 := ucast c,
     u := ucast (drop_bit 8 dst), u + 1 := ucast dst, u + 2 := ucast (drop_bit 8 src), u + 3 := ucast src,
     u + 6 := 0, u + 7 := 0]"

text \<open>The outer \<^const>\<open>None\<close> is a panic, the inner one a dropped frame; otherwise the reply that
  is handed to the device.\<close>

definition try_reply_echo :: "u8 list \<Rightarrow> u8 list \<Rightarrow> u8 list option option" where
  "try_reply_echo mac frame =
     (if length frame < 14 + 20 + 8 then Some None
      else if (from_be_bytes [frame ! 12, frame ! 13] :: u16) \<noteq> 0x0800 then Some None
      else let ip = drop 14 frame; ihl = unat (ip ! 0 AND 0x0f) * 4 in
      if ihl < 20 \<or> ip ! 9 \<noteq> 17 then Some None
      else if length ip < ihl then None
      else let udp = drop ihl ip in
      if length udp < 4 then None
      else let dst_port = (from_be_bytes [udp ! 2, udp ! 3] :: u16) in
      if dst_port \<noteq> 7 then Some None
      else let ip_off = 14;
        new_frame = echo_swapped mac frame;
        ip_csum = csum16 (take ihl (drop ip_off new_frame));
        udp_off = ip_off + ihl;
        src_port = (from_be_bytes [frame ! udp_off, frame ! (udp_off + 1)] :: u16)
      in if length new_frame < udp_off + 8 then None
      else Some (Some (echo_finish udp_off ip_csum dst_port src_port new_frame)))"

text \<open>\<^verbatim>\<open>poll_echo\<close>: what the primary device's \<^verbatim>\<open>recv\<close> left in the 1600-byte buffer decides what
  is sent. The device's receive and its outcome are parameters.\<close>

definition poll_echo :: "NetDevice list \<Rightarrow> (u8 list \<Rightarrow> (u8 list \<times> usize) option) \<Rightarrow> u8 list option option" where
  "poll_echo devices dev_recv =
     (case net_primary devices of
        None \<Rightarrow> Some None
      | Some dev \<Rightarrow>
          (case dev_recv (replicate 1600 0) of
             None \<Rightarrow> Some None
           | Some (buf, n) \<Rightarrow> do {
               frame \<leftarrow> sub_slice buf 0 n;
               try_reply_echo (nd_mac dev) frame
             }))"

section \<open>Checksum lemmas\<close>

fun be_sum :: "u8 list \<Rightarrow> nat" where
  "be_sum (a # b # rest) = 256 * unat a + unat b + be_sum rest"
| "be_sum [a] = 256 * unat a"
| "be_sum [] = 0"

lemma unat_be16: "unat (from_be_bytes [a, b] :: u16) = 256 * unat a + unat b"
proof -
  have "unat a < 256" "unat b < 256"
    using unsigned_less [of a, where ?'a = nat] unsigned_less [of b, where ?'a = nat] by simp_all
  then have "unat (word_of_nat (unat b + 256 * unat a) :: u16) = unat b + 256 * unat a"
    by (intro unat_word_of_nat) simp
  then show ?thesis by (simp add: from_be_bytes_def from_le_bytes_def add.commute)
qed

lemma be_sum_bound: "be_sum bs \<le> 65535 * ((length bs + 1) div 2)"
proof (induction bs rule: be_sum.induct)
  case (1 a b rest)
  have "unat a < 256" "unat b < 256"
    using unsigned_less [of a, where ?'a = nat] unsigned_less [of b, where ?'a = nat] by simp_all
  then show ?case using 1 by simp
next
  case (2 a)
  have "unat a < 256" using unsigned_less [of a, where ?'a = nat] by simp
  then show ?case by simp
qed simp

lemma unat_csum_add: "unat s + be_sum bs < 2 ^ 32 \<Longrightarrow> unat (csum_add s bs) = unat s + be_sum bs"
proof (induction s bs rule: csum_add.induct)
  case (1 s a b rest)
  have w: "unat (ucast (from_be_bytes [a, b] :: u16) :: u32) = 256 * unat a + unat b"
    by (simp add: unat_ucast_widen unat_be16)
  have "unat (s + ucast (from_be_bytes [a, b] :: u16)) = unat s + (256 * unat a + unat b)"
    using 1(2) w by (subst unat_add_lt) simp_all
  then show ?case using 1 by simp
next
  case (2 s a)
  have "unat (push_bit 8 (ucast a :: u32)) = 256 * unat a"
  proof -
    have "unat a < 256" using unsigned_less [of a, where ?'a = nat] by simp
    then show ?thesis
      using unat_push_bit [of 8 "ucast a :: u32"] by (simp add: unat_ucast_widen mult.commute)
  qed
  then show ?case using 2 by (simp add: unat_add_lt)
qed simp

lemma csum_fold_nat:
  "unat (csum_fold s) < 65536 \<and> unat (csum_fold s) mod 65535 = unat s mod 65535 \<and>
   (unat (csum_fold s) = 0 \<longleftrightarrow> unat s = 0)"
proof (induction s rule: csum_fold.induct)
  case (1 s)
  have d: "drop_bit 16 s = 0 \<longleftrightarrow> unat s < 65536"
  proof -
    have "unat (drop_bit 16 s) = unat s div 65536" using unat_drop_bit [of 16 s] by simp
    then show ?thesis by (metis div_eq_0_iff unat_eq_zero zero_neq_numeral)
  qed
  show ?case
  proof (cases "drop_bit 16 s = 0")
    case True
    then show ?thesis using d by (simp add: csum_fold.simps [of s])
  next
    case False
    have "(unat s mod 65536 + unat s div 65536) mod 65535 = unat s mod 65535"
    proof -
      have "unat s = unat s mod 65536 + unat s div 65536 + 65535 * (unat s div 65536)"
        using div_mult_mod_eq [of "unat s" 65536] by simp
      then show ?thesis by (metis mod_mult_self2)
    qed
    moreover have "unat s mod 65536 + unat s div 65536 = 0 \<longleftrightarrow> unat s = 0"
      using div_mult_mod_eq [of "unat s" 65536] by auto
    ultimately show ?thesis
      using 1 False fold_step_nat [of s] by (simp add: csum_fold.simps [of s])
  qed
qed

lemma unat_csum16:
  assumes "be_sum bs < 2 ^ 32"
  obtains f where "unat (csum16 bs) = 65535 - f" "f \<le> 65535" "f mod 65535 = be_sum bs mod 65535"
    "f = 0 \<longleftrightarrow> be_sum bs = 0"
proof
  let ?s = "csum_fold (csum_add 0 bs)"
  have a: "unat (csum_add 0 bs) = be_sum bs" using unat_csum_add [of 0 bs] assms by simp
  note f = csum_fold_nat [of "csum_add 0 bs", unfolded a]
  have u: "unat (ucast ?s :: u16) = unat ?s"
    using f by (simp add: unsigned_ucast_eq take_bit_nat_eq_self)
  have "unat (NOT w) = 65535 - unat w" for w :: u16
  proof -
    have "NOT w = - 1 - w" by (simp add: not_eq_complement)
    moreover have "w \<le> - 1" by simp
    ultimately show ?thesis by (simp add: unat_sub unsigned_minus_1_eq_mask mask_eq_exp_minus_1)
  qed
  then show "unat (csum16 bs) = 65535 - unat ?s" by (simp add: csum16_def u)
  show "unat ?s \<le> 65535" using f by simp
  show "unat ?s mod 65535 = be_sum bs mod 65535" using f by blast
  show "unat ?s = 0 \<longleftrightarrow> be_sum bs = 0" using f by blast
qed

lemma be_sum_append: "even (length xs) \<Longrightarrow> be_sum (xs @ ys) = be_sum xs + be_sum ys"
  by (induction xs rule: be_sum.induct) auto

lemma be_sum_update2:
  assumes "even i" "i + 1 < length bs" "bs ! i = 0" "bs ! (i + 1) = 0"
  shows "be_sum (bs[i := a, i + 1 := b]) = be_sum bs + 256 * unat a + unat b"
proof -
  have s: "bs = take i bs @ [0, 0] @ drop (i + 2) bs"
    using assms by (metis Cons_nth_drop_Suc Suc_eq_plus1 add_2_eq_Suc' add_lessD1 append_Cons append_Nil append_take_drop_id)
  have l: "length (take i bs) = i" using assms(2) by simp
  have "bs[i := a, i + 1 := b] = take i bs @ [a, b] @ drop (i + 2) bs"
    using assms(2) by (intro nth_equalityI) (auto simp: nth_append nth_list_update nth_Cons' less_Suc_eq intro!: arg_cong [of _ _ "(!) bs"])
  then show ?thesis
    using assms(1) l arg_cong [OF s, of be_sum] by (simp add: be_sum_append)
qed

text \<open>Storing the checksum into the two zero bytes it was computed over makes the block sum to
  all ones, which is how a receiver checks it.\<close>

lemma csum16_verifies:
  assumes "even i" "i + 1 < length bs" "length bs \<le> 65536" "bs ! i = 0" "bs ! (i + 1) = 0"
  shows "csum16 (bs[i := ucast (drop_bit 8 (csum16 bs)), i + 1 := ucast (csum16 bs)]) = 0"
proof -
  let ?c = "csum16 bs" and ?bs = "bs[i := ucast (drop_bit 8 (csum16 bs)), i + 1 := ucast (csum16 bs)]"
  have b: "be_sum xs < 2 ^ 32" if "length xs = length bs" for xs
    using be_sum_bound [of xs] that assms(3) by simp
  obtain f where f: "unat ?c = 65535 - f" "f \<le> 65535" "f mod 65535 = be_sum bs mod 65535" "f = 0 \<longleftrightarrow> be_sum bs = 0"
    using unat_csum16 [OF b] by blast
  have "unat (ucast (drop_bit 8 ?c) :: u8) = unat ?c div 256" "unat (ucast ?c :: u8) = unat ?c mod 256"
  proof -
    have "unat ?c div 256 < 256" using f(1) by simp
    then show "unat (ucast (drop_bit 8 ?c) :: u8) = unat ?c div 256"
      using unat_drop_bit [of 8 ?c] by (simp add: unsigned_ucast_eq take_bit_nat_def unat_div)
    show "unat (ucast ?c :: u8) = unat ?c mod 256" by (simp add: unsigned_ucast_eq take_bit_nat_def)
  qed
  then have s: "be_sum ?bs = be_sum bs + (65535 - f)"
    using be_sum_update2 [OF assms(1,2,4,5)] f(1) by simp
  have "be_sum ?bs mod 65535 = 0"
  proof -
    have "(be_sum bs + (65535 - f)) mod 65535 = (f + (65535 - f)) mod 65535"
      using f(3) by (metis mod_add_left_eq)
    then show ?thesis using s f(2) by simp
  qed
  moreover have "be_sum ?bs \<noteq> 0" using s f(2,4) by (cases "f = 0") auto
  moreover obtain g where "unat (csum16 ?bs) = 65535 - g" "g \<le> 65535" "g mod 65535 = be_sum ?bs mod 65535"
    "g = 0 \<longleftrightarrow> be_sum ?bs = 0"
    using unat_csum16 [OF b] by (metis length_list_update)
  ultimately have "unat (csum16 ?bs) = 0"
    by (metis diff_self_eq_0 dvd_imp_le le_antisym mod_0_imp_dvd neq0_conv)
  then show ?thesis by (simp only: unat_eq_zero)
qed

section \<open>The reply\<close>

lemma nth_splice:
  assumes "i + length ys \<le> length xs" "k < length xs"
  shows "(take i xs @ ys @ drop (i + length ys) xs) ! k = (if i \<le> k \<and> k < i + length ys then ys ! (k - i) else xs ! k)"
  using assms by (auto simp: nth_append)

lemma length_splice: "i + length ys \<le> length xs \<Longrightarrow> length (take i xs @ ys @ drop (i + length ys) xs) = length xs"
  by simp

lemma echo_swapped_nth:
  assumes "42 \<le> length frame" "length mac = 6"
  shows "length (echo_swapped mac frame) = length frame"
    "k < length frame \<Longrightarrow> echo_swapped mac frame ! k =
      (if k < 6 then frame ! (k + 6) else if k < 12 then mac ! (k - 6)
       else if k = 24 \<or> k = 25 then 0 else if 26 \<le> k \<and> k < 30 then frame ! (k + 4)
       else if 30 \<le> k \<and> k < 34 then frame ! (k - 4) else frame ! k)"
proof -
  define a where "a = take 6 (drop 6 frame) @ drop 6 frame"
  define b where "b = take 6 a @ mac @ drop (6 + length mac) a"
  define c where "c = take 26 b @ take 4 (drop 30 frame) @ drop (26 + length (take 4 (drop 30 frame))) b"
  define d where "d = take 30 c @ take 4 (drop 26 frame) @ drop (30 + length (take 4 (drop 26 frame))) c"
  have la: "length a = length frame" using assms by (simp add: a_def)
  have lb: "length b = length frame" using assms la by (simp add: b_def)
  have lc: "length c = length frame" using assms lb by (simp add: c_def)
  have ld: "length d = length frame" using assms lc by (simp add: d_def)
  have e: "echo_swapped mac frame = d[24 := 0, 25 := 0]"
    using assms unfolding echo_swapped_def Let_def a_def b_def c_def d_def by simp
  show "length (echo_swapped mac frame) = length frame" unfolding e using ld by simp
  assume k: "k < length frame"
  have na: "a ! k = (if k < 6 then frame ! (k + 6) else frame ! k)"
    using assms k by (auto simp: a_def nth_append add.commute)
  have nb: "b ! k = (if 6 \<le> k \<and> k < 12 then mac ! (k - 6) else a ! k)"
    using nth_splice [of 6 mac a k, folded b_def] la assms k by simp
  have nc: "c ! k = (if 26 \<le> k \<and> k < 30 then frame ! (k + 4) else b ! k)"
    using nth_splice [of 26 "take 4 (drop 30 frame)" b k, folded c_def] lb assms k
    by (auto simp: nth_append less_diff_conv2 intro!: arg_cong [of _ _ "(!) frame"])
  have nd: "d ! k = (if 30 \<le> k \<and> k < 34 then frame ! (k - 4) else c ! k)"
    using nth_splice [of 30 "take 4 (drop 26 frame)" c k, folded d_def] lc assms k
    by (auto simp: nth_append less_diff_conv2 intro!: arg_cong [of _ _ "(!) frame"])
  have "echo_swapped mac frame ! k = (if k = 24 \<or> k = 25 then 0 else d ! k)"
    unfolding e using ld k by (auto simp: nth_list_update)
  then show "echo_swapped mac frame ! k =
      (if k < 6 then frame ! (k + 6) else if k < 12 then mac ! (k - 6)
       else if k = 24 \<or> k = 25 then 0 else if 26 \<le> k \<and> k < 30 then frame ! (k + 4)
       else if 30 \<le> k \<and> k < 34 then frame ! (k - 4) else frame ! k)"
    by (simp add: na nb nc nd)
qed

text \<open>Which frames are answered: IPv4, UDP, port 7, long enough for its headers.\<close>

definition ihl_of :: "u8 list \<Rightarrow> nat" where
  "ihl_of frame = unat (frame ! 14 AND 0x0f) * 4"

definition echo_candidate :: "u8 list \<Rightarrow> bool" where
  "echo_candidate frame \<longleftrightarrow> 42 \<le> length frame \<and> (from_be_bytes [frame ! 12, frame ! 13] :: u16) = 0x0800 \<and>
     20 \<le> ihl_of frame \<and> frame ! 23 = 17"

definition be16_at :: "u8 list \<Rightarrow> nat \<Rightarrow> u16" where
  "be16_at xs i = from_be_bytes [xs ! i, xs ! (i + 1)]"

definition seg :: "nat \<Rightarrow> nat \<Rightarrow> 'a list \<Rightarrow> 'a list" where
  "seg i n xs = take n (drop i xs)"

lemma ihl_of_le: "ihl_of frame \<le> 60"
proof -
  have "(0x0f :: u8) = mask 4" by (simp add: mask_eq_exp_minus_1)
  then have "unat (frame ! 14 AND 0x0f) = unat (frame ! 14) mod 16"
    by (simp only: and_mask_nat) simp
  then show ?thesis by (simp add: ihl_of_def)
qed

lemma be_bytes_16: "ucast (drop_bit 8 w) = to_be_bytes (w::u16) ! 0" "ucast w = to_be_bytes (w::u16) ! 1"
proof -
  have "unat w div 256 = unat (drop_bit 8 w)" unfolding unat_drop_bit by simp
  then have "word_of_nat (unat w div 256) = (ucast (drop_bit 8 w) :: u8)" by (simp only: of_nat_unat)
  then show "ucast (drop_bit 8 w) = to_be_bytes (w::u16) ! 0" "ucast w = to_be_bytes (w::u16) ! 1"
    by (simp_all add: to_be_bytes_def to_le_bytes_def numeral_2_eq_2)
qed

lemma try_reply_echo_eq:
  assumes "length mac = 6"
  shows "try_reply_echo mac frame =
    (if \<not> echo_candidate frame then Some None
     else let u = 14 + ihl_of frame in
       if length frame < u + 4 then None
       else if be16_at frame (u + 2) \<noteq> 7 then Some None
       else if length frame < u + 8 then None
       else Some (Some (echo_finish u (csum16 (seg 14 (ihl_of frame) (echo_swapped mac frame)))
              (be16_at frame (u + 2)) (be16_at frame u) (echo_swapped mac frame))))"
proof (cases "echo_candidate frame")
  case False
  then show ?thesis
    by (auto simp: try_reply_echo_def echo_candidate_def ihl_of_def Let_def)
next
  case True
  then have c: "42 \<le> length frame" "(from_be_bytes [frame ! 12, frame ! 13] :: u16) = 0x0800"
    "20 \<le> ihl_of frame" "frame ! 23 = 17" by (simp_all add: echo_candidate_def)
  have ip: "drop 14 frame ! 0 = frame ! 14" "drop 14 frame ! 9 = frame ! 23" using c(1) by simp_all
  note len = echo_swapped_nth(1) [OF c(1) assms]
  have u: "unat (frame ! 14 AND 0x0f) * 4 = ihl_of frame" by (simp add: ihl_of_def)
  have port: "from_be_bytes [drop (ihl_of frame) (drop 14 frame) ! 2, drop (ihl_of frame) (drop 14 frame) ! 3] =
      be16_at frame (14 + ihl_of frame + 2)" if "14 + ihl_of frame + 4 \<le> length frame"
    using that by (simp add: be16_at_def add.commute add.left_commute)
  show ?thesis
    using True c(1,3)
    unfolding try_reply_echo_def Let_def ip u
    by (auto simp: c(2,4) port seg_def be16_at_def len)
qed

lemma echo_finish_nth:
  assumes "34 \<le> u" "u + 8 \<le> length sw" "k < length sw"
  shows "length (echo_finish u c dst src sw) = length sw"
    "echo_finish u c dst src sw ! k =
      (if k = 24 then ucast (drop_bit 8 c) else if k = 25 then ucast c
       else if k = u then ucast (drop_bit 8 dst) else if k = u + 1 then ucast dst
       else if k = u + 2 then ucast (drop_bit 8 src) else if k = u + 3 then ucast src
       else if k = u + 6 \<or> k = u + 7 then 0 else sw ! k)"
  using assms by (simp_all add: echo_finish_def nth_list_update)

lemma seg_eqI:
  assumes "i + n \<le> length xs" "j + n \<le> length ys" "\<And>k. k < n \<Longrightarrow> xs ! (i + k) = ys ! (j + k)"
  shows "seg i n xs = seg j n ys"
  using assms by (intro nth_equalityI) (simp_all add: seg_def)

lemma be16_of_bytes: "from_be_bytes [ucast (drop_bit 8 w), ucast w] = (w::u16)"
proof -
  have "[to_be_bytes w ! 0, to_be_bytes w ! 1] = to_be_bytes w"
    by (simp add: to_be_bytes_def to_le_bytes_def numeral_2_eq_2)
  then show ?thesis using from_be_to_be_16 [of w] by (simp only: be_bytes_16(1) be_bytes_16(2) [symmetric])
qed

text \<open>The destination address of the frame, its first six bytes, is overwritten and never compared.\<close>

lemma echo_ignores_dst:
  assumes "length mac = 6" "length d = 6" "42 \<le> length frame"
  shows "try_reply_echo mac (d @ drop 6 frame) = try_reply_echo mac frame"
proof -
  let ?f = "d @ drop 6 frame"
  have l: "length ?f = length frame" using assms(2,3) by simp
  have n: "?f ! k = frame ! k" if "6 \<le> k" "k < length frame" for k using that assms(2,3) by (simp add: nth_append)
  have sw: "echo_swapped mac ?f = echo_swapped mac frame"
    using assms l by (intro nth_equalityI) (auto simp: echo_swapped_nth n simp del: append_assoc length_append)
  have ihl: "ihl_of ?f = ihl_of frame" using assms(3) by (simp only: ihl_of_def) (simp add: n del: nth_append)
  have c: "echo_candidate ?f \<longleftrightarrow> echo_candidate frame"
    unfolding echo_candidate_def ihl l using n [of 12] n [of 13] n [of 23] assms(3) by auto
  have "be16_at ?f i = be16_at frame i" if "34 \<le> i" "i + 1 < length frame" for i
    using n [of i] n [of "i + 1"] that by (simp only: be16_at_def)
  then show ?thesis
    unfolding try_reply_echo_eq [OF assms(1)] c ihl sw l Let_def by (auto simp: echo_candidate_def)
qed

text \<open>C28: The UDP echo reply. For an IPv4 UDP frame to port 7 that holds its headers, the responder neither
  panics nor drops it, and the reply has the request's length, goes back to the sender's MAC address
  from ours, has the IP addresses and the UDP ports swapped, an IP header checksum that verifies, no
  UDP checksum, and the same payload. The reply is the same whatever destination address the frame
  has, so frames for other hosts are answered too, although the code's comment says that only those
  with our address are.\<close>

theorem echo_reply_correct:
  assumes "length mac = 6" "echo_candidate frame" "u = 14 + ihl_of frame" "u + 8 \<le> length frame"
    "be16_at frame (u + 2) = 7"
  shows "\<exists>r. try_reply_echo mac frame = Some (Some r) \<and> length r = length frame \<and>
    seg 0 6 r = seg 6 6 frame \<and> seg 6 6 r = mac \<and> seg 12 2 r = seg 12 2 frame \<and>
    seg 26 4 r = seg 30 4 frame \<and> seg 30 4 r = seg 26 4 frame \<and>
    csum16 (seg 14 (ihl_of frame) r) = 0 \<and>
    be16_at r u = 7 \<and> be16_at r (u + 2) = be16_at frame u \<and> be16_at r (u + 6) = 0 \<and>
    drop (u + 8) r = drop (u + 8) frame \<and>
    (\<forall>dst. length dst = 6 \<longrightarrow> try_reply_echo mac (dst @ drop 6 frame) = Some (Some r))"
proof -
  let ?sw = "echo_swapped mac frame"
  define c where "c = csum16 (seg 14 (ihl_of frame) ?sw)"
  define r where "r = echo_finish u c 7 (be16_at frame u) ?sw"
  have f: "42 \<le> length frame" "34 \<le> u" using assms(2,3) by (simp_all add: echo_candidate_def)
  note sw = echo_swapped_nth [OF f(1) assms(1)]
  have l: "length r = length frame" "u + 8 \<le> length ?sw"
    using assms(4) f(1) sw(1) echo_finish_nth(1) [of u ?sw 0] f(2) by (simp_all add: r_def echo_finish_def)
  have r: "r ! k = (if k = 24 then ucast (drop_bit 8 c) else if k = 25 then ucast c
       else if k = u then ucast (drop_bit 8 (7::u16)) else if k = u + 1 then ucast (7::u16)
       else if k = u + 2 then ucast (drop_bit 8 (be16_at frame u)) else if k = u + 3 then ucast (be16_at frame u)
       else if k = u + 6 \<or> k = u + 7 then 0 else ?sw ! k)" if "k < length frame" for k
    using echo_finish_nth(2) [OF f(2) l(2), of k c 7 "be16_at frame u"] that sw(1) by (simp add: r_def)
  have ev: "try_reply_echo mac frame = Some (Some r)"
    using assms by (simp add: try_reply_echo_eq Let_def r_def c_def)
  have macs: "seg 0 6 r = seg 6 6 frame" "seg 6 6 r = mac" "seg 12 2 r = seg 12 2 frame"
  proof -
    show "seg 0 6 r = seg 6 6 frame"
      using f l(1) by (intro seg_eqI) (simp_all add: r sw(2) add.commute)
    have "seg 6 6 r = seg 0 6 mac"
      using f l(1) assms(1) by (intro seg_eqI) (simp_all add: r sw(2))
    then show "seg 6 6 r = mac" using assms(1) by (simp add: seg_def)
    show "seg 12 2 r = seg 12 2 frame"
      using f l(1) by (intro seg_eqI) (simp_all add: r sw(2))
  qed
  have ips: "seg 26 4 r = seg 30 4 frame" "seg 30 4 r = seg 26 4 frame"
    using f l(1) by (intro seg_eqI; simp add: r sw(2))+
  have hdr: "seg 14 (ihl_of frame) r =
      (seg 14 (ihl_of frame) ?sw)[10 := ucast (drop_bit 8 c), 10 + 1 := ucast c]"
    using f l(1) sw(1) assms(3,4)
    by (intro nth_equalityI) (auto simp: seg_def r nth_list_update)
  have "csum16 (seg 14 (ihl_of frame) r) = 0"
    unfolding hdr c_def using f assms(3,4) sw le_trans [OF ihl_of_le [of frame], of 65536]
    by (intro csum16_verifies) (simp_all add: seg_def)
  moreover have "be16_at r u = 7" "be16_at r (u + 2) = be16_at frame u" "be16_at r (u + 6) = 0"
    using be16_of_bytes [of 7] be16_of_bytes [of "be16_at frame u"] f(2) assms(4)
    by (simp_all add: be16_at_def r from_be_bytes_def from_le_bytes_def)
  moreover have "drop (u + 8) r = drop (u + 8) frame"
    using f(2) l(1) by (intro nth_equalityI) (simp_all add: r sw(2))
  moreover have "\<forall>dst. length dst = 6 \<longrightarrow> try_reply_echo mac (dst @ drop 6 frame) = Some (Some r)"
    using echo_ignores_dst [OF assms(1) _ f(1)] ev by simp
  ultimately show ?thesis using ev l(1) macs ips by blast
qed

definition echo_frame :: "u8 \<Rightarrow> u8 list" where
  "echo_frame ver_ihl = [2, 0, 0, 0, 0, 1, 2, 0, 0, 0, 0, 9, 8, 0,
     ver_ihl, 0, 0, 28, 0, 0, 0, 0, 64, 17, 0, 0, 10, 0, 2, 2, 10, 0, 2, 15,
     0x30, 0x39, 0, 7, 0, 8, 0, 0]"

lemma echo_frame_candidate:
  "echo_candidate (echo_frame 0x45)" "ihl_of (echo_frame 0x45) = 20"
  "echo_candidate (echo_frame 0x4f)" "ihl_of (echo_frame 0x4f) = 60"
  by (simp_all add: echo_candidate_def ihl_of_def echo_frame_def from_be_bytes_def from_le_bytes_def)

theorem echo_reply_correct_witness:
  "\<exists>r. try_reply_echo [2, 0, 0, 0, 0, 1] (echo_frame 0x45) = Some (Some r) \<and> seg 0 6 r = [2, 0, 0, 0, 0, 9] \<and>
     seg 26 4 r = [10, 0, 2, 15] \<and> csum16 (seg 14 20 r) = 0 \<and> be16_at r 36 = 0x3039 \<and>
     try_reply_echo [2, 0, 0, 0, 0, 1] ([6, 6, 6, 6, 6, 6] @ drop 6 (echo_frame 0x45)) = Some (Some r)"
proof -
  have "be16_at (echo_frame 0x45) 36 = 7" "be16_at (echo_frame 0x45) 34 = 0x3039"
    "seg 6 6 (echo_frame 0x45) = [2, 0, 0, 0, 0, 9]" "seg 30 4 (echo_frame 0x45) = [10, 0, 2, 15]"
    "length (echo_frame 0x45) = 42"
    by (simp_all add: be16_at_def echo_frame_def from_be_bytes_def from_le_bytes_def seg_def)
  then obtain r where r: "try_reply_echo [2, 0, 0, 0, 0, 1] (echo_frame 0x45) = Some (Some r) \<and> seg 0 6 r = [2, 0, 0, 0, 0, 9] \<and>
      seg 26 4 r = [10, 0, 2, 15] \<and> csum16 (seg 14 20 r) = 0 \<and> be16_at r 36 = 0x3039"
    "\<forall>dst. length dst = 6 \<longrightarrow> try_reply_echo [2, 0, 0, 0, 0, 1] (dst @ drop 6 (echo_frame 0x45)) = Some (Some r)"
    using echo_reply_correct [of "[2, 0, 0, 0, 0, 1]" "echo_frame 0x45" 34] echo_frame_candidate(1,2) by auto
  moreover have "length [6, 6, 6, 6, 6, 6 :: u8] = 6" by simp
  ultimately show ?thesis by blast
qed

text \<open>C29: The responder trusts the header length field. A frame that passes its checks but whose IP
  header length points past the end of the frame makes the slice of the header panic, so one
  packet of 42 bytes stops the kernel.\<close>

theorem echo_bad_ihl_panics:
  assumes "length mac = 6" "echo_candidate frame" "length frame < 14 + ihl_of frame + 4"
  shows "try_reply_echo mac frame = None"
  using assms by (simp add: try_reply_echo_eq Let_def)

theorem echo_bad_ihl_panics_witness: "try_reply_echo [2, 0, 0, 0, 0, 1] (echo_frame 0x4f) = None"
proof -
  have "length (echo_frame 0x4f) = 42" by (simp add: echo_frame_def)
  then show ?thesis using echo_bad_ihl_panics [of "[2, 0, 0, 0, 0, 1]" "echo_frame 0x4f"] echo_frame_candidate by simp
qed

end
