(* ===== verification/Hyp_Dtb.thy ===== *)
theory Hyp_Dtb
  imports Hyp_Boot_Info Hyp_Bytes Hyp_Utf8
begin

text \<open>
  The flattened device tree parser of \<^verbatim>\<open>kernel/src/hal/dtb.rs\<close>. Offsets and cursors are natural
  numbers: they are sums of a few 32-bit fields and a block length below \<open>2^32\<close>, so the 64-bit
  arithmetic of the source does not wrap. Every index into a byte slice, every sub-slice and every
  index into the arrays of the walk has the bounds check of the source; \<^const>\<open>None\<close> is a panic, and a
  Rust \<^verbatim>\<open>Option\<close> is an option inside it.
\<close>

section \<open>Tokens and byte access\<close>

definition FDT_MAGIC :: u32 where "FDT_MAGIC = 0xd00dfeed"
definition FDT_BEGIN_NODE :: u32 where "FDT_BEGIN_NODE = 1"
definition FDT_END_NODE :: u32 where "FDT_END_NODE = 2"
definition FDT_PROP :: u32 where "FDT_PROP = 3"
definition FDT_NOP :: u32 where "FDT_NOP = 4"
definition FDT_END :: u32 where "FDT_END = 9"

lemmas fdt_tokens = FDT_BEGIN_NODE_def FDT_END_NODE_def FDT_PROP_def FDT_NOP_def FDT_END_def

text \<open>\<^verbatim>\<open>size_of::<FdtHeader>()\<close>: ten 32-bit fields.\<close>

definition FDT_HEADER_SIZE :: nat where "FDT_HEADER_SIZE = 40"

text \<open>\<^verbatim>\<open>&xs[i..j]\<close>.\<close>

definition sub_bytes :: "'b list \<Rightarrow> nat \<Rightarrow> nat \<Rightarrow> 'b list option" where
  "sub_bytes xs i j = (if i \<le> j \<and> j \<le> length xs then Some (take (j - i) (drop i xs)) else None)"

definition be32 :: "u8 list \<Rightarrow> nat \<Rightarrow> u32 option option" where
  "be32 bytes offset =
     (if length bytes < offset + 4 then Some None
      else do {
        b0 \<leftarrow> get_at bytes offset;
        b1 \<leftarrow> get_at bytes (offset + 1);
        b2 \<leftarrow> get_at bytes (offset + 2);
        b3 \<leftarrow> get_at bytes (offset + 3);
        Some (Some (from_be_bytes [b0, b1, b2, b3]))
      })"

definition be64 :: "u8 list \<Rightarrow> nat \<Rightarrow> u64 option option" where
  "be64 bytes offset =
     (if length bytes < offset + 8 then Some None
      else do {
        b0 \<leftarrow> get_at bytes offset;
        b1 \<leftarrow> get_at bytes (offset + 1);
        b2 \<leftarrow> get_at bytes (offset + 2);
        b3 \<leftarrow> get_at bytes (offset + 3);
        b4 \<leftarrow> get_at bytes (offset + 4);
        b5 \<leftarrow> get_at bytes (offset + 5);
        b6 \<leftarrow> get_at bytes (offset + 6);
        b7 \<leftarrow> get_at bytes (offset + 7);
        Some (Some (from_be_bytes [b0, b1, b2, b3, b4, b5, b6, b7]))
      })"

text \<open>\<^verbatim>\<open>from_utf8(..).unwrap_or("")\<close>.\<close>

definition utf8_or_empty :: "u8 list \<Rightarrow> string" where
  "utf8_or_empty bs = (if from_utf8_ok bs then of_bytes bs else '''')"

text \<open>\<^verbatim>\<open>iter().position(|&b| b == 0).unwrap_or(len())\<close>.\<close>

definition nul_position :: "u8 list \<Rightarrow> nat" where
  "nul_position bs = length (takeWhile (\<lambda>b. b \<noteq> 0) bs)"

definition cstr :: "u8 list \<Rightarrow> nat \<Rightarrow> string option" where
  "cstr bytes offset =
     (if length bytes \<le> offset then Some ''''
      else do {
        tail \<leftarrow> sub_bytes bytes offset (length bytes);
        s \<leftarrow> sub_bytes tail 0 (nul_position tail);
        Some (utf8_or_empty s)
      })"

text \<open>The values of these accesses: their guards keep them from panicking.\<close>

definition be32_val :: "u8 list \<Rightarrow> nat \<Rightarrow> u32 option" where
  "be32_val bytes offset = (if length bytes < offset + 4 then None
     else Some (from_be_bytes (take 4 (drop offset bytes))))"

definition be64_val :: "u8 list \<Rightarrow> nat \<Rightarrow> u64 option" where
  "be64_val bytes offset = (if length bytes < offset + 8 then None
     else Some (from_be_bytes (take 8 (drop offset bytes))))"

definition cstr_val :: "u8 list \<Rightarrow> nat \<Rightarrow> string" where
  "cstr_val bytes offset = (if length bytes \<le> offset then ''''
     else utf8_or_empty (takeWhile (\<lambda>b. b \<noteq> 0) (drop offset bytes)))"

named_theorems dtb_total \<open>accesses that never panic\<close>

lemma take_drop_nths: "offset + n \<le> length bytes \<Longrightarrow> take n (drop offset bytes) = map (\<lambda>i. bytes ! (offset + i)) [0..<n]"
  by (rule nth_equalityI) simp_all

lemma be32_total [dtb_total]: "be32 bytes offset = Some (be32_val bytes offset)"
  by (simp add: be32_def be32_val_def get_at_def take_drop_nths upt_rec eval_nat_numeral)

lemma be64_total [dtb_total]: "be64 bytes offset = Some (be64_val bytes offset)"
  by (simp add: be64_def be64_val_def get_at_def take_drop_nths upt_rec eval_nat_numeral)

lemma nul_sub_bytes [dtb_total]: "sub_bytes bs 0 (nul_position bs) = Some (takeWhile (\<lambda>b. b \<noteq> 0) bs)"
  by (simp add: sub_bytes_def nul_position_def length_takeWhile_le takeWhile_eq_take [symmetric])

lemma cstr_total [dtb_total]: "cstr bytes offset = Some (cstr_val bytes offset)"
  by (simp add: cstr_def cstr_val_def sub_bytes_def [of bytes] nul_sub_bytes)

lemma sub_bytes_len: "sub_bytes xs i (i + n) = (if i + n \<le> length xs then Some (take n (drop i xs)) else None)"
  by (simp add: sub_bytes_def)

definition align4 :: "nat \<Rightarrow> nat" where
  "align4 c = (c + 3) div 4 * 4"

section \<open>State of the walk\<close>

definition MAX_DEPTH :: nat where "MAX_DEPTH = 8"

record WalkCtx =
  wc_depth :: nat
  wc_address_cells :: "u32 list"
  wc_size_cells :: "u32 list"
  wc_cur_compatible :: string
  wc_stdout_path :: string
  wc_in_chosen :: bool
  wc_cur_name :: string

record Walk =
  wk_ctx :: WalkCtx
  wk_compatible :: "string list"
  wk_reg :: "(u64 \<times> u64) option list"
  wk_clock :: "u32 list"
  wk_name :: "string list"
  wk_fb :: "FramebufferInfo option list"
  wk_info :: BootInfo

definition walk_start :: "BootInfo \<Rightarrow> Walk" where
  "walk_start info = \<lparr>
     wk_ctx = \<lparr>wc_depth = 0, wc_address_cells = (replicate MAX_DEPTH 0)[0 := 2],
       wc_size_cells = (replicate MAX_DEPTH 0)[0 := 1], wc_cur_compatible = '''',
       wc_stdout_path = '''', wc_in_chosen = False, wc_cur_name = ''''\<rparr>,
     wk_compatible = replicate MAX_DEPTH '''', wk_reg = replicate MAX_DEPTH None,
     wk_clock = replicate MAX_DEPTH 0, wk_name = replicate MAX_DEPTH '''',
     wk_fb = replicate MAX_DEPTH None, wk_info = info\<rparr>"

section \<open>Matching names\<close>

definition starts_with :: "string \<Rightarrow> string \<Rightarrow> bool" where
  "starts_with s p \<longleftrightarrow> take (length p) s = p"

fun str_contains :: "string \<Rightarrow> string \<Rightarrow> bool" where
  "str_contains [] p \<longleftrightarrow> p = []"
| "str_contains (c # s) p \<longleftrightarrow> starts_with (c # s) p \<or> str_contains s p"

definition compatible_matches :: "string \<Rightarrow> string list \<Rightarrow> bool" where
  "compatible_matches compatible wanted \<longleftrightarrow> list_ex (\<lambda>w. w = compatible) wanted"

definition uart_kind_for :: "string \<Rightarrow> ConsoleKind option" where
  "uart_kind_for compatible =
     (if compatible_matches compatible [''arm,pl011'', ''arm,primecell''] then Some Pl011
      else if compatible_matches compatible [''ns16550'', ''ns16550a'', ''snps,dw-apb-uart'',
        ''fsl,16550'', ''nvidia,tegra20-uart''] then Some Ns16550
      else if compatible_matches compatible [''brcm,bcm2835-aux-uart'', ''brcm,bcm2837-aux-uart'']
        then Some BcmMiniUart
      else None)"

definition path_matches_node :: "string \<Rightarrow> string \<Rightarrow> bool" where
  "path_matches_node stdout_path node_name \<longleftrightarrow>
     (if stdout_path = '''' \<or> node_name = '''' then False
      else let path = takeWhile (\<lambda>c. c \<noteq> CHR '':'') stdout_path;
               last = rev (takeWhile (\<lambda>c. c \<noteq> CHR ''/'') (rev path)) in
      if last = node_name then True
      else list_ex (\<lambda>a. a = last) [''serial0'', ''serial1'', ''serial2''] \<and> str_contains node_name ''serial''
        \<or> str_contains node_name last
        \<or> str_contains last (takeWhile (\<lambda>c. c \<noteq> CHR ''@'') node_name))"

section \<open>Properties of a node\<close>

definition read_cells :: "u8 list \<Rightarrow> nat \<Rightarrow> nat \<Rightarrow> u64 option" where
  "read_cells bytes offset cells =
     (if cells = 1 then do { r \<leftarrow> be32 bytes offset; Some (case r of Some v \<Rightarrow> ucast v | None \<Rightarrow> 0) }
      else if cells = 2 then do { r \<leftarrow> be64 bytes offset; Some (case r of Some v \<Rightarrow> v | None \<Rightarrow> 0) }
      else Some 0)"

definition fb_default :: FramebufferInfo where
  "fb_default = \<lparr>fbi_base = 0, fbi_width = 0, fbi_height = 0, fbi_stride_bytes = 0, fbi_bpp = 32,
     fbi_format = Bgra8888\<rparr>"

definition fb_set :: "Walk \<Rightarrow> nat \<Rightarrow> (FramebufferInfo \<Rightarrow> FramebufferInfo option) \<Rightarrow> Walk option" where
  "fb_set w depth f = do {
     entry \<leftarrow> get_at (wk_fb w) depth;
     fb \<leftarrow> f (case entry of Some fb \<Rightarrow> fb | None \<Rightarrow> fb_default);
     Some (w\<lparr>wk_fb := (wk_fb w)[depth := Some fb]\<rparr>)
   }"

definition be32_or_0 :: "u8 list \<Rightarrow> u32 option" where
  "be32_or_0 value = do { r \<leftarrow> be32 value 0; Some (case r of Some v \<Rightarrow> v | None \<Rightarrow> 0) }"

definition first_str :: "u8 list \<Rightarrow> u8 list option" where
  "first_str value = sub_bytes value 0 (nul_position value)"

definition fb_format_of :: "u8 list \<Rightarrow> FramebufferInfo \<Rightarrow> FramebufferInfo option" where
  "fb_format_of value fb = do {
     s \<leftarrow> first_str value;
     Some (if from_utf8_ok s
           then fb\<lparr>fbi_format := (if of_bytes s \<in> set [''a8b8g8r8'', ''x8b8g8r8'', ''r8g8b8a8'', ''r8g8b8x8'']
                                 then Rgba8888 else Bgra8888),
                   fbi_bpp := 32\<rparr>
           else fb)
   }"

definition handle_reg :: "u8 list \<Rightarrow> nat \<Rightarrow> Walk \<Rightarrow> Walk option" where
  "handle_reg value depth w = do {
     let parent = depth - 1;
     a \<leftarrow> get_at (wc_address_cells (wk_ctx w)) parent;
     s \<leftarrow> get_at (wc_size_cells (wk_ctx w)) parent;
     let ac = unat (max a 1);
     let sc = unat (max s 1);
     let entry_words = ac + sc;
     if entry_words = 0 then Some w
     else if length value < entry_words * 4 then Some w
     else do {
       addr \<leftarrow> read_cells value 0 ac;
       sz \<leftarrow> read_cells value (ac * 4) sc;
       regs \<leftarrow> set_at (wk_reg w) depth (Some (addr, sz));
       Some (w\<lparr>wk_reg := regs\<rparr>)
     }
   }"

definition handle_prop :: "string \<Rightarrow> u8 list \<Rightarrow> nat \<Rightarrow> Walk \<Rightarrow> Walk option" where
  "handle_prop pname value depth w =
     (let ctx = wk_ctx w in
      if pname = ''#address-cells'' then do {
        r \<leftarrow> be32 value 0;
        case r of None \<Rightarrow> Some w
        | Some v \<Rightarrow> do { xs \<leftarrow> set_at (wc_address_cells ctx) depth v;
                         Some (w\<lparr>wk_ctx := ctx\<lparr>wc_address_cells := xs\<rparr>\<rparr>) }
      }
      else if pname = ''#size-cells'' then do {
        r \<leftarrow> be32 value 0;
        case r of None \<Rightarrow> Some w
        | Some v \<Rightarrow> do { xs \<leftarrow> set_at (wc_size_cells ctx) depth v;
                         Some (w\<lparr>wk_ctx := ctx\<lparr>wc_size_cells := xs\<rparr>\<rparr>) }
      }
      else if pname = ''compatible'' then do {
        bs \<leftarrow> first_str value;
        let s = utf8_or_empty bs;
        xs \<leftarrow> set_at (wk_compatible w) depth s;
        Some (w\<lparr>wk_compatible := xs, wk_ctx := ctx\<lparr>wc_cur_compatible := s\<rparr>\<rparr>)
      }
      else if pname = ''reg'' then handle_reg value depth w
      else if pname = ''clock-frequency'' then do {
        r \<leftarrow> be32 value 0;
        case r of None \<Rightarrow> Some w
        | Some v \<Rightarrow> do { xs \<leftarrow> set_at (wk_clock w) depth v; Some (w\<lparr>wk_clock := xs\<rparr>) }
      }
      else if pname = ''stdout-path'' then
        (if 1 \<le> depth \<and> wc_in_chosen ctx then do {
           bs \<leftarrow> first_str value;
           Some (if from_utf8_ok bs then w\<lparr>wk_ctx := ctx\<lparr>wc_stdout_path := of_bytes bs\<rparr>\<rparr> else w)
         } else Some w)
      else if pname = ''width'' then fb_set w depth (\<lambda>fb. do { v \<leftarrow> be32_or_0 value; Some (fb\<lparr>fbi_width := v\<rparr>) })
      else if pname = ''height'' then fb_set w depth (\<lambda>fb. do { v \<leftarrow> be32_or_0 value; Some (fb\<lparr>fbi_height := v\<rparr>) })
      else if pname = ''stride'' then
        fb_set w depth (\<lambda>fb. do { v \<leftarrow> be32_or_0 value; Some (fb\<lparr>fbi_stride_bytes := v\<rparr>) })
      else if pname = ''format'' then fb_set w depth (fb_format_of value)
      else Some w)"

section \<open>Closing a node\<close>

definition act_memory :: "BootInfo \<Rightarrow> (u64 \<times> u64) option \<Rightarrow> BootInfo" where
  "act_memory info reg =
     (case reg of None \<Rightarrow> info
      | Some (b, sz) \<Rightarrow>
          let ms = as_slice (bi_memory info);
              m = (if bi_fw_table_addr info \<noteq> 0 \<and> length ms = 1 \<and> mr_base (ms ! 0) = 0x40000000
                      \<and> mr_size (ms ! 0) = 256 * 1024 * 1024
                   then memory_map_empty else bi_memory info)
          in info\<lparr>bi_memory := memory_map_push m (region b sz)\<rparr>)"

definition act_gic :: "BootInfo \<Rightarrow> IntcKind \<Rightarrow> (u64 \<times> u64) option \<Rightarrow> BootInfo" where
  "act_gic info kind reg =
     (case reg of None \<Rightarrow> info
      | Some (b, sz) \<Rightarrow> info\<lparr>bi_intc := \<lparr>ic_kind = kind, ic_primary = reg_spec b sz,
          ic_secondary = ic_secondary (bi_intc info)\<rparr>\<rparr>)"

definition act_uart :: "BootInfo \<Rightarrow> ConsoleKind \<Rightarrow> string \<Rightarrow> (u64 \<times> u64) option \<Rightarrow> u32 \<Rightarrow> WalkCtx \<Rightarrow> BootInfo" where
  "act_uart info kind name reg clock_hz ctx =
     (case reg of None \<Rightarrow> info
      | Some (b, sz) \<Rightarrow>
          let console = \<lparr>cs_kind = kind, cs_regs = reg_spec b sz, cs_clock_hz = clock_hz\<rparr> in
          if wc_stdout_path ctx \<noteq> '''' then
            (if path_matches_node (wc_stdout_path ctx) name then info\<lparr>bi_console := console\<rparr> else info)
          else if bi_fw_table_addr info \<noteq> 0 \<and> rs_base (cs_regs (bi_console info)) = 0x09000000
                  \<and> cs_kind (bi_console info) = Pl011
          then info\<lparr>bi_console := console\<rparr> else info)"

definition act_framebuffer :: "BootInfo \<Rightarrow> FramebufferInfo \<Rightarrow> (u64 \<times> u64) option \<Rightarrow> BootInfo" where
  "act_framebuffer info fb reg =
     (case reg of None \<Rightarrow> info
      | Some (b, _) \<Rightarrow>
          let fb = fb\<lparr>fbi_base := b\<rparr>;
              fb = (if fbi_stride_bytes fb = 0 \<and> fbi_bpp fb \<noteq> 0 \<and> fbi_width fb \<noteq> 0
                    then fb\<lparr>fbi_stride_bytes := saturating_mul (fbi_width fb) (fbi_bpp fb div 8)\<rparr> else fb)
          in info\<lparr>bi_framebuffer := Some fb\<rparr>)"

definition act_on_node ::
  "BootInfo \<Rightarrow> string \<Rightarrow> string \<Rightarrow> (u64 \<times> u64) option \<Rightarrow> u32 \<Rightarrow> FramebufferInfo option \<Rightarrow> WalkCtx \<Rightarrow> BootInfo" where
  "act_on_node info name compatible reg clock_hz fb ctx =
     (if starts_with name ''memory'' then act_memory info reg
      else if compatible_matches compatible [''arm,gic-v3''] then act_gic info GicV3 reg
      else if compatible_matches compatible [''arm,gic-400'', ''arm,cortex-a15-gic'', ''arm,cortex-a9-gic'', ''arm,gic'']
        then act_gic info GicV2 reg
      else if compatible_matches compatible [''arm,armv8-timer'', ''arm,armv7-timer''] \<and> clock_hz \<noteq> 0
        then info\<lparr>bi_timer_freq_hz := clock_hz\<rparr>
      else case uart_kind_for compatible of
        Some kind \<Rightarrow> act_uart info kind name reg clock_hz ctx
      | None \<Rightarrow>
          (case fb of
             Some fb \<Rightarrow> if compatible = ''simple-framebuffer'' \<or> wc_in_chosen ctx \<and> starts_with name ''framebuffer''
                       then act_framebuffer info fb reg else info
           | None \<Rightarrow> info))"

section \<open>The walk\<close>

definition begin_node :: "string \<Rightarrow> Walk \<Rightarrow> Walk option" where
  "begin_node name w = do {
     let ctx = wk_ctx w;
     let depth = wc_depth ctx + 1;
     let parent = depth - 1;
     a \<leftarrow> get_at (wc_address_cells ctx) parent;
     acells \<leftarrow> set_at (wc_address_cells ctx) depth a;
     s \<leftarrow> get_at (wc_size_cells ctx) parent;
     scells \<leftarrow> set_at (wc_size_cells ctx) depth s;
     compat \<leftarrow> set_at (wk_compatible w) depth '''';
     regs \<leftarrow> set_at (wk_reg w) depth None;
     clocks \<leftarrow> set_at (wk_clock w) depth 0;
     names \<leftarrow> set_at (wk_name w) depth name;
     fbs \<leftarrow> set_at (wk_fb w) depth None;
     Some (w\<lparr>wk_ctx := ctx\<lparr>wc_depth := depth, wc_address_cells := acells, wc_size_cells := scells,
               wc_cur_name := name, wc_in_chosen := (wc_in_chosen ctx \<or> name = ''chosen'')\<rparr>,
            wk_compatible := compat, wk_reg := regs, wk_clock := clocks, wk_name := names, wk_fb := fbs\<rparr>)
   }"

definition end_node :: "Walk \<Rightarrow> Walk option" where
  "end_node w = do {
     let ctx = wk_ctx w;
     let depth = wc_depth ctx;
     name \<leftarrow> get_at (wk_name w) depth;
     compat \<leftarrow> get_at (wk_compatible w) depth;
     reg \<leftarrow> get_at (wk_reg w) depth;
     clock \<leftarrow> get_at (wk_clock w) depth;
     fb \<leftarrow> get_at (wk_fb w) depth;
     Some (w\<lparr>wk_info := act_on_node (wk_info w) name compat reg clock fb ctx,
            wk_ctx := ctx\<lparr>wc_in_chosen := (wc_in_chosen ctx \<and> name \<noteq> ''chosen''), wc_depth := depth - 1\<rparr>\<rparr>)
   }"

text \<open>Skipping a subtree that is nested too deeply: \<open>Some None\<close> is the \<^verbatim>\<open>return\<close> that ends the
  whole walk, otherwise the cursor behind the subtree.\<close>

definition after_name :: "string \<Rightarrow> nat \<Rightarrow> nat" where
  "after_name name cursor = align4 (cursor + length name + 1)"

lemma align4_ge: "c \<le> align4 c"
  by (simp add: align4_def)

lemma after_name_ge: "cursor < after_name name cursor"
  unfolding after_name_def by (rule less_le_trans [OF _ align4_ge]) simp

function skip_subtree :: "u8 list \<Rightarrow> nat \<Rightarrow> nat \<Rightarrow> nat option option" where
  "skip_subtree sb cursor nesting =
     (if nesting = 0 \<or> length sb < cursor + 4 then Some (Some cursor)
      else do {
        token \<leftarrow> be32 sb cursor;
        case token of
          None \<Rightarrow> Some None
        | Some t \<Rightarrow>
            if t = FDT_BEGIN_NODE then do {
              n \<leftarrow> cstr sb (cursor + 4);
              skip_subtree sb (after_name n (cursor + 4)) (nesting + 1)
            }
            else if t = FDT_END_NODE then skip_subtree sb (cursor + 4) (nesting - 1)
            else if t = FDT_PROP then do {
              r \<leftarrow> be32 sb (cursor + 4);
              case r of
                None \<Rightarrow> Some None
              | Some plen \<Rightarrow> skip_subtree sb (align4 (cursor + 4 + (8 + unat plen))) nesting
            }
            else if t = FDT_NOP then skip_subtree sb (cursor + 4) nesting
            else Some None
      })"
  by pat_completeness auto
termination
proof (relation "measure (\<lambda>(sb, cursor, nesting). length sb + 4 - cursor)", goal_cases)
  case (2 sb cursor nesting r t n)
  then show ?case using after_name_ge [of "cursor + 4" n] by simp linarith
next
  case (4 sb cursor nesting r t r' plen)
  then show ?case using align4_ge [of "cursor + 4 + (8 + unat plen)"] by simp linarith
qed auto

declare skip_subtree.simps [simp del]

lemma skip_subtree_step:
  "skip_subtree sb cursor nesting =
     (if nesting = 0 \<or> length sb < cursor + 4 then Some (Some cursor)
      else case be32_val sb cursor of
        None \<Rightarrow> Some None
      | Some t \<Rightarrow>
          if t = FDT_BEGIN_NODE then skip_subtree sb (after_name (cstr_val sb (cursor + 4)) (cursor + 4)) (nesting + 1)
          else if t = FDT_END_NODE then skip_subtree sb (cursor + 4) (nesting - 1)
          else if t = FDT_PROP then
            (case be32_val sb (cursor + 4) of
               None \<Rightarrow> Some None
             | Some plen \<Rightarrow> skip_subtree sb (align4 (cursor + 4 + (8 + unat plen))) nesting)
          else if t = FDT_NOP then skip_subtree sb (cursor + 4) nesting
          else Some None)"
  unfolding skip_subtree.simps [of sb cursor nesting] dtb_total Option.bind.simps ..

lemma skip_subtree_total: "\<exists>r. skip_subtree sb cursor nesting = Some r \<and> (\<forall>c. r = Some c \<longrightarrow> cursor \<le> c)"
proof (induction sb cursor nesting rule: skip_subtree.induct)
  case (1 sb cursor nesting)
  have n: "cursor + 4 \<le> after_name name (cursor + 4)" for name using after_name_ge less_imp_le by blast
  have a: "cursor \<le> align4 (cursor + 4 + (8 + k))" for k
    by (rule le_trans [OF _ align4_ge]) simp
  show ?case
  proof (cases "nesting = 0 \<or> length sb < cursor + 4")
    case True
    then show ?thesis by (simp add: skip_subtree_step [of sb cursor])
  next
    case False
    note IH = 1 [OF False be32_total]
    show ?thesis
      unfolding skip_subtree_step [of sb cursor nesting]
      using False IH(1) [OF _ _ cstr_total] IH(2) IH(3) [OF _ _ _ _ be32_total] IH(4) n a
      by (auto split: option.splits intro: le_trans) (meson le_trans add_leD1)+
  qed
qed

lemma skip_subtree_ge: "skip_subtree sb cursor nesting = Some (Some c) \<Longrightarrow> cursor \<le> c"
  using skip_subtree_total [of sb cursor nesting] by auto

function walk :: "u8 list \<Rightarrow> u8 list \<Rightarrow> nat \<Rightarrow> Walk \<Rightarrow> Walk option" where
  "walk sb strings cursor w =
     (if length sb < cursor + 4 then Some w
      else do {
        r \<leftarrow> be32 sb cursor;
        case r of
          None \<Rightarrow> Some w
        | Some token \<Rightarrow>
            if token = FDT_BEGIN_NODE then do {
              name \<leftarrow> cstr sb (cursor + 4);
              if MAX_DEPTH \<le> wc_depth (wk_ctx w) + 1 then do {
                skipped \<leftarrow> skip_subtree sb (after_name name (cursor + 4)) 1;
                case skipped of
                  None \<Rightarrow> Some w
                | Some c \<Rightarrow> walk sb strings c w
              }
              else do {
                w' \<leftarrow> begin_node name w;
                walk sb strings (after_name name (cursor + 4)) w'
              }
            }
            else if token = FDT_END_NODE then
              (if wc_depth (wk_ctx w) = 0 then Some w
               else do { w' \<leftarrow> end_node w; walk sb strings (cursor + 4) w' })
            else if token = FDT_PROP then do {
              r \<leftarrow> be32 sb (cursor + 4);
              case r of
                None \<Rightarrow> Some w
              | Some plen \<Rightarrow> do {
                  r \<leftarrow> be32 sb (cursor + 8);
                  case r of
                    None \<Rightarrow> Some w
                  | Some pnameoff \<Rightarrow>
                      let value_end = cursor + 12 + unat plen in
                      if length sb < value_end then Some w
                      else do {
                        value \<leftarrow> sub_bytes sb (cursor + 12) value_end;
                        pname \<leftarrow> cstr strings (unat pnameoff);
                        w' \<leftarrow> handle_prop pname value (wc_depth (wk_ctx w)) w;
                        walk sb strings (align4 value_end) w'
                      }
                }
            }
            else if token = FDT_NOP then walk sb strings (cursor + 4) w
            else Some w
      })"
  by pat_completeness auto
termination
proof (relation "measure (\<lambda>(sb, strings, cursor, w). length sb + 4 - cursor)", goal_cases)
  case (2 sb strings cursor w r token name r' c)
  then show ?case using after_name_ge [of "cursor + 4" name] skip_subtree_ge [of sb _ 1 c] by fastforce
next
  case (3 sb strings cursor w r token name w')
  then show ?case using after_name_ge [of "cursor + 4" name] by simp
next
  case (5 sb strings cursor w r token r' plen r'' pnameoff x v pname w')
  then show ?case using align4_ge [of "cursor + 12 + unat plen"] by simp
qed auto

declare walk.simps [simp del]

lemma walk_step:
  "walk sb strings cursor w =
     (if length sb < cursor + 4 then Some w
      else case be32_val sb cursor of
        None \<Rightarrow> Some w
      | Some token \<Rightarrow>
          if token = FDT_BEGIN_NODE then
            (let name = cstr_val sb (cursor + 4) in
             if MAX_DEPTH \<le> wc_depth (wk_ctx w) + 1
             then (case the (skip_subtree sb (after_name name (cursor + 4)) 1) of
                     None \<Rightarrow> Some w
                   | Some c \<Rightarrow> walk sb strings c w)
             else (case begin_node name w of
                     None \<Rightarrow> None
                   | Some w' \<Rightarrow> walk sb strings (after_name name (cursor + 4)) w'))
          else if token = FDT_END_NODE then
            (if wc_depth (wk_ctx w) = 0 then Some w
             else (case end_node w of None \<Rightarrow> None | Some w' \<Rightarrow> walk sb strings (cursor + 4) w'))
          else if token = FDT_PROP then
            (case be32_val sb (cursor + 4) of
               None \<Rightarrow> Some w
             | Some plen \<Rightarrow>
                 (case be32_val sb (cursor + 8) of
                    None \<Rightarrow> Some w
                  | Some pnameoff \<Rightarrow>
                      let value_end = cursor + 12 + unat plen in
                      if length sb < value_end then Some w
                      else (case handle_prop (cstr_val strings (unat pnameoff))
                               (take (unat plen) (drop (cursor + 12) sb)) (wc_depth (wk_ctx w)) w of
                              None \<Rightarrow> None
                            | Some w' \<Rightarrow> walk sb strings (align4 value_end) w')))
          else if token = FDT_NOP then walk sb strings (cursor + 4) w
          else Some w)"
proof -
  have s: "skip_subtree sb c n = Some (the (skip_subtree sb c n))" for c n using skip_subtree_total [of sb c n] by auto
  have b: "Option.bind x f = (case x of None \<Rightarrow> None | Some y \<Rightarrow> f y)" for x :: "Walk option" and f :: "Walk \<Rightarrow> Walk option"
    by (cases x) simp_all
  show ?thesis
    by (subst walk.simps, subst s) (auto simp: dtb_total b sub_bytes_len Let_def split: option.splits)
qed


section \<open>Entry point\<close>

definition parse_blob :: "u8 list \<Rightarrow> BootInfo \<Rightarrow> BootInfo option" where
  "parse_blob blob info = do {
     os \<leftarrow> be32 blob 8;
     ostr \<leftarrow> be32 blob 12;
     ss \<leftarrow> be32 blob 36;
     strs \<leftarrow> be32 blob 32;
     case (os, ostr, ss, strs) of
       (Some os, Some ostr, Some ss, Some strs) \<Rightarrow>
         let off_struct = unat os; off_strings = unat ostr; size_struct = unat ss; strings_size = unat strs in
         if length blob < off_struct + size_struct \<or> length blob < off_strings + strings_size then Some info
         else do {
           struct_block \<leftarrow> sub_bytes blob off_struct (off_struct + size_struct);
           strings_block \<leftarrow> sub_bytes blob off_strings (off_strings + strings_size);
           w \<leftarrow> walk struct_block strings_block 0 (walk_start info);
           Some (wk_info w)
         }
     | _ \<Rightarrow> Some info
   }"

definition parse_or_fallback :: "memory \<Rightarrow> u64 \<Rightarrow> BootInfo option" where
  "parse_or_fallback mem dtb_addr =
     (let info = qemu_virt_fallback\<lparr>bi_fw_table_addr := dtb_addr\<rparr> in
      if dtb_addr = 0 then Some info
      else do {
        let header_slice = mem_read mem dtb_addr FDT_HEADER_SIZE;
        r \<leftarrow> be32 header_slice 0;
        case r of
          None \<Rightarrow> Some info
        | Some magic \<Rightarrow>
            if magic \<noteq> FDT_MAGIC then Some info
            else do {
              r \<leftarrow> be32 header_slice 4;
              case r of
                None \<Rightarrow> Some info
              | Some totalsize \<Rightarrow>
                  if unat totalsize < FDT_HEADER_SIZE then Some info
                  else parse_blob (mem_read mem dtb_addr (unat totalsize)) info
            }
      })"

section \<open>The parser never panics\<close>

definition walk_wf :: "Walk \<Rightarrow> bool" where
  "walk_wf w \<longleftrightarrow> wc_depth (wk_ctx w) < MAX_DEPTH \<and>
     length (wc_address_cells (wk_ctx w)) = MAX_DEPTH \<and> length (wc_size_cells (wk_ctx w)) = MAX_DEPTH \<and>
     length (wk_compatible w) = MAX_DEPTH \<and> length (wk_reg w) = MAX_DEPTH \<and>
     length (wk_clock w) = MAX_DEPTH \<and> length (wk_name w) = MAX_DEPTH \<and> length (wk_fb w) = MAX_DEPTH \<and>
     memory_map_wf (bi_memory (wk_info w))"

lemma get_at_ok: "i < length xs \<Longrightarrow> get_at xs i = Some (xs ! i)"
  by (simp add: get_at_def)

lemma set_at_ok: "i < length xs \<Longrightarrow> set_at xs i v = Some (xs[i := v])"
  by (simp add: set_at_def)

lemma walk_start_wf: "memory_map_wf (bi_memory info) \<Longrightarrow> walk_wf (walk_start info)"
  by (simp add: walk_wf_def walk_start_def MAX_DEPTH_def)

lemma act_on_node_wf:
  "memory_map_wf (bi_memory info) \<Longrightarrow> memory_map_wf (bi_memory (act_on_node info name co reg clk fb ctx))"
  by (auto simp: act_on_node_def act_memory_def act_gic_def act_uart_def act_framebuffer_def Let_def
      inv_rules split: option.splits prod.splits)

lemma act_on_node_fw: "bi_fw_table_addr (act_on_node info name co reg clk fb ctx) = bi_fw_table_addr info"
  by (auto simp: act_on_node_def act_memory_def act_gic_def act_uart_def act_framebuffer_def Let_def
      split: option.splits prod.splits)

definition keeps :: "Walk \<Rightarrow> Walk option \<Rightarrow> bool" where
  "keeps w r \<longleftrightarrow> (\<exists>w'. r = Some w' \<and> walk_wf w' \<and> bi_fw_table_addr (wk_info w') = bi_fw_table_addr (wk_info w))"

lemma keepsI: "r = Some w' \<Longrightarrow> walk_wf w' \<Longrightarrow> bi_fw_table_addr (wk_info w') = bi_fw_table_addr (wk_info w) \<Longrightarrow> keeps w r"
  by (auto simp: keeps_def)

lemma read_cells_total: "\<exists>v. read_cells bytes offset cells = Some v"
  by (simp add: read_cells_def dtb_total)

lemma first_str_total [dtb_total]: "first_str bs = Some (takeWhile (\<lambda>b. b \<noteq> 0) bs)"
  by (simp add: first_str_def dtb_total)

lemma be32_or_0_total [dtb_total]: "be32_or_0 bs = Some (case_option 0 (\<lambda>v. v) (be32_val bs 0))"
  by (simp add: be32_or_0_def dtb_total)

lemma fb_set_keeps:
  assumes "walk_wf w" "depth < MAX_DEPTH" "\<And>fb. \<exists>fb'. f fb = Some fb'"
  shows "keeps w (fb_set w depth f)"
proof -
  obtain fb where "f (case wk_fb w ! depth of Some fb \<Rightarrow> fb | None \<Rightarrow> fb_default) = Some fb" using assms(3) by blast
  then show ?thesis using assms(1,2) by (auto simp: fb_set_def walk_wf_def get_at_ok intro!: keepsI)
qed

lemma handle_reg_keeps:
  assumes "walk_wf w" "depth < MAX_DEPTH"
  shows "keeps w (handle_reg value depth w)"
proof -
  define a where "a = wc_address_cells (wk_ctx w) ! (depth - 1)"
  define s where "s = wc_size_cells (wk_ctx w) ! (depth - 1)"
  obtain addr where addr: "read_cells value 0 (unat (max a 1)) = Some addr" using read_cells_total by blast
  obtain sz where sz: "read_cells value (unat (max a 1) * 4) (unat (max s 1)) = Some sz" using read_cells_total by blast
  have "get_at (wc_address_cells (wk_ctx w)) (depth - 1) = Some a" "get_at (wc_size_cells (wk_ctx w)) (depth - 1) = Some s"
    "set_at (wk_reg w) depth v = Some ((wk_reg w)[depth := v])" for v
    using assms by (simp_all add: a_def s_def walk_wf_def get_at_ok set_at_ok)
  moreover have "keeps w (Some (w\<lparr>wk_reg := (wk_reg w)[depth := v]\<rparr>))" for v
    using assms by (auto simp: walk_wf_def intro!: keepsI)
  moreover have "keeps w (Some w)" using assms by (auto intro!: keepsI)
  ultimately show ?thesis by (simp only: handle_reg_def Let_def Option.bind.simps addr sz split: if_split) blast
qed

lemma keeps_refl: "walk_wf w \<Longrightarrow> keeps w (Some w)"
  by (auto intro: keepsI)

lemma keeps_if: "(c \<Longrightarrow> keeps w a) \<Longrightarrow> (\<not> c \<Longrightarrow> keeps w b) \<Longrightarrow> keeps w (if c then a else b)"
  by simp

lemma keeps_option: "keeps w a \<Longrightarrow> (\<And>x. v = Some x \<Longrightarrow> keeps w (f x)) \<Longrightarrow> keeps w (case v of None \<Rightarrow> a | Some x \<Rightarrow> f x)"
  by (cases v) simp_all

lemma handle_prop_keeps:
  assumes "walk_wf w" "depth < MAX_DEPTH"
  shows "keeps w (handle_prop pname value depth w)"
  unfolding handle_prop_def Let_def dtb_total Option.bind.simps
  using assms
  by (intro keeps_if keeps_option keeps_refl fb_set_keeps handle_reg_keeps)
     (auto simp: walk_wf_def set_at_ok fb_format_of_def dtb_total intro!: keepsI)

lemma handle_prop_depth:
  "handle_prop pname value depth w = Some w' \<Longrightarrow> wc_depth (wk_ctx w') = wc_depth (wk_ctx w)"
  by (auto simp: handle_prop_def fb_set_def handle_reg_def Let_def bind_eq_Some_conv
      split: if_splits option.splits)

lemma begin_node_keeps:
  assumes "walk_wf w" "wc_depth (wk_ctx w) + 1 < MAX_DEPTH"
  shows "keeps w (begin_node name w)"
  using assms by (auto simp: begin_node_def walk_wf_def get_at_ok set_at_ok Let_def intro!: keepsI)

lemma end_node_keeps: "walk_wf w \<Longrightarrow> keeps w (end_node w)"
  by (auto simp: end_node_def walk_wf_def get_at_ok Let_def act_on_node_wf act_on_node_fw intro!: keepsI)

lemma keeps_trans:
  assumes "keeps w r" "\<And>w'. r = Some w' \<Longrightarrow> walk_wf w' \<Longrightarrow> keeps w' (f w')"
  shows "keeps w (case r of None \<Rightarrow> None | Some w' \<Rightarrow> f w')"
proof -
  obtain w' where w': "r = Some w'" "walk_wf w'" "bi_fw_table_addr (wk_info w') = bi_fw_table_addr (wk_info w)"
    using assms(1) by (auto simp: keeps_def)
  then show ?thesis using assms(2) [OF w'(1,2)] by (auto simp: keeps_def)
qed

lemma walk_keeps: "walk_wf w \<Longrightarrow> keeps w (walk sb strings cursor w)"
proof (induction sb strings cursor w rule: walk.induct)
  case (1 sb strings cursor w)
  note w = 1(6)
  have d: "wc_depth (wk_ctx w) < MAX_DEPTH" using w by (simp add: walk_wf_def)
  obtain r where r: "skip_subtree sb (after_name (cstr_val sb (cursor + 4)) (cursor + 4)) 1 = Some r"
    using skip_subtree_total by blast
  show ?case
    unfolding walk_step [of sb strings cursor w] Let_def
    using 1 d r
    by (intro keeps_if keeps_option keeps_refl keeps_trans begin_node_keeps end_node_keeps handle_prop_keeps)
       (simp_all add: not_le dtb_total sub_bytes_len)
qed

lemma parse_blob_keeps:
  assumes "memory_map_wf (bi_memory info)"
  shows "\<exists>info'. parse_blob blob info = Some info' \<and> memory_map_wf (bi_memory info') \<and>
    bi_fw_table_addr info' = bi_fw_table_addr info"
proof -
  have "\<exists>info'. do { w \<leftarrow> walk sb strings 0 (walk_start info); Some (wk_info w) } = Some info' \<and>
      memory_map_wf (bi_memory info') \<and> bi_fw_table_addr info' = bi_fw_table_addr info" for sb strings
    using walk_keeps [OF walk_start_wf [OF assms], of sb strings 0]
    by (auto simp: keeps_def walk_wf_def walk_start_def)
  then show ?thesis
    using assms unfolding parse_blob_def dtb_total Option.bind.simps
    by (auto simp: sub_bytes_len Let_def split: option.splits)
qed

text \<open>C31: The device tree parser returns a machine description for every memory contents and every
  address: no blob, however malformed, makes it panic or loop. The memory map it returns is
  well formed and the address of the blob is recorded.\<close>

theorem parse_never_panics:
  "\<exists>info. parse_or_fallback mem dtb_addr = Some info \<and> memory_map_wf (bi_memory info) \<and>
     bi_fw_table_addr info = dtb_addr"
proof -
  have "memory_map_wf (bi_memory (qemu_virt_fallback\<lparr>bi_fw_table_addr := dtb_addr\<rparr>))"
    by (simp add: qemu_virt_fallback_def)
  from parse_blob_keeps [OF this] this show ?thesis
    unfolding parse_or_fallback_def dtb_total Option.bind.simps Let_def
    by (auto split: option.splits)
qed

section \<open>Flattened trees\<close>

text \<open>A device tree and its flattened form (devicetree specification, section 5.4). A property
  names its key by the offset in the strings block.\<close>

datatype DtNode = DtNode (dt_name: "u8 list") (dt_props: "(u32 \<times> u8 list) list") (dt_kids: "DtNode list")

definition pad4 :: "u8 list \<Rightarrow> u8 list" where
  "pad4 bs = bs @ replicate (align4 (length bs) - length bs) 0"

definition flat_prop :: "u32 \<times> u8 list \<Rightarrow> u8 list" where
  "flat_prop p = to_be_bytes FDT_PROP @ to_be_bytes (word_of_nat (length (snd p)) :: u32) @ to_be_bytes (fst p) @
     pad4 (snd p)"

fun flatten :: "DtNode \<Rightarrow> u8 list" where
  "flatten (DtNode name props kids) = to_be_bytes FDT_BEGIN_NODE @ pad4 (name @ [0]) @
     concat (map flat_prop props) @ concat (map flatten kids) @ to_be_bytes FDT_END_NODE"

text \<open>Names have no NUL and are valid UTF-8; values fit their length field.\<close>

fun dt_ok :: "DtNode \<Rightarrow> bool" where
  "dt_ok (DtNode name props kids) \<longleftrightarrow> 0 \<notin> set name \<and> from_utf8_ok name \<and>
     list_all (\<lambda>p. length (snd p) < 2 ^ 32) props \<and> list_all dt_ok kids"

text \<open>What the parser is meant to do with a tree: open the node, take its properties in order,
  visit its children in order, act on the node; nodes nested too deeply are passed over.\<close>

definition take_prop :: "u8 list \<Rightarrow> u32 \<times> u8 list \<Rightarrow> Walk \<Rightarrow> Walk" where
  "take_prop strings p w = the (handle_prop (cstr_val strings (unat (fst p))) (snd p) (wc_depth (wk_ctx w)) w)"

fun visit :: "u8 list \<Rightarrow> DtNode \<Rightarrow> Walk \<Rightarrow> Walk" where
  "visit strings (DtNode name props kids) w =
     (if MAX_DEPTH \<le> wc_depth (wk_ctx w) + 1 then w
      else the (end_node (fold (visit strings) kids (fold (take_prop strings) props
             (the (begin_node (of_bytes name) w))))))"

lemma dvd_align4: "4 dvd align4 c"
  by (simp add: align4_def)

lemma align4_dvd: "4 dvd a \<Longrightarrow> align4 (a + b) = a + align4 b"
  unfolding align4_def by presburger

lemma length_pad4: "length (pad4 bs) = align4 (length bs)"
  by (simp add: pad4_def align4_ge)

lemma length_be32 [simp]: "length (to_be_bytes (w::u32)) = 4"
  by simp

lemma dvd_flat: "4 dvd length (flat_prop p)" "4 dvd length (concat (map flat_prop ps))"
  by (induction ps) (simp_all add: flat_prop_def length_pad4 dvd_align4)

lemma dvd_flatten: "4 dvd length (flatten t)"
proof (induction t)
  case (DtNode name props kids)
  have "4 dvd length (concat (map flatten kids))" using DtNode by (induction kids) auto
  then show ?case using dvd_flat(2) [of props] by (simp add: length_pad4 dvd_align4 add.assoc)
qed

lemma be32_at: "be32_val (pre @ to_be_bytes (w::u32) @ post) (length pre) = Some w"
  by (simp add: be32_val_def)

lemma cstr_at:
  assumes "0 \<notin> set name" "from_utf8_ok name"
  shows "cstr_val (pre @ pad4 (name @ [0]) @ post) (length pre) = of_bytes name"
proof -
  have "takeWhile (\<lambda>b. b \<noteq> 0) (name @ 0 # zs) = name" for zs
    using assms(1) by (induction name) auto
  then show ?thesis using assms(2) by (simp add: cstr_val_def pad4_def utf8_or_empty_def)
qed

lemma after_name_at:
  assumes "4 dvd length pre"
  shows "after_name (of_bytes name) (length pre) = length pre + length (pad4 (name @ [0]))"
  using align4_dvd [OF assms, of "Suc (length name)"]
  by (simp add: after_name_def length_pad4 of_bytes_def)

text \<open>One token of the walk and of the skip loop, at the end of a prefix.\<close>

lemma walk_begin:
  assumes "0 \<notin> set name" "from_utf8_ok name" "4 dvd length pre"
    "sb = pre @ to_be_bytes FDT_BEGIN_NODE @ pad4 (name @ [0]) @ post"
  shows "be32_val sb (length pre) = Some FDT_BEGIN_NODE" "cstr_val sb (length pre + 4) = of_bytes name"
    "after_name (of_bytes name) (length pre + 4) = length pre + 4 + length (pad4 (name @ [0]))"
    "length pre + 4 \<le> length sb"
proof -
  show "be32_val sb (length pre) = Some FDT_BEGIN_NODE" unfolding assms(4) by (rule be32_at)
  have sb: "sb = (pre @ to_be_bytes FDT_BEGIN_NODE) @ pad4 (name @ [0]) @ post" by (simp add: assms(4))
  have l: "length (pre @ to_be_bytes FDT_BEGIN_NODE) = length pre + 4" by simp
  show "cstr_val sb (length pre + 4) = of_bytes name"
    using cstr_at [OF assms(1,2), of "pre @ to_be_bytes FDT_BEGIN_NODE" post] by (simp only: sb l)
  show "after_name (of_bytes name) (length pre + 4) = length pre + 4 + length (pad4 (name @ [0]))"
    using after_name_at [of "pre @ to_be_bytes FDT_BEGIN_NODE" name] assms(3) by (simp only: l) simp
  show "length pre + 4 \<le> length sb" by (simp add: assms(4))
qed

lemma flat_prop_at:
  assumes "length (snd p) < 2 ^ 32" "4 dvd length pre" "sb = pre @ flat_prop p @ post"
  shows "be32_val sb (length pre) = Some FDT_PROP"
    "be32_val sb (length pre + 4) = Some (word_of_nat (length (snd p)))"
    "be32_val sb (length pre + 8) = Some (fst p)"
    "unat (word_of_nat (length (snd p)) :: u32) = length (snd p)"
    "take (length (snd p)) (drop (length pre + 12) sb) = snd p"
    "length pre + 12 + length (snd p) \<le> length sb"
    "align4 (length pre + 12 + length (snd p)) = length pre + length (flat_prop p)"
proof -
  have sb: "sb = pre @ to_be_bytes FDT_PROP @ to_be_bytes (word_of_nat (length (snd p)) :: u32) @
      to_be_bytes (fst p) @ pad4 (snd p) @ post" by (simp add: assms(3) flat_prop_def)
  show "be32_val sb (length pre) = Some FDT_PROP" unfolding sb by (rule be32_at)
  show "be32_val sb (length pre + 4) = Some (word_of_nat (length (snd p)))"
    using be32_at [of "pre @ to_be_bytes FDT_PROP"] by (simp add: sb)
  show "be32_val sb (length pre + 8) = Some (fst p)"
    using be32_at [of "pre @ to_be_bytes FDT_PROP @ to_be_bytes (word_of_nat (length (snd p)) :: u32)" "fst p"]
    by (simp add: sb)
  show "unat (word_of_nat (length (snd p)) :: u32) = length (snd p)"
    using assms(1) by (intro unat_word_of_nat) simp
  show "take (length (snd p)) (drop (length pre + 12) sb) = snd p" by (simp add: sb pad4_def)
  show "length pre + 12 + length (snd p) \<le> length sb"
    using align4_ge [of "length (snd p)"] by (simp add: sb length_pad4)
  have "4 dvd length pre + 12" using assms(2) by simp
  then show "align4 (length pre + 12 + length (snd p)) = length pre + length (flat_prop p)"
    using align4_dvd [of "length pre + 12" "length (snd p)"] by (simp add: flat_prop_def length_pad4)
qed

lemma walk_props:
  assumes "list_all (\<lambda>p. length (snd p) < 2 ^ 32) ps" "4 dvd length pre" "walk_wf w"
    "sb = pre @ concat (map flat_prop ps) @ post"
  shows "walk sb strings (length pre) w =
      walk sb strings (length pre + length (concat (map flat_prop ps))) (fold (take_prop strings) ps w) \<and>
    walk_wf (fold (take_prop strings) ps w) \<and>
    wc_depth (wk_ctx (fold (take_prop strings) ps w)) = wc_depth (wk_ctx w)"
  using assms
proof (induction ps arbitrary: pre w)
  case (Cons p ps)
  have d: "wc_depth (wk_ctx w) < MAX_DEPTH" using Cons.prems(3) by (simp add: walk_wf_def)
  obtain w' where w': "handle_prop (cstr_val strings (unat (fst p))) (snd p) (wc_depth (wk_ctx w)) w = Some w'" "walk_wf w'"
    using handle_prop_keeps [OF Cons.prems(3) d, of "cstr_val strings (unat (fst p))" "snd p"] by (auto simp: keeps_def)
  have dep: "wc_depth (wk_ctx w') = wc_depth (wk_ctx w)" by (rule handle_prop_depth [OF w'(1)])
  have at: "sb = pre @ flat_prop p @ concat (map flat_prop ps) @ post" using Cons.prems(4) by simp
  have "length (snd p) < 2 ^ 32" using Cons.prems(1) by simp
  note f = flat_prop_at [OF this Cons.prems(2) at]
  have len: "\<not> length sb < length pre + 4" using f(6) by simp
  have "walk sb strings (length pre) w = walk sb strings (length pre + length (flat_prop p)) w'"
    unfolding walk_step [of sb strings "length pre" w] using f len w'(1) by (simp add: fdt_tokens Let_def)
  moreover have "take_prop strings p w = w'" by (simp add: take_prop_def w'(1))
  moreover have "walk sb strings (length (pre @ flat_prop p)) w' =
      walk sb strings (length (pre @ flat_prop p) + length (concat (map flat_prop ps))) (fold (take_prop strings) ps w') \<and>
      walk_wf (fold (take_prop strings) ps w') \<and>
      wc_depth (wk_ctx (fold (take_prop strings) ps w')) = wc_depth (wk_ctx w')"
    using Cons.prems dvd_flat(1) [of p] w'(2) by (intro Cons.IH) auto
  ultimately show ?case using dep by (simp add: add.assoc)
qed simp

lemma skip_props:
  assumes "list_all (\<lambda>p. length (snd p) < 2 ^ 32) ps" "4 dvd length pre" "0 < n"
    "sb = pre @ concat (map flat_prop ps) @ post"
  shows "skip_subtree sb (length pre) n = skip_subtree sb (length pre + length (concat (map flat_prop ps))) n"
  using assms
proof (induction ps arbitrary: pre)
  case (Cons p ps)
  have at: "sb = pre @ flat_prop p @ concat (map flat_prop ps) @ post" using Cons.prems(4) by simp
  have "length (snd p) < 2 ^ 32" using Cons.prems(1) by simp
  note f = flat_prop_at [OF this Cons.prems(2) at]
  have len: "\<not> length sb < length pre + 4" using f(6) by simp
  have "align4 (length pre + 4 + (8 + length (snd p))) = length pre + length (flat_prop p)"
    using f(7) by (simp add: add.assoc)
  then have "skip_subtree sb (length pre) n = skip_subtree sb (length pre + length (flat_prop p)) n"
    unfolding skip_subtree_step [of sb "length pre" n] using f(1,2,4) len Cons.prems(3)
    by (simp add: fdt_tokens)
  moreover have "skip_subtree sb (length (pre @ flat_prop p)) n =
      skip_subtree sb (length (pre @ flat_prop p) + length (concat (map flat_prop ps))) n"
    using Cons.prems dvd_flat(1) [of p] by (intro Cons.IH) auto
  ultimately show ?case by (simp add: add.assoc)
qed simp

lemma skip_end:
  assumes "sb = pre @ to_be_bytes FDT_END_NODE @ post" "0 < n"
  shows "skip_subtree sb (length pre) n = skip_subtree sb (length pre + 4) (n - 1)"
  unfolding skip_subtree_step [of sb "length pre" n]
  using assms be32_at [of pre FDT_END_NODE post] by (simp add: fdt_tokens)

lemma flatten_split: "\<exists>post'. flatten t @ post = to_be_bytes FDT_BEGIN_NODE @ pad4 (dt_name t @ [0]) @ post'"
  by (cases t) auto

lemma skip_begin:
  assumes "dt_ok t" "4 dvd length pre" "0 < n" "sb = pre @ flatten t @ post"
  shows "skip_subtree sb (length pre) n = skip_subtree sb (length pre + 4 + length (pad4 (dt_name t @ [0]))) (Suc n)"
proof -
  obtain post' where sb: "sb = pre @ to_be_bytes FDT_BEGIN_NODE @ pad4 (dt_name t @ [0]) @ post'"
    using flatten_split [of t post] assms(4) by auto
  have "0 \<notin> set (dt_name t)" "from_utf8_ok (dt_name t)" using assms(1) by (cases t; simp)+
  note b = walk_begin [OF this assms(2) sb]
  show ?thesis unfolding skip_subtree_step [of sb "length pre" n] using b assms(3) by simp
qed

lemma skip_body:
  "dt_ok t \<Longrightarrow> 4 dvd length pre \<Longrightarrow> sb = pre @ flatten t @ post \<Longrightarrow>
   skip_subtree sb (length pre + 4 + length (pad4 (dt_name t @ [0]))) (Suc n) =
   skip_subtree sb (length pre + length (flatten t)) n"
proof (induction t arbitrary: pre post n)
  case (DtNode name props kids)
  let ?h = "to_be_bytes FDT_BEGIN_NODE @ pad4 (name @ [0])" and ?p = "concat (map flat_prop props)"
    and ?k = "concat (map flatten kids)"
  have ok: "list_all (\<lambda>p. length (snd p) < 2 ^ 32) props" "list_all dt_ok kids"
    using DtNode.prems(1) by simp_all
  have kids: "skip_subtree sb (length pre') (Suc n) = skip_subtree sb (length pre' + length (concat (map flatten ks))) (Suc n)"
    if "set ks \<subseteq> set kids" "4 dvd length pre'" "sb = pre' @ concat (map flatten ks) @ post'" for ks pre' post'
    using that
  proof (induction ks arbitrary: pre')
    case (Cons t ks)
    have t: "dt_ok t" "t \<in> set kids" using Cons.prems(1) ok(2) by (auto simp: list_all_iff)
    have sb: "sb = pre' @ flatten t @ concat (map flatten ks) @ post'" using Cons.prems(3) by simp
    have "skip_subtree sb (length pre') (Suc n) = skip_subtree sb (length pre' + length (flatten t)) (Suc n)"
      using skip_begin [OF t(1) Cons.prems(2) _ sb, of "Suc n"] DtNode.IH [OF t(2,1) Cons.prems(2) sb, of "Suc n"] by simp
    moreover have "skip_subtree sb (length (pre' @ flatten t)) (Suc n) =
        skip_subtree sb (length (pre' @ flatten t) + length (concat (map flatten ks))) (Suc n)"
      using Cons.prems dvd_flatten [of t] by (intro Cons.IH) auto
    ultimately show ?case by (simp add: add.assoc)
  qed simp
  have sb: "sb = pre @ ?h @ ?p @ ?k @ to_be_bytes FDT_END_NODE @ post"
    using DtNode.prems(3) by simp
  have dvd: "4 dvd length (pre @ ?h)" "4 dvd length (pre @ ?h @ ?p)"
    using DtNode.prems(2) dvd_flat(2) [of props] by (simp_all add: length_pad4 dvd_align4 add.assoc)
  have "skip_subtree sb (length (pre @ ?h)) (Suc n) = skip_subtree sb (length (pre @ ?h @ ?p)) (Suc n)"
    using skip_props [OF ok(1) dvd(1), of "Suc n" sb] by (simp add: sb add.assoc)
  also have "\<dots> = skip_subtree sb (length (pre @ ?h @ ?p @ ?k)) (Suc n)"
    using kids [of kids "pre @ ?h @ ?p"] dvd(2) by (simp add: sb add.assoc)
  also have "\<dots> = skip_subtree sb (length (pre @ ?h @ ?p @ ?k) + 4) n"
    using skip_end [of sb "pre @ ?h @ ?p @ ?k" post "Suc n"] by (simp add: sb)
  finally show ?case by (simp add: add.assoc)
qed

lemma walk_too_deep:
  assumes "dt_ok t" "4 dvd length pre" "sb = pre @ flatten t @ post" "MAX_DEPTH \<le> wc_depth (wk_ctx w) + 1"
  shows "walk sb strings (length pre) w = walk sb strings (length pre + length (flatten t)) w"
proof -
  obtain post' where sb: "sb = pre @ to_be_bytes FDT_BEGIN_NODE @ pad4 (dt_name t @ [0]) @ post'"
    using flatten_split [of t post] assms(3) by auto
  have "0 \<notin> set (dt_name t)" "from_utf8_ok (dt_name t)" using assms(1) by (cases t; simp)+
  note b = walk_begin [OF this assms(2) sb]
  have "skip_subtree sb (length pre + 4 + length (pad4 (dt_name t @ [0]))) 1 = Some (Some (length pre + length (flatten t)))"
    using skip_body [OF assms(1,2,3), of 0] by (simp add: skip_subtree_step [of sb _ 0])
  then show ?thesis
    unfolding walk_step [of sb strings "length pre" w] using b assms(4) by simp
qed

lemma walk_end:
  assumes "sb = pre @ to_be_bytes FDT_END_NODE @ post" "0 < wc_depth (wk_ctx w)" "walk_wf w"
  shows "walk sb strings (length pre) w = walk sb strings (length pre + 4) (the (end_node w))"
proof -
  obtain w' where "end_node w = Some w'" using end_node_keeps [OF assms(3)] by (auto simp: keeps_def)
  then show ?thesis
    unfolding walk_step [of sb strings "length pre" w]
    using assms be32_at [of pre FDT_END_NODE post] by (simp add: fdt_tokens)
qed

text \<open>The walk over the bytes of a node does what visiting the node does.\<close>

lemma walk_node:
  "dt_ok t \<Longrightarrow> 4 dvd length pre \<Longrightarrow> sb = pre @ flatten t @ post \<Longrightarrow> walk_wf w \<Longrightarrow>
   walk sb strings (length pre) w = walk sb strings (length pre + length (flatten t)) (visit strings t w) \<and>
   walk_wf (visit strings t w) \<and> wc_depth (wk_ctx (visit strings t w)) = wc_depth (wk_ctx w)"
proof (induction t arbitrary: pre post w)
  case (DtNode name props kids)
  show ?case
  proof (cases "MAX_DEPTH \<le> wc_depth (wk_ctx w) + 1")
    case True
    then show ?thesis using walk_too_deep [OF DtNode.prems(1-3) True] DtNode.prems(4) by simp
  next
    case False
    let ?h = "to_be_bytes FDT_BEGIN_NODE @ pad4 (name @ [0])" and ?p = "concat (map flat_prop props)"
      and ?k = "concat (map flatten kids)"
    have ok: "0 \<notin> set name" "from_utf8_ok name" "list_all (\<lambda>p. length (snd p) < 2 ^ 32) props" "list_all dt_ok kids"
      using DtNode.prems(1) by simp_all
    obtain w1 where w1: "begin_node (of_bytes name) w = Some w1" "walk_wf w1"
      using begin_node_keeps [OF DtNode.prems(4), of "of_bytes name"] False by (auto simp: keeps_def)
    have d1: "wc_depth (wk_ctx w1) = wc_depth (wk_ctx w) + 1"
      using w1(1) by (auto simp: begin_node_def Let_def bind_eq_Some_conv)
    define w2 where "w2 = fold (take_prop strings) props w1"
    define w3 where "w3 = fold (visit strings) kids w2"
    have dvd: "4 dvd length (pre @ ?h)" "4 dvd length (pre @ ?h @ ?p)"
      using DtNode.prems(2) dvd_flat(2) [of props] by (simp_all add: length_pad4 dvd_align4 add.assoc)
    have sb: "sb = pre @ to_be_bytes FDT_BEGIN_NODE @ pad4 (name @ [0]) @ ?p @ ?k @ to_be_bytes FDT_END_NODE @ post"
      using DtNode.prems(3) by simp
    note b = walk_begin [OF ok(1,2) DtNode.prems(2) sb]
    have 1: "walk sb strings (length pre) w = walk sb strings (length (pre @ ?h)) w1"
      unfolding walk_step [of sb strings "length pre" w] using b False w1(1) by (simp add: add.assoc)
    have 2: "walk sb strings (length (pre @ ?h)) w1 = walk sb strings (length (pre @ ?h @ ?p)) w2"
      "walk_wf w2" "wc_depth (wk_ctx w2) = wc_depth (wk_ctx w1)"
      using walk_props [OF ok(3) dvd(1) w1(2), of sb "?k @ to_be_bytes FDT_END_NODE @ post" strings]
      by (simp_all add: sb w2_def add.assoc)
    have kids: "walk sb strings (length pre') v =
        walk sb strings (length pre' + length (concat (map flatten ks))) (fold (visit strings) ks v) \<and>
        walk_wf (fold (visit strings) ks v) \<and> wc_depth (wk_ctx (fold (visit strings) ks v)) = wc_depth (wk_ctx v)"
      if "set ks \<subseteq> set kids" "4 dvd length pre'" "sb = pre' @ concat (map flatten ks) @ post'" "walk_wf v" for ks pre' post' v
      using that
    proof (induction ks arbitrary: pre' v)
      case (Cons t ks)
      have t: "dt_ok t" "t \<in> set kids" using Cons.prems(1) ok(4) by (auto simp: list_all_iff)
      have sb: "sb = pre' @ flatten t @ concat (map flatten ks) @ post'" using Cons.prems(3) by simp
      note n = DtNode.IH [OF t(2,1) Cons.prems(2) sb Cons.prems(4)]
      have "walk sb strings (length (pre' @ flatten t)) (visit strings t v) =
          walk sb strings (length (pre' @ flatten t) + length (concat (map flatten ks)))
            (fold (visit strings) ks (visit strings t v)) \<and>
          walk_wf (fold (visit strings) ks (visit strings t v)) \<and>
          wc_depth (wk_ctx (fold (visit strings) ks (visit strings t v))) = wc_depth (wk_ctx (visit strings t v))"
        using Cons.prems dvd_flatten [of t] n by (intro Cons.IH) auto
      then show ?case using n by (simp add: add.assoc)
    qed simp
    have 3: "walk sb strings (length (pre @ ?h @ ?p)) w2 = walk sb strings (length (pre @ ?h @ ?p @ ?k)) w3"
      "walk_wf w3" "wc_depth (wk_ctx w3) = wc_depth (wk_ctx w2)"
      using kids [of kids "pre @ ?h @ ?p" "to_be_bytes FDT_END_NODE @ post" w2] dvd(2) 2(2)
      by (simp_all add: sb w3_def add.assoc)
    have 4: "walk sb strings (length (pre @ ?h @ ?p @ ?k)) w3 =
        walk sb strings (length (pre @ ?h @ ?p @ ?k) + 4) (the (end_node w3))"
      using walk_end [of sb "pre @ ?h @ ?p @ ?k" post w3] 3 2 d1 by (simp add: sb)
    have 5: "walk_wf (the (end_node w3))" "wc_depth (wk_ctx (the (end_node w3))) = wc_depth (wk_ctx w)"
      using end_node_keeps [OF 3(2)] 3(3) 2(3) d1
      by (auto simp: keeps_def end_node_def Let_def bind_eq_Some_conv)
    have "visit strings (DtNode name props kids) w = the (end_node w3)"
      using False by (simp add: w1(1) w2_def w3_def)
    then show ?thesis using 1 2(1) 3(1) 4 5 by (simp add: add.assoc)
  qed
qed

text \<open>A flattened device tree as the Devicetree specification lays it out: the header of ten
  words, an empty memory reservation block, the structure block and the strings block.\<close>

definition dtb_struct :: "DtNode \<Rightarrow> u8 list" where
  "dtb_struct t = flatten t @ to_be_bytes FDT_END"

definition header_words :: "nat \<Rightarrow> nat \<Rightarrow> u32 list" where
  "header_words struct_size strings_size =
     [FDT_MAGIC, word_of_nat (56 + struct_size + strings_size), 56, word_of_nat (56 + struct_size), 40, 17, 16, 0,
      word_of_nat strings_size, word_of_nat struct_size]"

definition dtb_image :: "u8 list \<Rightarrow> DtNode \<Rightarrow> u8 list" where
  "dtb_image strings t = concat (map to_be_bytes (header_words (length (dtb_struct t)) (length strings))) @
     replicate 16 0 @ dtb_struct t @ strings"

lemma length_be32s: "length (concat (map to_be_bytes (ws :: u32 list))) = 4 * length ws"
  by (induction ws) simp_all

lemma be32_words:
  fixes ws :: "u32 list"
  assumes "i < length ws"
  shows "be32_val (concat (map to_be_bytes ws) @ rest) (4 * i) = Some (ws ! i)"
proof -
  have "ws = take i ws @ ws ! i # drop (Suc i) ws" using assms by (rule id_take_nth_drop)
  then have "concat (map to_be_bytes ws) @ rest = concat (map to_be_bytes (take i ws)) @
      to_be_bytes (ws ! i) @ (concat (map to_be_bytes (drop (Suc i) ws)) @ rest)"
    by (metis append_assoc concat.simps(2) concat_append list.simps(9) map_append)
  then show ?thesis
    using be32_at [of "concat (map to_be_bytes (take i ws))" "ws ! i"] assms by (simp add: length_be32s)
qed

lemma be32_image:
  assumes "i < 10" "k = 4 * i"
  shows "be32_val (dtb_image strings t) k = Some (header_words (length (dtb_struct t)) (length strings) ! i)"
  unfolding dtb_image_def assms(2) by (rule be32_words) (use assms(1) in \<open>simp add: header_words_def\<close>)

lemma be32_prefix: "k + 4 \<le> n \<Longrightarrow> n \<le> length bs \<Longrightarrow> be32_val (take n bs) k = be32_val bs k"
  by (auto simp: be32_val_def drop_take min_def)

lemma walk_struct:
  assumes "dt_ok t" "walk_wf w"
  shows "walk (dtb_struct t) strings 0 w = Some (visit strings t w)"
proof -
  have "walk (dtb_struct t) strings 0 w = walk (dtb_struct t) strings (length (flatten t)) (visit strings t w)"
    using walk_node [OF assms(1), of "[]" "dtb_struct t" "to_be_bytes FDT_END" w] assms(2)
    by (simp add: dtb_struct_def)
  also have "\<dots> = Some (visit strings t w)"
    unfolding walk_step [of "dtb_struct t" strings "length (flatten t)"]
    using be32_at [of "flatten t" FDT_END "[]"] by (simp add: dtb_struct_def fdt_tokens)
  finally show ?thesis .
qed

lemma parse_blob_image:
  assumes "dt_ok t" "length (dtb_image strings t) < 2 ^ 32" "walk_wf (walk_start info)"
  shows "parse_blob (dtb_image strings t) info = Some (wk_info (visit strings t (walk_start info)))"
proof -
  let ?n = "length (dtb_struct t)" and ?m = "length strings"
  have len: "length (dtb_image strings t) = 56 + ?n + ?m"
    by (simp add: dtb_image_def length_be32s header_words_def)
  then have lt: "?n < 2 ^ 32" "?m < 2 ^ 32" "56 + ?n < 2 ^ 32" using assms(2) by simp_all
  have h: "be32_val (dtb_image strings t) 8 = Some 56" "be32_val (dtb_image strings t) 12 = Some (word_of_nat (56 + ?n))"
    "be32_val (dtb_image strings t) 36 = Some (word_of_nat ?n)" "be32_val (dtb_image strings t) 32 = Some (word_of_nat ?m)"
    using be32_image [of 2 8 strings t] be32_image [of 3 12 strings t] be32_image [of 9 36 strings t]
      be32_image [of 8 32 strings t] by (simp_all add: header_words_def)
  have u: "unat (word_of_nat ?n :: u32) = ?n" "unat (word_of_nat ?m :: u32) = ?m"
    "unat (word_of_nat (56 + ?n) :: u32) = 56 + ?n"
    using lt by (intro unat_word_of_nat; simp)+
  have d: "take ?n (drop 56 (dtb_image strings t)) = dtb_struct t" "take ?m (drop (56 + ?n) (dtb_image strings t)) = strings"
    by (simp_all add: dtb_image_def length_be32s header_words_def)
  show ?thesis
    using walk_struct [OF assms(1,3), of strings] d
    by (simp add: parse_blob_def dtb_total sub_bytes_len h u len del: of_nat_add)
qed

text \<open>C30: Parsing the flattened image of a device tree from memory gives exactly the boot
  information that visiting the tree gives: the cursor of the byte walk, its padding and alignment,
  the skipping of subtrees below the depth limit and the header's offsets lose no node, no property
  and no bracket of the tree, whatever its shape.\<close>

theorem parse_refines_tree:
  assumes "dt_ok t" "length (dtb_image strings t) < 2 ^ 32" "dtb_addr \<noteq> 0"
    and "mem_read mem dtb_addr (length (dtb_image strings t)) = dtb_image strings t"
  shows "parse_or_fallback mem dtb_addr =
    Some (wk_info (visit strings t (walk_start (qemu_virt_fallback\<lparr>bi_fw_table_addr := dtb_addr\<rparr>))))"
proof -
  let ?n = "length (dtb_struct t)" and ?m = "length strings" and ?img = "dtb_image strings t"
  have len: "length ?img = 56 + ?n + ?m"
    by (simp add: dtb_image_def length_be32s header_words_def)
  have "mem_read mem dtb_addr FDT_HEADER_SIZE = take FDT_HEADER_SIZE (mem_read mem dtb_addr (length ?img))"
    using len by (simp add: FDT_HEADER_SIZE_def mem_read_def take_map min_def)
  then have hd: "mem_read mem dtb_addr FDT_HEADER_SIZE = take FDT_HEADER_SIZE ?img" using assms(4) by simp
  have "be32_val ?img 0 = Some FDT_MAGIC" "be32_val ?img 4 = Some (word_of_nat (length ?img))"
    using be32_image [of 0 0 strings t] be32_image [of 1 4 strings t] by (simp_all add: header_words_def len)
  then have h: "be32_val (take FDT_HEADER_SIZE ?img) 0 = Some FDT_MAGIC"
    "be32_val (take FDT_HEADER_SIZE ?img) 4 = Some (word_of_nat (length ?img))"
    using len by (simp_all add: be32_prefix FDT_HEADER_SIZE_def)
  have u: "unat (word_of_nat (length ?img) :: u32) = length ?img" using assms(2) by (intro unat_word_of_nat) simp
  have w: "walk_wf (walk_start (qemu_virt_fallback\<lparr>bi_fw_table_addr := dtb_addr\<rparr>))"
    by (rule walk_start_wf) (simp add: qemu_virt_fallback_def)
  have "\<not> length ?img < FDT_HEADER_SIZE" by (simp add: len FDT_HEADER_SIZE_def)
  then show ?thesis
    using parse_blob_image [OF assms(1,2) w] assms(3,4)
    by (simp add: parse_or_fallback_def dtb_total hd h u Let_def)
qed

text \<open>A tree with one bank of 512 MiB at \<open>0x8000_0000\<close>.\<close>

definition sample_strings :: "u8 list" where
  "sample_strings = as_bytes ''reg'' @ [0]"

definition sample_tree :: DtNode where
  "sample_tree = DtNode [] [] [DtNode (as_bytes ''memory@80000000'')
     [(0, [0, 0, 0, 0, 0x80, 0, 0, 0, 0x20, 0, 0, 0])] []]"

lemma sample_ok: "dt_ok sample_tree" "length (dtb_image sample_strings sample_tree) < 2 ^ 32"
  by (simp_all add: sample_tree_def sample_strings_def as_bytes_def byte_of_def from_utf8_ok_ascii dtb_image_def dtb_struct_def
      length_be32s header_words_def length_pad4 flat_prop_def align4_def)

theorem parse_refines_tree_witness:
  "dt_ok sample_tree \<and> length (dtb_image sample_strings sample_tree) < 2 ^ 32 \<and>
   parse_or_fallback (mem_write (\<lambda>_. 0) 0x1000 (dtb_image sample_strings sample_tree)) 0x1000 =
   Some (wk_info (visit sample_strings sample_tree
     (walk_start (qemu_virt_fallback\<lparr>bi_fw_table_addr := 0x1000\<rparr>))))"
proof -
  have "mem_read (mem_write (\<lambda>_. 0) 0x1000 (dtb_image sample_strings sample_tree)) 0x1000
      (length (dtb_image sample_strings sample_tree)) = dtb_image sample_strings sample_tree"
    using sample_ok(2) by (intro mem_read_write_same) simp_all
  from parse_refines_tree [OF sample_ok _ this] sample_ok show ?thesis by simp
qed

end
