(* ===== verification/Hyp_Framebuffer.thy ===== *)
theory Hyp_Framebuffer
  imports Hyp_Prelude
begin

text \<open>
  Pixel buffers (\<^verbatim>\<open>kernel/src/display/framebuffer.rs\<close>). The bytes of a framebuffer are a list;
  a write outside the list is the panic of the slice index, the value \<^const>\<open>None\<close>.

  The drawing operations are specified by what they do to a pixel: \<open>draws fb r g\<close> says that the
  run \<open>r\<close> from \<open>fb\<close> returns a framebuffer of the same shape in which the pixel at \<open>(x, y)\<close> is
  \<open>g x y\<close> of the old one. The rules for loops and sequences of drawing operations are shared by
  the canvas, the font, the widgets and the compositor.
\<close>

section \<open>Data\<close>

datatype FbFormat = Bgra8 | Rgba8

definition bytes_per_pixel :: "FbFormat \<Rightarrow> nat" where
  "bytes_per_pixel f = (case f of Bgra8 \<Rightarrow> 4 | Rgba8 \<Rightarrow> 4)"

text \<open>Where the bytes live: a heap vector, or a firmware region at a base address, given with its
  bytes, which only this framebuffer accesses.\<close>

datatype FbBacking = Heap "u8 list" | Mmio u64 "u8 list"

record Framebuffer =
  fb_width :: u32
  fb_height :: u32
  fb_stride :: u32
  fb_format :: FbFormat
  fb_backing :: FbBacking

type_synonym rgba = "u8 \<times> u8 \<times> u8 \<times> u8"

section \<open>Operations\<close>

definition framebuffer_new :: "u32 \<Rightarrow> u32 \<Rightarrow> FbFormat \<Rightarrow> Framebuffer" where
  "framebuffer_new width height format =
     (let stride = width * word_of_nat (bytes_per_pixel format);
          pixels = replicate (unat (stride * height)) 0 in
      \<lparr>fb_width = width, fb_height = height, fb_stride = stride, fb_format = format, fb_backing = Heap pixels\<rparr>)"

text \<open>\<open>region base len\<close> gives the bytes firmware left at \<open>base\<close>.\<close>

definition from_mmio :: "(u64 \<Rightarrow> nat \<Rightarrow> u8 list) \<Rightarrow> u64 \<Rightarrow> u32 \<Rightarrow> u32 \<Rightarrow> u32 \<Rightarrow> FbFormat \<Rightarrow> Framebuffer" where
  "from_mmio region base width height stride format =
     (let len = unat stride * unat height in
      \<lparr>fb_width = width, fb_height = height, fb_stride = stride, fb_format = format,
       fb_backing = Mmio base (region base len)\<rparr>)"

definition pixels :: "Framebuffer \<Rightarrow> u8 list" where
  "pixels fb = (case fb_backing fb of Heap v \<Rightarrow> v | Mmio base v \<Rightarrow> v)"

definition set_pixels :: "Framebuffer \<Rightarrow> u8 list \<Rightarrow> Framebuffer" where
  "set_pixels fb v = fb\<lparr>fb_backing := (case fb_backing fb of Heap _ \<Rightarrow> Heap v | Mmio base _ \<Rightarrow> Mmio base v)\<rparr>"

definition is_mmio :: "Framebuffer \<Rightarrow> bool" where
  "is_mmio fb = (case fb_backing fb of Heap _ \<Rightarrow> False | Mmio _ _ \<Rightarrow> True)"

definition byte_len :: "Framebuffer \<Rightarrow> nat" where
  "byte_len fb = (case fb_backing fb of Heap v \<Rightarrow> length v | Mmio _ v \<Rightarrow> length v)"

definition encode_rgba :: "Framebuffer \<Rightarrow> rgba \<Rightarrow> u8 list" where
  "encode_rgba fb rgba =
     (case rgba of (r, g, b, a) \<Rightarrow> (case fb_format fb of Bgra8 \<Rightarrow> [b, g, r, a] | Rgba8 \<Rightarrow> [r, g, b, a]))"

text \<open>\<^verbatim>\<open>self.pixels_mut()[off..off + 4].copy_from_slice(&pix)\<close>\<close>

definition write4 :: "nat \<Rightarrow> u8 list \<Rightarrow> Framebuffer \<Rightarrow> Framebuffer option" where
  "write4 off pix fb =
     (if off + 4 \<le> length (pixels fb)
      then Some (set_pixels fb (take off (pixels fb) @ pix @ drop (off + 4) (pixels fb))) else None)"

definition put_pixel :: "u32 \<Rightarrow> u32 \<Rightarrow> rgba \<Rightarrow> Framebuffer \<Rightarrow> Framebuffer option" where
  "put_pixel x y rgba fb =
     (if fb_width fb \<le> x \<or> fb_height fb \<le> y then Some fb
      else write4 (unat (y * fb_stride fb + x * 4)) (encode_rgba fb rgba) fb)"

function clear_row :: "nat \<Rightarrow> nat \<Rightarrow> u8 list \<Rightarrow> nat \<Rightarrow> Framebuffer \<Rightarrow> Framebuffer option" where
  "clear_row row_start width_bytes pix x fb =
     (if x < width_bytes
      then Option.bind (write4 (row_start + x) pix fb) (clear_row row_start width_bytes pix (x + 4))
      else Some fb)"
  by pat_completeness auto
termination by (relation "measure (\<lambda>(_, width_bytes, _, x, _). width_bytes - x)") auto

declare clear_row.simps [simp del]

definition fb_clear :: "rgba \<Rightarrow> Framebuffer \<Rightarrow> Framebuffer option" where
  "fb_clear rgba fb =
     (let pix = encode_rgba fb rgba; stride = unat (fb_stride fb);
          width_bytes = unat (fb_width fb) * 4; height = unat (fb_height fb) in
      loop (\<lambda>y. clear_row (y * stride) width_bytes pix 0) [0..<height] fb)"

definition fill_rect :: "u32 \<Rightarrow> u32 \<Rightarrow> u32 \<Rightarrow> u32 \<Rightarrow> rgba \<Rightarrow> Framebuffer \<Rightarrow> Framebuffer option" where
  "fill_rect x y w h rgba fb =
     (let pix = encode_rgba fb rgba; x_end = min (x + w) (fb_width fb); y_end = min (y + h) (fb_height fb);
          stride = unat (fb_stride fb) in
      loop (\<lambda>yy. let row_start = yy * stride + unat x * 4 in
                 loop (\<lambda>xx. write4 (row_start + xx * 4) pix) [0..<unat (x_end - x)])
        [unat y..<unat y_end] fb)"

definition stroke_rect :: "u32 \<Rightarrow> u32 \<Rightarrow> u32 \<Rightarrow> u32 \<Rightarrow> rgba \<Rightarrow> Framebuffer \<Rightarrow> Framebuffer option" where
  "stroke_rect x y w h rgba fb =
     (if w = 0 \<or> h = 0 then Some fb
      else do {
        fb \<leftarrow> fill_rect x y w 1 rgba fb;
        fb \<leftarrow> fill_rect x (y + saturating_sub h 1) w 1 rgba fb;
        fb \<leftarrow> fill_rect x y 1 h rgba fb;
        fill_rect (x + saturating_sub w 1) y 1 h rgba fb
      })"

section \<open>Pixels\<close>

text \<open>Rows do not overlap, the rows fit in the buffer, and offsets fit in the 32 bits in which
  \<^verbatim>\<open>put_pixel\<close> computes them.\<close>

definition fb_wf :: "Framebuffer \<Rightarrow> bool" where
  "fb_wf fb \<longleftrightarrow> unat (fb_width fb) * 4 \<le> unat (fb_stride fb) \<and>
     unat (fb_stride fb) * unat (fb_height fb) \<le> length (pixels fb) \<and>
     unat (fb_stride fb) * unat (fb_height fb) < 2 ^ 32"

definition on_screen :: "Framebuffer \<Rightarrow> nat \<Rightarrow> nat \<Rightarrow> bool" where
  "on_screen fb x y \<longleftrightarrow> x < unat (fb_width fb) \<and> y < unat (fb_height fb)"

definition pixel_at :: "Framebuffer \<Rightarrow> nat \<Rightarrow> nat \<Rightarrow> u8 list" where
  "pixel_at fb x y = take 4 (drop (y * unat (fb_stride fb) + x * 4) (pixels fb))"

definition same_shape :: "Framebuffer \<Rightarrow> Framebuffer \<Rightarrow> bool" where
  "same_shape fb fb' \<longleftrightarrow> fb_width fb' = fb_width fb \<and> fb_height fb' = fb_height fb \<and>
     fb_stride fb' = fb_stride fb \<and> fb_format fb' = fb_format fb \<and> length (pixels fb') = length (pixels fb)"

definition draws :: "Framebuffer \<Rightarrow> Framebuffer option \<Rightarrow> (nat \<Rightarrow> nat \<Rightarrow> u8 list \<Rightarrow> u8 list) \<Rightarrow> bool" where
  "draws fb r g \<longleftrightarrow> (\<exists>fb'. r = Some fb' \<and> same_shape fb fb' \<and>
     (\<forall>x y. on_screen fb x y \<longrightarrow> pixel_at fb' x y = g x y (pixel_at fb x y)))"

lemma pixels_set [simp]: "pixels (set_pixels fb v) = v"
  by (simp add: pixels_def set_pixels_def split: FbBacking.split)

lemma set_pixels_fields [simp]:
  "fb_width (set_pixels fb v) = fb_width fb" "fb_height (set_pixels fb v) = fb_height fb"
  "fb_stride (set_pixels fb v) = fb_stride fb" "fb_format (set_pixels fb v) = fb_format fb"
  by (simp_all add: set_pixels_def)

lemma length_encode [simp]: "length (encode_rgba fb c) = 4"
  by (simp add: encode_rgba_def split: prod.split FbFormat.split)

lemma same_shape_refl [simp]: "same_shape fb fb"
  by (simp add: same_shape_def)

lemma same_shape_trans: "same_shape a b \<Longrightarrow> same_shape b c \<Longrightarrow> same_shape a c"
  by (simp add: same_shape_def)

lemma same_shape_wf: "same_shape fb fb' \<Longrightarrow> fb_wf fb' = fb_wf fb"
  by (simp add: same_shape_def fb_wf_def)

lemma same_shape_screen: "same_shape fb fb' \<Longrightarrow> on_screen fb' = on_screen fb"
  by (simp add: same_shape_def on_screen_def fun_eq_iff)

lemma same_shape_encode: "same_shape fb fb' \<Longrightarrow> encode_rgba fb' = encode_rgba fb"
  by (simp add: same_shape_def encode_rgba_def fun_eq_iff)

lemmas same_shape_simps = same_shape_wf same_shape_screen same_shape_encode

lemma drawsE:
  assumes "draws fb r g"
  obtains fb' where "r = Some fb'" "same_shape fb fb'"
    "\<And>x y. on_screen fb x y \<Longrightarrow> pixel_at fb' x y = g x y (pixel_at fb x y)"
  using assms by (auto simp: draws_def)

lemma draws_cong:
  "draws fb r g \<Longrightarrow> (\<And>x y p. on_screen fb x y \<Longrightarrow> g x y p = g' x y p) \<Longrightarrow> draws fb r g'"
  by (auto simp: draws_def)

lemma draws_id: "draws fb (Some fb) (\<lambda>x y p. p)"
  by (simp add: draws_def)

lemma draws_bind:
  assumes "draws fb r g" and "\<And>fb'. r = Some fb' \<Longrightarrow> same_shape fb fb' \<Longrightarrow> draws fb' (k fb') h"
  shows "draws fb (Option.bind r k) (\<lambda>x y p. h x y (g x y p))"
proof -
  obtain fb' where fb': "r = Some fb'" "same_shape fb fb'"
    "\<And>x y. on_screen fb x y \<Longrightarrow> pixel_at fb' x y = g x y (pixel_at fb x y)"
    using assms(1) by (auto elim: drawsE)
  obtain fb'' where "k fb' = Some fb''" "same_shape fb' fb''"
    "\<And>x y. on_screen fb' x y \<Longrightarrow> pixel_at fb'' x y = h x y (pixel_at fb' x y)"
    using assms(2) [OF fb'(1,2)] by (auto elim: drawsE)
  then show ?thesis using fb' by (auto simp: draws_def same_shape_simps intro: same_shape_trans)
qed

lemma draws_loop:
  assumes "\<And>i fb'. i \<in> set is \<Longrightarrow> same_shape fb fb' \<Longrightarrow> draws fb' (f i fb') (g i)"
  shows "draws fb (loop f is fb) (\<lambda>x y. fold (\<lambda>i. g i x y) is)"
  using assms
proof (induction "is" arbitrary: fb)
  case (Cons i "is")
  have "draws fb (f i fb) (g i)" by (rule Cons.prems) simp_all
  from draws_bind [OF this, of "loop f is" "\<lambda>x y. fold (\<lambda>i. g i x y) is"] Cons
  show ?case by (auto simp: comp_def intro: same_shape_trans)
qed (simp add: draws_def)

lemma fold_paint: "fold (\<lambda>i p. if P i then c else p) is p = (if \<exists>i\<in>set is. P i then c else p)"
  by (induction "is" arbitrary: p) auto

lemma draws_paint_loop:
  assumes "\<And>i fb'. i \<in> set is \<Longrightarrow> same_shape fb fb' \<Longrightarrow> draws fb' (f i fb') (\<lambda>x y p. if P i x y then c else p)"
  shows "draws fb (loop f is fb) (\<lambda>x y p. if \<exists>i\<in>set is. P i x y then c else p)"
  by (rule draws_cong [OF draws_loop [of "is" fb f "\<lambda>i x y p. if P i x y then c else p", OF assms]])
    (simp_all add: fold_paint)

section \<open>One pixel\<close>

lemma take_drop_write:
  assumes "length pix = 4" "off + 4 \<le> length v"
  shows "take 4 (drop off (take off v @ pix @ drop (off + 4) v)) = pix"
    and "o' + 4 \<le> off \<or> off + 4 \<le> o' \<Longrightarrow>
      take 4 (drop o' (take off v @ pix @ drop (off + 4) v)) = take 4 (drop o' v)"
proof -
  show "take 4 (drop off (take off v @ pix @ drop (off + 4) v)) = pix" using assms by simp
  show "take 4 (drop o' (take off v @ pix @ drop (off + 4) v)) = take 4 (drop o' v)"
    if "o' + 4 \<le> off \<or> off + 4 \<le> o'"
    using that assms by (auto intro!: nth_equalityI simp: nth_append)
qed

text \<open>The offsets of two different pixels of the screen are four bytes apart, inside the buffer.\<close>

lemma offset_in:
  assumes "fb_wf fb" "on_screen fb x y"
  shows "y * unat (fb_stride fb) + x * 4 + 4 \<le> unat (fb_stride fb) * unat (fb_height fb)"
proof -
  have "x * 4 + 4 \<le> unat (fb_stride fb)" using assms by (simp add: fb_wf_def on_screen_def)
  moreover have "Suc y * unat (fb_stride fb) \<le> unat (fb_height fb) * unat (fb_stride fb)"
    using assms(2) by (intro mult_right_mono) (simp_all add: on_screen_def)
  ultimately show ?thesis by (simp add: mult.commute)
qed

lemma offset_apart:
  assumes "fb_wf fb" "on_screen fb x y" "on_screen fb x' y'" "(x, y) \<noteq> (x', y')"
  shows "y * unat (fb_stride fb) + x * 4 + 4 \<le> y' * unat (fb_stride fb) + x' * 4 \<or>
    y' * unat (fb_stride fb) + x' * 4 + 4 \<le> y * unat (fb_stride fb) + x * 4"
proof -
  have row: "b * unat (fb_stride fb) + x * 4 + 4 \<le> b' * unat (fb_stride fb) + x' * 4"
    if "b < b'" "x < unat (fb_width fb)" for b b' x x'
  proof -
    have "Suc b * unat (fb_stride fb) \<le> b' * unat (fb_stride fb)" using that(1) by (intro mult_right_mono) simp_all
    moreover have "x * 4 + 4 \<le> unat (fb_stride fb)" using assms(1) that(2) by (simp add: fb_wf_def)
    ultimately show ?thesis by simp
  qed
  show ?thesis
    using assms row [of y y' x x'] row [of y' y x' x] by (cases y y' rule: linorder_cases) (auto simp: on_screen_def)
qed

lemma draws_write4:
  assumes "fb_wf fb" "on_screen fb x y" "length pix = 4" "off = y * unat (fb_stride fb) + x * 4"
  shows "draws fb (write4 off pix fb) (\<lambda>x' y' p. if x' = x \<and> y' = y then pix else p)"
proof -
  let ?v = "take off (pixels fb) @ pix @ drop (off + 4) (pixels fb)"
  have off: "off + 4 \<le> length (pixels fb)" using offset_in [OF assms(1,2)] assms(1,4) by (simp add: fb_wf_def)
  have "pixel_at (set_pixels fb ?v) x' y' = (if x' = x \<and> y' = y then pix else pixel_at fb x' y')"
    if "on_screen fb x' y'" for x' y'
    using take_drop_write [OF assms(3) off] offset_apart [OF assms(1,2) that] assms(4)
    by (auto simp: pixel_at_def)
  then show ?thesis using off assms(3) by (simp add: draws_def write4_def same_shape_def)
qed

lemma draws_put_pixel:
  assumes "fb_wf fb"
  shows "draws fb (put_pixel x y c fb) (\<lambda>x' y' p. if x' = unat x \<and> y' = unat y then encode_rgba fb c else p)"
proof (cases "fb_width fb \<le> x \<or> fb_height fb \<le> y")
  case True
  then show ?thesis by (auto simp: put_pixel_def draws_def on_screen_def word_le_nat_alt)
next
  case False
  then have on: "on_screen fb (unat x) (unat y)" by (simp add: on_screen_def word_le_nat_alt)
  have lt: "unat y * unat (fb_stride fb) + unat x * 4 < 2 ^ 32"
    using offset_in [OF assms on] assms by (simp add: fb_wf_def)
  then have m: "unat (y * fb_stride fb) = unat y * unat (fb_stride fb)" "unat (x * 4) = unat x * 4"
    by (simp_all add: unat_mult_lt)
  then have "unat (y * fb_stride fb + x * 4) = unat y * unat (fb_stride fb) + unat x * 4"
    using lt by (simp add: unat_add_lt)
  then show ?thesis using draws_write4 [OF assms on, of "encode_rgba fb c"] False by (simp add: put_pixel_def)
qed

section \<open>Rectangles\<close>

lemma draws_row:
  assumes "fb_wf fb" "y < unat (fb_height fb)" "x + n \<le> unat (fb_width fb)" "length pix = 4"
  shows "draws fb (loop (\<lambda>xx. write4 (y * unat (fb_stride fb) + x * 4 + xx * 4) pix) [0..<n] fb)
    (\<lambda>x' y' p. if x \<le> x' \<and> x' < x + n \<and> y' = y then pix else p)"
proof -
  have "draws fb' (write4 (y * unat (fb_stride fb) + x * 4 + i * 4) pix fb')
      (\<lambda>x' y' p. if x' = x + i \<and> y' = y then pix else p)"
    if "i \<in> set [0..<n]" "same_shape fb fb'" for i fb'
  proof (rule draws_write4)
    show "fb_wf fb'" "on_screen fb' (x + i) y" using that assms by (simp_all add: same_shape_simps on_screen_def)
    show "y * unat (fb_stride fb) + x * 4 + i * 4 = y * unat (fb_stride fb') + (x + i) * 4"
      using that(2) by (simp add: same_shape_def)
  qed (rule assms(4))
  then have "draws fb (loop (\<lambda>xx. write4 (y * unat (fb_stride fb) + x * 4 + xx * 4) pix) [0..<n] fb)
      (\<lambda>x' y' p. if \<exists>i\<in>set [0..<n]. x' = x + i \<and> y' = y then pix else p)"
    by (rule draws_paint_loop)
  moreover have "(\<exists>i\<in>set [0..<n]. x' = x + i \<and> y' = y) \<longleftrightarrow> x \<le> x' \<and> x' < x + n \<and> y' = y" for x' y'
    by (auto intro!: bexI [of _ "x' - x"])
  ultimately show ?thesis by (simp only:)
qed

lemma draws_rect:
  assumes "fb_wf fb" "b \<le> unat (fb_height fb)" "x + n \<le> unat (fb_width fb)" "length pix = 4"
  shows "draws fb (loop (\<lambda>yy. loop (\<lambda>xx. write4 (yy * unat (fb_stride fb) + x * 4 + xx * 4) pix) [0..<n]) [a..<b] fb)
    (\<lambda>x' y' p. if x \<le> x' \<and> x' < x + n \<and> a \<le> y' \<and> y' < b then pix else p)"
proof -
  have "draws fb' (loop (\<lambda>xx. write4 (y * unat (fb_stride fb) + x * 4 + xx * 4) pix) [0..<n] fb')
      (\<lambda>x' y' p. if x \<le> x' \<and> x' < x + n \<and> y' = y then pix else p)"
    if "y \<in> set [a..<b]" "same_shape fb fb'" for y fb'
  proof -
    have "fb_wf fb'" "fb_stride fb' = fb_stride fb" "fb_width fb' = fb_width fb" "fb_height fb' = fb_height fb"
      using that(2) assms(1) by (simp_all add: same_shape_simps) (simp_all add: same_shape_def)
    then show ?thesis using draws_row [of fb' y x n pix] that(1) assms by simp
  qed
  then have "draws fb (loop (\<lambda>yy. loop (\<lambda>xx. write4 (yy * unat (fb_stride fb) + x * 4 + xx * 4) pix) [0..<n]) [a..<b] fb)
      (\<lambda>x' y' p. if \<exists>yy\<in>set [a..<b]. x \<le> x' \<and> x' < x + n \<and> y' = yy then pix else p)"
    by (rule draws_paint_loop)
  then show ?thesis by (rule draws_cong) auto
qed

text \<open>The byte loop of \<^verbatim>\<open>clear\<close> is the pixel loop of \<^verbatim>\<open>fill_rect\<close>.\<close>

lemma clear_row_loop:
  "clear_row r (4 * n) pix (4 * i) = loop (\<lambda>xx. write4 (r + xx * 4) pix) [i..<n]"
proof (induction "n - i" arbitrary: i)
  case 0
  then have "n \<le> i" by simp
  then show ?case by (intro ext) (simp add: clear_row.simps [of r "4 * n" pix "4 * i"])
next
  case (Suc k)
  then have "k = n - Suc i" "[i..<n] = i # [Suc i..<n]" "i < n" by (simp_all add: upt_conv_Cons)
  moreover from this have "clear_row r (4 * n) pix (4 * i + 4) = loop (\<lambda>xx. write4 (r + xx * 4) pix) [Suc i..<n]"
    using Suc(1) [of "Suc i"] by (simp add: add.commute)
  ultimately show ?case
    by (intro ext) (simp add: clear_row.simps [of r "4 * n" pix "4 * i"] mult.commute [of i])
qed

lemma draws_clear:
  assumes "fb_wf fb"
  shows "draws fb (fb_clear c fb) (\<lambda>x y p. encode_rgba fb c)"
proof -
  have "fb_clear c fb = loop (\<lambda>yy. loop (\<lambda>xx. write4 (yy * unat (fb_stride fb) + 0 * 4 + xx * 4) (encode_rgba fb c))
      [0..<unat (fb_width fb)]) [0..<unat (fb_height fb)] fb"
    using clear_row_loop [where i = 0] by (simp add: fb_clear_def mult.commute [of "unat (fb_width fb)"])
  then show ?thesis
    using draws_rect [OF assms, of "unat (fb_height fb)" 0 "unat (fb_width fb)" "encode_rgba fb c" 0]
    by (auto simp: on_screen_def elim!: draws_cong)
qed

text \<open>With its corner on the screen and no overflow of its far corner, a filled rectangle
  covers exactly its pixels.\<close>

lemma draws_fill_rect:
  assumes "fb_wf fb" "x \<le> fb_width fb" "unat x + unat w < 2 ^ 32" "unat y + unat h < 2 ^ 32"
  shows "draws fb (fill_rect x y w h c fb)
    (\<lambda>x' y' p. if unat x \<le> x' \<and> x' < unat x + unat w \<and> unat y \<le> y' \<and> y' < unat y + unat h
       then encode_rgba fb c else p)"
proof -
  have s: "unat (x + w) = unat x + unat w" "unat (y + h) = unat y + unat h" using assms(3,4) by (simp_all add: unat_add_lt)
  have "x \<le> x + w" using s(1) by (simp add: word_le_nat_alt)
  then have n: "unat (min (x + w) (fb_width fb) - x) = min (unat x + unat w) (unat (fb_width fb)) - unat x"
    using assms(2) by (simp add: unat_sub_le unat_min s)
  show ?thesis
    using draws_rect [OF assms(1), of "unat (min (y + h) (fb_height fb))" "unat x"
        "unat (min (x + w) (fb_width fb) - x)" "encode_rgba fb c" "unat y"] assms(2)
    by (auto simp: fill_rect_def Let_def n unat_min s on_screen_def word_le_nat_alt elim!: draws_cong)
qed

lemma fb_new_wf:
  assumes "unat w * 4 * unat h < 2 ^ 32" "0 < h"
  shows "fb_wf (framebuffer_new w h f)"
proof -
  have "unat w * 4 * 1 \<le> unat w * 4 * unat h" using assms(2) by (intro mult_left_mono) (simp_all add: word_less_nat_alt)
  then have "unat w * 4 < 2 ^ 32" using assms(1) by linarith
  then have "unat (w * 4) = unat w * 4" by (simp add: unat_mult_lt)
  moreover from this have "unat (w * 4 * h) = unat w * 4 * unat h" using assms(1) by (simp add: unat_mult_lt)
  ultimately show ?thesis
    using assms(1) by (cases f) (simp_all add: fb_wf_def framebuffer_new_def bytes_per_pixel_def pixels_def)
qed

text \<open>The four strips of \<^verbatim>\<open>stroke_rect\<close>, for a rectangle inside the screen.\<close>

definition on_border :: "nat \<Rightarrow> nat \<Rightarrow> nat \<Rightarrow> nat \<Rightarrow> nat \<Rightarrow> nat \<Rightarrow> bool" where
  "on_border x y w h x' y' \<longleftrightarrow> x \<le> x' \<and> x' < x + w \<and> y \<le> y' \<and> y' < y + h \<and>
     (x' = x \<or> x' = x + w - 1 \<or> y' = y \<or> y' = y + h - 1)"

lemma draws_stroke_rect:
  assumes "fb_wf fb" "unat x + unat w \<le> unat (fb_width fb)" "unat y + unat h \<le> unat (fb_height fb)"
  shows "draws fb (stroke_rect x y w h c fb)
    (\<lambda>x' y' p. if on_border (unat x) (unat y) (unat w) (unat h) x' y' then encode_rgba fb c else p)"
proof (cases "w = 0 \<or> h = 0")
  case True
  then show ?thesis by (auto simp: stroke_rect_def on_border_def draws_def)
next
  case False
  have wh: "0 < unat w" "0 < unat h" using False by (simp_all add: unat_gt_0)
  have lt: "unat x + unat w < 2 ^ 32" "unat y + unat h < 2 ^ 32"
    using assms(2,3) unsigned_less [of "fb_width fb", where ?'a = nat] unsigned_less [of "fb_height fb", where ?'a = nat]
    by simp_all
  then have e: "unat (y + saturating_sub h 1) = unat y + unat h - 1" "unat (x + saturating_sub w 1) = unat x + unat w - 1"
    using wh by (simp_all add: unat_add_lt unat_saturating_sub)
  have fill: "draws fb' (fill_rect a b v k c fb')
      (\<lambda>x' y' p. if unat a \<le> x' \<and> x' < unat a + unat v \<and> unat b \<le> y' \<and> y' < unat b + unat k
         then encode_rgba fb c else p)"
    if "same_shape fb fb'" "a \<le> fb_width fb" "unat a + unat v < 2 ^ 32" "unat b + unat k < 2 ^ 32" for fb' a b v k
    using draws_fill_rect [of fb' a v b k c] that assms(1) same_shape_encode [OF that(1)]
    by (simp add: same_shape_wf) (simp add: same_shape_def)
  have ax: "x \<le> fb_width fb" "x + saturating_sub w 1 \<le> fb_width fb"
    using assms(2) e by (simp_all add: word_le_nat_alt)
  show ?thesis
    unfolding stroke_rect_def if_not_P [OF False]
    by (rule draws_cong, rule draws_bind, rule fill, simp, rule ax, use lt wh e in simp, use lt wh e in simp,
        rule draws_bind, rule fill, assumption, rule ax, use lt wh e in simp, use lt wh e in simp,
        rule draws_bind, rule fill, erule (1) same_shape_trans, rule ax, use lt wh e in simp, use lt wh e in simp,
        rule fill, rule same_shape_trans, assumption, erule (1) same_shape_trans, rule ax)
      (use lt wh e in \<open>auto simp: on_border_def\<close>)
qed

section \<open>A rectangle right of the screen\<close>

lemma loop_None:
  assumes "i \<in> set is" "\<And>j s s'. P s \<Longrightarrow> f j s = Some s' \<Longrightarrow> P s'" "\<And>s. P s \<Longrightarrow> f i s = None" "P s"
  shows "loop f is s = None"
  using assms
proof (induction "is" arbitrary: s)
  case (Cons j "is")
  show ?case
  proof (cases "f j s")
    case (Some s')
    then have "i \<in> set is" using Cons.prems(1,3,4) by auto
    then show ?thesis using Cons.IH [OF _ Cons.prems(2,3)] Cons.prems(2) [OF Cons.prems(4) Some] Some by simp
  qed simp
qed simp

lemma write4_length: "write4 off pix fb = Some fb' \<Longrightarrow> length pix = 4 \<Longrightarrow> length (pixels fb') = length (pixels fb)"
  by (auto simp: write4_def split: if_splits)

text \<open>C35: \<open>fill_rect\<close> clips its far corner but not its near one: a rectangle that starts right of the
  screen, on a row of the screen, makes the column count wrap and the fill run out of the buffer,
  which panics.\<close>

theorem fill_rect_right_of_screen_panics:
  assumes "fb_width fb < x" "unat x + unat w < 2 ^ 32" "y < fb_height fb" "0 < h" "unat y + unat h < 2 ^ 32"
    and "length (pixels fb) < 2 ^ 32"
  shows "fill_rect x y w h rgba fb = None"
proof -
  let ?n = "unat (min (x + w) (fb_width fb) - x)" and ?r = "unat y * unat (fb_stride fb) + unat x * 4"
  have "unat (x + w) = unat x + unat w" using assms(2) by (simp add: unat_add_lt)
  then have m: "min (x + w) (fb_width fb) = fb_width fb" using assms(1) by (simp add: min_def word_le_nat_alt word_less_nat_alt)
  have n: "?n = 2 ^ 32 - (unat x - unat (fb_width fb))"
    using assms(1) unat_sub_if_size [of "fb_width fb" x] by (simp add: m word_size word_less_nat_alt)
  then have "0 < ?n" "unat x * 4 + (?n - 1) * 4 + 4 > 2 ^ 32"
    using assms(1) unsigned_less [of x, where ?'a = nat] by (simp_all add: word_less_nat_alt)
  then have last: "write4 (?r + (?n - 1) * 4) pix fb' = None" if "length (pixels fb') = length (pixels fb)" for fb' pix
    using that assms(6) by (simp add: write4_def)
  have row: "loop (\<lambda>xx. write4 (?r + xx * 4) (encode_rgba fb rgba)) [0..<?n] fb' = None"
    if "length (pixels fb') = length (pixels fb)" for fb'
    by (rule loop_None [where i = "?n - 1" and P = "\<lambda>v. length (pixels v) = length (pixels fb)"])
      (use that \<open>0 < ?n\<close> last in \<open>auto simp: write4_length\<close>)
  have "[unat y..<unat (min (y + h) (fb_height fb))] = unat y # [Suc (unat y)..<unat (min (y + h) (fb_height fb))]"
    using assms(3-5) by (intro upt_conv_Cons) (simp add: unat_min unat_add_lt word_less_nat_alt unat_gt_0)
  then show ?thesis using row [OF refl] by (simp add: fill_rect_def Let_def)
qed

theorem fill_rect_right_of_screen_panics_witness:
  "fill_rect 6 1 2 2 (0, 0, 0, 0) (framebuffer_new 4 4 Bgra8) = None"
  by (rule fill_rect_right_of_screen_panics) (simp_all add: framebuffer_new_def bytes_per_pixel_def pixels_def)

end
