(* ===== verification/Hyp_Canvas.thy ===== *)
theory Hyp_Canvas
  imports Hyp_Framebuffer Hyp_Utf8
begin

text \<open>
  Drawing on a framebuffer: the built-in font (\<^verbatim>\<open>kernel/src/ui/font.rs\<close>), the canvas
  (\<^verbatim>\<open>kernel/src/ui/canvas.rs\<close>) and the widgets (\<^verbatim>\<open>kernel/src/ui/widgets.rs\<close>).
  Coordinates are \<^verbatim>\<open>i32\<close>, 32-bit words read through \<^const>\<open>sint\<close>; a \<^verbatim>\<open>Canvas\<close> is its framebuffer.

  The lemmas give, for every operation, the set of pixels it paints in exact integer coordinates,
  whatever part of the figure lies outside the screen; that the line loop ends and reaches its
  end point; and that rendering a widget never panics.
\<close>

section \<open>The font\<close>

definition MISSING :: "u8 list" where
  "MISSING = replicate 8 0xff"

definition GLYPHS :: "u8 list list" where
  "GLYPHS =
    [[0x00, 0x00, 0x00, 0x00, 0x00, 0x00, 0x00, 0x00],
     [0x18, 0x3c, 0x3c, 0x18, 0x18, 0x00, 0x18, 0x00],
     [0x36, 0x36, 0x00, 0x00, 0x00, 0x00, 0x00, 0x00],
     [0x36, 0x36, 0x7f, 0x36, 0x7f, 0x36, 0x36, 0x00],
     [0x0c, 0x3e, 0x03, 0x1e, 0x30, 0x1f, 0x0c, 0x00],
     [0x00, 0x63, 0x33, 0x18, 0x0c, 0x66, 0x63, 0x00],
     [0x1c, 0x36, 0x1c, 0x6e, 0x3b, 0x33, 0x6e, 0x00],
     [0x06, 0x06, 0x03, 0x00, 0x00, 0x00, 0x00, 0x00],
     [0x18, 0x0c, 0x06, 0x06, 0x06, 0x0c, 0x18, 0x00],
     [0x06, 0x0c, 0x18, 0x18, 0x18, 0x0c, 0x06, 0x00],
     [0x00, 0x66, 0x3c, 0xff, 0x3c, 0x66, 0x00, 0x00],
     [0x00, 0x0c, 0x0c, 0x3f, 0x0c, 0x0c, 0x00, 0x00],
     [0x00, 0x00, 0x00, 0x00, 0x00, 0x0c, 0x0c, 0x06],
     [0x00, 0x00, 0x00, 0x3f, 0x00, 0x00, 0x00, 0x00],
     [0x00, 0x00, 0x00, 0x00, 0x00, 0x0c, 0x0c, 0x00],
     [0x60, 0x30, 0x18, 0x0c, 0x06, 0x03, 0x01, 0x00],
     [0x3e, 0x63, 0x73, 0x7b, 0x6f, 0x67, 0x3e, 0x00],
     [0x0c, 0x0e, 0x0c, 0x0c, 0x0c, 0x0c, 0x3f, 0x00],
     [0x1e, 0x33, 0x30, 0x1c, 0x06, 0x33, 0x3f, 0x00],
     [0x1e, 0x33, 0x30, 0x1c, 0x30, 0x33, 0x1e, 0x00],
     [0x38, 0x3c, 0x36, 0x33, 0x7f, 0x30, 0x78, 0x00],
     [0x3f, 0x03, 0x1f, 0x30, 0x30, 0x33, 0x1e, 0x00],
     [0x1c, 0x06, 0x03, 0x1f, 0x33, 0x33, 0x1e, 0x00],
     [0x3f, 0x33, 0x30, 0x18, 0x0c, 0x0c, 0x0c, 0x00],
     [0x1e, 0x33, 0x33, 0x1e, 0x33, 0x33, 0x1e, 0x00],
     [0x1e, 0x33, 0x33, 0x3e, 0x30, 0x18, 0x0e, 0x00],
     [0x00, 0x0c, 0x0c, 0x00, 0x00, 0x0c, 0x0c, 0x00],
     [0x00, 0x0c, 0x0c, 0x00, 0x00, 0x0c, 0x0c, 0x06],
     [0x18, 0x0c, 0x06, 0x03, 0x06, 0x0c, 0x18, 0x00],
     [0x00, 0x00, 0x3f, 0x00, 0x00, 0x3f, 0x00, 0x00],
     [0x06, 0x0c, 0x18, 0x30, 0x18, 0x0c, 0x06, 0x00],
     [0x1e, 0x33, 0x30, 0x18, 0x0c, 0x00, 0x0c, 0x00],
     [0x3e, 0x63, 0x7b, 0x7b, 0x7b, 0x03, 0x1e, 0x00],
     [0x0c, 0x1e, 0x33, 0x33, 0x3f, 0x33, 0x33, 0x00],
     [0x3f, 0x66, 0x66, 0x3e, 0x66, 0x66, 0x3f, 0x00],
     [0x3c, 0x66, 0x03, 0x03, 0x03, 0x66, 0x3c, 0x00],
     [0x1f, 0x36, 0x66, 0x66, 0x66, 0x36, 0x1f, 0x00],
     [0x7f, 0x46, 0x16, 0x1e, 0x16, 0x46, 0x7f, 0x00],
     [0x7f, 0x46, 0x16, 0x1e, 0x16, 0x06, 0x0f, 0x00],
     [0x3c, 0x66, 0x03, 0x03, 0x73, 0x66, 0x7c, 0x00],
     [0x33, 0x33, 0x33, 0x3f, 0x33, 0x33, 0x33, 0x00],
     [0x1e, 0x0c, 0x0c, 0x0c, 0x0c, 0x0c, 0x1e, 0x00],
     [0x78, 0x30, 0x30, 0x30, 0x33, 0x33, 0x1e, 0x00],
     [0x67, 0x66, 0x36, 0x1e, 0x36, 0x66, 0x67, 0x00],
     [0x0f, 0x06, 0x06, 0x06, 0x46, 0x66, 0x7f, 0x00],
     [0x63, 0x77, 0x7f, 0x7f, 0x6b, 0x63, 0x63, 0x00],
     [0x63, 0x67, 0x6f, 0x7b, 0x73, 0x63, 0x63, 0x00],
     [0x1c, 0x36, 0x63, 0x63, 0x63, 0x36, 0x1c, 0x00],
     [0x3f, 0x66, 0x66, 0x3e, 0x06, 0x06, 0x0f, 0x00],
     [0x1e, 0x33, 0x33, 0x33, 0x3b, 0x1e, 0x38, 0x00],
     [0x3f, 0x66, 0x66, 0x3e, 0x36, 0x66, 0x67, 0x00],
     [0x1e, 0x33, 0x07, 0x0e, 0x38, 0x33, 0x1e, 0x00],
     [0x3f, 0x2d, 0x0c, 0x0c, 0x0c, 0x0c, 0x1e, 0x00],
     [0x33, 0x33, 0x33, 0x33, 0x33, 0x33, 0x3f, 0x00],
     [0x33, 0x33, 0x33, 0x33, 0x33, 0x1e, 0x0c, 0x00],
     [0x63, 0x63, 0x63, 0x6b, 0x7f, 0x77, 0x63, 0x00],
     [0x63, 0x63, 0x36, 0x1c, 0x1c, 0x36, 0x63, 0x00],
     [0x33, 0x33, 0x33, 0x1e, 0x0c, 0x0c, 0x1e, 0x00],
     [0x7f, 0x63, 0x31, 0x18, 0x4c, 0x66, 0x7f, 0x00],
     [0x1e, 0x06, 0x06, 0x06, 0x06, 0x06, 0x1e, 0x00],
     [0x03, 0x06, 0x0c, 0x18, 0x30, 0x60, 0x40, 0x00],
     [0x1e, 0x18, 0x18, 0x18, 0x18, 0x18, 0x1e, 0x00],
     [0x08, 0x1c, 0x36, 0x63, 0x00, 0x00, 0x00, 0x00],
     [0x00, 0x00, 0x00, 0x00, 0x00, 0x00, 0x00, 0xff],
     [0x0c, 0x0c, 0x18, 0x00, 0x00, 0x00, 0x00, 0x00],
     [0x00, 0x00, 0x1e, 0x30, 0x3e, 0x33, 0x6e, 0x00],
     [0x07, 0x06, 0x06, 0x3e, 0x66, 0x66, 0x3b, 0x00],
     [0x00, 0x00, 0x1e, 0x33, 0x03, 0x33, 0x1e, 0x00],
     [0x38, 0x30, 0x30, 0x3e, 0x33, 0x33, 0x6e, 0x00],
     [0x00, 0x00, 0x1e, 0x33, 0x3f, 0x03, 0x1e, 0x00],
     [0x1c, 0x36, 0x06, 0x0f, 0x06, 0x06, 0x0f, 0x00],
     [0x00, 0x00, 0x6e, 0x33, 0x33, 0x3e, 0x30, 0x1f],
     [0x07, 0x06, 0x36, 0x6e, 0x66, 0x66, 0x67, 0x00],
     [0x0c, 0x00, 0x0e, 0x0c, 0x0c, 0x0c, 0x1e, 0x00],
     [0x30, 0x00, 0x30, 0x30, 0x30, 0x33, 0x33, 0x1e],
     [0x07, 0x06, 0x66, 0x36, 0x1e, 0x36, 0x67, 0x00],
     [0x0e, 0x0c, 0x0c, 0x0c, 0x0c, 0x0c, 0x1e, 0x00],
     [0x00, 0x00, 0x33, 0x7f, 0x7f, 0x6b, 0x63, 0x00],
     [0x00, 0x00, 0x1f, 0x33, 0x33, 0x33, 0x33, 0x00],
     [0x00, 0x00, 0x1e, 0x33, 0x33, 0x33, 0x1e, 0x00],
     [0x00, 0x00, 0x3b, 0x66, 0x66, 0x3e, 0x06, 0x0f],
     [0x00, 0x00, 0x6e, 0x33, 0x33, 0x3e, 0x30, 0x78],
     [0x00, 0x00, 0x3b, 0x6e, 0x66, 0x06, 0x0f, 0x00],
     [0x00, 0x00, 0x3e, 0x03, 0x1e, 0x30, 0x1f, 0x00],
     [0x08, 0x0c, 0x3e, 0x0c, 0x0c, 0x2c, 0x18, 0x00],
     [0x00, 0x00, 0x33, 0x33, 0x33, 0x33, 0x6e, 0x00],
     [0x00, 0x00, 0x33, 0x33, 0x33, 0x1e, 0x0c, 0x00],
     [0x00, 0x00, 0x63, 0x6b, 0x7f, 0x7f, 0x36, 0x00],
     [0x00, 0x00, 0x63, 0x36, 0x1c, 0x36, 0x63, 0x00],
     [0x00, 0x00, 0x33, 0x33, 0x33, 0x3e, 0x30, 0x1f],
     [0x00, 0x00, 0x3f, 0x19, 0x0c, 0x26, 0x3f, 0x00],
     [0x38, 0x0c, 0x0c, 0x07, 0x0c, 0x0c, 0x38, 0x00],
     [0x18, 0x18, 0x18, 0x00, 0x18, 0x18, 0x18, 0x00],
     [0x07, 0x0c, 0x0c, 0x38, 0x0c, 0x0c, 0x07, 0x00],
     [0x6e, 0x3b, 0x00, 0x00, 0x00, 0x00, 0x00, 0x00]]"

definition glyph_for :: "u32 \<Rightarrow> u8 list" where
  "glyph_for c = (if \<not> (0x20 \<le> c \<and> c \<le> 0x7e) then MISSING else GLYPHS ! unat (c - 0x20))"

text \<open>\<^verbatim>\<open>(bits >> (7 - col)) & 1 == 1\<close> of row \<open>row\<close>.\<close>

definition glyph_bit :: "u8 list \<Rightarrow> nat \<Rightarrow> nat \<Rightarrow> bool" where
  "glyph_bit glyph row col \<longleftrightarrow> drop_bit (7 - col) (glyph ! row) AND 1 = 1"

definition put_signed :: "i32 \<Rightarrow> i32 \<Rightarrow> rgba \<Rightarrow> Framebuffer \<Rightarrow> Framebuffer option" where
  "put_signed px py rgba fb = (if 0 \<le> sint px \<and> 0 \<le> sint py then put_pixel px py rgba fb else Some fb)"

definition draw_char :: "i32 \<Rightarrow> i32 \<Rightarrow> u32 \<Rightarrow> rgba \<Rightarrow> Framebuffer \<Rightarrow> Framebuffer option" where
  "draw_char x y ch rgba fb =
     (let glyph = glyph_for ch in
      loop (\<lambda>row. loop (\<lambda>col fb. if glyph_bit glyph row col
                                then put_signed (x + word_of_nat col) (y + word_of_nat row) rgba fb
                                else Some fb) [0..<8]) [0..<length glyph] fb)"

section \<open>The canvas\<close>

definition max0 :: "i32 \<Rightarrow> u32" where
  "max0 v = (if sint v < 0 then 0 else v)"

definition min0 :: "i32 \<Rightarrow> i32" where
  "min0 v = (if sint v < 0 then v else 0)"

definition clip :: "i32 \<Rightarrow> i32 \<Rightarrow> u32 \<Rightarrow> u32 \<Rightarrow> u32 \<Rightarrow> u32 \<Rightarrow> u32 \<times> u32 \<times> u32 \<times> u32" where
  "clip x y w h sw sh =
     (let nx = max0 x; ny = max0 y in
      if sw \<le> nx \<or> sh \<le> ny then (0, 0, 0, 0)
      else let mw = max0 (w + min0 x); mh = max0 (h + min0 y);
               nw = min mw (sw - nx); nh = min mh (sh - ny) in
           (nx, ny, nw, nh))"

definition canvas_clear :: "rgba \<Rightarrow> Framebuffer \<Rightarrow> Framebuffer option" where
  "canvas_clear rgba fb = fb_clear rgba fb"

definition canvas_fill_rect :: "i32 \<Rightarrow> i32 \<Rightarrow> u32 \<Rightarrow> u32 \<Rightarrow> rgba \<Rightarrow> Framebuffer \<Rightarrow> Framebuffer option" where
  "canvas_fill_rect x y w h rgba fb =
     (case clip x y w h (fb_width fb) (fb_height fb) of (x, y, w, h) \<Rightarrow> fill_rect x y w h rgba fb)"

definition canvas_stroke_rect :: "i32 \<Rightarrow> i32 \<Rightarrow> u32 \<Rightarrow> u32 \<Rightarrow> rgba \<Rightarrow> Framebuffer \<Rightarrow> Framebuffer option" where
  "canvas_stroke_rect x y w h rgba fb =
     (case clip x y w h (fb_width fb) (fb_height fb) of (x, y, w, h) \<Rightarrow> stroke_rect x y w h rgba fb)"

text \<open>One round of the Bresenham loop after the pixel is set: the new point and error.\<close>

definition line_step :: "i32 \<Rightarrow> i32 \<Rightarrow> i32 \<Rightarrow> i32 \<Rightarrow> i32 \<times> i32 \<times> i32 \<Rightarrow> i32 \<times> i32 \<times> i32" where
  "line_step dx dy sx sy = (\<lambda>(x0, y0, err).
     let e2 = 2 * err;
         (err, x0) = (if sint dy \<le> sint e2 then (err + dy, x0 + sx) else (err, x0));
         (err, y0) = (if sint e2 \<le> sint dx then (err + dx, y0 + sy) else (err, y0)) in
     (x0, y0, err))"

partial_function (option) line_loop ::
  "i32 \<Rightarrow> i32 \<Rightarrow> i32 \<Rightarrow> i32 \<Rightarrow> i32 \<Rightarrow> i32 \<Rightarrow> rgba \<Rightarrow> i32 \<times> i32 \<times> i32 \<Rightarrow> Framebuffer \<Rightarrow> Framebuffer option" where
  "line_loop x1 y1 dx dy sx sy rgba st fb =
     Option.bind (put_signed (fst st) (fst (snd st)) rgba fb)
       (\<lambda>fb. if fst st = x1 \<and> fst (snd st) = y1 then Some fb
             else line_loop x1 y1 dx dy sx sy rgba (line_step dx dy sx sy st) fb)"

definition i32_abs :: "i32 \<Rightarrow> i32" where
  "i32_abs v = (if sint v < 0 then - v else v)"

definition canvas_line :: "i32 \<Rightarrow> i32 \<Rightarrow> i32 \<Rightarrow> i32 \<Rightarrow> rgba \<Rightarrow> Framebuffer \<Rightarrow> Framebuffer option" where
  "canvas_line x0 y0 x1 y1 rgba fb =
     (let dx = i32_abs (x1 - x0); dy = - i32_abs (y1 - y0);
          sx = (if sint x0 < sint x1 then 1 else - 1); sy = (if sint y0 < sint y1 then 1 else - 1);
          err = dx + dy in
      line_loop x1 y1 dx dy sx sy rgba (x0, y0, err) fb)"

definition draw_text :: "i32 \<Rightarrow> i32 \<Rightarrow> string \<Rightarrow> rgba \<Rightarrow> Framebuffer \<Rightarrow> Framebuffer option" where
  "draw_text x y s rgba fb =
     loop (\<lambda>(i, ch). draw_char (x + word_of_nat i * 8) y ch rgba) (List.enumerate 0 (chars s)) fb"

section \<open>Widgets\<close>

record Label =
  lb_x :: i32
  lb_y :: i32
  lb_text :: string
  lb_colour :: rgba

record Button =
  bt_x :: i32
  bt_y :: i32
  bt_w :: u32
  bt_h :: u32
  bt_label :: string
  bt_fg :: rgba
  bt_bg :: rgba

datatype Widget =
    Panel (pn_x: i32) (pn_y: i32) (pn_w: u32) (pn_h: u32) (pn_fill: rgba) (pn_border: "rgba option") (pn_children: "Widget list")
  | LabelW Label
  | ButtonW Button

definition panel_new :: "i32 \<Rightarrow> i32 \<Rightarrow> u32 \<Rightarrow> u32 \<Rightarrow> rgba \<Rightarrow> Widget" where
  "panel_new x y w h fill = Panel x y w h fill None []"

fun with_border :: "rgba \<Rightarrow> Widget \<Rightarrow> Widget" where
  "with_border c (Panel x y w h fill b ch) = Panel x y w h fill (Some c) ch"
| "with_border c v = v"

fun panel_add :: "Widget \<Rightarrow> Widget \<Rightarrow> Widget" where
  "panel_add v (Panel x y w h fill b ch) = Panel x y w h fill b (ch @ [v])"
| "panel_add v u = u"

definition label_new :: "i32 \<Rightarrow> i32 \<Rightarrow> string \<Rightarrow> rgba \<Rightarrow> Label" where
  "label_new x y s colour = \<lparr>lb_x = x, lb_y = y, lb_text = s, lb_colour = colour\<rparr>"

definition button_new :: "i32 \<Rightarrow> i32 \<Rightarrow> u32 \<Rightarrow> u32 \<Rightarrow> string \<Rightarrow> Button" where
  "button_new x y w h label =
     \<lparr>bt_x = x, bt_y = y, bt_w = w, bt_h = h, bt_label = label,
      bt_fg = (0xff, 0xff, 0xff, 0xff), bt_bg = (0x33, 0x55, 0xcc, 0xff)\<rparr>"

text \<open>\<^verbatim>\<open>i32\<close> division by a positive constant truncates towards zero.\<close>

definition half :: "i32 \<Rightarrow> i32" where
  "half v = word_of_int (if sint v < 0 then - ((- sint v) div 2) else sint v div 2)"

definition label_render :: "Label \<Rightarrow> Framebuffer \<Rightarrow> Framebuffer option" where
  "label_render l c = draw_text (lb_x l) (lb_y l) (lb_text l) (lb_colour l) c"

definition button_render :: "Button \<Rightarrow> Framebuffer \<Rightarrow> Framebuffer option" where
  "button_render b c =
     do {
       c \<leftarrow> canvas_fill_rect (bt_x b) (bt_y b) (bt_w b) (bt_h b) (bt_bg b) c;
       c \<leftarrow> canvas_stroke_rect (bt_x b) (bt_y b) (bt_w b) (bt_h b) (0, 0, 0, 0xff) c;
       let tx = bt_x b + 6; ty = bt_y b + half (bt_h b - 8) in
       draw_text tx ty (bt_label b) (bt_fg b) c
     }"

fun render :: "Widget \<Rightarrow> Framebuffer \<Rightarrow> Framebuffer option" where
  "render (Panel x y w h fill border children) c =
     do {
       c \<leftarrow> canvas_fill_rect x y w h fill c;
       c \<leftarrow> (case border of Some b \<Rightarrow> canvas_stroke_rect x y w h b c | None \<Rightarrow> Some c);
       loop render children c
     }"
| "render (LabelW l) c = label_render l c"
| "render (ButtonW b) c = button_render b c"

section \<open>What is painted\<close>

lemma on_screen_small:
  assumes "fb_wf fb" "on_screen fb x y"
  shows "x < 2 ^ 30" "y < 2 ^ 30"
proof -
  have o: "y * unat (fb_stride fb) + x * 4 + 4 < 2 ^ 32"
    using offset_in [OF assms] assms(1) by (simp add: fb_wf_def)
  then show "x < 2 ^ 30" by simp
  have "y * 4 \<le> y * unat (fb_stride fb)" using assms by (intro mult_left_mono) (simp_all add: fb_wf_def on_screen_def)
  then have "y * 4 < 2 ^ 32" using o by linarith
  then show "y < 2 ^ 30" by simp
qed

lemma draws_put_signed:
  assumes "fb_wf fb"
  shows "draws fb (put_signed px py c fb)
    (\<lambda>x' y' p. if int x' = sint px \<and> int y' = sint py then encode_rgba fb c else p)"
proof (cases "0 \<le> sint px \<and> 0 \<le> sint py")
  case True
  then show ?thesis using draws_put_pixel [OF assms, of px py c] by (simp add: put_signed_def sint_nonneg del: of_nat_unat)
next
  case False
  then show ?thesis by (auto simp: put_signed_def draws_def)
qed

lemma glyph_length: "length (glyph_for ch) = 8"
proof (cases "0x20 \<le> ch \<and> ch \<le> 0x7e")
  case True
  then have "unat (ch - 0x20) = unat ch - 32" "unat ch \<le> 126" by (simp_all add: unat_sub word_le_nat_alt)
  moreover have "list_all (\<lambda>g. length g = 8) GLYPHS" "length GLYPHS = 95" by (simp_all add: GLYPHS_def)
  ultimately show ?thesis using True by (simp add: glyph_for_def list_all_length)
qed (auto simp: glyph_for_def MISSING_def)

text \<open>Where a character drawn at \<open>(x, y)\<close> has ink: the bits of its glyph, most significant bit left.\<close>

definition ink :: "int \<Rightarrow> int \<Rightarrow> u32 \<Rightarrow> nat \<Rightarrow> nat \<Rightarrow> bool" where
  "ink x y ch x' y' \<longleftrightarrow> x \<le> int x' \<and> int x' < x + 8 \<and> y \<le> int y' \<and> int y' < y + 8 \<and>
     bit (glyph_for ch ! nat (int y' - y)) (7 - nat (int x' - x))"

lemma glyph_bit_bit: "glyph_bit g row col \<longleftrightarrow> bit (g ! row) (7 - col)"
  by (simp add: glyph_bit_def and_one_eq bit_iff_odd_drop_bit odd_iff_mod_2_eq_one flip: bit_0)

lemma draws_char:
  assumes "fb_wf fb"
  shows "draws fb (draw_char x y ch c fb) (\<lambda>x' y' p. if ink (sint x) (sint y) ch x' y' then encode_rgba fb c else p)"
proof -
  let ?P = "\<lambda>row col x' y'. glyph_bit (glyph_for ch) row col \<and>
    int x' = sint (x + word_of_nat col) \<and> int y' = sint (y + word_of_nat row)"
  have "draws fb (draw_char x y ch c fb)
    (\<lambda>x' y' p. if \<exists>row\<in>set [0..<length (glyph_for ch)]. \<exists>col\<in>set [0..<8]. ?P row col x' y' then encode_rgba fb c else p)"
    unfolding draw_char_def Let_def
  proof (intro draws_paint_loop)
    fix row col :: nat and fb1 fb2
    assume "same_shape fb fb1" "same_shape fb1 fb2"
    then have w: "fb_wf fb2" and e: "encode_rgba fb2 = encode_rgba fb"
      using assms by (simp_all add: same_shape_simps)
    show "draws fb2 (if glyph_bit (glyph_for ch) row col
        then put_signed (x + word_of_nat col) (y + word_of_nat row) c fb2 else Some fb2)
        (\<lambda>x' y' p. if ?P row col x' y' then encode_rgba fb c else p)"
      using draws_put_signed [OF w, of "x + word_of_nat col" "y + word_of_nat row" c, unfolded e] by (simp add: draws_id)
  qed
  moreover have "(\<exists>row\<in>set [0..<length (glyph_for ch)]. \<exists>col\<in>set [0..<8]. ?P row col x' y') \<longleftrightarrow> ink (sint x) (sint y) ch x' y'"
    if "on_screen fb x' y'" for x' y'
  proof -
    have "x' < 2 ^ 31" "y' < 2 ^ 31" using on_screen_small [OF assms that] by simp_all
    then have "?P row col x' y' \<longleftrightarrow> glyph_bit (glyph_for ch) row col \<and> int x' = sint x + int col \<and> int y' = sint y + int row"
      if "row < 8" "col < 8" for row col
      using that by (simp add: sint_add_offset)
    then have "(\<exists>row\<in>set [0..<8]. \<exists>col\<in>set [0..<8]. ?P row col x' y') \<longleftrightarrow>
      (\<exists>row<8. \<exists>col<8. glyph_bit (glyph_for ch) row col \<and> int x' = sint x + int col \<and> int y' = sint y + int row)"
      by auto
    also have "\<dots> \<longleftrightarrow> ink (sint x) (sint y) ch x' y'"
    proof
      assume "ink (sint x) (sint y) ch x' y'"
      then show "\<exists>row<8. \<exists>col<8. glyph_bit (glyph_for ch) row col \<and> int x' = sint x + int col \<and> int y' = sint y + int row"
        unfolding ink_def glyph_bit_bit
        by (intro exI [of _ "nat (int y' - sint y)"] conjI exI [of _ "nat (int x' - sint x)"]) auto
    qed (auto simp: ink_def glyph_bit_bit)
    finally show ?thesis by (simp add: glyph_length)
  qed
  ultimately show ?thesis by (elim draws_cong) simp
qed

lemma draws_text_any:
  assumes "fb_wf fb"
  shows "draws fb (draw_text x y s c fb) (\<lambda>x' y' p. if \<exists>(i, ch)\<in>set (List.enumerate 0 (chars s)).
    ink (sint (x + word_of_nat i * 8)) (sint y) ch x' y' then encode_rgba fb c else p)"
  unfolding draw_text_def case_prod_beta
proof (rule draws_paint_loop)
  fix q :: "nat \<times> u32" and fb'
  assume "same_shape fb fb'"
  then have w: "fb_wf fb'" and e: "encode_rgba fb' = encode_rgba fb" using assms by (simp_all add: same_shape_simps)
  show "draws fb' (draw_char (x + word_of_nat (fst q) * 8) y (snd q) c fb')
    (\<lambda>x' y' p. if ink (sint (x + word_of_nat (fst q) * 8)) (sint y) (snd q) x' y' then encode_rgba fb c else p)"
    using draws_char [OF w, of "x + word_of_nat (fst q) * 8" y "snd q" c, unfolded e] .
qed

text \<open>Drawing text paints exactly the ink of its characters in consecutive cells of eight
  pixels, clipped to the screen, and changes no other pixel.\<close>

theorem draw_text_correct:
  assumes "fb_wf fb" "sint x + 8 * int (length (chars s)) \<le> 2 ^ 31" "8 * length (chars s) \<le> 2 ^ 31"
  shows "draws fb (draw_text x y s c fb) (\<lambda>x' y' p. if \<exists>i<length (chars s).
    ink (sint x + 8 * int i) (sint y) (chars s ! i) x' y' then encode_rgba fb c else p)"
proof -
  have pos: "sint (x + word_of_nat i * 8) = sint x + 8 * int i" if i: "i < length (chars s)" for i
  proof -
    have lo: "- (2 ^ 31) \<le> sint x" using sint_ge [of x] by simp
    have "word_of_nat i * 8 = (word_of_nat (8 * i) :: i32)" by simp
    then show ?thesis
      using sint_add_in [of x "word_of_nat (8 * i)"] sint_of_nat_small [of "8 * i", where ?'a = 32] assms(2,3) i lo
      by (simp del: of_nat_mult)
  qed
  show ?thesis
    by (rule draws_cong [OF draws_text_any [OF assms(1), of x y s c]])
      (auto simp: in_set_enumerate_eq pos Bex_def; metis pos)
qed

section \<open>Clipping\<close>

lemma clip_inside:
  assumes "clip x y w h sw sh = (x', y', w', h')"
  shows "unat x' + unat w' \<le> unat sw" "unat y' + unat h' \<le> unat sh" "x' \<le> sw" "y' \<le> sh"
  using assms by (auto simp: clip_def Let_def unat_min unat_sub word_le_nat_alt split: if_splits)

text \<open>One dimension of the clipped rectangle: the part of \<open>[x, x + w)\<close> from 0 on.\<close>

lemma clip_axis:
  fixes x w :: u32
  assumes "unat w < 2 ^ 31" "max0 x < s"
  shows "unat (max0 x) \<le> n \<and> n < unat (max0 x) + unat (min (max0 (w + min0 x)) (s - max0 x)) \<longleftrightarrow>
    sint x \<le> int n \<and> int n < sint x + int (unat w) \<and> n < unat s"
proof -
  have w: "sint w = int (unat w)"
    using sint_of_nat_small [of "unat w", where ?'a = 32] assms(1) by simp
  have d: "unat (s - max0 x) = unat s - unat (max0 x)" "unat (max0 x) \<le> unat s"
    using assms(2) by (simp_all add: unat_sub word_less_nat_alt word_le_nat_alt)
  show ?thesis
  proof (cases "sint x < 0")
    case True
    have "- (2 ^ 31) \<le> sint x" using sint_ge [of x] by simp
    then have a: "sint (w + x) = int (unat w) + sint x"
      using True assms(1) w by (subst sint_add_in) (simp_all del: of_nat_unat)
    have "int (unat (max0 (w + x))) = max 0 (int (unat w) + sint x)"
      using sint_nonneg [of "w + x"] a by (simp add: max0_def max_def del: of_nat_unat)
    moreover have "max0 x = 0" "min0 x = x" using True by (simp_all add: max0_def min0_def)
    ultimately show ?thesis using True d by (simp add: unat_min del: of_nat_unat) linarith
  next
    case False
    then have "sint x = int (unat x)" by (intro sint_nonneg) simp
    then show ?thesis using False d w by (simp add: max0_def min0_def unat_min del: of_nat_unat) linarith
  qed
qed

text \<open>Filling a rectangle on a canvas paints exactly the pixels of the screen inside it, in
  exact integer coordinates: the corner may lie left of or above the screen, and the rectangle may
  extend past any edge. Nothing panics and every other pixel is unchanged.\<close>

theorem canvas_fill_rect_correct:
  assumes "fb_wf fb" "unat w < 2 ^ 31" "unat h < 2 ^ 31"
  shows "draws fb (canvas_fill_rect x y w h c fb) (\<lambda>x' y' p.
    if sint x \<le> int x' \<and> int x' < sint x + int (unat w) \<and> sint y \<le> int y' \<and> int y' < sint y + int (unat h)
    then encode_rgba fb c else p)"
proof (cases "fb_width fb \<le> max0 x \<or> fb_height fb \<le> max0 y")
  case True
  have "n < unat s \<Longrightarrow> s \<le> max0 v \<Longrightarrow> \<not> sint v \<le> int n" for n and s v :: u32
    using sint_nonneg [of v] by (auto simp: max0_def word_le_nat_alt not_less simp del: of_nat_unat split: if_splits)
  then show ?thesis
    using True draws_fill_rect [OF assms(1), of 0 0 0 0 c]
    by (auto simp: canvas_fill_rect_def clip_def on_screen_def elim!: draws_cong)
next
  case False
  obtain x1 y1 w1 h1 where cl: "clip x y w h (fb_width fb) (fb_height fb) = (x1, y1, w1, h1)" by (metis prod_cases4)
  note i = clip_inside [OF cl]
  have lt: "unat x1 + unat w1 < 2 ^ 32" "unat y1 + unat h1 < 2 ^ 32"
    using i(1,2) unsigned_less [of "fb_width fb", where ?'a = nat] unsigned_less [of "fb_height fb", where ?'a = nat]
    by simp_all
  have x1: "x1 = max0 x" "y1 = max0 y" "w1 = min (max0 (w + min0 x)) (fb_width fb - max0 x)"
    "h1 = min (max0 (h + min0 y)) (fb_height fb - max0 y)"
    using cl False by (auto simp: clip_def Let_def)
  have "(unat x1 \<le> n \<and> n < unat x1 + unat w1) = (sint x \<le> int n \<and> int n < sint x + int (unat w))"
    if "n < unat (fb_width fb)" for n
    using clip_axis [OF assms(2), of x "fb_width fb" n] False that unfolding x1 by auto
  moreover have "(unat y1 \<le> n \<and> n < unat y1 + unat h1) = (sint y \<le> int n \<and> int n < sint y + int (unat h))"
    if "n < unat (fb_height fb)" for n
    using clip_axis [OF assms(3), of y "fb_height fb" n] False that unfolding x1 by auto
  ultimately show ?thesis
    using draws_fill_rect [OF assms(1) i(3) lt, of c] unfolding canvas_fill_rect_def cl prod.case
    by (elim draws_cong) (auto simp: on_screen_def)
qed

section \<open>Widgets never panic\<close>

definition safe :: "Framebuffer \<Rightarrow> Framebuffer option \<Rightarrow> bool" where
  "safe fb r \<longleftrightarrow> (\<exists>fb'. r = Some fb' \<and> same_shape fb fb')"

lemma draws_safe: "draws fb r g \<Longrightarrow> safe fb r"
  by (auto simp: draws_def safe_def)

lemma safe_Some: "safe fb (Some fb)"
  by (simp add: safe_def)

lemma safe_bind: "safe fb r \<Longrightarrow> (\<And>fb'. same_shape fb fb' \<Longrightarrow> safe fb' (k fb')) \<Longrightarrow> safe fb (Option.bind r k)"
  by (fastforce simp: safe_def intro: same_shape_trans)

lemma safe_loop:
  "(\<And>i fb'. i \<in> set is \<Longrightarrow> same_shape fb fb' \<Longrightarrow> safe fb' (f i fb')) \<Longrightarrow> safe fb (loop f is fb)"
proof (induction "is" arbitrary: fb)
  case (Cons i "is")
  then show ?case by (auto intro!: safe_bind intro: same_shape_trans)
qed (simp add: safe_Some)

lemma safe_fill: "fb_wf fb \<Longrightarrow> safe fb (canvas_fill_rect x y w h c fb)"
proof -
  assume wf: "fb_wf fb"
  obtain x1 y1 w1 h1 where cl: "clip x y w h (fb_width fb) (fb_height fb) = (x1, y1, w1, h1)" by (metis prod_cases4)
  note i = clip_inside [OF cl]
  have "unat x1 + unat w1 < 2 ^ 32" "unat y1 + unat h1 < 2 ^ 32"
    using i(1,2) unsigned_less [of "fb_width fb", where ?'a = nat] unsigned_less [of "fb_height fb", where ?'a = nat]
    by simp_all
  from draws_fill_rect [OF wf i(3) this] show ?thesis
    unfolding canvas_fill_rect_def cl prod.case by (rule draws_safe)
qed

lemma safe_stroke: "fb_wf fb \<Longrightarrow> safe fb (canvas_stroke_rect x y w h c fb)"
proof -
  assume wf: "fb_wf fb"
  obtain x1 y1 w1 h1 where cl: "clip x y w h (fb_width fb) (fb_height fb) = (x1, y1, w1, h1)" by (metis prod_cases4)
  from draws_stroke_rect [OF wf clip_inside(1,2) [OF cl]] show ?thesis
    unfolding canvas_stroke_rect_def cl prod.case by (rule draws_safe)
qed

lemma safe_text: "fb_wf fb \<Longrightarrow> safe fb (draw_text x y s c fb)"
  by (rule draws_safe [OF draws_text_any])

text \<open>Rendering a widget on a well-formed framebuffer never panics, wherever the widget and its
  children are placed and whatever their sizes, and keeps the shape of the framebuffer.\<close>

theorem widget_render_safe:
  assumes "fb_wf fb"
  shows "\<exists>fb'. render v fb = Some fb' \<and> same_shape fb fb' \<and> fb_wf fb'"
proof -
  have "fb_wf fb \<Longrightarrow> safe fb (render v fb)" for fb
  proof (induction v arbitrary: fb)
    case (Panel x y w h fill border children)
    have "safe fb' (case border of None \<Rightarrow> Some fb' | Some b \<Rightarrow> canvas_stroke_rect x y w h b fb')" if "fb_wf fb'" for fb'
      using that by (cases border) (simp_all add: safe_Some safe_stroke)
    moreover have "safe fb' (loop render children fb')" if "fb_wf fb'" for fb'
      using Panel.IH that by (auto intro!: safe_loop simp: same_shape_wf)
    ultimately show ?case using Panel.prems by (auto intro!: safe_bind safe_fill simp: same_shape_wf)
  qed (auto intro!: safe_bind safe_fill safe_stroke safe_text simp: same_shape_wf label_render_def button_render_def)
  from this [OF assms] show ?thesis using assms by (auto simp: safe_def same_shape_wf)
qed

definition screen_4x4 :: Framebuffer where
  "screen_4x4 = framebuffer_new 4 4 Bgra8"

lemma screen_4x4_wf: "fb_wf screen_4x4"
  unfolding screen_4x4_def by (rule fb_new_wf) simp_all

theorem canvas_fill_rect_correct_witness:
  "draws screen_4x4 (canvas_fill_rect (- 1) 2 3 5 (1, 2, 3, 4) screen_4x4) (\<lambda>x' y' p.
    if sint (- 1 :: i32) \<le> int x' \<and> int x' < sint (- 1 :: i32) + int (unat (3 :: u32)) \<and>
       sint (2 :: i32) \<le> int y' \<and> int y' < sint (2 :: i32) + int (unat (5 :: u32))
    then encode_rgba screen_4x4 (1, 2, 3, 4) else p)"
  using canvas_fill_rect_correct [OF screen_4x4_wf, of 3 5 "- 1" 2 "(1, 2, 3, 4)"] by simp

theorem draw_text_correct_witness:
  "draws screen_4x4 (draw_text (- 2) 0 ''Hi'' (1, 2, 3, 4) screen_4x4) (\<lambda>x' y' p. if \<exists>i<length (chars ''Hi'').
    ink (sint (- 2 :: i32) + 8 * int i) (sint (0 :: i32)) (chars ''Hi'' ! i) x' y'
    then encode_rgba screen_4x4 (1, 2, 3, 4) else p)"
proof -
  have "chars ''Hi'' = [72, 105]"
    by (simp add: chars_def as_bytes_def byte_of_def utf8_chars.simps utf8_scalar_def utf8_next_def
        utf8_char_width_def safe_get_def)
  then show ?thesis using draw_text_correct [OF screen_4x4_wf, of "- 2" "''Hi''" 0 "(1, 2, 3, 4)"] by simp
qed

theorem widget_render_safe_witness:
  "\<exists>fb'. render (panel_add (ButtonW (button_new (- 5) 2 100 1 ''ok'')) (with_border (1, 1, 1, 1) (panel_new 1 1 2 9 (0, 0, 0, 0))))
     screen_4x4 = Some fb' \<and> same_shape screen_4x4 fb' \<and> fb_wf fb'"
  by (rule widget_render_safe [OF screen_4x4_wf])

section \<open>Lines\<close>

text \<open>The error term of the line loop while \<open>a\<close> columns and \<open>b\<close> rows remain: it steps only towards
  the end point, and it always steps.\<close>

lemma bresenham:
  fixes a b dx dy e :: int
  assumes "0 \<le> a" "a \<le> dx" "0 \<le> b" "b \<le> - dy" "e = dx + dy - dy * a - dx * b" "a \<noteq> 0 \<or> b \<noteq> 0"
  shows "dy \<le> 2 * e \<Longrightarrow> 0 < a" "2 * e \<le> dx \<Longrightarrow> 0 < b" "dy \<le> 2 * e \<or> 2 * e \<le> dx"
proof -
  have "dx * 1 \<le> dx * b" if "0 < b" using that assms by (intro mult_left_mono) auto
  then show "0 < a" if "dy \<le> 2 * e" using that assms by (cases "a = 0") auto
  have "(- dy) * 1 \<le> (- dy) * a" if "0 < a" using that assms by (intro mult_left_mono) auto
  then show "0 < b" if "2 * e \<le> dx" using that assms by (cases "b = 0") auto
  show "dy \<le> 2 * e \<or> 2 * e \<le> dx" using assms by linarith
qed

definition line_inv :: "i32 \<Rightarrow> i32 \<Rightarrow> i32 \<Rightarrow> i32 \<Rightarrow> i32 \<Rightarrow> i32 \<Rightarrow> int \<Rightarrow> int \<Rightarrow> i32 \<times> i32 \<times> i32 \<Rightarrow> bool" where
  "line_inv x1 y1 dx dy sx sy a b st \<longleftrightarrow> (case st of (x0, y0, err) \<Rightarrow>
     sint x1 = sint x0 + sint sx * a \<and> sint y1 = sint y0 + sint sy * b \<and>
     sint sx \<in> {1, - 1} \<and> sint sy \<in> {1, - 1} \<and>
     0 \<le> a \<and> a \<le> sint dx \<and> 0 \<le> b \<and> b \<le> - sint dy \<and> sint dx \<le> 2 ^ 28 \<and> - sint dy \<le> 2 ^ 28 \<and>
     \<bar>sint x1\<bar> \<le> 2 ^ 28 \<and> \<bar>sint y1\<bar> \<le> 2 ^ 28 \<and>
     sint err = sint dx + sint dy - sint dy * a - sint dx * b \<and> 2 * sint dy \<le> sint err \<and> sint err \<le> 2 * sint dx)"

lemma line_step_inv:
  assumes "line_inv x1 y1 dx dy sx sy a b (x0, y0, err)" "a \<noteq> 0 \<or> b \<noteq> 0"
  obtains a' b' where "line_inv x1 y1 dx dy sx sy a' b' (line_step dx dy sx sy (x0, y0, err))"
    "0 \<le> a'" "a' \<le> a" "0 \<le> b'" "b' \<le> b" "a' + b' < a + b"
proof -
  define a' where "a' = (if sint dy \<le> 2 * sint err then a - 1 else a)"
  define b' where "b' = (if 2 * sint err \<le> sint dx then b - 1 else b)"
  note inv = assms(1) [unfolded line_inv_def prod.case]
  have bounds: "0 \<le> a" "a \<le> sint dx" "0 \<le> b" "b \<le> - sint dy" "sint dx \<le> 2 ^ 28" "- sint dy \<le> 2 ^ 28"
    "sint err = sint dx + sint dy - sint dy * a - sint dx * b" "2 * sint dy \<le> sint err" "sint err \<le> 2 * sint dx"
    using inv by auto
  note br = bresenham [OF bounds(1-4,7) assms(2)]
  have e2: "sint (2 * err) = 2 * sint err"
    using sint_add_in [of err err] bounds(1-6,8,9) by (simp flip: mult_2)
  define ex where "ex = (if sint dy \<le> 2 * sint err then err + dy else err)"
  define ey where "ey = (if 2 * sint err \<le> sint dx then ex + dx else ex)"
  have ex: "sint ex = (if sint dy \<le> 2 * sint err then sint err + sint dy else sint err)"
    using bounds(1-6,8,9) sint_add_in [of err dy] by (auto simp: ex_def)
  have ey: "sint ey = (if 2 * sint err \<le> sint dx then sint ex + sint dx else sint ex)"
    using bounds(1-6,8,9) ex sint_add_in [of ex dx] by (auto simp: ey_def)
  have step: "line_step dx dy sx sy (x0, y0, err) =
      (if sint dy \<le> 2 * sint err then x0 + sx else x0, if 2 * sint err \<le> sint dx then y0 + sy else y0, ey)"
    by (simp add: line_step_def Let_def e2 ex_def ey_def)
  have mag: "\<bar>sint x1\<bar> \<le> 2 ^ 28" "\<bar>sint y1\<bar> \<le> 2 ^ 28" "sint sx \<in> {1, - 1}" "sint sy \<in> {1, - 1}"
    and xy: "sint x1 = sint x0 + sint sx * a" "sint y1 = sint y0 + sint sy * b"
    using inv by blast+
  have add: "sint (u + s) = sint u + sint s"
    if "\<bar>v\<bar> \<le> 2 ^ 28" "v = sint u + sint s * k" "sint s \<in> {1, - 1}" "0 \<le> k" "k \<le> 2 ^ 28" for u s :: i32 and v k
    using that by (intro sint_add_in) auto
  have sx: "sint (x0 + sx) = sint x0 + sint sx" "sint (y0 + sy) = sint y0 + sint sy"
    using add [OF mag(1) xy(1) mag(3)] add [OF mag(2) xy(2) mag(4)] bounds(1-6) by simp_all
  have e': "sint ey = sint dx + sint dy - sint dy * a' - sint dx * b'"
    using bounds(7) by (simp add: ey ex a'_def b'_def right_diff_distrib)
  have eb: "2 * sint dy \<le> sint ey" "sint ey \<le> 2 * sint dx"
    using bounds(1-6,8,9) unfolding ey ex by (simp_all split: if_split)
  have ab: "0 \<le> a'" "a' \<le> a" "0 \<le> b'" "b' \<le> b" "a' + b' < a + b"
    using br bounds(1,3) by (auto simp: a'_def b'_def)
  have "sint x1 = sint (if sint dy \<le> 2 * sint err then x0 + sx else x0) + sint sx * a'"
    "sint y1 = sint (if 2 * sint err \<le> sint dx then y0 + sy else y0) + sint sy * b'"
    unfolding xy by (simp_all add: sx a'_def b'_def right_diff_distrib)
  moreover have "a' \<le> sint dx" "b' \<le> - sint dy" using ab bounds(2,4) by simp_all
  ultimately have "line_inv x1 y1 dx dy sx sy a' b' (line_step dx dy sx sy (x0, y0, err))"
    unfolding step line_inv_def prod.case using bounds(5,6) ab(1,3) e' eb mag by (intro conjI)
  from that [OF this ab] show thesis .
qed

definition between :: "int \<Rightarrow> int \<Rightarrow> nat \<Rightarrow> bool" where
  "between u v n \<longleftrightarrow> min u v \<le> int n \<and> int n \<le> max u v"

text \<open>The pixels of a run of the loop: both end points, and nothing outside the box they span.\<close>

definition path :: "i32 \<times> i32 \<Rightarrow> i32 \<times> i32 \<Rightarrow> (nat \<Rightarrow> nat \<Rightarrow> bool) \<Rightarrow> bool" where
  "path q r P \<longleftrightarrow> (\<forall>x y. int x = sint (fst q) \<and> int y = sint (snd q) \<longrightarrow> P x y) \<and>
     (\<forall>x y. int x = sint (fst r) \<and> int y = sint (snd r) \<longrightarrow> P x y) \<and>
     (\<forall>x y. P x y \<longrightarrow> between (sint (fst q)) (sint (fst r)) x \<and> between (sint (snd q)) (sint (snd r)) y)"

lemma between_shrink:
  assumes "v = u + s * a" "v = u' + s * a'" "s \<in> {1, - 1}" "0 \<le> a'" "a' \<le> a" "between u' v n"
  shows "between u v n"
  using assms by (auto simp: between_def)

lemma line_invD:
  assumes "line_inv x1 y1 dx dy sx sy a b (x0, y0, err)"
  shows "sint x1 = sint x0 + sint sx * a" "sint y1 = sint y0 + sint sy * b" "sint sx \<in> {1, - 1}" "sint sy \<in> {1, - 1}"
    "0 \<le> a" "0 \<le> b"
  using assms [unfolded line_inv_def prod.case] by blast+

lemma line_loop_path:
  assumes "line_inv x1 y1 dx dy sx sy a b (x0, y0, err)" "fb_wf fb"
  shows "\<exists>P. draws fb (line_loop x1 y1 dx dy sx sy c (x0, y0, err) fb)
    (\<lambda>x y p. if P x y then encode_rgba fb c else p) \<and> path (x0, y0) (x1, y1) P"
  using assms
proof (induction "nat (a + b)" arbitrary: a b x0 y0 err fb rule: less_induct)
  case less
  note inv = line_invD [OF less.prems(1)]
  let ?here = "\<lambda>x y. int x = sint x0 \<and> int y = sint y0"
  note put = draws_put_signed [OF less.prems(2), of x0 y0 c]
  show ?case
  proof (cases "x0 = x1 \<and> y0 = y1")
    case True
    then have "draws fb (line_loop x1 y1 dx dy sx sy c (x0, y0, err) fb) (\<lambda>x y p. if ?here x y then encode_rgba fb c else p)"
      using put by (subst line_loop.simps) simp
    moreover have "path (x0, y0) (x1, y1) ?here" using True by (simp add: path_def between_def)
    ultimately show ?thesis by (intro exI conjI)
  next
    case False
    have "u = v" if "sint u = sint v" for u v :: i32 using that by (rule signed_word_eqI)
    from this [of x0 x1] this [of y0 y1] False have ab: "a \<noteq> 0 \<or> b \<noteq> 0" using inv(1,2) by auto
    obtain a' b' where next_inv: "line_inv x1 y1 dx dy sx sy a' b' (line_step dx dy sx sy (x0, y0, err))"
      and le: "0 \<le> a'" "a' \<le> a" "0 \<le> b'" "b' \<le> b" "a' + b' < a + b"
      using line_step_inv [OF less.prems(1) ab] .
    obtain x2 y2 err2 where st: "line_step dx dy sx sy (x0, y0, err) = (x2, y2, err2)" by (metis prod_cases3)
    obtain fb' where fb': "put_signed x0 y0 c fb = Some fb'" "same_shape fb fb'"
      using put by (auto elim: drawsE)
    have wf: "fb_wf fb'" and e: "encode_rgba fb' = encode_rgba fb"
      using fb'(2) less.prems(2) by (simp_all add: same_shape_simps)
    obtain Q where Q: "draws fb' (line_loop x1 y1 dx dy sx sy c (x2, y2, err2) fb')
        (\<lambda>x y p. if Q x y then encode_rgba fb c else p)" "path (x2, y2) (x1, y1) Q"
      using less.hyps [OF _ next_inv [unfolded st] wf] le unfolding e by auto
    have "draws fb (Option.bind (put_signed x0 y0 c fb) (\<lambda>fb. line_loop x1 y1 dx dy sx sy c (x2, y2, err2) fb))
        (\<lambda>x y p. if Q x y then encode_rgba fb c else if ?here x y then encode_rgba fb c else p)"
      by (rule draws_bind [OF put]) (use Q(1) fb'(1) in simp)
    then have "draws fb (line_loop x1 y1 dx dy sx sy c (x0, y0, err) fb)
        (\<lambda>x y p. if ?here x y \<or> Q x y then encode_rgba fb c else p)"
      using False by (subst line_loop.simps) (auto simp: st elim!: draws_cong)
    moreover have "path (x0, y0) (x1, y1) (\<lambda>x y. ?here x y \<or> Q x y)"
    proof -
      note n = line_invD [OF next_inv [unfolded st]]
      have "between (sint x0) (sint x1) x" if "between (sint x2) (sint x1) x" for x
        using between_shrink [OF inv(1) n(1) inv(3) le(1,2)] that by simp
      moreover have "between (sint y0) (sint y1) y" if "between (sint y2) (sint y1) y" for y
        using between_shrink [OF inv(2) n(2) inv(4) le(3,4)] that by simp
      ultimately show ?thesis using Q(2) by (auto simp: path_def) (auto simp: between_def)
    qed
    ultimately show ?thesis by (intro exI conjI)
  qed
qed

lemma i32_abs_diff:
  fixes u v :: i32
  assumes "\<bar>sint u\<bar> \<le> 2 ^ 27" "\<bar>sint v\<bar> \<le> 2 ^ 27"
  shows "sint (i32_abs (u - v)) = \<bar>sint u - sint v\<bar>" "sint (- i32_abs (u - v)) = - \<bar>sint u - sint v\<bar>"
proof -
  have d: "sint (u - v) = sint u - sint v" using assms by (intro sint_diff_in) simp_all
  have m: "sint (- w) = - sint w" if "\<bar>sint w\<bar> \<le> 2 ^ 28" for w :: i32
    using that sint_diff_in [of 0 w] by (simp add: abs_le_iff)
  have "\<bar>sint (u - v)\<bar> \<le> 2 ^ 28" using d assms by simp
  then show a: "sint (i32_abs (u - v)) = \<bar>sint u - sint v\<bar>" using m [of "u - v"] d
    by (auto simp: i32_abs_def simp del: minus_diff_eq)
  then show "sint (- i32_abs (u - v)) = - \<bar>sint u - sint v\<bar>" using assms by (subst m) auto
qed

text \<open>C34: The line loop ends for all end points with coordinates up to \<open>2 ^ 27\<close> in size: it returns
  without a panic, paints both end points where they are on the screen, paints only pixels of the
  box the end points span, and leaves every other pixel alone.\<close>

theorem canvas_line_correct:
  assumes "fb_wf fb" "\<bar>sint x0\<bar> \<le> 2 ^ 27" "\<bar>sint y0\<bar> \<le> 2 ^ 27" "\<bar>sint x1\<bar> \<le> 2 ^ 27" "\<bar>sint y1\<bar> \<le> 2 ^ 27"
  shows "\<exists>P. draws fb (canvas_line x0 y0 x1 y1 c fb) (\<lambda>x y p. if P x y then encode_rgba fb c else p) \<and>
    path (x0, y0) (x1, y1) P"
proof -
  let ?dx = "i32_abs (x1 - x0)" and ?dy = "- i32_abs (y1 - y0)"
  let ?sx = "if sint x0 < sint x1 then 1 else - 1 :: i32" and ?sy = "if sint y0 < sint y1 then 1 else - 1 :: i32"
  note dx = i32_abs_diff(1) [OF assms(4,2)] and dy = i32_abs_diff(2) [OF assms(5,3)]
  have "sint (?dx + ?dy) = sint ?dx + sint ?dy" using assms dx dy by (intro sint_add_in) auto
  then have "line_inv x1 y1 ?dx ?dy ?sx ?sy \<bar>sint x1 - sint x0\<bar> \<bar>sint y1 - sint y0\<bar> (x0, y0, ?dx + ?dy)"
    using assms(2-5) by (auto simp: line_inv_def dx dy algebra_simps)
  from line_loop_path [OF this assms(1), of c] show ?thesis unfolding canvas_line_def Let_def .
qed

theorem canvas_line_correct_witness:
  "\<exists>P. draws screen_4x4 (canvas_line (- 3) 0 7 2 (1, 2, 3, 4) screen_4x4)
     (\<lambda>x y p. if P x y then encode_rgba screen_4x4 (1, 2, 3, 4) else p) \<and> path (- 3, 0) (7, 2) P"
  by (rule canvas_line_correct [OF screen_4x4_wf]) simp_all

end
