(* ===== verification/Hyp_Display.thy ===== *)
theory Hyp_Display
  imports Hyp_Canvas Hyp_Boot_Info
begin

text \<open>
  Monitors and the display registry (\<^verbatim>\<open>kernel/src/display/monitor.rs\<close>, \<^verbatim>\<open>display/mod.rs\<close>) and the
  stacking compositor (\<^verbatim>\<open>display/compositor.rs\<close>). An \<^verbatim>\<open>Arc\<close> is the index of a cell, so that two
  references to one monitor see the same cell; the mutexes are held for a whole operation.

  The lemmas show that a registered monitor is found under the identifier it was given, and that a
  rendered frame shows at every pixel the topmost opaque layer there, or the background.
\<close>

section \<open>Monitors\<close>

datatype MonitorKind = Physical | Virtual

record Monitor =
  mon_name :: string
  mon_kind :: MonitorKind
  mon_width :: u32
  mon_height :: u32
  mon_fb :: Framebuffer
  mon_id :: u32

definition new_virtual :: "string \<Rightarrow> u32 \<Rightarrow> u32 \<Rightarrow> Monitor" where
  "new_virtual name width height =
     \<lparr>mon_name = name, mon_kind = Virtual, mon_width = width, mon_height = height,
      mon_fb = framebuffer_new width height Bgra8, mon_id = - 1\<rparr>"

definition new_physical :: "string \<Rightarrow> Framebuffer \<Rightarrow> Monitor" where
  "new_physical name fb =
     \<lparr>mon_name = name, mon_kind = Physical, mon_width = fb_width fb, mon_height = fb_height fb,
      mon_fb = fb, mon_id = - 1\<rparr>"

text \<open>The cells of the monitors, and the registry: references in order of registration.\<close>

record Display =
  dp_cells :: "Monitor list"
  dp_monitors :: "nat list"

definition arc_new :: "Monitor \<Rightarrow> Display \<Rightarrow> nat \<times> Display" where
  "arc_new m d = (length (dp_cells d), d\<lparr>dp_cells := dp_cells d @ [m]\<rparr>)"

definition set_id :: "nat \<Rightarrow> u32 \<Rightarrow> Display \<Rightarrow> Display" where
  "set_id m i d = d\<lparr>dp_cells := (dp_cells d)[m := (dp_cells d ! m)\<lparr>mon_id := i\<rparr>]\<rparr>"

definition monitor_id :: "nat \<Rightarrow> Display \<Rightarrow> u32" where
  "monitor_id m d = mon_id (dp_cells d ! m)"

definition with_framebuffer :: "nat \<Rightarrow> (Framebuffer \<Rightarrow> Framebuffer option) \<Rightarrow> Display \<Rightarrow> Display option" where
  "with_framebuffer m f d =
     map_option (\<lambda>fb. d\<lparr>dp_cells := (dp_cells d)[m := (dp_cells d ! m)\<lparr>mon_fb := fb\<rparr>]\<rparr>) (f (mon_fb (dp_cells d ! m)))"

definition monitor_snapshot :: "nat \<Rightarrow> Display \<Rightarrow> u8 list" where
  "monitor_snapshot m d = pixels (mon_fb (dp_cells d ! m))"

section \<open>The registry\<close>

definition register_monitor :: "nat \<Rightarrow> Display \<Rightarrow> u32 \<times> Display" where
  "register_monitor m d =
     (let i = word_of_nat (length (dp_monitors d)); d = set_id m i d in
      (i, d\<lparr>dp_monitors := dp_monitors d @ [m]\<rparr>))"

definition display_get :: "u32 \<Rightarrow> Display \<Rightarrow> nat option" where
  "display_get i d = get_at (dp_monitors d) (unat i)"

definition display_list :: "Display \<Rightarrow> nat list" where
  "display_list d = dp_monitors d"

definition display_count :: "Display \<Rightarrow> nat" where
  "display_count d = length (dp_monitors d)"

definition display_init :: "(u64 \<Rightarrow> nat \<Rightarrow> u8 list) \<Rightarrow> BootInfo \<Rightarrow> Display \<Rightarrow> Display" where
  "display_init bytes_at bi d =
     (case bi_framebuffer bi of
        Some fb \<Rightarrow>
          let format = (case fbi_format fb of Bgra8888 \<Rightarrow> Bgra8 | Rgba8888 \<Rightarrow> Rgba8);
              scanout = from_mmio bytes_at (fbi_base fb) (fbi_width fb) (fbi_height fb) (fbi_stride_bytes fb) format;
              (m, d) = arc_new (new_physical ''fb0'' scanout) d in
          snd (register_monitor m d)
      | None \<Rightarrow>
          let (m, d) = arc_new (new_virtual ''monitor0'' 1280 720) d in
          snd (register_monitor m d))"

section \<open>The compositor\<close>

record Layer =
  ly_fb :: nat
  ly_x :: i32
  ly_y :: i32
  ly_z :: i32

record Compositor =
  co_monitor :: nat
  co_layers :: "Layer list"
  co_background :: rgba

definition compositor_new :: "nat \<Rightarrow> Compositor" where
  "compositor_new m = \<lparr>co_monitor = m, co_layers = [], co_background = (0x10, 0x18, 0x24, 0xff)\<rparr>"

definition set_background :: "rgba \<Rightarrow> Compositor \<Rightarrow> Compositor" where
  "set_background rgba c = c\<lparr>co_background := rgba\<rparr>"

definition push_layer :: "Layer \<Rightarrow> Compositor \<Rightarrow> Compositor" where
  "push_layer l c = c\<lparr>co_layers := co_layers c @ [l]\<rparr>"

definition clear_layers :: "Compositor \<Rightarrow> Compositor" where
  "clear_layers c = c\<lparr>co_layers := []\<rparr>"

text \<open>The body of the inner loop of \<^verbatim>\<open>blit\<close>, on row \<open>dy\<close> of the target.\<close>

definition blit_pixel :: "Framebuffer \<Rightarrow> i32 \<Rightarrow> nat \<Rightarrow> i32 \<Rightarrow> nat \<Rightarrow> Framebuffer \<Rightarrow> Framebuffer option" where
  "blit_pixel src x sy dy sx dst =
     (let dx = x + word_of_nat sx in
      if sint dx < 0 \<or> fb_width dst \<le> dx then Some dst
      else let so = unat (word_of_nat sy * fb_stride src + word_of_nat sx * 4 :: u32);
               dst_off = unat (dy * fb_stride dst + dx * 4) in
           if length (pixels src) \<le> so + 3 then None
           else if pixels src ! (so + 3) = 0 then Some dst
           else write4 dst_off (take 4 (drop so (pixels src))) dst)"

definition blit :: "Framebuffer \<Rightarrow> i32 \<Rightarrow> i32 \<Rightarrow> Framebuffer \<Rightarrow> Framebuffer option" where
  "blit src x y dst =
     loop (\<lambda>sy dst.
       let dy = y + word_of_nat sy in
       if sint dy < 0 \<or> fb_height dst \<le> dy then Some dst
       else loop (blit_pixel src x sy dy) [0..<unat (fb_width src)] dst) [0..<unat (fb_height src)] dst"

text \<open>\<open>surfaces\<close> gives the framebuffer of each layer at the time of the call.\<close>

definition compositor_render :: "(nat \<Rightarrow> Framebuffer) \<Rightarrow> Compositor \<Rightarrow> Display \<Rightarrow> Display option" where
  "compositor_render surfaces c =
     (let layers = sort_key (\<lambda>l. sint (ly_z l)) (co_layers c) in
      with_framebuffer (co_monitor c) (\<lambda>target.
        do {
          target \<leftarrow> fb_clear (co_background c) target;
          loop (\<lambda>layer. blit (surfaces (ly_fb layer)) (ly_x layer) (ly_y layer)) layers target
        }))"

section \<open>The registry gives distinct identifiers\<close>

definition display_wf :: "Display \<Rightarrow> bool" where
  "display_wf d \<longleftrightarrow> (\<forall>i<length (dp_monitors d). dp_monitors d ! i < length (dp_cells d) \<and>
     mon_id (dp_cells d ! (dp_monitors d ! i)) = word_of_nat i) \<and> distinct (dp_monitors d)"

text \<open>A monitor registered for the first time gets an identifier that finds it and that it
  carries; every earlier monitor keeps its identifier, and the registry stays well formed.\<close>

theorem register_monitor_correct:
  assumes "display_wf d" "m < length (dp_cells d)" "m \<notin> set (dp_monitors d)" "display_count d < 2 ^ 32"
    and "register_monitor m d = (i, d')"
  shows "display_wf d' \<and> display_get i d' = Some m \<and> monitor_id m d' = i \<and> display_count d' = display_count d + 1 \<and>
    (\<forall>j m'. display_get j d = Some m' \<longrightarrow> display_get j d' = Some m' \<and> monitor_id m' d' = j)"
proof -
  have i: "i = word_of_nat (length (dp_monitors d))" "unat i = length (dp_monitors d)"
    using assms(4,5) by (auto simp: register_monitor_def Let_def display_count_def unat_word_of_nat)
  have d': "dp_monitors d' = dp_monitors d @ [m]" "dp_cells d' = (dp_cells d)[m := (dp_cells d ! m)\<lparr>mon_id := i\<rparr>]"
    using assms(5) by (auto simp: register_monitor_def Let_def set_id_def)
  have "display_wf d'"
    using assms(1-3) by (auto simp: display_wf_def d' i nth_append nth_list_update less_Suc_eq)
  moreover have "monitor_id m' d' = j" if "display_get j d = Some m'" for j m'
  proof -
    have j: "unat j < length (dp_monitors d)" "dp_monitors d ! unat j = m'"
      using that by (auto simp: display_get_def get_at_def split: if_splits)
    then have "m' \<noteq> m" using assms(3) by (metis nth_mem)
    then show ?thesis using assms(1) j by (auto simp: display_wf_def monitor_id_def d')
  qed
  ultimately show ?thesis
    using assms(2) i by (auto simp: display_get_def get_at_def monitor_id_def display_count_def d' nth_append split: if_splits)
qed

theorem register_monitor_correct_witness:
  "let d = snd (arc_new (new_virtual ''a'' 2 2) \<lparr>dp_cells = [], dp_monitors = []\<rparr>); (i, d') = register_monitor 0 d in
   display_wf d' \<and> display_get i d' = Some 0 \<and> monitor_id 0 d' = i"
proof -
  let ?d = "snd (arc_new (new_virtual ''a'' 2 2) \<lparr>dp_cells = [], dp_monitors = []\<rparr>)"
  obtain i d' where r: "register_monitor 0 ?d = (i, d')" by (cases "register_monitor 0 ?d")
  have "display_wf ?d" "0 < length (dp_cells ?d)" "0 \<notin> set (dp_monitors ?d)" "display_count ?d < 2 ^ 32"
    by (simp_all add: display_wf_def arc_new_def display_count_def)
  from register_monitor_correct [OF this r] show ?thesis by (simp add: Let_def r)
qed

section \<open>Composition\<close>

lemma fold_unique:
  "(\<And>i. i \<in> set is \<Longrightarrow> P i \<longleftrightarrow> i = k \<and> Q) \<Longrightarrow>
   fold (\<lambda>i p. if P i then c i else p) is p = (if k \<in> set is \<and> Q then c k else p)"
  by (induction "is" arbitrary: p) auto

lemma fold_keep: "fold (\<lambda>i p. p) is p = p"
  by (induction "is") simp_all

text \<open>The pixel of the source that lands on \<open>(x', y')\<close> when the source is placed at \<open>(x, y)\<close>.\<close>

definition lands :: "Framebuffer \<Rightarrow> int \<Rightarrow> int \<Rightarrow> nat \<Rightarrow> nat \<Rightarrow> bool" where
  "lands src x y x' y' \<longleftrightarrow> x \<le> int x' \<and> int x' < x + int (unat (fb_width src)) \<and>
     y \<le> int y' \<and> int y' < y + int (unat (fb_height src))"

definition src_pixel :: "Framebuffer \<Rightarrow> int \<Rightarrow> int \<Rightarrow> nat \<Rightarrow> nat \<Rightarrow> u8 list" where
  "src_pixel src x y x' y' = pixel_at src (nat (int x' - x)) (nat (int y' - y))"

definition shows_at :: "Framebuffer \<Rightarrow> int \<Rightarrow> int \<Rightarrow> nat \<Rightarrow> nat \<Rightarrow> bool" where
  "shows_at src x y x' y' \<longleftrightarrow> lands src x y x' y' \<and> src_pixel src x y x' y' ! 3 \<noteq> 0"

lemma unat_offset:
  assumes "fb_wf fb" "on_screen fb x y" "unat wx = x" "unat wy = y"
  shows "unat (wy * fb_stride fb + wx * 4 :: u32) = y * unat (fb_stride fb) + x * 4"
proof -
  have lt: "y * unat (fb_stride fb) + x * 4 < 2 ^ 32" using offset_in [OF assms(1,2)] assms(1) by (simp add: fb_wf_def)
  then have "unat (wy * fb_stride fb) = y * unat (fb_stride fb)" "unat (wx * 4) = x * 4"
    using assms(3,4) by (simp_all add: unat_mult_lt)
  then show ?thesis using lt by (simp add: unat_add_lt)
qed

lemma draws_blit_pixel:
  assumes "fb_wf dst" "fb_wf src" "on_screen src sx sy" "0 \<le> sint dy" "dy < fb_height dst"
  shows "draws dst (blit_pixel src x sy dy sx dst) (\<lambda>x' y' p.
    if (int x' = sint (x + word_of_nat sx) \<and> int y' = sint dy) \<and> pixel_at src sx sy ! 3 \<noteq> 0
    then pixel_at src sx sy else p)"
proof (cases "sint (x + word_of_nat sx) < 0 \<or> fb_width dst \<le> x + word_of_nat sx")
  case True
  then have "int x' \<noteq> sint (x + word_of_nat sx)" if "x' < unat (fb_width dst)" for x'
    using that sint_nonneg [of "x + word_of_nat sx"] by (auto simp: word_le_nat_alt simp del: of_nat_unat)
  then show ?thesis using True by (auto simp: blit_pixel_def draws_def on_screen_def)
next
  case False
  let ?dx = "x + word_of_nat sx"
  have on: "on_screen dst (unat ?dx) (unat dy)"
    using False assms(5) by (simp add: on_screen_def word_le_nat_alt word_less_nat_alt not_le)
  have small: "sx < 2 ^ 32" "sy < 2 ^ 32" using on_screen_small [OF assms(2,3)] by simp_all
  have so: "unat (word_of_nat sy * fb_stride src + word_of_nat sx * 4 :: u32) = sy * unat (fb_stride src) + sx * 4"
    by (rule unat_offset [OF assms(2,3)]) (use small in \<open>simp_all add: unat_word_of_nat\<close>)
  have so_in: "sy * unat (fb_stride src) + sx * 4 + 4 \<le> length (pixels src)"
    using offset_in [OF assms(2,3)] assms(2) by (simp add: fb_wf_def)
  have do: "unat (dy * fb_stride dst + ?dx * 4) = unat dy * unat (fb_stride dst) + unat ?dx * 4"
    by (rule unat_offset [OF assms(1) on]) simp_all
  have px: "take 4 (drop (sy * unat (fb_stride src) + sx * 4) (pixels src)) = pixel_at src sx sy"
    "pixels src ! (sy * unat (fb_stride src) + sx * 4 + 3) = pixel_at src sx sy ! 3" "length (pixel_at src sx sy) = 4"
    using so_in by (simp_all add: pixel_at_def)
  have eq: "int x' = sint ?dx \<and> int y' = sint dy \<longleftrightarrow> x' = unat ?dx \<and> y' = unat dy" for x' y'
    using False assms(4) by (simp add: sint_nonneg del: of_nat_unat)
  show ?thesis
  proof (cases "pixel_at src sx sy ! 3 = 0")
    case True
    then show ?thesis using False so_in by (simp add: blit_pixel_def Let_def so px draws_id)
  next
    case op: False
    then have "blit_pixel src x sy dy sx dst = write4 (unat dy * unat (fb_stride dst) + unat ?dx * 4) (pixel_at src sx sy) dst"
      using False so_in by (simp add: blit_pixel_def Let_def so px do del: distrib_right_numeral)
    then show ?thesis using draws_write4 [OF assms(1) on px(3) refl] op by (simp add: eq)
  qed
qed

text \<open>The row \<open>sy\<close> of the source, and then the whole source.\<close>

lemma draws_blit_row:
  assumes "fb_wf dst" "fb_wf src" "sy < unat (fb_height src)" "0 \<le> sint dy" "dy < fb_height dst"
  shows "draws dst (loop (blit_pixel src x sy dy) [0..<unat (fb_width src)] dst) (\<lambda>x' y' p.
    if int y' = sint dy \<and> sint x \<le> int x' \<and> int x' < sint x + int (unat (fb_width src)) \<and>
       pixel_at src (nat (int x' - sint x)) sy ! 3 \<noteq> 0
    then pixel_at src (nat (int x' - sint x)) sy else p)"
proof -
  let ?P = "\<lambda>sx x' y'. (int x' = sint (x + word_of_nat sx) \<and> int y' = sint dy) \<and> pixel_at src sx sy ! 3 \<noteq> 0"
  have "draws dst (loop (blit_pixel src x sy dy) [0..<unat (fb_width src)] dst)
    (\<lambda>x' y'. fold (\<lambda>sx p. if ?P sx x' y' then pixel_at src sx sy else p) [0..<unat (fb_width src)])"
  proof (rule draws_loop)
    fix sx dst'
    assume s: "sx \<in> set [0..<unat (fb_width src)]" "same_shape dst dst'"
    have "fb_wf dst'" "fb_height dst' = fb_height dst"
      using s(2) assms(1) by (simp_all add: same_shape_wf) (simp add: same_shape_def)
    then show "draws dst' (blit_pixel src x sy dy sx dst') (\<lambda>x' y' p. if ?P sx x' y' then pixel_at src sx sy else p)"
      using draws_blit_pixel [of dst' src sx sy dy x] assms s(1) by (simp add: on_screen_def)
  qed
  moreover have "fold (\<lambda>sx p. if ?P sx x' y' then pixel_at src sx sy else p) [0..<unat (fb_width src)] p =
    (if int y' = sint dy \<and> sint x \<le> int x' \<and> int x' < sint x + int (unat (fb_width src)) \<and>
       pixel_at src (nat (int x' - sint x)) sy ! 3 \<noteq> 0
     then pixel_at src (nat (int x' - sint x)) sy else p)" if "on_screen dst x' y'" for x' y' p
  proof -
    have b1: "x' < 2 ^ 31" using on_screen_small(1) [OF assms(1) that] by simp
    have b2: "sx < 2 ^ 31" if "sx \<in> set [0..<unat (fb_width src)]" for sx
      using on_screen_small(1) [OF assms(2), of sx sy] that assms(3) by (simp add: on_screen_def)
    have P: "?P sx x' y' \<longleftrightarrow> sx = nat (int x' - sint x) \<and> sint x \<le> int x' \<and> int y' = sint dy \<and>
        pixel_at src (nat (int x' - sint x)) sy ! 3 \<noteq> 0" if "sx \<in> set [0..<unat (fb_width src)]" for sx
    proof -
      have "int x' = sint (x + word_of_nat sx) \<longleftrightarrow> sx = nat (int x' - sint x) \<and> sint x \<le> int x'"
        unfolding sint_add_offset [OF b2 [OF that] b1] by auto
      then show ?thesis by auto
    qed
    have "nat (int x' - sint x) \<in> set [0..<unat (fb_width src)] \<longleftrightarrow> int x' < sint x + int (unat (fb_width src))"
      if "sint x \<le> int x'"
      using that by (auto simp: nat_less_iff simp del: of_nat_unat)
    with fold_unique [of "[0..<unat (fb_width src)]" "\<lambda>sx. ?P sx x' y'", OF P, of "\<lambda>sx. pixel_at src sx sy" p]
    show ?thesis by (cases "sint x \<le> int x'") (simp_all del: of_nat_unat set_upt)
  qed
  ultimately show ?thesis by (rule draws_cong)
qed

lemma draws_blit:
  assumes "fb_wf dst" "fb_wf src"
  shows "draws dst (blit src x y dst) (\<lambda>x' y' p.
    if shows_at src (sint x) (sint y) x' y' then src_pixel src (sint x) (sint y) x' y' else p)"
proof -
  let ?c = "\<lambda>sy x'. pixel_at src (nat (int x' - sint x)) sy"
  let ?P = "\<lambda>sy x' y'. int y' = sint (y + word_of_nat sy) \<and> sint x \<le> int x' \<and>
    int x' < sint x + int (unat (fb_width src)) \<and> ?c sy x' ! 3 \<noteq> 0"
  have "draws dst (blit src x y dst) (\<lambda>x' y'. fold (\<lambda>sy p. if ?P sy x' y' then ?c sy x' else p) [0..<unat (fb_height src)])"
    unfolding blit_def
  proof (rule draws_loop)
    fix sy dst'
    assume s: "sy \<in> set [0..<unat (fb_height src)]" "same_shape dst dst'"
    have wf: "fb_wf dst'" using s(2) assms(1) by (simp add: same_shape_wf)
    show "draws dst' (let dy = y + word_of_nat sy in if sint dy < 0 \<or> fb_height dst' \<le> dy then Some dst'
        else loop (blit_pixel src x sy dy) [0..<unat (fb_width src)] dst') (\<lambda>x' y' p. if ?P sy x' y' then ?c sy x' else p)"
    proof (cases "sint (y + word_of_nat sy) < 0 \<or> fb_height dst' \<le> y + word_of_nat sy")
      case True
      then have "int y' \<noteq> sint (y + word_of_nat sy)" if "y' < unat (fb_height dst')" for y'
        using that sint_nonneg [of "y + word_of_nat sy"] by (auto simp: word_le_nat_alt simp del: of_nat_unat)
      then show ?thesis using True by (auto simp: draws_def on_screen_def Let_def)
    next
      case False
      then have "0 \<le> sint (y + word_of_nat sy)" "y + word_of_nat sy < fb_height dst'" by (simp_all add: not_le not_less)
      then show ?thesis using draws_blit_row [OF wf assms(2), of sy "y + word_of_nat sy" x] s(1) False
        unfolding Let_def if_not_P [OF False] by simp
    qed
  qed
  moreover have "fold (\<lambda>sy p. if ?P sy x' y' then ?c sy x' else p) [0..<unat (fb_height src)] p =
    (if shows_at src (sint x) (sint y) x' y' then src_pixel src (sint x) (sint y) x' y' else p)"
    if on: "on_screen dst x' y'" for x' y' p
  proof (cases "sint x \<le> int x' \<and> int x' < sint x + int (unat (fb_width src))")
    case False
    then show ?thesis by (auto simp: shows_at_def lands_def fold_keep)
  next
    case True
    have b1: "y' < 2 ^ 31" using on_screen_small(2) [OF assms(1) on] by simp
    have b2: "sy < 2 ^ 31" if "sy \<in> set [0..<unat (fb_height src)]" for sy
      using on_screen_small(2) [OF assms(2), of "nat (int x' - sint x)" sy] that True
      by (simp add: on_screen_def del: of_nat_unat) linarith
    have P: "?P sy x' y' \<longleftrightarrow> sy = nat (int y' - sint y) \<and> sint y \<le> int y' \<and>
        ?c (nat (int y' - sint y)) x' ! 3 \<noteq> 0" if "sy \<in> set [0..<unat (fb_height src)]" for sy
    proof -
      have "int y' = sint (y + word_of_nat sy) \<longleftrightarrow> sy = nat (int y' - sint y) \<and> sint y \<le> int y'"
        unfolding sint_add_offset [OF b2 [OF that] b1] by auto
      then show ?thesis using True by auto
    qed
    have "nat (int y' - sint y) \<in> set [0..<unat (fb_height src)] \<longleftrightarrow> int y' < sint y + int (unat (fb_height src))"
      if "sint y \<le> int y'"
      using that by (auto simp: nat_less_iff simp del: of_nat_unat)
    with fold_unique [of "[0..<unat (fb_height src)]" "\<lambda>sy. ?P sy x' y'", OF P, of "\<lambda>sy. ?c sy x'" p] True
    show ?thesis unfolding shows_at_def lands_def src_pixel_def
      by (cases "sint y \<le> int y'") (simp_all del: of_nat_unat set_upt)
  qed
  ultimately show ?thesis by (rule draws_cong)
qed

section \<open>Stacking\<close>

text \<open>The layer a viewer sees at a point: among those that cover it with an opaque pixel, the one
  with the greatest z, the latest pushed among equals.\<close>

fun top_layer :: "(Layer \<Rightarrow> bool) \<Rightarrow> Layer list \<Rightarrow> Layer option" where
  "top_layer C [] = None"
| "top_layer C (l # ls) =
     (case top_layer C ls of
        None \<Rightarrow> if C l then Some l else None
      | Some t \<Rightarrow> if C l \<and> sint (ly_z t) < sint (ly_z l) then Some l else Some t)"

definition layer_covers :: "(nat \<Rightarrow> Framebuffer) \<Rightarrow> nat \<Rightarrow> nat \<Rightarrow> Layer \<Rightarrow> bool" where
  "layer_covers surfaces x y l = shows_at (surfaces (ly_fb l)) (sint (ly_x l)) (sint (ly_y l)) x y"

definition layer_pixel :: "(nat \<Rightarrow> Framebuffer) \<Rightarrow> nat \<Rightarrow> nat \<Rightarrow> Layer \<Rightarrow> u8 list" where
  "layer_pixel surfaces x y l = src_pixel (surfaces (ly_fb l)) (sint (ly_x l)) (sint (ly_y l)) x y"

text \<open>Painting in order of a stable sort by z leaves what the topmost layer paints.\<close>

lemma fold_last:
  "fold (\<lambda>l p. if C l then c l else p) ls p = (if filter C ls = [] then p else c (last (filter C ls)))"
  by (induction ls arbitrary: p) auto

lemma last_filter_insort:
  fixes f :: "'a \<Rightarrow> 'b::linorder"
  assumes "sorted (map f ys)" "C x"
  shows "last (filter C (insort_key f x ys)) =
    (if filter C ys = [] \<or> f (last (filter C ys)) < f x then x else last (filter C ys))"
  using assms
proof (induction ys)
  case (Cons y ys)
  have le: "f y \<le> f (last (filter C ys))" if "filter C ys \<noteq> []"
    using Cons.prems(1) last_in_set [OF that] by auto
  show ?case
  proof (cases "f x \<le> f y")
    case True
    have "f x \<le> f (last (filter C (y # ys)))" if "filter C (y # ys) \<noteq> []"
      using True le that by (cases "filter C ys = []") (auto split: if_splits)
    then show ?thesis using True Cons.prems(2) by (auto simp: not_less[symmetric])
  next
    case False
    have ne: "filter C (insort_key f x ys) \<noteq> []" using Cons.prems(2) by (auto simp: filter_empty_conv set_insort_key)
    show ?thesis using Cons False ne by (auto simp: not_le)
  qed
qed simp

lemma top_layer_sort:
  "top_layer C ls = (let s = filter C (sort_key (\<lambda>l. sint (ly_z l)) ls) in if s = [] then None else Some (last s))"
proof (induction ls)
  case (Cons l ls)
  have e: "filter C (insort_key f x ys) = filter C ys" if "\<not> C x" for f :: "Layer \<Rightarrow> int" and x ys
    using that by (induction ys) auto
  have "filter C (insort_key f x ys) \<noteq> []" if "C x" for f :: "Layer \<Rightarrow> int" and x ys
    using that by (auto simp: filter_empty_conv set_insort_key)
  then show ?case
    using Cons last_filter_insort [of "\<lambda>l. sint (ly_z l)" "sort_key (\<lambda>l. sint (ly_z l)) ls" C l]
    by (cases "C l") (auto simp: Let_def e)
qed simp

text \<open>C33: Rendering shows, at every pixel of the monitor, the bytes of the topmost layer that is not
  fully transparent there, or the background where no layer is: layers may overlap, extend past the
  screen or lie off it, and the order in which they were pushed only breaks ties of z. Nothing
  panics. There is no blending: a pixel of any alpha but zero is copied as it is and hides what is
  below it, although the README and the architecture document promise alpha compositing.\<close>

theorem compositor_render_correct:
  assumes "co_monitor c < length (dp_cells d)" "fb_wf (mon_fb (dp_cells d ! co_monitor c))"
    and "\<And>l. l \<in> set (co_layers c) \<Longrightarrow> fb_wf (surfaces (ly_fb l))"
  shows "\<exists>fb'. compositor_render surfaces c d =
      Some (d\<lparr>dp_cells := (dp_cells d)[co_monitor c := (dp_cells d ! co_monitor c)\<lparr>mon_fb := fb'\<rparr>]\<rparr>) \<and>
    draws (mon_fb (dp_cells d ! co_monitor c)) (Some fb') (\<lambda>x y p.
      case top_layer (layer_covers surfaces x y) (co_layers c) of
        Some l \<Rightarrow> layer_pixel surfaces x y l
      | None \<Rightarrow> encode_rgba (mon_fb (dp_cells d ! co_monitor c)) (co_background c))"
proof -
  let ?fb = "mon_fb (dp_cells d ! co_monitor c)" and ?ls = "sort_key (\<lambda>l. sint (ly_z l)) (co_layers c)"
  have "draws fb' (loop (\<lambda>l. blit (surfaces (ly_fb l)) (ly_x l) (ly_y l)) ?ls fb')
      (\<lambda>x y. fold (\<lambda>l p. if layer_covers surfaces x y l then layer_pixel surfaces x y l else p) ?ls)"
    if "same_shape ?fb fb'" for fb'
    unfolding layer_covers_def layer_pixel_def
    by (rule draws_loop, rule draws_blit) (use that assms(2,3) in \<open>auto simp: same_shape_wf\<close>)
  from draws_bind [OF draws_clear [OF assms(2), of "co_background c"] this]
  have "draws ?fb (Option.bind (fb_clear (co_background c) ?fb) (loop (\<lambda>l. blit (surfaces (ly_fb l)) (ly_x l) (ly_y l)) ?ls))
      (\<lambda>x y p. case top_layer (layer_covers surfaces x y) (co_layers c) of
        Some l \<Rightarrow> layer_pixel surfaces x y l | None \<Rightarrow> encode_rgba ?fb (co_background c))"
    by (rule draws_cong) (simp_all add: fold_last top_layer_sort Let_def)
  then show ?thesis
    by (auto simp: compositor_render_def with_framebuffer_def Let_def elim!: drawsE) (auto simp: draws_def)
qed

definition one_monitor :: Display where
  "one_monitor = \<lparr>dp_cells = [new_physical ''m'' screen_4x4], dp_monitors = [0]\<rparr>"

definition one_layer :: Compositor where
  "one_layer = push_layer \<lparr>ly_fb = 0, ly_x = - 1, ly_y = 3, ly_z = 5\<rparr> (compositor_new 0)"

theorem compositor_render_correct_witness:
  "\<exists>fb'. compositor_render (\<lambda>_. screen_4x4) one_layer one_monitor =
      Some (one_monitor\<lparr>dp_cells := (dp_cells one_monitor)[co_monitor one_layer :=
        (dp_cells one_monitor ! co_monitor one_layer)\<lparr>mon_fb := fb'\<rparr>]\<rparr>) \<and>
    draws (mon_fb (dp_cells one_monitor ! co_monitor one_layer)) (Some fb') (\<lambda>x y p.
      case top_layer (layer_covers (\<lambda>_. screen_4x4) x y) (co_layers one_layer) of
        Some l \<Rightarrow> layer_pixel (\<lambda>_. screen_4x4) x y l
      | None \<Rightarrow> encode_rgba (mon_fb (dp_cells one_monitor ! co_monitor one_layer)) (co_background one_layer))"
  by (rule compositor_render_correct)
    (simp_all add: one_monitor_def one_layer_def push_layer_def compositor_new_def new_physical_def screen_4x4_wf)

end
