(* ===== verification/Hyp_Virtio_Net.thy ===== *)
theory Hyp_Virtio_Net
  imports Hyp_Virtio_Blk
begin

text \<open>
  The virtio network driver of \<^verbatim>\<open>kernel/src/drivers/virtio/net.rs\<close>: bring-up with a pre-filled
  receive queue, transmission of one frame as a one-descriptor chain, and polled reception.
  The addresses of the transmit buffer and of the receive buffers come from the allocator and are
  parameters; so is the device.

  The lemmas show that a sent frame reaches the device unchanged behind a zeroed header and gives
  its descriptor back, that a received frame is the one the device wrote, and that reception
  returns every buffer to the device.
\<close>

section \<open>Definitions\<close>

definition QUEUE_RX :: u32 where "QUEUE_RX = 0"
definition QUEUE_TX :: u32 where "QUEUE_TX = 1"
definition NET_QUEUE_SIZE :: u16 where "NET_QUEUE_SIZE = 16"
definition MTU :: nat where "MTU = 1514"
definition RX_BUF_SIZE :: nat where "RX_BUF_SIZE = MTU + 12"

record VirtioNetHdr =
  nh_flags :: u8
  nh_gso_type :: u8
  nh_hdr_len :: u16
  nh_gso_size :: u16
  nh_csum_start :: u16
  nh_csum_offset :: u16
  nh_num_buffers :: u16

text \<open>\<^verbatim>\<open>size_of::<VirtioNetHdr>()\<close>: two bytes and five half words, without padding.\<close>

definition HDR_BYTES :: nat where "HDR_BYTES = 2 * 1 + 5 * 2"

record VirtioNet =
  vn_transport :: Transport
  vn_rx :: Virtqueue
  vn_tx :: Virtqueue
  vn_rx_bufs :: "u64 list"
  vn_mac :: "u8 list"

definition mac_address :: "VirtioNet \<Rightarrow> u8 list" where
  "mac_address n = vn_mac n"

definition net_send ::
  "'d dma \<Rightarrow> u64 \<Rightarrow> 'd \<Rightarrow> memory \<Rightarrow> Virtqueue \<Rightarrow> u8 list \<Rightarrow> ('d \<times> memory \<times> Virtqueue \<times> (string + usize)) option" where
  "net_send dev addr d mem q frame =
     (if MTU < length frame then Some (d, mem, q, Inl ''frame too large'')
      else do {
        let buf = replicate HDR_BYTES 0 @ frame;
        let len = (word_of_nat (length buf) :: u32);
        let mem = mem_write mem addr buf;
        (q, r) \<leftarrow> alloc_chain q 1;
        case r of
          None \<Rightarrow> Some (d, mem, q, Inl ''virtqueue full'')
        | Some head \<Rightarrow> do {
            q \<leftarrow> set_desc q head addr len 0;
            q \<leftarrow> push_avail q head;
            let (d, mem, ring) = dev d q mem;
            (q, elem) \<leftarrow> wait_used ring 0 q;
            q \<leftarrow> free_chain q head;
            Some (d, mem, q, Inr (word_of_nat (length frame)))
          }
      })"

text \<open>\<open>out\<close> is the caller's buffer before the call; the result has the buffer after it and the
  number of bytes received, and the device after the notification.\<close>

definition net_recv ::
  "'d dma \<Rightarrow> 'd \<Rightarrow> memory \<Rightarrow> u64 list \<Rightarrow> Virtqueue \<Rightarrow> u8 list \<Rightarrow>
     (('d \<times> memory \<times> (nat \<Rightarrow> u8 list)) \<times> Virtqueue \<times> u8 list \<times> nat option) option" where
  "net_recv dev d mem bufs q out = do {
     (q, r) \<leftarrow> pop_used q;
     case r of
       None \<Rightarrow> Some ((d, mem, \<lambda>_. vq_used q), q, out, None)
     | Some (ident, len) \<Rightarrow> do {
         let head = (ucast ident :: u16);
         b \<leftarrow> arr_get bufs head;
         let n = unat len - HDR_BYTES;
         let n = min n (length out);
         if RX_BUF_SIZE < HDR_BYTES + n then None
         else do {
           let out = take n (drop HDR_BYTES (mem_read mem b RX_BUF_SIZE)) @ drop n out;
           q \<leftarrow> set_desc q head b (word_of_nat RX_BUF_SIZE) VRING_DESC_F_WRITE;
           q \<leftarrow> push_avail q head;
           Some (dev d q mem, q, out, Some n)
         }
       }
   }"

definition rx_prefill :: "(nat \<Rightarrow> u64) \<Rightarrow> u16 \<Rightarrow> Virtqueue \<Rightarrow> Virtqueue option" where
  "rx_prefill buf_at i rx = do {
     d \<leftarrow> arr_get (vq_desc rx) i;
     Some (rx\<lparr>vq_desc := (vq_desc rx)[unat i := d\<lparr>d_addr := buf_at (unat i), d_len := word_of_nat RX_BUF_SIZE,
       d_flags := VRING_DESC_F_WRITE, d_next := 0\<rparr>]\<rparr>)
   }"

fun read_mac :: "Bus \<Rightarrow> Transport \<Rightarrow> usize list \<Rightarrow> u8 list hw" where
  "read_mac bus t [] = State_Monad.return []"
| "read_mac bus t (i # is) = do {
     b \<leftarrow> config_read_u8 bus t i;
     bs \<leftarrow> read_mac bus t is;
     State_Monad.return (b # bs)
   }"

text \<open>Bring-up, with the addresses of the receive buffers and of the two queues' rings.\<close>

definition net_init ::
  "Bus \<Rightarrow> usize \<Rightarrow> (nat \<Rightarrow> u64) \<Rightarrow> u64 \<times> u64 \<times> u64 \<Rightarrow> u64 \<times> u64 \<times> u64 \<Rightarrow> (string + VirtioNet) option hw" where
  "net_init bus b buf_at = (\<lambda>(rd, ra, ru) (td, ta, tu). do {
     let t = Transport b;
     r \<leftarrow> init_begin bus t;
     case r of
       Inl e \<Rightarrow> State_Monad.return (Some (Inl ''init_begin failed''))
     | Inr u \<Rightarrow> do {
         device_feats \<leftarrow> read_features bus t;
         write_features bus t (device_feats AND VIRTIO_F_VERSION_1);
         mac \<leftarrow> read_mac bus t [0, 1, 2, 3, 4, 5];
         mx \<leftarrow> queue_max bus t QUEUE_RX;
         if mx = 0 then State_Monad.return (Some (Inl ''virtio-net: no rx queue''))
         else let sz = min NET_QUEUE_SIZE (ucast mx) in
           case Option.bind (virtqueue_new sz) (loop (rx_prefill buf_at) (urange 0 sz)) of
             None \<Rightarrow> State_Monad.return None
           | Some rx \<Rightarrow> do {
               let rx = rx\<lparr>vq_num_free := 0, vq_free_head := 0\<rparr>;
               queue_configure t QUEUE_RX (ucast sz) rd ra ru;
               case loop (\<lambda>i rx. push_avail rx i) (urange 0 sz) rx of
                 None \<Rightarrow> State_Monad.return None
               | Some rx \<Rightarrow>
                   (case virtqueue_new sz of
                      None \<Rightarrow> State_Monad.return None
                    | Some tx \<Rightarrow> do {
                        queue_configure t QUEUE_TX (ucast sz) td ta tu;
                        driver_ok bus t;
                        State_Monad.return (Some (Inr \<lparr>vn_transport = t, vn_rx = rx, vn_tx = tx,
                          vn_rx_bufs = map buf_at [0..<unat sz], vn_mac = mac\<rparr>))
                      })
             }
       }
   })"

section \<open>What a network device does\<close>

text \<open>Transmission (virtio 1.1, section 5.1.6.2): the device takes the newest available chain, one
  device-readable descriptor, sends what follows the 12-byte header, and returns the chain.\<close>

definition net_tx_device :: "('d \<Rightarrow> u8 list list) \<Rightarrow> ('d \<Rightarrow> u16) \<Rightarrow> 'd dma \<Rightarrow> bool" where
  "net_tx_device sent seen dev \<longleftrightarrow>
     (\<forall>d q mem h d' mem' ring.
        vq_shape q \<longrightarrow> seen d = avail_idx q - 1 \<longrightarrow> used_idx q = vq_last_used_idx q \<longrightarrow>
        avail_entry q (avail_idx q - 1) = h \<longrightarrow> unat h < unat (vq_size q) \<longrightarrow> d_flags (vq_desc q ! unat h) = 0 \<longrightarrow>
        dev d q mem = (d', mem', ring) \<longrightarrow>
        completes q ring \<and> seen d' = avail_idx q \<and> mem' = mem \<and>
        sent d' = sent d @ [drop 12 (mem_read mem (d_addr (vq_desc q ! unat h)) (unat (d_len (vq_desc q ! unat h))))])"

definition tx_idle :: "Virtqueue \<Rightarrow> u16 \<Rightarrow> bool" where
  "tx_idle q seen \<longleftrightarrow> (\<exists>fl. vq_inv q fl \<and> fl \<noteq> []) \<and> used_idx q = vq_last_used_idx q \<and> avail_idx q = seen"

lemma net_send_prepares:
  assumes inv: "vq_inv q (h # rest)" and len: "length frame \<le> MTU"
    and mem1: "mem1 = mem_write mem addr (replicate HDR_BYTES 0 @ frame)"
  shows "\<exists>q2. net_send dev addr d mem q frame =
      (case dev d q2 mem1 of (d', mem', ring) \<Rightarrow> do {
         (q, elem) \<leftarrow> wait_used ring 0 q2;
         q \<leftarrow> free_chain q h;
         Some (d', mem', q, Inr (word_of_nat (length frame)))
       }) \<and>
    vq_inv q2 rest \<and> vq_size q2 = vq_size q \<and> avail_idx q2 = avail_idx q + 1 \<and> used_idx q2 = used_idx q \<and>
    vq_last_used_idx q2 = vq_last_used_idx q \<and> avail_entry q2 (avail_idx q2 - 1) = h \<and>
    d_flags (vq_desc q2 ! unat h) = 0 \<and> d_addr (vq_desc q2 ! unat h) = addr \<and>
    d_len (vq_desc q2 ! unat h) = word_of_nat (HDR_BYTES + length frame)"
proof -
  obtain q1 where q1: "alloc_chain q 1 = Some (q1, Some h)" "vq_inv q1 rest" "vq_avail q1 = vq_avail q"
    "vq_used q1 = vq_used q" "vq_size q1 = vq_size q" "vq_last_used_idx q1 = vq_last_used_idx q"
    using alloc_chain_ok [OF inv, of 1] by auto
  have h: "unat h < length (vq_desc q1)" "h \<notin> set rest"
    using inv q1(2,5) by (auto simp: vq_inv_def vq_shape_def)
  define ds where "ds = (vq_desc q1)[unat h := (vq_desc q1 ! unat h)\<lparr>d_addr := addr,
    d_len := word_of_nat (HDR_BYTES + length frame), d_flags := 0\<rparr>]"
  have inv2: "vq_inv (q1\<lparr>vq_desc := ds\<rparr>) rest"
    using q1(2) h by (intro vq_inv_descs) (auto simp: ds_def nth_update_any unat_inj_iff)
  then obtain q2 where push: "push_avail (q1\<lparr>vq_desc := ds\<rparr>) h = Some q2"
    using push_avail_total [of "q1\<lparr>vq_desc := ds\<rparr>" h] by (auto simp: vq_inv_def)
  note p = push_avail_inv [OF inv2 push]
  have "net_send dev addr d mem q frame =
      (case dev d q2 mem1 of (d', mem', ring) \<Rightarrow> do {
         (q, elem) \<leftarrow> wait_used ring 0 q2;
         q \<leftarrow> free_chain q h;
         Some (d', mem', q, Inr (word_of_nat (length frame)))
       })"
    using len h(1) push by (simp add: net_send_def q1(1) mem1 set_desc_eq ds_def)
  moreover have "used_idx q2 = used_idx q" "avail_idx q2 = avail_idx q + 1"
    using p(4,7) q1(3,4) by (simp_all add: used_idx_def avail_idx_def)
  ultimately show ?thesis using p q1(5,6) h(1) by (auto simp: ds_def)
qed

text \<open>Sending a frame of at most 1514 bytes through a device that follows the virtio contract
  returns its length: the device transmitted exactly the frame, in order after the earlier ones,
  the descriptor is free again and the queue is ready for the next frame.\<close>

theorem net_send_correct:
  assumes "net_tx_device sent seen dev" "tx_idle q (seen d)" "length frame \<le> 1514"
  shows "\<exists>d' mem' q'. net_send dev addr d mem q frame = Some (d', mem', q', Inr (word_of_nat (length frame))) \<and>
    sent d' = sent d @ [frame] \<and> tx_idle q' (seen d')"
proof -
  obtain h rest where fl: "vq_inv q (h # rest)" "used_idx q = vq_last_used_idx q" "avail_idx q = seen d"
    using assms(2) by (auto simp: tx_idle_def neq_Nil_conv)
  define mem1 where "mem1 = mem_write mem addr (replicate HDR_BYTES 0 @ frame)"
  have "length frame \<le> MTU" using assms(3) by (simp add: MTU_def)
  from net_send_prepares [OF fl(1) this mem1_def, of dev d]
  obtain q2 where q2: "net_send dev addr d mem q frame =
      (case dev d q2 mem1 of (d', mem', ring) \<Rightarrow> do {
         (q, elem) \<leftarrow> wait_used ring 0 q2;
         q \<leftarrow> free_chain q h;
         Some (d', mem', q, Inr (word_of_nat (length frame)))
       })"
    "vq_inv q2 rest" "vq_size q2 = vq_size q" "avail_idx q2 = avail_idx q + 1" "used_idx q2 = used_idx q"
    "vq_last_used_idx q2 = vq_last_used_idx q" "avail_entry q2 (avail_idx q2 - 1) = h"
    "d_flags (vq_desc q2 ! unat h) = 0" "d_addr (vq_desc q2 ! unat h) = addr"
    "d_len (vq_desc q2 ! unat h) = word_of_nat (HDR_BYTES + length frame)"
    by blast
  obtain d' mem' ring where r: "dev d q2 mem1 = (d', mem', ring)" by (metis prod_cases3)
  have h: "unat h < unat (vq_size q2)" "h \<notin> set rest" "vq_shape q2" "seen d = avail_idx q2 - 1"
    "used_idx q2 = vq_last_used_idx q2"
    using fl q2 by (auto simp: vq_inv_def)
  have "completes q2 ring \<and> seen d' = avail_idx q2 \<and> mem' = mem1 \<and>
      sent d' = sent d @ [drop 12 (mem_read mem1 (d_addr (vq_desc q2 ! unat h)) (unat (d_len (vq_desc q2 ! unat h))))]"
    using assms(1) h(3-5) q2(7) h(1) q2(8) r unfolding net_tx_device_def by blast
  then have c: "completes q2 ring" "seen d' = avail_idx q2"
    "sent d' = sent d @ [drop 12 (mem_read mem1 addr (unat (word_of_nat (HDR_BYTES + length frame) :: u32)))]"
    unfolding q2(9,10) by blast+
  have "unat (word_of_nat (HDR_BYTES + length frame) :: u32) = HDR_BYTES + length frame"
    using assms(3) by (intro unat_word_of_nat) (simp add: HDR_BYTES_def)
  then have sent: "sent d' = sent d @ [frame]"
    using c(3) assms(3) by (simp add: mem1_def mem_read_write_same HDR_BYTES_def)
  obtain q3 e where q3: "wait_used ring 0 q2 = Some (q3, e)" "vq_inv q3 rest" "vq_desc q3 = vq_desc q2"
    "vq_size q3 = vq_size q2" "avail_idx q3 = avail_idx q2" "used_idx q3 = vq_last_used_idx q3"
    using wait_used_completes [OF q2(2) h(5) c(1)] by metis
  have "chain (vq_desc q3) [h]" "distinct ([h] @ rest)" "\<forall>i\<in>set [h]. unat i < unat (vq_size q3)"
    using q2(8) q3(2-4) h(1,2) by (auto simp: vq_inv_def)
  then obtain q4 where q4: "free_chain q3 h = Some q4" "vq_inv q4 (h # rest)"
    "vq_avail q4 = vq_avail q3" "vq_used q4 = vq_used q3" "vq_last_used_idx q4 = vq_last_used_idx q3"
    using free_chain_whole [OF q3(2), of "[h]"] by auto
  have "tx_idle q4 (seen d')"
    unfolding tx_idle_def using q4 q3(5,6) c(2) by (auto simp: avail_idx_def used_idx_def)
  moreover have "net_send dev addr d mem q frame = Some (d', mem', q4, Inr (word_of_nat (length frame)))"
    using q2(1) r q3(1) q4(1) by simp
  ultimately show ?thesis using sent by blast
qed

text \<open>C36: Receiving: when the device has returned receive buffer \<open>head\<close> with \<open>len\<close> bytes, the caller's
  buffer begins with what the device wrote after the 12-byte header, cut to the space available,
  and the same buffer is back in the available ring, whole and writable.\<close>

theorem net_recv_correct:
  assumes "vq_shape q" "used_idx q \<noteq> vq_last_used_idx q" "used_entry q (vq_last_used_idx q) = (ident, len)"
    and "unat ident < unat (vq_size q)" "length bufs = unat (vq_size q)" "12 \<le> unat len" "unat len \<le> 1526"
    and frame: "frame = drop 12 (mem_read mem (bufs ! unat ident) (unat len))" and head: "head = (ucast ident :: u16)"
  shows "\<exists>q'. net_recv dev d mem bufs q out =
      Some (dev d q' mem, q', take (length out) frame @ drop (length frame) out, Some (min (length frame) (length out))) \<and>
    vq_shape q' \<and> vq_last_used_idx q' = vq_last_used_idx q + 1 \<and>
    avail_idx q' = avail_idx q + 1 \<and> avail_entry q' (avail_idx q) = head \<and>
    vq_desc q' ! unat head = (vq_desc q ! unat head)\<lparr>d_addr := bufs ! unat ident, d_len := 1526, d_flags := VRING_DESC_F_WRITE\<rparr>"
proof -
  have "unat ident < 2 ^ 16" using assms(4) unsigned_less [of "vq_size q", where ?'a = nat] by simp
  then have hd: "unat head = unat ident"
    by (simp add: head unsigned_ucast_eq take_bit_nat_eq_self)
  define q1 where "q1 = q\<lparr>vq_last_used_idx := vq_last_used_idx q + 1\<rparr>"
  define q2 where "q2 = q1\<lparr>vq_desc := (vq_desc q1)[unat head := (vq_desc q1 ! unat head)\<lparr>d_addr := bufs ! unat ident,
    d_len := word_of_nat RX_BUF_SIZE, d_flags := VRING_DESC_F_WRITE\<rparr>]\<rparr>"
  have shape: "vq_shape q2" using assms(1) by (simp add: q2_def q1_def vq_shape_def)
  have h: "unat head < length (vq_desc q1)" using assms(1,4) hd by (simp add: q1_def vq_shape_def)
  obtain q3 where push: "push_avail q2 head = Some q3" using push_avail_total [OF shape] by blast
  note p = push_avail_ring [OF shape push]
  let ?n = "min (unat len - HDR_BYTES) (length out)"
  have n: "\<not> RX_BUF_SIZE < HDR_BYTES + ?n" using assms(6,7) by (auto simp: RX_BUF_SIZE_def MTU_def HDR_BYTES_def)
  have "take ?n (drop HDR_BYTES (mem_read mem (bufs ! unat ident) RX_BUF_SIZE)) = take (length out) frame"
  proof -
    have "take (unat len) (mem_read mem (bufs ! unat ident) RX_BUF_SIZE) = mem_read mem (bufs ! unat ident) (unat len)"
      using assms(7) by (simp add: mem_read_def take_map RX_BUF_SIZE_def MTU_def min_def)
    then have "frame = take (unat len - 12) (drop 12 (mem_read mem (bufs ! unat ident) RX_BUF_SIZE))"
      unfolding frame by (metis drop_take)
    then show ?thesis by (simp add: HDR_BYTES_def min.commute)
  qed
  moreover have l: "length frame = unat len - HDR_BYTES" by (simp add: frame HDR_BYTES_def mem_read_def)
  moreover have "drop ?n out = drop (length frame) out" by (simp add: l min_def)
  moreover have "pop_used q = Some (q1, Some (ident, len))"
    using pop_used_eq [OF assms(1)] assms(2,3) by (simp add: q1_def)
  moreover have "arr_get bufs head = Some (bufs ! unat ident)" using assms(4,5) hd by (simp add: arr_get_def)
  moreover have "set_desc q1 head (bufs ! unat ident) (word_of_nat RX_BUF_SIZE) VRING_DESC_F_WRITE = Some q2"
    using h by (simp add: set_desc_eq q2_def)
  ultimately have "net_recv dev d mem bufs q out =
      Some (dev d q3 mem, q3, take (length out) frame @ drop (length frame) out, Some (min (length frame) (length out)))"
    using n push by (simp add: net_recv_def Let_def head [symmetric] del: arr_get_Some)
  moreover have "vq_desc q3 = vq_desc q2" "vq_last_used_idx q3 = vq_last_used_idx q2"
    using arg_cong [OF p(5), of vq_desc] arg_cong [OF p(5), of vq_last_used_idx] by simp_all
  moreover have "avail_idx q2 = avail_idx q" by (simp add: avail_idx_def q2_def q1_def)
  ultimately show ?thesis using p(1-3) h
    by (intro exI [of _ q3]) (simp add: q2_def q1_def RX_BUF_SIZE_def MTU_def)
qed

section \<open>A reference device\<close>

record Nic =
  nic_sent :: "u8 list list"
  nic_seen :: u16

definition nic :: "Nic dma" where
  "nic d q mem =
     (let desc = vq_desc q ! unat (avail_entry q (avail_idx q - 1)) in
      (d\<lparr>nic_sent := nic_sent d @ [drop 12 (mem_read mem (d_addr desc) (unat (d_len desc)))], nic_seen := avail_idx q\<rparr>,
       mem, \<lambda>_. put16 (vq_used q) 2 (used_idx q + 1)))"

lemma nic_ok: "net_tx_device nic_sent nic_seen nic"
  unfolding net_tx_device_def by (auto simp: nic_def Let_def dest: completes_at_once)

theorem net_send_correct_witness:
  "\<exists>d' mem' q'. net_send nic 0x1000 \<lparr>nic_sent = [], nic_seen = 0\<rparr> (\<lambda>_. 0) blk_queue [1, 2, 3] =
     Some (d', mem', q', Inr 3) \<and> nic_sent d' = [[1, 2, 3]] \<and> tx_idle q' (nic_seen d')"
proof -
  have "blk_idle blk_queue 0" using blk_queue_idle by (simp add: empty_disk_def)
  then have "tx_idle blk_queue (nic_seen \<lparr>nic_sent = [], nic_seen = 0\<rparr>)" by (auto simp: blk_idle_def tx_idle_def)
  from net_send_correct [OF nic_ok this, of "[1, 2, 3]" "0x1000" "\<lambda>_. 0"] show ?thesis by simp
qed

definition rx_sample :: Virtqueue where
  "rx_sample = \<lparr>vq_size = 2, vq_desc = [desc_default, desc_default], vq_avail = replicate 10 0,
     vq_used = [0, 0, 1, 0, 1, 0, 0, 0, 14, 0, 0, 0] @ replicate 10 0,
     vq_free_head = 0, vq_num_free = 0, vq_last_used_idx = 0\<rparr>"

theorem net_recv_correct_witness:
  "\<exists>q'. net_recv nic \<lparr>nic_sent = [], nic_seen = 0\<rparr> (\<lambda>a. if a = 0x200C then 5 else 6) [0x1000, 0x2000] rx_sample [0, 0, 0] =
     Some (nic \<lparr>nic_sent = [], nic_seen = 0\<rparr> q' (\<lambda>a. if a = 0x200C then 5 else 6), q', [5, 6, 0], Some 2) \<and> avail_entry q' (avail_idx rx_sample) = 1"
proof -
  have "vq_shape rx_sample" by (auto simp: rx_sample_def vq_shape_def intro!: exI [of _ 1])
  moreover have "used_idx rx_sample \<noteq> vq_last_used_idx rx_sample"
    "used_entry rx_sample (vq_last_used_idx rx_sample) = (1, 14)"
    by (simp_all add: rx_sample_def used_idx_def used_entry_def le_at16_def le_at32_def slot_of_def from_le_bytes_def)
  moreover have "drop 12 (mem_read (\<lambda>a. if a = 0x200C then 5 else 6) 0x2000 14) = [5, 6]"
    by (simp add: mem_read_def upt_rec)
  moreover have "vq_size rx_sample = 2" by (simp add: rx_sample_def)
  ultimately show ?thesis
    using net_recv_correct [of rx_sample 1 14 "[0x1000, 0x2000]" "[5, 6]" "\<lambda>a. if a = 0x200C then 5 else 6" 1 nic "\<lparr>nic_sent = [], nic_seen = 0\<rparr>" "[0, 0, 0]"]
    by (auto simp flip: numeral_2_eq_2)
qed

end
