(* ===== verification/Hyp_Console.thy ===== *)
theory Hyp_Console
  imports Hyp_Hw Hyp_Boot_Info Hyp_Utf8
begin

text \<open>
  The serial consoles (\<^verbatim>\<open>kernel/src/drivers/uart/\<close>) and the boot console that selects one of them
  (\<^verbatim>\<open>kernel/src/hal/console.rs\<close>). A driver's operation takes the accesses made so far to the accesses
  after it; an operation that polls a device which never gets ready does not return.

  The locale \<open>console\<close> is the \<^verbatim>\<open>Console\<close> trait: what a driver promises for \<^verbatim>\<open>putb\<close>, and what the
  line-oriented writers get from it. All three drivers and the boot console are instances.
\<close>

section \<open>PL011\<close>

definition UARTDR :: usize where "UARTDR = 0x000"
definition UARTFR :: usize where "UARTFR = 0x018"
definition UARTIBRD :: usize where "UARTIBRD = 0x024"
definition UARTFBRD :: usize where "UARTFBRD = 0x028"
definition UARTLCR_H :: usize where "UARTLCR_H = 0x02c"
definition UARTCR :: usize where "UARTCR = 0x030"
definition UARTIMSC :: usize where "UARTIMSC = 0x038"
definition UARTICR :: usize where "UARTICR = 0x044"
definition FR_TXFF :: u32 where "FR_TXFF = push_bit 5 1"
definition FR_RXFE :: u32 where "FR_RXFE = push_bit 4 1"

datatype Pl011Dev = Pl011Dev (pl_base: usize)

definition pl011_w :: "Pl011Dev \<Rightarrow> usize \<Rightarrow> u32 \<Rightarrow> unit hw" where
  "pl011_w d off v = write32 (pl_base d + off) v"

definition pl011_r :: "Bus \<Rightarrow> Pl011Dev \<Rightarrow> usize \<Rightarrow> u32 hw" where
  "pl011_r bus d off = read32 bus (pl_base d + off)"

text \<open>The integer and fractional parts of the baud rate divisor.\<close>

definition pl011_divisor :: "u32 \<Rightarrow> u32 \<times> u32" where
  "pl011_divisor clock_hz =
     (let clk = (if clock_hz = 0 then 24000000 else clock_hz); baud = (115200 :: u32);
          div_x64 = (ucast clk * 4 :: u64) div ucast baud in
      (ucast (drop_bit 6 div_x64), ucast (div_x64 AND 0x3f)))"

definition pl011_init :: "Pl011Dev \<Rightarrow> u32 \<Rightarrow> unit hw" where
  "pl011_init d clock_hz = do {
     let (ibrd, fbrd) = pl011_divisor clock_hz;
     pl011_w d UARTCR 0;
     pl011_w d UARTICR 0x7ff;
     pl011_w d UARTIMSC 0;
     pl011_w d UARTIBRD ibrd;
     pl011_w d UARTFBRD fbrd;
     pl011_w d UARTLCR_H (push_bit 5 0b11 OR push_bit 4 1);
     pl011_w d UARTCR (push_bit 0 1 OR push_bit 8 1 OR push_bit 9 1)
   }"

definition pl011_poll :: "Bus \<Rightarrow> Pl011Dev \<Rightarrow> hist \<Rightarrow> bool \<times> hist" where
  "pl011_poll bus d h = (let (v, h) = run_state (pl011_r bus d UARTFR) h in (v AND FR_TXFF \<noteq> 0, h))"

definition pl011_putb :: "Bus \<Rightarrow> Pl011Dev \<Rightarrow> u8 \<Rightarrow> hist \<Rightarrow> hist option" where
  "pl011_putb bus d b h = do {
     h \<leftarrow> spin (pl011_poll bus d) h;
     Some (snd (run_state (pl011_w d UARTDR (ucast b)) h))
   }"

definition pl011_getb :: "Bus \<Rightarrow> Pl011Dev \<Rightarrow> u8 option hw" where
  "pl011_getb bus d = do {
     v \<leftarrow> pl011_r bus d UARTFR;
     if v AND FR_RXFE \<noteq> 0 then State_Monad.return None
     else do { c \<leftarrow> pl011_r bus d UARTDR; State_Monad.return (Some (ucast (c AND 0xff))) }
   }"

section \<open>16550\<close>

record Ns16550Dev =
  ns_base :: usize
  ns_stride :: usize
  ns_port_io :: bool

definition RHR :: usize where "RHR = 0"
definition THR :: usize where "THR = 0"
definition IER :: usize where "IER = 1"
definition FCR :: usize where "FCR = 2"
definition LCR :: usize where "LCR = 3"
definition MCR :: usize where "MCR = 4"
definition LSR :: usize where "LSR = 5"
definition DLL :: usize where "DLL = 0"
definition DLH :: usize where "DLH = 1"
definition LSR_THRE :: u8 where "LSR_THRE = push_bit 5 1"
definition LSR_DR :: u8 where "LSR_DR = push_bit 0 1"

definition ns16550_new :: "usize \<Rightarrow> usize \<Rightarrow> Ns16550Dev" where
  "ns16550_new b stride = \<lparr>ns_base = b, ns_stride = (if stride = 0 then 1 else stride), ns_port_io = False\<rparr>"

definition ns16550_new_port :: "u16 \<Rightarrow> Ns16550Dev" where
  "ns16550_new_port port = \<lparr>ns_base = ucast port, ns_stride = 1, ns_port_io = True\<rparr>"

definition ns16550_w :: "Ns16550Dev \<Rightarrow> usize \<Rightarrow> u8 \<Rightarrow> unit hw" where
  "ns16550_w d reg v =
     (if ns_port_io d then outb (ucast (ns_base d + reg * ns_stride d)) v
      else write8 (ns_base d + reg * ns_stride d) v)"

definition ns16550_r :: "Bus \<Rightarrow> Ns16550Dev \<Rightarrow> usize \<Rightarrow> u8 hw" where
  "ns16550_r bus d reg =
     (if ns_port_io d then inb bus (ucast (ns_base d + reg * ns_stride d))
      else read8 bus (ns_base d + reg * ns_stride d))"

definition ns16550_divisor :: "u32 \<Rightarrow> u16" where
  "ns16550_divisor clock_hz = (let baud = (115200 :: u32) in ucast (max (clock_hz div (16 * baud)) 1))"

definition ns16550_init :: "Ns16550Dev \<Rightarrow> u32 \<Rightarrow> unit hw" where
  "ns16550_init d clock_hz = do {
     ns16550_w d IER 0;
     (if clock_hz \<noteq> 0 then do {
        let dv = ns16550_divisor clock_hz;
        ns16550_w d LCR 0x80;
        ns16550_w d DLL (ucast (dv AND 0xff));
        ns16550_w d DLH (ucast (drop_bit 8 dv AND 0xff))
      } else State_Monad.return ());
     ns16550_w d LCR 0x03;
     ns16550_w d FCR 0xc7;
     ns16550_w d MCR 0x0b
   }"

definition ns16550_poll :: "Bus \<Rightarrow> Ns16550Dev \<Rightarrow> hist \<Rightarrow> bool \<times> hist" where
  "ns16550_poll bus d h = (let (v, h) = run_state (ns16550_r bus d LSR) h in (v AND LSR_THRE = 0, h))"

definition ns16550_putb :: "Bus \<Rightarrow> Ns16550Dev \<Rightarrow> u8 \<Rightarrow> hist \<Rightarrow> hist option" where
  "ns16550_putb bus d b h = do {
     h \<leftarrow> spin (ns16550_poll bus d) h;
     Some (snd (run_state (ns16550_w d THR b) h))
   }"

definition ns16550_getb :: "Bus \<Rightarrow> Ns16550Dev \<Rightarrow> u8 option hw" where
  "ns16550_getb bus d = do {
     v \<leftarrow> ns16550_r bus d LSR;
     if v AND LSR_DR = 0 then State_Monad.return None
     else do { c \<leftarrow> ns16550_r bus d RHR; State_Monad.return (Some c) }
   }"

section \<open>BCM mini-UART\<close>

datatype BcmDev = BcmDev (bcm_base: usize)

definition AUX_MU_IO :: usize where "AUX_MU_IO = 0x40"
definition AUX_MU_IER :: usize where "AUX_MU_IER = 0x44"
definition AUX_MU_IIR :: usize where "AUX_MU_IIR = 0x48"
definition AUX_MU_LCR :: usize where "AUX_MU_LCR = 0x4c"
definition AUX_MU_MCR :: usize where "AUX_MU_MCR = 0x50"
definition AUX_MU_LSR :: usize where "AUX_MU_LSR = 0x54"
definition AUX_MU_CNTL :: usize where "AUX_MU_CNTL = 0x60"
definition AUX_MU_BAUD :: usize where "AUX_MU_BAUD = 0x68"
definition BCM_LSR_DR :: u32 where "BCM_LSR_DR = push_bit 0 1"
definition BCM_LSR_THRE :: u32 where "BCM_LSR_THRE = push_bit 5 1"

definition bcm_w :: "BcmDev \<Rightarrow> usize \<Rightarrow> u32 \<Rightarrow> unit hw" where
  "bcm_w d off v = write32 (bcm_base d + off) v"

definition bcm_r :: "Bus \<Rightarrow> BcmDev \<Rightarrow> usize \<Rightarrow> u32 hw" where
  "bcm_r bus d off = read32 bus (bcm_base d + off)"

definition bcm_init :: "BcmDev \<Rightarrow> u32 \<Rightarrow> unit hw" where
  "bcm_init d clock_hz = do {
     bcm_w d AUX_MU_CNTL 0;
     bcm_w d AUX_MU_IER 0;
     bcm_w d AUX_MU_IIR 0xc6;
     bcm_w d AUX_MU_LCR 0x03;
     bcm_w d AUX_MU_MCR 0x00;
     (if clock_hz \<noteq> 0 then bcm_w d AUX_MU_BAUD (let baud = 115200 in saturating_sub (clock_hz div (8 * baud)) 1)
      else State_Monad.return ());
     bcm_w d AUX_MU_CNTL 0x03
   }"

definition bcm_poll :: "Bus \<Rightarrow> BcmDev \<Rightarrow> hist \<Rightarrow> bool \<times> hist" where
  "bcm_poll bus d h = (let (v, h) = run_state (bcm_r bus d AUX_MU_LSR) h in (v AND BCM_LSR_THRE = 0, h))"

definition bcm_putb :: "Bus \<Rightarrow> BcmDev \<Rightarrow> u8 \<Rightarrow> hist \<Rightarrow> hist option" where
  "bcm_putb bus d b h = do {
     h \<leftarrow> spin (bcm_poll bus d) h;
     Some (snd (run_state (bcm_w d AUX_MU_IO (ucast b)) h))
   }"

definition bcm_getb :: "Bus \<Rightarrow> BcmDev \<Rightarrow> u8 option hw" where
  "bcm_getb bus d = do {
     v \<leftarrow> bcm_r bus d AUX_MU_LSR;
     if v AND BCM_LSR_DR = 0 then State_Monad.return None
     else do { c \<leftarrow> bcm_r bus d AUX_MU_IO; State_Monad.return (Some (ucast (c AND 0xff))) }
   }"

section \<open>The boot console\<close>

datatype BootConsole = BcPl011 Pl011Dev | BcNs16550 Ns16550Dev | BcBcmMiniUart BcmDev

fun boot_putb :: "Bus \<Rightarrow> BootConsole \<Rightarrow> u8 \<Rightarrow> hist \<Rightarrow> hist option" where
  "boot_putb bus (BcPl011 c) b = pl011_putb bus c b"
| "boot_putb bus (BcNs16550 c) b = ns16550_putb bus c b"
| "boot_putb bus (BcBcmMiniUart c) b = bcm_putb bus c b"

fun boot_getb :: "Bus \<Rightarrow> BootConsole \<Rightarrow> u8 option hw" where
  "boot_getb bus (BcPl011 c) = pl011_getb bus c"
| "boot_getb bus (BcNs16550 c) = ns16550_getb bus c"
| "boot_getb bus (BcBcmMiniUart c) = bcm_getb bus c"

text \<open>\<open>x86\<close> is the target architecture; the result is the driver now in \<^verbatim>\<open>CONSOLE\<close>.\<close>

definition console_install :: "bool \<Rightarrow> ConsoleSpec \<Rightarrow> BootConsole hw" where
  "console_install x86 spec =
     (case cs_kind spec of
        Pl011 \<Rightarrow> do {
          let d = Pl011Dev (rs_base (cs_regs spec));
          pl011_init d (cs_clock_hz spec);
          State_Monad.return (BcPl011 d)
        }
      | Ns16550 \<Rightarrow>
          if x86 \<and> rs_base (cs_regs spec) < 0x10000 then do {
            let d = ns16550_new_port (ucast (rs_base (cs_regs spec)));
            ns16550_init d (cs_clock_hz spec);
            State_Monad.return (BcNs16550 d)
          } else do {
            let stride = (if rs_size (cs_regs spec) < 0x80 then 1 else 4);
            let d = ns16550_new (rs_base (cs_regs spec)) stride;
            ns16550_init d (cs_clock_hz spec);
            State_Monad.return (BcNs16550 d)
          }
      | BcmMiniUart \<Rightarrow> do {
          let d = BcmDev (rs_base (cs_regs spec));
          bcm_init d (cs_clock_hz spec);
          State_Monad.return (BcBcmMiniUart d)
        })"

definition console_putb :: "Bus \<Rightarrow> BootConsole option \<Rightarrow> u8 \<Rightarrow> hist \<Rightarrow> hist option" where
  "console_putb bus c b h = (case c of Some c \<Rightarrow> boot_putb bus c b h | None \<Rightarrow> Some h)"

definition console_getb :: "Bus \<Rightarrow> BootConsole option \<Rightarrow> u8 option hw" where
  "console_getb bus c = (case c of Some c \<Rightarrow> boot_getb bus c | None \<Rightarrow> State_Monad.return None)"

partial_function (option) getb_blocking :: "Bus \<Rightarrow> BootConsole option \<Rightarrow> hist \<Rightarrow> (u8 \<times> hist) option" where
  "getb_blocking bus c h =
     (case run_state (console_getb bus c) h of
        (Some b, h) \<Rightarrow> Some (b, h)
      | (None, h) \<Rightarrow> getb_blocking bus c h)"

text \<open>\<^verbatim>\<open>write_str\<close> of \<^verbatim>\<open>Writer\<close> and of \<^verbatim>\<open>ConsoleWriter\<close>, over the byte output they use.\<close>

definition write_str :: "(u8 \<Rightarrow> hist \<Rightarrow> hist option) \<Rightarrow> string \<Rightarrow> hist \<Rightarrow> hist option" where
  "write_str putb s h =
     loop (\<lambda>b h. do { h \<leftarrow> (if b = 10 then putb 13 h else Some h); putb b h }) (as_bytes s) h"

section \<open>The console contract\<close>

text \<open>What a terminal on the line gets: newlines become carriage return and newline.\<close>

definition crlf :: "u8 list \<Rightarrow> u8 list" where
  "crlf bs = concat (map (\<lambda>b. if b = 10 then [13, 10] else [b]) bs)"

text \<open>The transmitter: \<open>status\<close> tells which access reads its status and whether the value read shows room,
  \<open>tx\<close> which access hands it which byte. A byte handed over is sent only when a status read has shown
  room since the byte before it; otherwise the transmitter may be full, and the byte counts as lost.\<close>

definition uart_step :: "(Access \<Rightarrow> bool option) \<Rightarrow> (Access \<Rightarrow> u8 option) \<Rightarrow> Access \<Rightarrow> bool \<times> u8 list \<Rightarrow> bool \<times> u8 list" where
  "uart_step status tx a = (\<lambda>(room, out).
     case tx a of
       Some b \<Rightarrow> (False, if room then out @ [b] else out)
     | None \<Rightarrow> (case status a of Some r \<Rightarrow> (r, out) | None \<Rightarrow> (room, out)))"

definition uart_state :: "(Access \<Rightarrow> bool option) \<Rightarrow> (Access \<Rightarrow> u8 option) \<Rightarrow> hist \<Rightarrow> bool \<times> u8 list" where
  "uart_state status tx h = fold (uart_step status tx) h (False, [])"

definition uart_wire :: "(Access \<Rightarrow> bool option) \<Rightarrow> (Access \<Rightarrow> u8 option) \<Rightarrow> hist \<Rightarrow> u8 list" where
  "uart_wire status tx h = snd (uart_state status tx h)"

text \<open>\<open>wire\<close> is what the accesses put on the line; \<open>live\<close> that the transmitter gets ready.\<close>

locale console =
  fixes putb :: "u8 \<Rightarrow> hist \<Rightarrow> hist option" and wire :: "hist \<Rightarrow> u8 list" and live :: bool
  assumes putb_sends: "live \<Longrightarrow> \<exists>t. putb b h = Some (h @ t) \<and> wire (h @ t) = wire h @ [b]"
begin

lemma write_str_sends:
  assumes live
  shows "\<exists>t. write_str putb s h = Some (h @ t) \<and> wire (h @ t) = wire h @ crlf (as_bytes s)"
proof -
  have "\<exists>t. loop (\<lambda>b h. do { h \<leftarrow> (if b = 10 then putb 13 h else Some h); putb b h }) bs h = Some (h @ t) \<and>
      wire (h @ t) = wire h @ crlf bs" for bs
  proof (induction bs arbitrary: h)
    case (Cons b bs)
    obtain t0 where t0: "(if b = 10 then putb 13 h else Some h) = Some (h @ t0)"
      "wire (h @ t0) = wire h @ (if b = 10 then [13] else [])"
      using putb_sends [OF assms, of 13 h] by (cases "b = 10") auto
    obtain t1 where t1: "putb b (h @ t0) = Some ((h @ t0) @ t1)" "wire ((h @ t0) @ t1) = wire (h @ t0) @ [b]"
      using putb_sends [OF assms] by blast
    obtain t2 where t2: "loop (\<lambda>b h. do { h \<leftarrow> (if b = 10 then putb 13 h else Some h); putb b h }) bs (h @ t0 @ t1) =
        Some ((h @ t0 @ t1) @ t2)" "wire ((h @ t0 @ t1) @ t2) = wire (h @ t0 @ t1) @ crlf bs"
      using Cons.IH by blast
    have "wire (h @ t0 @ t1 @ t2) = wire h @ crlf (b # bs)"
      using t0(2) t1(2) t2(2) by (simp add: crlf_def)
    then show ?case using t0(1) t1(1) t2(1) by (intro exI [of _ "t0 @ t1 @ t2"]) simp
  qed (simp add: crlf_def)
  then show ?thesis by (simp add: write_str_def)
qed

end

text \<open>A driver that polls its status register until it shows room and then writes its data register is a
  console.\<close>

lemma uart_state_append: "uart_state status tx (h @ t) = fold (uart_step status tx) t (uart_state status tx h)"
  by (simp add: uart_state_def)

lemma poll_then_write:
  assumes live: "answers poll"
    and poll: "\<And>h. \<exists>a. snd (poll h) = h @ [a] \<and> status a = Some (\<not> fst (poll h)) \<and> tx a = None"
    and w: "tx w = Some b"
  shows "\<exists>t. do { h \<leftarrow> spin poll h; Some (h @ [w]) } = Some (h @ t) \<and>
    uart_wire status tx (h @ t) = uart_wire status tx h @ [b]"
proof -
  have step: "uart_state status tx (snd (poll h)) = (\<not> fst (poll h), uart_wire status tx h)" for h
  proof -
    obtain a where "snd (poll h) = h @ [a]" "status a = Some (\<not> fst (poll h))" "tx a = None" using poll by blast
    then show ?thesis by (simp add: uart_state_append uart_step_def uart_wire_def split: prod.splits)
  qed
  then have same: "uart_wire status tx (snd (poll h)) = uart_wire status tx h" for h by (simp add: uart_wire_def)
  obtain n where n: "\<not> fst (poll (((\<lambda>h. snd (poll h)) ^^ n) h))"
    "spin poll h = Some (snd (poll (((\<lambda>h. snd (poll h)) ^^ n) h)))"
    using spin_last [OF live] by blast
  let ?l = "((\<lambda>h. snd (poll h)) ^^ n) h"
  have "uart_wire status tx (((\<lambda>h. snd (poll h)) ^^ k) h) = uart_wire status tx h" for k
    by (induction k) (simp_all add: same)
  then have st: "uart_state status tx (snd (poll ?l)) = (True, uart_wire status tx h)" using step n(1) by simp
  obtain t where t: "spin poll h = Some (h @ t)" using spin_ends [OF live, of "\<lambda>_. True"] poll by blast
  have "uart_wire status tx (h @ t @ [w]) = uart_wire status tx h @ [b]"
    using st n(2) t w by (simp add: uart_wire_def uart_state_append uart_step_def flip: append_assoc)
  then show ?thesis using t by (intro exI [of _ "t @ [w]"]) simp
qed

lemma ucast_byte: "ucast (ucast (b::u8) :: u32) = b"
  by (rule bit_word_eqI) (simp add: bit_ucast_iff)

text \<open>The registers of the three devices as their manuals describe them: \<^verbatim>\<open>UARTFR.TXFF\<close> set means full,
  \<^verbatim>\<open>LSR.THRE\<close> set means room.\<close>

fun boot_tx :: "BootConsole \<Rightarrow> Access \<Rightarrow> u8 option" where
  "boot_tx (BcPl011 d) (W32 a v) = (if a = pl_base d + UARTDR then Some (ucast v) else None)"
| "boot_tx (BcNs16550 d) (W8 a v) = (if \<not> ns_port_io d \<and> a = ns_base d + THR * ns_stride d then Some v else None)"
| "boot_tx (BcNs16550 d) (Out8 p v) =
     (if ns_port_io d \<and> p = ucast (ns_base d + THR * ns_stride d) then Some v else None)"
| "boot_tx (BcBcmMiniUart d) (W32 a v) = (if a = bcm_base d + AUX_MU_IO then Some (ucast v) else None)"
| "boot_tx c a = None"

fun boot_status :: "BootConsole \<Rightarrow> Access \<Rightarrow> bool option" where
  "boot_status (BcPl011 d) (R32 a v) = (if a = pl_base d + UARTFR then Some (\<not> bit v 5) else None)"
| "boot_status (BcNs16550 d) (R8 a v) =
     (if \<not> ns_port_io d \<and> a = ns_base d + LSR * ns_stride d then Some (bit v 5) else None)"
| "boot_status (BcNs16550 d) (In8 p v) =
     (if ns_port_io d \<and> p = ucast (ns_base d + LSR * ns_stride d) then Some (bit v 5) else None)"
| "boot_status (BcBcmMiniUart d) (R32 a v) = (if a = bcm_base d + AUX_MU_LSR then Some (bit v 5) else None)"
| "boot_status c a = None"

definition boot_wire :: "BootConsole \<Rightarrow> hist \<Rightarrow> u8 list" where
  "boot_wire c = uart_wire (boot_status c) (boot_tx c)"

fun boot_poll :: "Bus \<Rightarrow> BootConsole \<Rightarrow> hist \<Rightarrow> bool \<times> hist" where
  "boot_poll bus (BcPl011 d) = pl011_poll bus d"
| "boot_poll bus (BcNs16550 d) = ns16550_poll bus d"
| "boot_poll bus (BcBcmMiniUart d) = bcm_poll bus d"

lemma and_bit5: "(v :: 'a::len word) AND 32 = 0 \<longleftrightarrow> \<not> bit v 5"
  using and_exp_eq_0_iff_not_bit [of v 5] by simp

interpretation pl011: console "pl011_putb bus d" "boot_wire (BcPl011 d)" "answers (pl011_poll bus d)" for bus d
proof
  fix b h assume "answers (pl011_poll bus d)"
  then show "\<exists>t. pl011_putb bus d b h = Some (h @ t) \<and> boot_wire (BcPl011 d) (h @ t) = boot_wire (BcPl011 d) h @ [b]"
    unfolding pl011_putb_def pl011_w_def write32_def state.sel snd_conv boot_wire_def
    by (rule poll_then_write) (simp_all add: pl011_poll_def pl011_r_def read32_def ucast_byte FR_TXFF_def and_bit5)
qed

interpretation ns16550: console "ns16550_putb bus d" "boot_wire (BcNs16550 d)" "answers (ns16550_poll bus d)" for bus d
proof
  fix b h assume a: "answers (ns16550_poll bus d)"
  let ?w = "if ns_port_io d then Out8 (ucast (ns_base d + THR * ns_stride d)) b else W8 (ns_base d + THR * ns_stride d) b"
  have "snd (run_state (ns16550_w d THR b) h) = h @ [?w]" for h
    by (simp add: ns16550_w_def write8_def outb_def)
  then show "\<exists>t. ns16550_putb bus d b h = Some (h @ t) \<and> boot_wire (BcNs16550 d) (h @ t) = boot_wire (BcNs16550 d) h @ [b]"
    unfolding ns16550_putb_def boot_wire_def
    by (simp only:) (rule poll_then_write [OF a],
      auto simp: ns16550_poll_def ns16550_r_def read8_def inb_def LSR_THRE_def and_bit5 Let_def)
qed

interpretation bcm: console "bcm_putb bus d" "boot_wire (BcBcmMiniUart d)" "answers (bcm_poll bus d)" for bus d
proof
  fix b h assume "answers (bcm_poll bus d)"
  then show "\<exists>t. bcm_putb bus d b h = Some (h @ t) \<and> boot_wire (BcBcmMiniUart d) (h @ t) = boot_wire (BcBcmMiniUart d) h @ [b]"
    unfolding bcm_putb_def bcm_w_def write32_def state.sel snd_conv boot_wire_def
    by (rule poll_then_write) (simp_all add: bcm_poll_def bcm_r_def read32_def ucast_byte BCM_LSR_THRE_def and_bit5)
qed

interpretation boot: console "console_putb bus (Some c)" "boot_wire c" "answers (boot_poll bus c)" for bus c
proof
  fix b h assume "answers (boot_poll bus c)"
  then show "\<exists>t. console_putb bus (Some c) b h = Some (h @ t) \<and> boot_wire c (h @ t) = boot_wire c h @ [b]"
    using pl011.putb_sends ns16550.putb_sends bcm.putb_sends by (cases c) (simp_all add: console_putb_def)
qed

text \<open>C38: Writing a string to the boot console, whichever of the three drivers it is: when the transmitter
  always gets ready again, the call returns, and the line gets exactly the bytes of the string, in
  order, each newline preceded by a carriage return, after what was on it before. No byte is lost
  to a full transmitter: a byte counts as sent only when the device has shown room for it after the
  byte before.\<close>

theorem console_write_correct:
  assumes "answers (boot_poll bus c)"
  shows "\<exists>t. write_str (console_putb bus (Some c)) s h = Some (h @ t) \<and>
    boot_wire c (h @ t) = boot_wire c h @ crlf (as_bytes s)"
  using assms by (rule boot.write_str_sends)

theorem console_write_correct_witness:
  "\<exists>t. write_str (console_putb zero_bus (Some (BcPl011 (Pl011Dev 0x9000000)))) [CHR ''A'', CHR 10] [] = Some ([] @ t) \<and>
     boot_wire (BcPl011 (Pl011Dev 0x9000000)) t = [65, 13, 10]"
proof -
  have "answers (boot_poll zero_bus (BcPl011 (Pl011Dev 0x9000000)))"
    by (simp add: answers_def pl011_poll_def pl011_r_def read32_def zero_bus_def)
  moreover have "boot_wire (BcPl011 (Pl011Dev 0x9000000)) [] = []"
    by (simp add: boot_wire_def uart_wire_def uart_state_def)
  ultimately show ?thesis
    using console_write_correct [of zero_bus "BcPl011 (Pl011Dev 0x9000000)" "[CHR ''A'', CHR 10]" "[]"]
    by (simp add: crlf_def as_bytes_def byte_of_def)
qed

section \<open>Baud rates\<close>

text \<open>The divisors the drivers program: the PL011 pair is the divisor in units of 1/64, rounded
  down; the 16550 divisor always fits its two registers.\<close>

lemma pl011_divisor_exact:
  assumes "clock_hz \<noteq> 0" "pl011_divisor clock_hz = (ibrd, fbrd)"
  shows "unat ibrd * 64 + unat fbrd = unat clock_hz * 4 div 115200" "unat fbrd < 64"
proof -
  let ?dv = "(ucast clock_hz * 4 :: u64) div 115200"
  have c: "unat clock_hz < 2 ^ 32" using unsigned_less [of clock_hz, where ?'a = nat] by simp
  have "unat (ucast clock_hz * 4 :: u64) = unat clock_hz * 4"
    using c by (simp add: unat_mult_lt unat_ucast_widen)
  then have d: "unat ?dv = unat clock_hz * 4 div 115200" by (simp add: unat_div)
  then have lt: "unat ?dv < 2 ^ 32" using c by simp
  have "unat ibrd = unat ?dv div 64" "unat fbrd = unat ?dv mod 64"
  proof -
    have i: "ibrd = ucast (drop_bit 6 ?dv)" "fbrd = ucast (?dv AND 0x3f)"
      using assms by (auto simp: pl011_divisor_def Let_def)
    have "unat (drop_bit 6 ?dv) = unat ?dv div 64" using unat_drop_bit [of 6 ?dv] by simp
    moreover have "unat (?dv AND 0x3f) = unat ?dv mod 64"
      using and_mask_nat [of ?dv 6] by (simp add: mask_eq_exp_minus_1)
    ultimately show "unat ibrd = unat ?dv div 64" "unat fbrd = unat ?dv mod 64"
      using lt unfolding i by (simp_all add: unsigned_ucast_eq take_bit_nat_eq_self)
  qed
  then show "unat ibrd * 64 + unat fbrd = unat clock_hz * 4 div 115200" "unat fbrd < 64" using d by simp_all
qed

lemma ns16550_divisor_fits: "unat (ns16550_divisor clock_hz) = max (unat clock_hz div 1843200) 1"
proof -
  have c: "unat clock_hz < 2 ^ 32" using unsigned_less [of clock_hz, where ?'a = nat] by simp
  have "unat (max (clock_hz div (16 * 115200)) 1) = max (unat clock_hz div 1843200) 1"
    by (simp add: unat_max unat_div)
  moreover have "max (unat clock_hz div 1843200) 1 < 2 ^ 16" using c by (simp add: div_less_iff_less_mult)
  ultimately show ?thesis
    by (simp add: ns16550_divisor_def unsigned_ucast_eq take_bit_nat_eq_self)
qed

end
