(* ===== verification/Hyp_Percpu.thy ===== *)
theory Hyp_Percpu
  imports Hyp_Prelude
begin

text \<open>
  The table of CPUs (\<^verbatim>\<open>kernel/src/proc/percpu.rs\<close>): registration, the mask of online CPUs, and the
  queries on it. The lemmas show that the list of online CPUs is exactly the set of those that
  called \<^verbatim>\<open>mark_online\<close>, in order, and that the count agrees with it.
\<close>

section \<open>Definitions\<close>

definition MAX_CPUS :: nat where "MAX_CPUS = 8"

record PerCpuSlot =
  ps_cpu_id :: u32

text \<open>The atomics and the table shared by all CPUs.\<close>

record PerCpu =
  pc_online_mask :: u64
  pc_registered :: u32
  pc_table :: "PerCpuSlot option list"

definition percpu_new :: PerCpu where
  "percpu_new = \<lparr>pc_online_mask = 0, pc_registered = 0, pc_table = replicate MAX_CPUS None\<rparr>"

text \<open>\<open>self\<close> is the per-CPU register of the calling CPU; on x86-64 there is none.\<close>

definition write_self_id :: "bool \<Rightarrow> u32 \<Rightarrow> u64 \<Rightarrow> u64" where
  "write_self_id x86 ident self = (if x86 then self else ucast ident)"

definition current_cpu_id :: "bool \<Rightarrow> u64 \<Rightarrow> u32" where
  "current_cpu_id x86 self = (if x86 then 0 else ucast self)"

definition register_boot_cpu :: "bool \<Rightarrow> u32 \<Rightarrow> PerCpu \<times> u64 \<Rightarrow> PerCpu \<times> u64" where
  "register_boot_cpu x86 cpu_id = (\<lambda>(p, self).
     if MAX_CPUS \<le> unat cpu_id then (p, self)
     else (p\<lparr>pc_table := (pc_table p)[unat cpu_id := Some \<lparr>ps_cpu_id = cpu_id\<rparr>], pc_registered := pc_registered p + 1\<rparr>,
           write_self_id x86 cpu_id self))"

definition mark_online :: "u32 \<Rightarrow> PerCpu \<Rightarrow> PerCpu" where
  "mark_online cpu_id p =
     (if MAX_CPUS \<le> unat cpu_id then p
      else p\<lparr>pc_online_mask := pc_online_mask p OR push_bit (unat cpu_id) 1\<rparr>)"

definition online_mask :: "PerCpu \<Rightarrow> u64" where
  "online_mask p = pc_online_mask p"

definition count_ones :: "u64 \<Rightarrow> u32" where
  "count_ones w = word_of_nat (length (filter (bit w) [0..<64]))"

definition online_count :: "PerCpu \<Rightarrow> u32" where
  "online_count p = count_ones (online_mask p)"

definition registered_count :: "PerCpu \<Rightarrow> u32" where
  "registered_count p = pc_registered p"

definition online_cpus :: "PerCpu \<Rightarrow> u32 list" where
  "online_cpus p = (let m = online_mask p in
     filter (\<lambda>i. m AND push_bit (unat i) 1 \<noteq> 0) (urange 0 (word_of_nat MAX_CPUS)))"

section \<open>The online CPUs\<close>

text \<open>Only bits of CPUs in range are ever set.\<close>

definition percpu_wf :: "PerCpu \<Rightarrow> bool" where
  "percpu_wf p \<longleftrightarrow> length (pc_table p) = MAX_CPUS \<and> (\<forall>n\<ge>8. \<not> bit (pc_online_mask p) n)"

lemma percpu_new_wf: "percpu_wf percpu_new"
  by (simp add: percpu_wf_def percpu_new_def)

lemma mark_online_wf [inv_rules]: "percpu_wf p \<Longrightarrow> percpu_wf (mark_online c p)"
  by (auto simp: percpu_wf_def mark_online_def MAX_CPUS_def bit_or_iff bit_exp_iff)

lemma register_wf [inv_rules]: "percpu_wf p \<Longrightarrow> percpu_wf (fst (register_boot_cpu x86 c (p, s)))"
  by (simp add: percpu_wf_def register_boot_cpu_def)

lemma bit_test: "n < 64 \<Longrightarrow> (m :: u64) AND push_bit n 1 \<noteq> 0 \<longleftrightarrow> bit m n"
proof -
  assume n: "n < 64"
  have "m AND push_bit n 1 = (if bit m n then push_bit n 1 else 0)"
    by (rule bit_word_eqI) (auto simp: bit_and_iff bit_exp_iff)
  moreover have "push_bit n (1::u64) \<noteq> 0" using n by (simp add: push_bit_eq_0_iff)
  ultimately show ?thesis by simp
qed

text \<open>After any CPUs have marked themselves online, the list of online CPUs is exactly the set of
  the identifiers below the limit that did, in increasing order without repetition, and the count
  is its length.\<close>

theorem online_cpus_correct:
  assumes "p = fold mark_online ids percpu_new"
  shows "online_cpus p = filter (\<lambda>i. i \<in> set ids) (urange 0 8) \<and> unat (online_count p) = length (online_cpus p)"
proof -
  have wf: "percpu_wf (fold mark_online ids q)" if "percpu_wf q" for q
    using that by (induction ids arbitrary: q) (simp_all add: mark_online_wf)
  have "bit (pc_online_mask (fold mark_online ids q)) n \<longleftrightarrow> bit (pc_online_mask q) n \<or> (\<exists>i\<in>set ids. unat i = n)"
    if "n < 8" for n q
    using that
    by (induction ids arbitrary: q) (auto simp: mark_online_def MAX_CPUS_def bit_or_iff bit_exp_iff)
  then have m: "bit (pc_online_mask p) n \<longleftrightarrow> (\<exists>i\<in>set ids. unat i = n)" if "n < 8" for n
    using that assms by (simp add: percpu_new_def)
  have in8: "i \<in> set (urange 0 8) \<longleftrightarrow> unat i < 8" for i :: u32
    by (simp add: set_urange word_less_nat_alt)
  have mem: "bit (pc_online_mask p) (unat i) \<longleftrightarrow> i \<in> set ids" if "i \<in> set (urange 0 8)" for i
    using m [of "unat i"] that in8 [of i] by (auto simp: unat_inj_iff)
  have cpus: "online_cpus p = filter (\<lambda>i. bit (pc_online_mask p) (unat i)) (urange 0 8)"
    unfolding online_cpus_def Let_def online_mask_def MAX_CPUS_def
    by (simp, rule filter_cong) (use in8 in \<open>auto simp: bit_test [simplified]\<close>)
  have "filter (bit (pc_online_mask p)) [0..<64] = filter (bit (pc_online_mask p)) ([0..<8] @ [8..<64])"
    by (simp flip: upt_add_eq_append [of 0 8 56, simplified])
  also have "\<dots> = filter (bit (pc_online_mask p)) [0..<8]"
    using wf [OF percpu_new_wf] assms by (simp add: percpu_wf_def filter_empty_conv)
  also have "[0..<8] = map unat (urange 0 (8 :: u32))"
    by (intro nth_equalityI) (simp_all add: nth_urange unat_word_of_nat)
  finally have "length (filter (bit (pc_online_mask p)) [0..<64]) = length (online_cpus p)"
    unfolding cpus by (simp add: filter_map comp_def)
  moreover have "length (online_cpus p) \<le> 8"
    unfolding cpus by (rule order_trans [OF length_filter_le]) simp
  ultimately have "unat (online_count p) = length (online_cpus p)"
    by (simp add: online_count_def count_ones_def online_mask_def unat_word_of_nat)
  moreover have "online_cpus p = filter (\<lambda>i. i \<in> set ids) (urange 0 8)"
    unfolding cpus by (rule filter_cong) (use mem in auto)
  ultimately show ?thesis by simp
qed

theorem online_cpus_correct_witness:
  "online_cpus (fold mark_online [3, 0, 9, 3] percpu_new) = filter (\<lambda>i. i \<in> set [3, 0, 9, 3]) (urange 0 8) \<and>
   unat (online_count (fold mark_online [3, 0, 9, 3] percpu_new)) = length (online_cpus (fold mark_online [3, 0, 9, 3] percpu_new))"
  by (rule online_cpus_correct) (rule refl)

end
