(* ===== verification/Hyp_Gic.thy ===== *)
theory Hyp_Gic
  imports Hyp_Hw Hyp_Boot_Info Hyp_Percpu Hyp_Sched
begin

text \<open>
  The AArch64 interrupt and timer code: the GICv2 and GICv3 drivers and their dispatch
  (\<^verbatim>\<open>arch/aarch64/gic/\<close>), the generic timer (\<^verbatim>\<open>timer.rs\<close>), the PSCI firmware calls (\<^verbatim>\<open>psci.rs\<close>) and
  the start of secondary CPUs (\<^verbatim>\<open>smp.rs\<close>). The locale \<open>irq_controller\<close> is what the interrupt entry
  relies on; both controllers are instances. The lemmas show that every interrupt taken is ended
  exactly once with its own number, after its handler, and that spurious ones are not ended.
\<close>

section \<open>GICv2\<close>

definition GICD_CTLR :: usize where "GICD_CTLR = 0x000"
definition GICD_ISENABLER :: usize where "GICD_ISENABLER = 0x100"
definition GICC_CTLR :: usize where "GICC_CTLR = 0x000"
definition GICC_PMR :: usize where "GICC_PMR = 0x004"
definition GICC_IAR :: usize where "GICC_IAR = 0x00c"
definition GICC_EOIR :: usize where "GICC_EOIR = 0x010"

record GicV2State =
  v2_gicd :: usize
  v2_gicc :: usize

definition gicv2_init :: "usize \<Rightarrow> usize \<Rightarrow> GicV2State hw" where
  "gicv2_init gicd gicc = do {
     write32 (gicd + GICD_CTLR) 1;
     write32 (gicc + GICC_PMR) 0xff;
     write32 (gicc + GICC_CTLR) 1;
     State_Monad.return \<lparr>v2_gicd = gicd, v2_gicc = gicc\<rparr>
   }"

definition gicv2_init_per_cpu :: "GicV2State \<Rightarrow> unit hw" where
  "gicv2_init_per_cpu s =
     (if v2_gicc s = 0 then State_Monad.return ()
      else do {
        write32 (v2_gicc s + GICC_PMR) 0xff;
        write32 (v2_gicc s + GICC_CTLR) 1
      })"

definition gicv2_enable_ppi :: "GicV2State \<Rightarrow> u32 \<Rightarrow> unit hw" where
  "gicv2_enable_ppi s intid =
     (let reg = (ucast (intid div 32) :: usize); bt = intid mod 32 in
      write32 (v2_gicd s + GICD_ISENABLER + reg * 4) (push_bit (unat bt) 1))"

definition gicv2_ack :: "Bus \<Rightarrow> GicV2State \<Rightarrow> u32 hw" where
  "gicv2_ack bus s = do {
     iar \<leftarrow> read32 bus (v2_gicc s + GICC_IAR);
     State_Monad.return (iar AND 0x3ff)
   }"

definition gicv2_eoi :: "GicV2State \<Rightarrow> u32 \<Rightarrow> unit hw" where
  "gicv2_eoi s intid = write32 (v2_gicc s + GICC_EOIR) intid"

section \<open>GICv3\<close>

definition V3_GICD_CTLR :: usize where "V3_GICD_CTLR = 0x000"
definition GICR_WAKER :: usize where "GICR_WAKER = 0x0014"
definition GICR_WAKER_PROC_SLEEP :: u32 where "GICR_WAKER_PROC_SLEEP = push_bit 1 1"
definition GICR_WAKER_CHILDREN_ASLEEP :: u32 where "GICR_WAKER_CHILDREN_ASLEEP = push_bit 2 1"
definition GICR_SGI_OFF :: usize where "GICR_SGI_OFF = 0x10000"
definition GICR_ISENABLER0 :: usize where "GICR_ISENABLER0 = 0x0100"

record GicV3State =
  v3_gicd :: usize
  v3_gicr :: usize

definition write_icc_sre_el1 :: "u64 \<Rightarrow> unit hw" where
  "write_icc_sre_el1 v = do { msr ''ICC_SRE_EL1'' v; barrier ''isb'' }"

definition write_icc_pmr_el1 :: "u64 \<Rightarrow> unit hw" where
  "write_icc_pmr_el1 v = msr ''ICC_PMR_EL1'' v"

definition write_icc_igrpen1_el1 :: "u64 \<Rightarrow> unit hw" where
  "write_icc_igrpen1_el1 v = msr ''ICC_IGRPEN1_EL1'' v"

definition read_icc_iar1_el1 :: "Bus \<Rightarrow> u64 hw" where
  "read_icc_iar1_el1 bus = do { v \<leftarrow> mrs bus ''ICC_IAR1_EL1''; barrier ''isb''; State_Monad.return v }"

definition write_icc_eoir1_el1 :: "u64 \<Rightarrow> unit hw" where
  "write_icc_eoir1_el1 v = msr ''ICC_EOIR1_EL1'' v"

text \<open>The bounded poll for the redistributor: \<open>n\<close> rounds at most.\<close>

primrec waker_poll :: "Bus \<Rightarrow> usize \<Rightarrow> nat \<Rightarrow> unit hw" where
  "waker_poll bus waker_addr 0 = State_Monad.return ()"
| "waker_poll bus waker_addr (Suc n) = do {
     v \<leftarrow> read32 bus waker_addr;
     if v AND GICR_WAKER_CHILDREN_ASLEEP = 0 then State_Monad.return () else waker_poll bus waker_addr n
   }"

definition gicv3_wake :: "Bus \<Rightarrow> usize \<Rightarrow> unit hw" where
  "gicv3_wake bus gicr = do {
     let waker_addr = gicr + GICR_WAKER;
     w \<leftarrow> read32 bus waker_addr;
     write32 waker_addr (w AND NOT GICR_WAKER_PROC_SLEEP);
     waker_poll bus waker_addr 1000000
   }"

definition gicv3_init :: "Bus \<Rightarrow> usize \<Rightarrow> usize \<Rightarrow> GicV3State hw" where
  "gicv3_init bus gicd gicr = do {
     gicv3_wake bus gicr;
     write_icc_sre_el1 1;
     write_icc_pmr_el1 0xff;
     write_icc_igrpen1_el1 1;
     write32 (gicd + V3_GICD_CTLR) (push_bit 1 1 OR push_bit 4 1);
     State_Monad.return \<lparr>v3_gicd = gicd, v3_gicr = gicr\<rparr>
   }"

definition gicv3_init_per_cpu :: "Bus \<Rightarrow> GicV3State \<Rightarrow> unit hw" where
  "gicv3_init_per_cpu bus s =
     (if v3_gicr s = 0 then State_Monad.return ()
      else do {
        gicv3_wake bus (v3_gicr s);
        write_icc_sre_el1 1;
        write_icc_pmr_el1 0xff;
        write_icc_igrpen1_el1 1
      })"

definition gicv3_enable_ppi :: "GicV3State \<Rightarrow> u32 \<Rightarrow> unit hw" where
  "gicv3_enable_ppi s intid =
     (let bt = intid mod 32 in
      write32 (v3_gicr s + GICR_SGI_OFF + GICR_ISENABLER0) (push_bit (unat bt) 1))"

definition gicv3_ack :: "Bus \<Rightarrow> u32 hw" where
  "gicv3_ack bus = do { v \<leftarrow> read_icc_iar1_el1 bus; State_Monad.return (ucast (v AND 0x00ffffff)) }"

definition gicv3_eoi :: "u32 \<Rightarrow> unit hw" where
  "gicv3_eoi intid = write_icc_eoir1_el1 (ucast intid)"

section \<open>The generic timer\<close>

definition TIMER_PPI :: u32 where "TIMER_PPI = 30"

definition a64_read_freq :: "Bus \<Rightarrow> u64 hw" where
  "a64_read_freq bus = mrs bus ''cntfrq_el0''"

definition a64_read_count :: "Bus \<Rightarrow> u64 hw" where
  "a64_read_count bus = do { barrier ''isb''; mrs bus ''cntpct_el0'' }"

definition timer_rearm :: "Bus \<Rightarrow> unit hw" where
  "timer_rearm bus = do { freq \<leftarrow> a64_read_freq bus; msr ''cntp_tval_el0'' (freq div 100) }"

definition is_timer_irq :: "u32 \<Rightarrow> bool" where
  "is_timer_irq intid \<longleftrightarrow> intid = TIMER_PPI"

section \<open>Dispatch\<close>

text \<open>The states of both drivers; \<^verbatim>\<open>BootInfo\<close> selects the one in use.\<close>

record GicState =
  gs_v2 :: GicV2State
  gs_v3 :: GicV3State

definition gic_init :: "Bus \<Rightarrow> IntcSpec \<Rightarrow> GicState \<Rightarrow> GicState hw" where
  "gic_init bus ic g =
     (case ic_kind ic of
        GicV2 \<Rightarrow> do {
          s \<leftarrow> gicv2_init (rs_base (ic_primary ic)) (rs_base (ic_secondary ic));
          State_Monad.return (g\<lparr>gs_v2 := s\<rparr>)
        }
      | GicV3 \<Rightarrow> do {
          s \<leftarrow> gicv3_init bus (rs_base (ic_primary ic)) (rs_base (ic_secondary ic));
          State_Monad.return (g\<lparr>gs_v3 := s\<rparr>)
        }
      | _ \<Rightarrow> State_Monad.return g)"

definition gic_init_per_cpu :: "Bus \<Rightarrow> IntcKind \<Rightarrow> GicState \<Rightarrow> unit hw" where
  "gic_init_per_cpu bus k g =
     (case k of GicV2 \<Rightarrow> gicv2_init_per_cpu (gs_v2 g) | GicV3 \<Rightarrow> gicv3_init_per_cpu bus (gs_v3 g)
      | _ \<Rightarrow> State_Monad.return ())"

definition enable_ppi :: "IntcKind \<Rightarrow> GicState \<Rightarrow> u32 \<Rightarrow> unit hw" where
  "enable_ppi k g intid =
     (case k of GicV2 \<Rightarrow> gicv2_enable_ppi (gs_v2 g) intid | GicV3 \<Rightarrow> gicv3_enable_ppi (gs_v3 g) intid
      | _ \<Rightarrow> State_Monad.return ())"

definition timer_init :: "Bus \<Rightarrow> IntcKind \<Rightarrow> GicState \<Rightarrow> unit hw" where
  "timer_init bus k g = do {
     freq \<leftarrow> a64_read_freq bus;
     msr ''cntp_tval_el0'' (freq div 100);
     msr ''cntp_ctl_el0'' 1;
     enable_ppi k g TIMER_PPI
   }"

text \<open>The body of \<^verbatim>\<open>handle_irq\<close> over the operations of the controller in use; the log line of an
  unrouted interrupt is not modelled.\<close>

definition irq_body :: "Bus \<Rightarrow> u32 hw \<Rightarrow> (u32 \<Rightarrow> unit hw) \<Rightarrow> 'c Machine \<Rightarrow> 'c Machine hw" where
  "irq_body bus ack eoi m = do {
     intid \<leftarrow> ack;
     if intid = 1023 then State_Monad.return m
     else do {
       m \<leftarrow> (if is_timer_irq intid then do { timer_rearm bus; State_Monad.return (sched_on_tick m) }
             else State_Monad.return m);
       eoi intid;
       State_Monad.return m
     }
   }"

definition handle_irq :: "Bus \<Rightarrow> IntcKind \<Rightarrow> GicState \<Rightarrow> 'c Machine \<Rightarrow> 'c Machine hw" where
  "handle_irq bus k g m =
     (case k of
        GicV2 \<Rightarrow> irq_body bus (gicv2_ack bus (gs_v2 g)) (gicv2_eoi (gs_v2 g)) m
      | GicV3 \<Rightarrow> irq_body bus (gicv3_ack bus) gicv3_eoi m
      | _ \<Rightarrow> State_Monad.return m)"

section \<open>PSCI\<close>

definition PSCI_VERSION :: u32 where "PSCI_VERSION = 0x84000000"
definition PSCI_CPU_ON :: u32 where "PSCI_CPU_ON = 0xc4000003"
definition PSCI_SYSTEM_OFF :: u32 where "PSCI_SYSTEM_OFF = 0x84000008"
definition PSCI_SYSTEM_RESET :: u32 where "PSCI_SYSTEM_RESET = 0x84000009"
definition PSCI_SUCCESS :: i32 where "PSCI_SUCCESS = 0"
definition PSCI_NOT_SUPPORTED :: i32 where "PSCI_NOT_SUPPORTED = - 1"
definition PSCI_INVALID_PARAMETERS :: i32 where "PSCI_INVALID_PARAMETERS = - 2"
definition PSCI_DENIED :: i32 where "PSCI_DENIED = - 3"
definition PSCI_ALREADY_ON :: i32 where "PSCI_ALREADY_ON = - 4"

text \<open>The firmware does not return from the first two calls.\<close>

definition psci_system_off :: "Bus \<Rightarrow> u64 hw" where
  "psci_system_off bus = hvc bus PSCI_SYSTEM_OFF []"

definition psci_system_reset :: "Bus \<Rightarrow> u64 hw" where
  "psci_system_reset bus = hvc bus PSCI_SYSTEM_RESET []"

definition psci_version :: "Bus \<Rightarrow> u32 hw" where
  "psci_version bus = do { v \<leftarrow> hvc bus PSCI_VERSION []; State_Monad.return (ucast v) }"

definition cpu_on :: "Bus \<Rightarrow> u64 \<Rightarrow> u64 \<Rightarrow> u64 \<Rightarrow> i32 hw" where
  "cpu_on bus target_mpidr entry_point context_id = do {
     barrier ''dsb sy'';
     ret \<leftarrow> hvc bus PSCI_CPU_ON [target_mpidr, entry_point, context_id];
     State_Monad.return (ucast ret)
   }"

section \<open>Secondary CPUs\<close>

text \<open>The loop over the CPU numbers, with the count of CPUs woken; other CPUs have no part in it.\<close>

primrec wake_loop :: "Bus \<Rightarrow> u64 \<Rightarrow> u32 list \<Rightarrow> u32 \<Rightarrow> u32 hw" where
  "wake_loop bus entry [] woken = State_Monad.return woken"
| "wake_loop bus entry (cpu_id # ids) woken = do {
     ret \<leftarrow> cpu_on bus (ucast cpu_id) entry (ucast cpu_id);
     if ret = PSCI_SUCCESS then wake_loop bus entry ids (woken + 1)
     else if ret = PSCI_INVALID_PARAMETERS \<or> ret = PSCI_DENIED then State_Monad.return woken
     else wake_loop bus entry ids woken
   }"

text \<open>The final wait only reads the online count for the log, so it has no effect on the state.\<close>

definition start_secondaries :: "Bus \<Rightarrow> u64 \<Rightarrow> bool \<Rightarrow> PerCpu \<times> u64 \<Rightarrow> (bool \<times> (PerCpu \<times> u64) \<times> u32 option) hw" where
  "start_secondaries bus entry started p =
     (if started then State_Monad.return (True, p, None)
      else do {
        let p = register_boot_cpu False 0 p;
        let p = (mark_online 0 (fst p), snd p);
        woken \<leftarrow> wake_loop bus entry (urange 1 (word_of_nat MAX_CPUS)) 0;
        State_Monad.return (True, p, Some (woken + 1))
      })"

text \<open>Exception vectors and the interrupt mask (\<^verbatim>\<open>exceptions.rs\<close>); \<open>vectors\<close> is the address of the table.\<close>

definition install_vectors :: "u64 \<Rightarrow> unit hw" where
  "install_vectors vectors = do { msr ''vbar_el1'' vectors; barrier ''isb'' }"

definition a64_enable_irqs :: "unit hw" where
  "a64_enable_irqs = msr ''daifclr'' 3"

definition a64_disable_irqs :: "unit hw" where
  "a64_disable_irqs = msr ''daifset'' 3"

definition a64_late_init :: "Bus \<Rightarrow> IntcSpec \<Rightarrow> u64 \<Rightarrow> GicState \<Rightarrow> GicState hw" where
  "a64_late_init bus ic vectors g = do {
     install_vectors vectors;
     g \<leftarrow> gic_init bus ic g;
     timer_init bus (ic_kind ic) g;
     State_Monad.return g
   }"

text \<open>The start of a secondary CPU up to its idle loop.\<close>

definition secondary_main ::
  "Bus \<Rightarrow> IntcKind \<Rightarrow> GicState \<Rightarrow> u64 \<Rightarrow> u32 \<Rightarrow> PerCpu \<times> u64 \<Rightarrow> (PerCpu \<times> u64) hw" where
  "secondary_main bus k g vectors cpu_id p = do {
     let p = register_boot_cpu False cpu_id p;
     install_vectors vectors;
     gic_init_per_cpu bus k g;
     timer_init bus k g;
     a64_enable_irqs;
     State_Monad.return (mark_online cpu_id (fst p), snd p)
   }"

section \<open>The interrupt controller contract\<close>

text \<open>An acknowledge leaves accesses of its own, none of them an end of interrupt; an end of
  interrupt is one access that names the interrupt; and the timer's registers are not the
  controller's.\<close>

locale irq_controller =
  fixes ack :: "u32 hw" and eoi :: "u32 \<Rightarrow> unit hw" and eoi_access :: "u32 \<Rightarrow> Access" and ends :: "Access \<Rightarrow> bool"
  assumes ack_none: "\<exists>t. snd (run_state ack h) = h @ t \<and> \<not> list_ex ends t"
    and eoi_one: "run_state (eoi i) h = ((), h @ [eoi_access i])"
    and eoi_ends: "ends (eoi_access i)"
    and eoi_names: "eoi_access i = eoi_access j \<Longrightarrow> i = j"
    and timer_apart: "\<not> ends (Mrs r v)" "\<not> ends (Msr ''cntp_tval_el0'' v)"
begin

lemma irq_body_run:
  assumes "run_state ack h = (i, h1)"
  shows "run_state (irq_body bus ack eoi m) h =
    (if i = 1023 then (m, h1)
     else if i = TIMER_PPI
       then (sched_on_tick m, h1 @ [Mrs ''cntfrq_el0'' (bus_mrs bus h1 ''cntfrq_el0''),
               Msr ''cntp_tval_el0'' (bus_mrs bus h1 ''cntfrq_el0'' div 100), eoi_access i])
     else (m, h1 @ [eoi_access i]))"
  using assms
  by (simp add: irq_body_def is_timer_irq_def timer_rearm_def a64_read_freq_def hw_ops eoi_one)

lemma irq_body_ends:
  assumes i: "i = fst (run_state ack h)"
  shows "\<exists>t. snd (run_state (irq_body bus ack eoi m) h) = h @ t @ (if i = 1023 then [] else [eoi_access i]) \<and>
    \<not> list_ex ends t \<and>
    fst (run_state (irq_body bus ack eoi m) h) = (if i = TIMER_PPI then sched_on_tick m else m) \<and>
    (i = TIMER_PPI \<longrightarrow> (\<exists>f. last t = Msr ''cntp_tval_el0'' (f div 100) \<and> Mrs ''cntfrq_el0'' f \<in> set t))"
proof -
  obtain t1 where t1: "snd (run_state ack h) = h @ t1" "\<not> list_ex ends t1" using ack_none by blast
  then have "run_state ack h = (i, h @ t1)" using i by (metis prod.collapse)
  note run = irq_body_run [OF this, of bus m]
  let ?f = "bus_mrs bus (h @ t1) ''cntfrq_el0''"
  let ?t = "t1 @ (if i = TIMER_PPI then [Mrs ''cntfrq_el0'' ?f, Msr ''cntp_tval_el0'' (?f div 100)] else [])"
  have "i = TIMER_PPI \<Longrightarrow> i \<noteq> 1023" by (simp add: TIMER_PPI_def)
  then show ?thesis
    using run t1 by (intro exI [of _ ?t]) (auto simp: timer_apart)
qed

end

fun v2_ends :: "GicV2State \<Rightarrow> Access \<Rightarrow> bool" where
  "v2_ends s (W32 a v) = (a = v2_gicc s + GICC_EOIR)"
| "v2_ends s _ = False"

fun v3_ends :: "Access \<Rightarrow> bool" where
  "v3_ends (Msr r v) = (r = ''ICC_EOIR1_EL1'')"
| "v3_ends _ = False"

lemma ucast_u32: "ucast (ucast (i::u32) :: u64) = i"
  by (rule bit_word_eqI) (simp add: bit_ucast_iff)

lemma ucast_u32_inj: "(ucast (i::u32) :: u64) = ucast j \<Longrightarrow> i = j"
  by (metis ucast_u32)

interpretation gicv2: irq_controller "gicv2_ack bus s" "gicv2_eoi s" "W32 (v2_gicc s + GICC_EOIR)" "v2_ends s" for bus s
  by unfold_locales (simp_all add: gicv2_ack_def gicv2_eoi_def hw_ops)

interpretation gicv3: irq_controller "gicv3_ack bus" gicv3_eoi "\<lambda>i. Msr ''ICC_EOIR1_EL1'' (ucast i)" v3_ends for bus
  by unfold_locales
    (auto simp: gicv3_ack_def gicv3_eoi_def read_icc_iar1_el1_def write_icc_eoir1_el1_def hw_ops dest: ucast_u32_inj)

text \<open>C37: On GICv2 and GICv3 alike, \<^verbatim>\<open>handle_irq\<close> ends an interrupt that is not spurious by exactly one
  write that names the acknowledged number, and that write is its last access; a spurious one is
  not ended. A scheduler tick happens exactly for the timer interrupt, after the timer has been
  re-armed for a hundredth of its frequency.\<close>

theorem handle_irq_correct:
  assumes "k = GicV2 \<and> i = fst (run_state (gicv2_ack bus (gs_v2 g)) h) \<and>
             e = W32 (v2_gicc (gs_v2 g) + GICC_EOIR) i \<and> is_end = v2_ends (gs_v2 g) \<or>
           k = GicV3 \<and> i = fst (run_state (gicv3_ack bus) h) \<and>
             e = Msr ''ICC_EOIR1_EL1'' (ucast i) \<and> is_end = v3_ends"
  shows "\<exists>t. snd (run_state (handle_irq bus k g m) h) = h @ t @ (if i = 1023 then [] else [e]) \<and>
    \<not> list_ex is_end t \<and>
    fst (run_state (handle_irq bus k g m) h) = (if i = TIMER_PPI then sched_on_tick m else m) \<and>
    (i = TIMER_PPI \<longrightarrow> (\<exists>f. last t = Msr ''cntp_tval_el0'' (f div 100) \<and> Mrs ''cntfrq_el0'' f \<in> set t))"
  using assms
  by (elim disjE conjE) (simp_all only: handle_irq_def IntcKind.case gicv2.irq_body_ends gicv3.irq_body_ends)

section \<open>Waking the other CPUs\<close>

definition psci_stops :: "i32 \<Rightarrow> bool" where
  "psci_stops r \<longleftrightarrow> r = PSCI_INVALID_PARAMETERS \<or> r = PSCI_DENIED"

definition cpu_on_trace :: "u64 \<Rightarrow> u32 \<Rightarrow> u64 \<Rightarrow> hist" where
  "cpu_on_trace entry c r = [Fence ''dsb sy'', Hvc PSCI_CPU_ON [ucast c, entry, ucast c] r]"

lemma wake_loop_trace:
  "\<exists>rets. length rets \<le> length ids \<and>
     run_state (wake_loop bus entry ids w) h =
       (w + word_of_nat (length (filter (\<lambda>r. (ucast r :: i32) = PSCI_SUCCESS) rets)),
        h @ concat (map2 (cpu_on_trace entry) ids rets)) \<and>
     (\<forall>r\<in>set (butlast rets). \<not> psci_stops (ucast r)) \<and>
     (length rets < length ids \<longrightarrow> rets \<noteq> [] \<and> psci_stops (ucast (last rets)))"
proof (induction ids arbitrary: w h)
  case Nil
  show ?case by (intro exI [of _ "[]"]) simp
next
  case (Cons c ids)
  let ?r = "bus_hvc bus (h @ [Fence ''dsb sy'']) PSCI_CPU_ON [ucast c, entry, ucast c]"
  let ?h = "h @ cpu_on_trace entry c ?r"
  let ?w = "if (ucast ?r :: i32) = PSCI_SUCCESS then w + 1 else w"
  have run: "run_state (wake_loop bus entry (c # ids) w) h =
      (if psci_stops (ucast ?r) then (w, ?h) else run_state (wake_loop bus entry ids ?w) ?h)"
    by (auto simp: cpu_on_def hw_ops cpu_on_trace_def psci_stops_def PSCI_SUCCESS_def
        PSCI_INVALID_PARAMETERS_def PSCI_DENIED_def)
  show ?case
  proof (cases "psci_stops (ucast ?r)")
    case True
    then have "(ucast ?r :: i32) \<noteq> PSCI_SUCCESS"
      by (auto simp: psci_stops_def PSCI_SUCCESS_def PSCI_INVALID_PARAMETERS_def PSCI_DENIED_def)
    then show ?thesis using run True by (intro exI [of _ "[?r]"]) simp
  next
    case False
    obtain rets where "length rets \<le> length ids"
      "run_state (wake_loop bus entry ids ?w) ?h =
        (?w + word_of_nat (length (filter (\<lambda>r. (ucast r :: i32) = PSCI_SUCCESS) rets)),
         ?h @ concat (map2 (cpu_on_trace entry) ids rets))"
      "\<forall>r\<in>set (butlast rets). \<not> psci_stops (ucast r)"
      "length rets < length ids \<longrightarrow> rets \<noteq> [] \<and> psci_stops (ucast (last rets))"
      using Cons.IH [of ?w ?h] by blast
    then show ?thesis using run False by (intro exI [of _ "?r # rets"]) auto
  qed
qed

text \<open>The first \<^verbatim>\<open>start_secondaries\<close> marks the boot CPU online and asks the firmware for CPUs 1, 2, ... in
  order, each with its own number as target and as context, until the firmware answers that there
  is no such CPU or CPU 7 was asked; it expects one CPU more than the firmware accepted. A second
  call does nothing.\<close>

theorem start_secondaries_correct:
  "(\<exists>rets. length rets \<le> 7 \<and>
     run_state (start_secondaries bus entry False (p, self)) h =
       ((True, (mark_online 0 (fst (register_boot_cpu False 0 (p, self))), 0),
         Some (word_of_nat (1 + length (filter (\<lambda>r. (ucast r :: i32) = PSCI_SUCCESS) rets)))),
        h @ concat (map2 (cpu_on_trace entry) [1, 2, 3, 4, 5, 6, 7] rets)) \<and>
     (\<forall>r\<in>set (butlast rets). \<not> psci_stops (ucast r)) \<and>
     (length rets < 7 \<longrightarrow> rets \<noteq> [] \<and> psci_stops (ucast (last rets)))) \<and>
   run_state (start_secondaries bus entry True (p, self)) h = ((True, (p, self), None), h)"
proof -
  have "urange 1 (word_of_nat MAX_CPUS) = [1, 2, 3, 4, 5, 6, 7 :: u32]"
    by (simp add: urange_def MAX_CPUS_def upt_rec)
  moreover have "snd (register_boot_cpu False 0 (p, self)) = 0"
    by (simp add: register_boot_cpu_def write_self_id_def MAX_CPUS_def)
  moreover obtain rets where r: "length rets \<le> 7"
    "run_state (wake_loop bus entry [1, 2, 3, 4, 5, 6, 7] 0) h =
       (word_of_nat (length (filter (\<lambda>r. (ucast r :: i32) = PSCI_SUCCESS) rets)),
        h @ concat (map2 (cpu_on_trace entry) [1, 2, 3, 4, 5, 6, 7] rets))"
    "\<forall>r\<in>set (butlast rets). \<not> psci_stops (ucast r)"
    "length rets < 7 \<longrightarrow> rets \<noteq> [] \<and> psci_stops (ucast (last rets))"
    using wake_loop_trace [of "[1, 2, 3, 4, 5, 6, 7]" bus entry 0 h]
    by (auto simp: eval_nat_numeral simp del: wake_loop.simps)
  ultimately show ?thesis
    by (intro conjI exI [of _ rets]) (simp_all add: start_secondaries_def Let_def ac_simps del: wake_loop.simps)
qed

text \<open>A machine of three CPUs, whose firmware refuses the fourth.\<close>

definition three_cpus :: Bus where
  "three_cpus = zero_bus\<lparr>bus_hvc := \<lambda>h f args. if hd args < 3 then 0 else - 2\<rparr>"

theorem start_secondaries_correct_witness:
  "\<exists>rets. length rets \<le> 7 \<and>
     snd (run_state (start_secondaries three_cpus 0x40080000 False (percpu_new, 0)) []) =
       concat (map2 (cpu_on_trace 0x40080000) [1, 2, 3, 4, 5, 6, 7] rets) \<and>
     (\<forall>r\<in>set (butlast rets). \<not> psci_stops (ucast r)) \<and>
     (length rets < 7 \<longrightarrow> rets \<noteq> [] \<and> psci_stops (ucast (last rets)))"
  using start_secondaries_correct [where bus = three_cpus and entry = "0x40080000" and p = percpu_new and self = 0 and h = "[]"]
  by auto

theorem handle_irq_correct_witness:
  "\<exists>t. snd (run_state (handle_irq (zero_bus\<lparr>bus_r32 := \<lambda>h a. 30\<rparr>) GicV2
      \<lparr>gs_v2 = \<lparr>v2_gicd = 0x8000000, v2_gicc = 0x8010000\<rparr>, gs_v3 = \<lparr>v3_gicd = 0, v3_gicr = 0\<rparr>\<rparr>
      \<lparr>k_regs = (), k_masked = True, k_sched = sched_new, k_next_tid = 1, k_procs = proctable_new\<rparr>) []) =
      t @ [W32 0x8010010 30] \<and> \<not> list_ex (v2_ends \<lparr>v2_gicd = 0x8000000, v2_gicc = 0x8010000\<rparr>) t \<and>
      (\<exists>f. last t = Msr ''cntp_tval_el0'' (f div 100) \<and> Mrs ''cntfrq_el0'' f \<in> set t)"
  using handle_irq_correct [of GicV2 30 "zero_bus\<lparr>bus_r32 := \<lambda>h a. 30\<rparr>"
      "\<lparr>gs_v2 = \<lparr>v2_gicd = 0x8000000, v2_gicc = 0x8010000\<rparr>, gs_v3 = \<lparr>v3_gicd = 0, v3_gicr = 0\<rparr>\<rparr>" "[]"
      "W32 0x8010010 30" "v2_ends \<lparr>v2_gicd = 0x8000000, v2_gicc = 0x8010000\<rparr>"
      "\<lparr>k_regs = (), k_masked = True, k_sched = sched_new, k_next_tid = 1, k_procs = proctable_new\<rparr>"]
  by (auto simp add: TIMER_PPI_def gicv2_ack_def read32_def GICC_EOIR_def)

end
