(* ===== verification/Hyp_X86.thy ===== *)
theory Hyp_X86
  imports Hyp_Hw Hyp_Boot_Info Hyp_Sched
begin

text \<open>
  The x86-64 platform devices (\<^verbatim>\<open>arch/x86_64/\<close>): the 8259 interrupt controllers (\<^verbatim>\<open>pic.rs\<close>), the local
  and the I/O APIC (\<^verbatim>\<open>apic.rs\<close>, \<^verbatim>\<open>ioapic.rs\<close>), the interval timer and the time stamp counter (\<^verbatim>\<open>pit.rs\<close>,
  \<^verbatim>\<open>tsc.rs\<close>, \<^verbatim>\<open>timer.rs\<close>), power control (\<^verbatim>\<open>acpi.rs\<close>), the early serial port (\<^verbatim>\<open>serial.rs\<close>) and the
  descriptor tables (\<^verbatim>\<open>gdt.rs\<close>). The lemmas read the accesses back as the devices do: the 8259s end
  up remapped and masked, the redirection table of the I/O APIC is what \<^verbatim>\<open>init\<close> and \<^verbatim>\<open>route_irq\<close> promise,
  the measured frequency is exact, and the TSS descriptor decodes to its base and limit.
\<close>

section \<open>Ports\<close>

definition io_wait :: "unit hw" where
  "io_wait = outb 0x80 0"

section \<open>The 8259 interrupt controllers\<close>

definition PIC1_CMD :: u16 where "PIC1_CMD = 0x20"
definition PIC1_DATA :: u16 where "PIC1_DATA = 0x21"
definition PIC2_CMD :: u16 where "PIC2_CMD = 0xA0"
definition PIC2_DATA :: u16 where "PIC2_DATA = 0xA1"
definition ICW1_INIT :: u8 where "ICW1_INIT = 0x10"
definition ICW1_ICW4 :: u8 where "ICW1_ICW4 = 0x01"
definition ICW4_8086 :: u8 where "ICW4_8086 = 0x01"

definition mask_all :: "unit hw" where
  "mask_all = do {
     outb PIC1_CMD (ICW1_INIT OR ICW1_ICW4);
     io_wait;
     outb PIC2_CMD (ICW1_INIT OR ICW1_ICW4);
     io_wait;
     outb PIC1_DATA 0x20;
     io_wait;
     outb PIC2_DATA 0x28;
     io_wait;
     outb PIC1_DATA 4;
     io_wait;
     outb PIC2_DATA 2;
     io_wait;
     outb PIC1_DATA ICW4_8086;
     io_wait;
     outb PIC2_DATA ICW4_8086;
     io_wait;
     outb PIC1_DATA 0xFF;
     outb PIC2_DATA 0xFF
   }"

section \<open>The state of the platform code\<close>

text \<open>The statics \<^verbatim>\<open>LAPIC_BASE\<close>, \<^verbatim>\<open>IOAPIC_BASE\<close>, \<^verbatim>\<open>TSC_FREQ_HZ\<close> and \<^verbatim>\<open>TICKS\<close>.\<close>

record X86State =
  x_lapic_base :: u64
  x_ioapic_base :: u64
  x_tsc_freq :: u64
  x_ticks :: u64

section \<open>The local APIC\<close>

definition REG_ID :: usize where "REG_ID = 0x20"
definition REG_TPR :: usize where "REG_TPR = 0x80"
definition REG_EOI :: usize where "REG_EOI = 0xB0"
definition REG_LDR :: usize where "REG_LDR = 0xD0"
definition REG_DFR :: usize where "REG_DFR = 0xE0"
definition REG_SVR :: usize where "REG_SVR = 0xF0"
definition REG_LVT_TIMER :: usize where "REG_LVT_TIMER = 0x320"
definition REG_LVT_LINT0 :: usize where "REG_LVT_LINT0 = 0x350"
definition REG_LVT_LINT1 :: usize where "REG_LVT_LINT1 = 0x360"
definition REG_LVT_ERR :: usize where "REG_LVT_ERR = 0x370"
definition REG_TIMER_INITIAL :: usize where "REG_TIMER_INITIAL = 0x380"
definition REG_TIMER_CURRENT :: usize where "REG_TIMER_CURRENT = 0x390"
definition REG_TIMER_DIVIDE :: usize where "REG_TIMER_DIVIDE = 0x3E0"
definition SVR_ENABLE :: u32 where "SVR_ENABLE = 0x100"
definition SPURIOUS_VECTOR :: u32 where "SPURIOUS_VECTOR = 0xFF"
definition LVT_MASKED :: u32 where "LVT_MASKED = push_bit 16 1"
definition LVT_PERIODIC :: u32 where "LVT_PERIODIC = push_bit 17 1"

definition lapic_read :: "Bus \<Rightarrow> u64 \<Rightarrow> usize \<Rightarrow> u32 hw" where
  "lapic_read bus base reg = read32 bus (base + reg)"

definition lapic_write :: "u64 \<Rightarrow> usize \<Rightarrow> u32 \<Rightarrow> unit hw" where
  "lapic_write base reg val = write32 (base + reg) val"

definition lapic_init :: "IntcSpec \<Rightarrow> X86State \<Rightarrow> X86State hw" where
  "lapic_init ic x = do {
     let base = rs_base (ic_primary ic);
     lapic_write base REG_TPR 0;
     lapic_write base REG_DFR 0xFFFFFFFF;
     lapic_write base REG_LDR 0x01000000;
     lapic_write base REG_LVT_LINT0 LVT_MASKED;
     lapic_write base REG_LVT_LINT1 LVT_MASKED;
     lapic_write base REG_LVT_ERR 0xFE;
     lapic_write base REG_SVR (SVR_ENABLE OR SPURIOUS_VECTOR);
     State_Monad.return (x\<lparr>x_lapic_base := base\<rparr>)
   }"

definition lapic_eoi :: "X86State \<Rightarrow> unit hw" where
  "lapic_eoi x =
     (if x_lapic_base x = 0 then State_Monad.return () else lapic_write (x_lapic_base x) REG_EOI 0)"

definition lapic_init_timer :: "X86State \<Rightarrow> u8 \<Rightarrow> u32 \<Rightarrow> unit hw" where
  "lapic_init_timer x vector interval_ticks =
     (if x_lapic_base x = 0 then State_Monad.return ()
      else do {
        lapic_write (x_lapic_base x) REG_TIMER_DIVIDE 3;
        lapic_write (x_lapic_base x) REG_LVT_TIMER (LVT_PERIODIC OR ucast vector);
        lapic_write (x_lapic_base x) REG_TIMER_INITIAL interval_ticks
      })"

definition timer_current :: "Bus \<Rightarrow> X86State \<Rightarrow> u32 hw" where
  "timer_current bus x =
     (if x_lapic_base x = 0 then State_Monad.return 0 else lapic_read bus (x_lapic_base x) REG_TIMER_CURRENT)"

definition lapic_id :: "Bus \<Rightarrow> X86State \<Rightarrow> u32 hw" where
  "lapic_id bus x =
     (if x_lapic_base x = 0 then State_Monad.return 0
      else do { v \<leftarrow> lapic_read bus (x_lapic_base x) REG_ID; State_Monad.return (drop_bit 24 v) })"

section \<open>The I/O APIC\<close>

definition IOREGSEL :: usize where "IOREGSEL = 0x00"
definition IOWIN :: usize where "IOWIN = 0x10"
definition IOAPICVER :: u32 where "IOAPICVER = 0x01"
definition IOREDTBL_BASE :: u32 where "IOREDTBL_BASE = 0x10"
definition REDTBL_MASKED :: u64 where "REDTBL_MASKED = push_bit 16 1"

definition ioapic_read :: "Bus \<Rightarrow> u64 \<Rightarrow> u32 \<Rightarrow> u32 hw" where
  "ioapic_read bus base reg = do { write32 (base + IOREGSEL) reg; read32 bus (base + IOWIN) }"

definition ioapic_write :: "u64 \<Rightarrow> u32 \<Rightarrow> u32 \<Rightarrow> unit hw" where
  "ioapic_write base reg val = do { write32 (base + IOREGSEL) reg; write32 (base + IOWIN) val }"

definition write_redirect :: "u64 \<Rightarrow> u32 \<Rightarrow> u64 \<Rightarrow> unit hw" where
  "write_redirect base gsi value = do {
     let lo = (ucast (value AND 0xFFFFFFFF) :: u32);
     let hi = (ucast (drop_bit 32 value) :: u32);
     ioapic_write base (IOREDTBL_BASE + gsi * 2) lo;
     ioapic_write base (IOREDTBL_BASE + gsi * 2 + 1) hi
   }"

definition ioapic_init :: "Bus \<Rightarrow> IntcSpec \<Rightarrow> X86State \<Rightarrow> X86State hw" where
  "ioapic_init bus ic x =
     (let base = rs_base (ic_secondary ic) in
      if base = 0 then State_Monad.return x
      else do {
        ver \<leftarrow> ioapic_read bus base IOAPICVER;
        let n_lines = (drop_bit 16 ver AND 0xFF) + 1;
        State_Monad.traverse_list (\<lambda>i. write_redirect base i REDTBL_MASKED) (urange 0 n_lines);
        State_Monad.return (x\<lparr>x_ioapic_base := base\<rparr>)
      })"

definition route_irq :: "Bus \<Rightarrow> X86State \<Rightarrow> u32 \<Rightarrow> u8 \<Rightarrow> unit hw" where
  "route_irq bus x gsi vector =
     (if x_ioapic_base x = 0 then State_Monad.return ()
      else do {
        ident \<leftarrow> lapic_id bus x;
        let entry = ucast vector OR push_bit 56 (ucast ident :: u64);
        write_redirect (x_ioapic_base x) gsi entry
      })"

section \<open>The time stamp counter\<close>

text \<open>\<^verbatim>\<open>rdtsc\<close> leaves the counter in two 32-bit registers, which \<^verbatim>\<open>read\<close> joins.\<close>

definition tsc_read :: "Bus \<Rightarrow> u64 hw" where
  "tsc_read bus = do {
     t \<leftarrow> rdtsc bus;
     let lo = (ucast t :: u32);
     let hi = (ucast (drop_bit 32 t) :: u32);
     State_Monad.return (push_bit 32 (ucast hi) OR ucast lo)
   }"

definition tsc_set_freq :: "u64 \<Rightarrow> X86State \<Rightarrow> X86State" where
  "tsc_set_freq hz x = x\<lparr>x_tsc_freq := hz\<rparr>"

definition tsc_read_freq :: "X86State \<Rightarrow> u64" where
  "tsc_read_freq x = (if x_tsc_freq x = 0 then 1000000000 else x_tsc_freq x)"

section \<open>Calibration\<close>

definition PIT_CHANNEL2_DATA :: u16 where "PIT_CHANNEL2_DATA = 0x42"
definition PIT_CMD :: u16 where "PIT_CMD = 0x43"
definition PORT_61 :: u16 where "PORT_61 = 0x61"
definition PIT_FREQ_HZ :: u32 where "PIT_FREQ_HZ = 1193182"

definition pit_poll :: "Bus \<Rightarrow> hist \<Rightarrow> bool \<times> hist" where
  "pit_poll bus h = (let (v, h) = run_state (inb bus PORT_61) h in (v AND 0x20 = 0, h))"

definition pit_count :: "u32 \<Rightarrow> u16" where
  "pit_count microseconds = ucast (min ((ucast PIT_FREQ_HZ * ucast microseconds) div 1000000) (0xFFFF :: u64))"

definition pit_arm :: "Bus \<Rightarrow> u16 \<Rightarrow> unit hw" where
  "pit_arm bus n = do {
     p61 \<leftarrow> inb bus PORT_61;
     outb PORT_61 ((p61 AND NOT 0x02) OR 0x01);
     outb PIT_CMD 0xB0;
     outb PIT_CHANNEL2_DATA (ucast (n AND 0xFF));
     outb PIT_CHANNEL2_DATA (ucast (drop_bit 8 n))
   }"

definition measure_pit :: "Bus \<Rightarrow> u32 \<Rightarrow> u64 hw \<Rightarrow> hist \<Rightarrow> (u64 \<times> hist) option" where
  "measure_pit bus microseconds rd h = do {
     let (_, h) = run_state (pit_arm bus (pit_count microseconds)) h;
     let (start, h) = run_state rd h;
     h \<leftarrow> spin (pit_poll bus) h;
     let (end, h) = run_state rd h;
     Some (end - start, h)
   }"

definition calibrate_tsc :: "Bus \<Rightarrow> hist \<Rightarrow> (u64 \<times> hist) option" where
  "calibrate_tsc bus h = do {
     let micros = (50000 :: u32);
     (delta, h) \<leftarrow> measure_pit bus micros (tsc_read bus) h;
     Some (delta * 1000000 div ucast micros, h)
   }"

definition tsc_poll :: "Bus \<Rightarrow> u64 \<Rightarrow> u64 \<Rightarrow> hist \<Rightarrow> bool \<times> hist" where
  "tsc_poll bus start ticks h = (let (t, h) = run_state (tsc_read bus) h in (t - start < ticks, h))"

definition lapic_count :: "Bus \<Rightarrow> usize \<Rightarrow> u64 hw" where
  "lapic_count bus base = do { v \<leftarrow> read32 bus (base + 0x390); State_Monad.return (0xFFFFFFFF - ucast v) }"

definition calibrate_lapic :: "Bus \<Rightarrow> IntcSpec \<Rightarrow> X86State \<Rightarrow> hist \<Rightarrow> (u64 \<times> hist) option" where
  "calibrate_lapic bus ic x h =
     (let base = rs_base (ic_primary ic); tsc_freq = tsc_read_freq x in
      if base = 0 \<or> tsc_freq = 0 then Some (0, h)
      else do {
        let calib_us = (50000 :: u64);
        let tsc_ticks_to_wait = saturating_mul tsc_freq calib_us div 1000000;
        let (_, h) = run_state (write32 (base + 0x3E0) 3) h;
        let (_, h) = run_state (write32 (base + 0x320) (push_bit 16 1 OR 0x20)) h;
        let (_, h) = run_state (write32 (base + 0x380) 0xFFFFFFFF) h;
        let (tsc_start, h) = run_state (tsc_read bus) h;
        let (lapic_start, h) = run_state (lapic_count bus base) h;
        h \<leftarrow> spin (tsc_poll bus tsc_start tsc_ticks_to_wait) h;
        let (lapic_end, h) = run_state (lapic_count bus base) h;
        let (_, h) = run_state (write32 (base + 0x380) 0) h;
        Some (saturating_mul (lapic_end - lapic_start) 1000000 div calib_us, h)
      })"

section \<open>The scheduler timer\<close>

definition SCHEDULER_HZ :: u64 where "SCHEDULER_HZ = 100"
definition TICK_VECTOR :: u8 where "TICK_VECTOR = 0x20"

definition x64_timer_init :: "Bus \<Rightarrow> IntcSpec \<Rightarrow> X86State \<Rightarrow> hist \<Rightarrow> (X86State \<times> hist) option" where
  "x64_timer_init bus ic x h = do {
     (tsc_hz, h) \<leftarrow> calibrate_tsc bus h;
     let x = tsc_set_freq tsc_hz x;
     (bus_hz, h) \<leftarrow> calibrate_lapic bus ic x h;
     if bus_hz \<noteq> 0
     then (let interval = (ucast (bus_hz div SCHEDULER_HZ) :: u32) in
           Some (x, snd (run_state (lapic_init_timer x TICK_VECTOR (max interval 1)) h)))
     else Some (x, h)
   }"

definition x64_on_tick :: "X86State \<Rightarrow> X86State" where
  "x64_on_tick x = x\<lparr>x_ticks := x_ticks x + 1\<rparr>"

definition x64_read_freq :: "X86State \<Rightarrow> u64" where
  "x64_read_freq x = tsc_read_freq x"

definition x64_read_count :: "Bus \<Rightarrow> u64 hw" where
  "x64_read_count bus = tsc_read bus"

text \<open>\<^verbatim>\<open>late_init\<close>, after the descriptor tables are loaded.\<close>

definition x64_late_init :: "Bus \<Rightarrow> IntcSpec \<Rightarrow> X86State \<Rightarrow> hist \<Rightarrow> (X86State \<times> hist) option" where
  "x64_late_init bus ic x h = do {
     let (_, h) = run_state mask_all h;
     let (x, h) = run_state (lapic_init ic x) h;
     let (x, h) = run_state (ioapic_init bus ic x) h;
     x64_timer_init bus ic x h
   }"

section \<open>Power and the early serial port\<close>

definition QEMU_SHUTDOWN_PORT :: u16 where "QEMU_SHUTDOWN_PORT = 0x604"
definition QEMU_SHUTDOWN_PORT_BOCHS :: u16 where "QEMU_SHUTDOWN_PORT_BOCHS = 0xB004"
definition QEMU_SHUTDOWN_PORT_VBOX :: u16 where "QEMU_SHUTDOWN_PORT_VBOX = 0x4004"
definition QEMU_DEBUG_EXIT_PORT :: u16 where "QEMU_DEBUG_EXIT_PORT = 0xF4"
definition PS2_CMD :: u16 where "PS2_CMD = 0x64"
definition RESET_CMD :: u8 where "RESET_CMD = 0xFE"

text \<open>The writes before the CPU halts for good.\<close>

definition x64_system_off :: "unit hw" where
  "x64_system_off = do {
     outw QEMU_SHUTDOWN_PORT 0x2000;
     outw QEMU_SHUTDOWN_PORT_BOCHS 0x2000;
     outw QEMU_SHUTDOWN_PORT_VBOX 0x3400;
     outl QEMU_DEBUG_EXIT_PORT 0x10
   }"

definition x64_system_reset :: "unit hw" where
  "x64_system_reset = outb PS2_CMD RESET_CMD"

definition COM1 :: u16 where "COM1 = 0x3F8"

definition early_init :: "unit hw" where
  "early_init = do {
     outb (COM1 + 1) 0x00;
     outb (COM1 + 3) 0x80;
     outb COM1 0x01;
     outb (COM1 + 1) 0x00;
     outb (COM1 + 3) 0x03;
     outb (COM1 + 2) 0xC7;
     outb (COM1 + 4) 0x0B
   }"

section \<open>The descriptor table\<close>

definition GDT_ENTRIES :: nat where "GDT_ENTRIES = 7"

text \<open>\<^verbatim>\<open>size_of::<Tss>()\<close> of the packed structure.\<close>

definition TSS_SIZE :: u64 where "TSS_SIZE = 4 + 3 * 8 + 8 + 7 * 8 + 8 + 2 + 2"

definition tss_descriptor_low :: "u64 \<Rightarrow> u64 \<Rightarrow> u64" where
  "tss_descriptor_low base limit =
     (let acc = 0x89; granularity = 0 in
      (limit AND 0xFFFF) OR push_bit 16 (base AND 0xFFFF) OR push_bit 32 (drop_bit 16 base AND 0xFF)
      OR push_bit 40 acc OR push_bit 48 (drop_bit 16 limit AND 0xF) OR push_bit 52 granularity
      OR push_bit 56 (drop_bit 24 base AND 0xFF))"

definition tss_descriptor_high :: "u64 \<Rightarrow> u64" where
  "tss_descriptor_high base = drop_bit 32 base AND 0xFFFFFFFF"

text \<open>The table that \<^verbatim>\<open>install\<close> builds and loads, for a TSS at \<open>tss_base\<close>.\<close>

definition gdt_table :: "u64 \<Rightarrow> u64 list" where
  "gdt_table tss_base = [0, 0x00AF9A000000FFFF, 0x00CF92000000FFFF, 0x00AFFA000000FFFF, 0x00CFF2000000FFFF,
     tss_descriptor_low tss_base (TSS_SIZE - 1), tss_descriptor_high tss_base]"

section \<open>The 8259s as the devices see them\<close>

text \<open>An 8259: the initialisation word it expects next (0 when it is initialised), whether a fourth one
  will come, and what the words set.\<close>

record Pic8259 =
  pic_expects :: nat
  pic_icw4 :: bool
  pic_offset :: u8
  pic_wiring :: u8
  pic_mode :: u8
  pic_mask :: u8

definition pic_cmd :: "u8 \<Rightarrow> Pic8259 \<Rightarrow> Pic8259" where
  "pic_cmd v p =
     (if bit v 4 then p\<lparr>pic_expects := 2, pic_icw4 := bit v 0, pic_mask := 0\<rparr> else p)"

definition pic_data :: "u8 \<Rightarrow> Pic8259 \<Rightarrow> Pic8259" where
  "pic_data v p =
     (if pic_expects p = 2 then p\<lparr>pic_expects := 3, pic_offset := v\<rparr>
      else if pic_expects p = 3 then p\<lparr>pic_expects := (if pic_icw4 p then 4 else 0), pic_wiring := v\<rparr>
      else if pic_expects p = 4 then p\<lparr>pic_expects := 0, pic_mode := v\<rparr>
      else p\<lparr>pic_mask := v\<rparr>)"

fun pics_see :: "Access \<Rightarrow> Pic8259 \<times> Pic8259 \<Rightarrow> Pic8259 \<times> Pic8259" where
  "pics_see (Out8 a v) (p1, p2) =
     (if a = 0x20 then (pic_cmd v p1, p2) else if a = 0x21 then (pic_data v p1, p2)
      else if a = 0xA0 then (p1, pic_cmd v p2) else if a = 0xA1 then (p1, pic_data v p2)
      else (p1, p2))"
| "pics_see _ p = p"

lemmas pic_ports = PIC1_CMD_def PIC1_DATA_def PIC2_CMD_def PIC2_DATA_def ICW1_INIT_def ICW1_ICW4_def ICW4_8086_def

text \<open>Whatever state the firmware left the two 8259s in, \<^verbatim>\<open>mask_all\<close> leaves both initialised, in 8086
  mode, with their vectors at 0x20 and 0x28 above the CPU exceptions, the slave on line 2, and
  every line masked; the only other port it writes is the delay port.\<close>

theorem mask_all_correct:
  "\<exists>t. snd (run_state mask_all h) = h @ t \<and>
     fold pics_see t (p1, p2) =
       (\<lparr>pic_expects = 0, pic_icw4 = True, pic_offset = 0x20, pic_wiring = push_bit 2 1, pic_mode = 1, pic_mask = - 1\<rparr>,
        \<lparr>pic_expects = 0, pic_icw4 = True, pic_offset = 0x28, pic_wiring = 2, pic_mode = 1, pic_mask = - 1\<rparr>) \<and>
     (\<forall>a \<in> set t. \<exists>p \<in> {0x20, 0x21, 0xA0, 0xA1, 0x80}. \<exists>v. a = Out8 p v)"
  by (simp add: mask_all_def io_wait_def outb_def pic_ports pic_cmd_def pic_data_def)

section \<open>The I/O APIC as the device sees it\<close>

text \<open>The selected register and the registers, after the writes to the window at \<open>base\<close>. Every register is
  plain storage here: the read-only status bits of a redirection entry are not modelled.\<close>

fun ioapic_sees :: "u64 \<Rightarrow> Access \<Rightarrow> u32 \<times> (u32 \<Rightarrow> u32) \<Rightarrow> u32 \<times> (u32 \<Rightarrow> u32)" where
  "ioapic_sees base (W32 a v) (sel, regs) =
     (if a = base then (v, regs) else if a = base + 0x10 then (sel, regs(sel := v)) else (sel, regs))"
| "ioapic_sees base _ d = d"

definition redirect_entry :: "(u32 \<Rightarrow> u32) \<Rightarrow> u32 \<Rightarrow> u64" where
  "redirect_entry regs i = ucast (regs (0x10 + 2 * i)) OR push_bit 32 (ucast (regs (0x10 + 2 * i + 1)))"

definition set_entry :: "(u32 \<Rightarrow> u32) \<Rightarrow> u32 \<Rightarrow> u64 \<Rightarrow> u32 \<Rightarrow> u32" where
  "set_entry regs gsi value = regs(0x10 + 2 * gsi := ucast value, 0x10 + 2 * gsi + 1 := ucast (drop_bit 32 value))"

lemma mask32: "(0xFFFFFFFF :: u64) = mask 32"
  by (simp add: mask_eq_exp_minus_1)

lemma write_redirect_sees:
  "\<exists>t. snd (run_state (write_redirect base gsi value) h) = h @ t \<and>
     fold (ioapic_sees base) t (sel, regs) = (0x10 + 2 * gsi + 1, set_entry regs gsi value)"
proof -
  have "(ucast (value AND 0xFFFFFFFF) :: u32) = ucast value"
    unfolding mask32 by (rule bit_word_eqI) (simp add: bit_simps)
  then show ?thesis
    by (simp add: write_redirect_def ioapic_write_def write32_def IOREGSEL_def IOWIN_def IOREDTBL_BASE_def
        set_entry_def mult.commute)
qed

lemma unat_redirect_index: "unat i < 256 \<Longrightarrow> unat (0x10 + 2 * i :: u32) = 16 + 2 * unat i"
  by (simp add: unat_word_ariths)

lemma redirect_index_eq:
  fixes i j :: u32
  assumes "unat i < 256" "unat j < 256"
  shows "0x10 + 2 * i = 0x10 + 2 * j \<longleftrightarrow> i = j" "0x10 + 2 * i + 1 = 0x10 + 2 * j + 1 \<longleftrightarrow> i = j"
    "0x10 + 2 * i \<noteq> 0x10 + 2 * j + 1" "0x10 + 2 * j + 1 \<noteq> 0x10 + 2 * i"
proof -
  have odd: "unat (0x10 + 2 * j + 1 :: u32) = 17 + 2 * unat j" "unat (0x10 + 2 * i + 1 :: u32) = 17 + 2 * unat i"
    using assms by (simp_all add: unat_word_ariths)
  note u = unat_redirect_index [OF assms(1)] unat_redirect_index [OF assms(2)] odd
  show "0x10 + 2 * i = 0x10 + 2 * j \<longleftrightarrow> i = j" using u by (metis add_left_cancel mult_left_cancel unat_inj_iff zero_neq_numeral)
  show "0x10 + 2 * i + 1 = 0x10 + 2 * j + 1 \<longleftrightarrow> i = j"
    using u by (metis add_left_cancel mult_left_cancel unat_inj_iff zero_neq_numeral)
  show "0x10 + 2 * i \<noteq> 0x10 + 2 * j + 1"
  proof
    assume "0x10 + 2 * i = 0x10 + 2 * j + 1"
    then have "16 + 2 * unat i = 17 + 2 * unat j" using u by metis
    then show False by presburger
  qed
  then show "0x10 + 2 * j + 1 \<noteq> 0x10 + 2 * i" by metis
qed

lemma redirect_entry_update:
  assumes "unat i < 256" "unat gsi < 256"
  shows "redirect_entry (set_entry regs gsi value) i = (if i = gsi then value else redirect_entry regs i)"
proof -
  have "ucast (ucast value :: u32) OR push_bit 32 (ucast (ucast (drop_bit 32 value) :: u32)) = value"
    by (rule bit_word_eqI) (auto simp: bit_simps)
  then show ?thesis
    using redirect_index_eq [OF assms] redirect_index_eq [OF assms(2,1)] by (auto simp: redirect_entry_def set_entry_def)
qed

lemma redirect_loop_sees:
  assumes "\<forall>g \<in> set gs. unat g < 256"
  shows "\<exists>t sel' regs'. snd (run_state (State_Monad.traverse_list (\<lambda>i. write_redirect base i value) gs) h) = h @ t \<and>
     fold (ioapic_sees base) t (sel, regs) = (sel', regs') \<and>
     (\<forall>i. unat i < 256 \<longrightarrow> redirect_entry regs' i = (if i \<in> set gs then value else redirect_entry regs i))"
  using assms
proof (induction gs arbitrary: h sel regs)
  case Nil
  then show ?case by simp
next
  case (Cons g gs)
  let ?regs = "set_entry regs g value"
  obtain t where t: "snd (run_state (write_redirect base g value) h) = h @ t"
    "fold (ioapic_sees base) t (sel, regs) = (0x10 + 2 * g + 1, ?regs)"
    using write_redirect_sees by blast
  obtain t' sel' regs' where t': "snd (run_state (State_Monad.traverse_list (\<lambda>i. write_redirect base i value) gs) (h @ t)) = (h @ t) @ t'"
    "fold (ioapic_sees base) t' (0x10 + 2 * g + 1, ?regs) = (sel', regs')"
    "\<forall>i. unat i < 256 \<longrightarrow> redirect_entry regs' i = (if i \<in> set gs then value else redirect_entry ?regs i)"
    using Cons.IH [of "h @ t" "0x10 + 2 * g + 1" ?regs] Cons.prems by auto
  have "snd (run_state (State_Monad.traverse_list (\<lambda>i. write_redirect base i value) (g # gs)) h) = h @ t @ t'"
    using t(1) t'(1) by (simp add: split_def)
  moreover have "redirect_entry regs' i = (if i \<in> set (g # gs) then value else redirect_entry regs i)"
    if "unat i < 256" for i
    using t'(3) that Cons.prems redirect_entry_update [of i g] by auto
  ultimately show ?case using t(2) t'(2) by (intro exI [of _ "t @ t'"] exI [of _ sel'] exI [of _ regs']) simp
qed

lemma lapic_id_sees:
  "\<exists>t. snd (run_state (lapic_id bus x) h) = h @ t \<and> fold (ioapic_sees base) t d = d"
  by (simp add: lapic_id_def lapic_read_def read32_def)

lemma ioapic_init_sees:
  assumes "base = rs_base (ic_secondary ic)" "base \<noteq> 0"
    and n: "n = unat (drop_bit 16 (bus_r32 bus (h @ [W32 base 1]) (base + 0x10)) AND 0xFF) + 1"
  shows "\<exists>t sel regs. run_state (ioapic_init bus ic x) h = (x\<lparr>x_ioapic_base := base\<rparr>, h @ t) \<and>
    fold (ioapic_sees base) t d = (sel, regs) \<and>
    (\<forall>i. unat i < n \<longrightarrow> redirect_entry regs i = REDTBL_MASKED)"
proof -
  let ?ver = "bus_r32 bus (h @ [W32 base 1]) (base + 0x10)"
  let ?n = "(drop_bit 16 ?ver AND 0xFF) + 1"
  let ?s = "[W32 base 1, R32 (base + 0x10) ?ver]"
  obtain sel0 regs0 where d: "d = (sel0, regs0)" by force
  have "unat (drop_bit 16 ?ver AND mask 8) < 2 ^ 8" by (simp add: and_mask_nat)
  then have "unat (drop_bit 16 ?ver AND 0xFF) < 256" by (simp add: mask_eq_exp_minus_1)
  then have un: "unat ?n = n" "n \<le> 256" using n by (simp_all add: unat_word_ariths)
  obtain t sel regs where t: "snd (run_state (State_Monad.traverse_list (\<lambda>i. write_redirect base i REDTBL_MASKED) (urange 0 ?n)) (h @ ?s)) = (h @ ?s) @ t"
    "fold (ioapic_sees base) t (1, regs0) = (sel, regs)"
    "\<forall>i. unat i < 256 \<longrightarrow> redirect_entry regs i = (if i \<in> set (urange 0 ?n) then REDTBL_MASKED else redirect_entry regs0 i)"
    using redirect_loop_sees [of "urange 0 ?n" base REDTBL_MASKED "h @ ?s" 1 regs0] un
    by (auto simp: set_urange word_less_nat_alt)
  have "run_state (ioapic_init bus ic x) h = (x\<lparr>x_ioapic_base := base\<rparr>, h @ ?s @ t)"
    using t(1) assms(1,2)
    by (auto simp: ioapic_init_def ioapic_read_def hw_ops IOREGSEL_def IOWIN_def IOAPICVER_def Let_def split_def)
  moreover have "redirect_entry regs i = REDTBL_MASKED" if "unat i < n" for i
    using t(3) that un by (auto simp: set_urange word_less_nat_alt)
  moreover have "fold (ioapic_sees base) (?s @ t) d = (sel, regs)" using t(2) d by simp
  ultimately show ?thesis by blast
qed

lemma route_irq_sees:
  assumes "x_ioapic_base x = base" "base \<noteq> 0" "unat gsi < 256"
    and e: "e = ucast vector OR push_bit 56 (ucast (fst (run_state (lapic_id bus x) h)) :: u64)"
  shows "\<exists>t sel'. snd (run_state (route_irq bus x gsi vector) h) = h @ t \<and>
    fold (ioapic_sees base) t (sel, regs) = (sel', set_entry regs gsi e)"
proof -
  obtain u where u: "snd (run_state (lapic_id bus x) h) = h @ u" "fold (ioapic_sees base) u (sel, regs) = (sel, regs)"
    using lapic_id_sees by blast
  obtain w where w: "snd (run_state (write_redirect base gsi e) (h @ u)) = (h @ u) @ w"
    "fold (ioapic_sees base) w (sel, regs) = (0x10 + 2 * gsi + 1, set_entry regs gsi e)"
    using write_redirect_sees by blast
  have "snd (run_state (route_irq bus x gsi vector) h) = h @ u @ w"
    using u(1) w(1) assms(1,2) e by (simp add: route_irq_def split_def Let_def)
  then show ?thesis using u(2) w(2) by (intro exI [of _ "u @ w"]) simp
qed

text \<open>C39: With an I/O APIC present, \<^verbatim>\<open>init\<close> masks every redirection entry the device reports, and a later
  \<^verbatim>\<open>route_irq\<close> sets the one entry of its line to the given vector, unmasked and directed at this CPU,
  and leaves every other entry as it was.\<close>

theorem ioapic_routing_correct:
  assumes "base = rs_base (ic_secondary ic)" "base \<noteq> 0"
    and init: "run_state (ioapic_init bus ic x) h = (x', h')"
    and n: "n = unat (drop_bit 16 (bus_r32 bus (h @ [W32 base 1]) (base + 0x10)) AND 0xFF) + 1"
    and g: "unat gsi < 256"
    and e: "e = ucast vector OR push_bit 56 (ucast (fst (run_state (lapic_id bus x') h')) :: u64)"
  shows "\<exists>t t' sel regs sel' regs'. h' = h @ t \<and> fold (ioapic_sees base) t d = (sel, regs) \<and>
    (\<forall>i. unat i < n \<longrightarrow> redirect_entry regs i = REDTBL_MASKED) \<and>
    snd (run_state (route_irq bus x' gsi vector) h') = h' @ t' \<and>
    fold (ioapic_sees base) t' (sel, regs) = (sel', regs') \<and>
    (\<forall>i. unat i < 256 \<longrightarrow> redirect_entry regs' i = (if i = gsi then e else redirect_entry regs i))"
proof -
  obtain t sel regs where t: "x' = x\<lparr>x_ioapic_base := base\<rparr>" "h' = h @ t"
    "fold (ioapic_sees base) t d = (sel, regs)" "\<forall>i. unat i < n \<longrightarrow> redirect_entry regs i = REDTBL_MASKED"
    using ioapic_init_sees [OF assms(1,2) n, of x d] init by auto
  obtain t' sel' where "snd (run_state (route_irq bus x' gsi vector) h') = h' @ t'"
    "fold (ioapic_sees base) t' (sel, regs) = (sel', set_entry regs gsi e)"
    using route_irq_sees [of x' base gsi e vector bus h' sel regs] assms(2) g e t(1) by auto
  then show ?thesis using t redirect_entry_update [OF _ g] by blast
qed

text \<open>An I/O APIC of 24 lines at its usual address.\<close>

definition pc_bus :: Bus where
  "pc_bus = zero_bus\<lparr>bus_r32 := \<lambda>h a. 0x00170020\<rparr>"

definition pc_intc :: IntcSpec where
  "pc_intc = \<lparr>ic_kind = Apic, ic_primary = \<lparr>rs_base = 0xFEE00000, rs_size = 0x1000\<rparr>,
     ic_secondary = \<lparr>rs_base = 0xFEC00000, rs_size = 0x1000\<rparr>\<rparr>"

theorem ioapic_routing_correct_witness:
  "\<exists>t t' sel regs sel' regs'.
    run_state (ioapic_init pc_bus pc_intc \<lparr>x_lapic_base = 0, x_ioapic_base = 0, x_tsc_freq = 0, x_ticks = 0\<rparr>) [] =
      (\<lparr>x_lapic_base = 0, x_ioapic_base = 0xFEC00000, x_tsc_freq = 0, x_ticks = 0\<rparr>, t) \<and>
    fold (ioapic_sees 0xFEC00000) t (0, \<lambda>_. 0) = (sel, regs) \<and>
    (\<forall>i. unat i < 24 \<longrightarrow> redirect_entry regs i = REDTBL_MASKED) \<and>
    fold (ioapic_sees 0xFEC00000) t' (sel, regs) = (sel', regs') \<and>
    redirect_entry regs' 4 = 0x24 \<and> redirect_entry regs' 3 = REDTBL_MASKED"
proof -
  let ?x = "\<lparr>x_lapic_base = 0, x_ioapic_base = 0, x_tsc_freq = 0, x_ticks = 0\<rparr>"
  obtain t where run: "run_state (ioapic_init pc_bus pc_intc ?x) [] = (?x\<lparr>x_ioapic_base := 0xFEC00000\<rparr>, [] @ t)"
    using ioapic_init_sees [of "0xFEC00000" pc_intc "unat (drop_bit 16 (bus_r32 pc_bus ([] @ [W32 0xFEC00000 1]) (0xFEC00000 + 0x10)) AND 0xFF) + 1" pc_bus "[]" ?x "(0, \<lambda>_. 0)"]
    by (auto simp: pc_intc_def)
  have "drop_bit 16 (0x00170020 :: u32) AND 0xFF = 23" by (simp add: drop_bit_eq_div)
  then have n: "24 = unat (drop_bit 16 (bus_r32 pc_bus ([] @ [W32 0xFEC00000 1]) (0xFEC00000 + 0x10)) AND 0xFF) + 1"
    by (simp add: pc_bus_def)
  have "0x24 = ucast (0x24 :: u8) OR push_bit 56 (ucast (fst (run_state (lapic_id pc_bus (?x\<lparr>x_ioapic_base := 0xFEC00000\<rparr>)) ([] @ t))) :: u64)"
    by (simp add: lapic_id_def)
  from ioapic_routing_correct [OF _ _ run n _ this, of 4 "(0, \<lambda>_. 0)"]
  obtain t' sel regs sel' regs' where r: "fold (ioapic_sees 0xFEC00000) t (0, \<lambda>_. 0) = (sel, regs)"
    "\<forall>i. unat i < 24 \<longrightarrow> redirect_entry regs i = REDTBL_MASKED"
    "fold (ioapic_sees 0xFEC00000) t' (sel, regs) = (sel', regs')"
    "\<forall>i. unat i < 256 \<longrightarrow> redirect_entry regs' i = (if i = 4 then 0x24 else redirect_entry regs i)"
    by (auto simp: pc_intc_def)
  then have "redirect_entry regs' 4 = 0x24" "redirect_entry regs' 3 = REDTBL_MASKED" by simp_all
  then show ?thesis
    using run r(1-3) by (intro exI [of _ t] exI [of _ t'] exI [of _ sel] exI [of _ regs] exI [of _ sel'] exI [of _ regs']) simp
qed

section \<open>Calibration\<close>

lemma tsc_read_run: "run_state (tsc_read bus) h = (bus_tsc bus h, h @ [Rdtsc (bus_tsc bus h)])"
proof -
  have "push_bit 32 (ucast (ucast (drop_bit 32 t) :: u32)) OR ucast (ucast t :: u32) = (t :: u64)" for t
    by (rule bit_word_eqI) (auto simp: bit_simps)
  then show ?thesis by (simp add: tsc_read_def rdtsc_def Let_def)
qed

fun tsc_value :: "Access \<Rightarrow> u64 option" where
  "tsc_value (Rdtsc t) = Some t"
| "tsc_value _ = None"

lemma measure_tsc:
  assumes "answers (pit_poll bus)"
  shows "\<exists>t0 t1 u. measure_pit bus us (tsc_read bus) h = Some (t1 - t0, h @ u) \<and> List.map_filter tsc_value u = [t0, t1]"
proof -
  have "\<exists>a. snd (run_state (pit_arm bus (pit_count us)) h) = h @ a \<and> List.map_filter tsc_value a = []"
    by (simp add: pit_arm_def hw_ops map_filter_simps)
  then obtain a where a: "snd (run_state (pit_arm bus (pit_count us)) h) = h @ a" "List.map_filter tsc_value a = []"
    by blast
  let ?h = "h @ a"
  let ?t0 = "bus_tsc bus ?h"
  have "\<exists>a. snd (pit_poll bus h) = h @ [a] \<and> tsc_value a = None" for h
    by (simp add: pit_poll_def inb_def)
  from spin_ends [OF assms this] obtain p where p: "spin (pit_poll bus) (?h @ [Rdtsc ?t0]) = Some ((?h @ [Rdtsc ?t0]) @ p)"
    "list_all (\<lambda>x. tsc_value x = None) p"
    by blast
  have none: "List.map_filter tsc_value p = []"
    using p(2) by (simp add: map_filter_def list_all_iff filter_empty_conv)
  let ?h' = "(?h @ [Rdtsc ?t0]) @ p"
  have "measure_pit bus us (tsc_read bus) h = Some (bus_tsc bus ?h' - ?t0, h @ a @ [Rdtsc ?t0] @ p @ [Rdtsc (bus_tsc bus ?h')])"
    using a(1) p(1) by (simp add: measure_pit_def tsc_read_run split_def Let_def)
  moreover have "List.map_filter tsc_value (a @ [Rdtsc ?t0] @ p @ [Rdtsc (bus_tsc bus ?h')]) = [?t0, bus_tsc bus ?h']"
    using a(2) none by (simp add: map_filter_def)
  ultimately show ?thesis by blast
qed

text \<open>When the interval timer expires, \<^verbatim>\<open>calibrate_tsc\<close> returns, and its result is exactly twenty times
  the ticks between its two readings of the counter, those of 50 ms; the counter it programmed is
  the 16-bit count of 50 ms.\<close>

theorem calibrate_tsc_correct:
  assumes "answers (pit_poll bus)"
  shows "unat (pit_count 50000) = 1193182 * 50000 div 1000000 \<and>
    (\<exists>t0 t1 u hz. calibrate_tsc bus h = Some (hz, h @ u) \<and> List.map_filter tsc_value u = [t0, t1] \<and>
     (unat (t1 - t0) < 2 ^ 44 \<longrightarrow> unat hz = 20 * unat (t1 - t0)))"
proof -
  obtain t0 t1 u where m: "measure_pit bus 50000 (tsc_read bus) h = Some (t1 - t0, h @ u)"
    "List.map_filter tsc_value u = [t0, t1]"
    using measure_tsc [OF assms] by blast
  have "unat (d * 1000000 div 50000) = 20 * unat d" if "unat d < 2 ^ 44" for d :: u64
    using that by (simp add: unat_div unat_mult_lt)
  from this [of "t1 - t0"] have "unat (t1 - t0) < 2 ^ 44 \<longrightarrow> unat ((t1 - t0) * 1000000 div 50000) = 20 * unat (t1 - t0)"
    by blast
  moreover have "calibrate_tsc bus h = Some ((t1 - t0) * 1000000 div 50000, h @ u)"
    using m by (simp add: calibrate_tsc_def)
  moreover have "unat (pit_count 50000) = 1193182 * 50000 div 1000000"
    by (simp add: pit_count_def PIT_FREQ_HZ_def)
  ultimately show ?thesis using m(2) by blast
qed

section \<open>The TSS descriptor\<close>

text \<open>How the CPU reads a system descriptor of 16 bytes.\<close>

definition desc_base :: "u64 \<Rightarrow> u64 \<Rightarrow> u64" where
  "desc_base lo hi = (drop_bit 16 lo AND mask 24) OR push_bit 24 (drop_bit 56 lo) OR push_bit 32 hi"

definition desc_limit :: "u64 \<Rightarrow> u64" where
  "desc_limit lo = (lo AND mask 16) OR push_bit 16 (drop_bit 48 lo AND mask 4)"

definition desc_access :: "u64 \<Rightarrow> u64" where
  "desc_access lo = drop_bit 40 lo AND mask 8"

lemma masks64: "(0xFFFF :: u64) = mask 16" "(0xFF :: u64) = mask 8" "(0xF :: u64) = mask 4"
  by (simp_all add: mask_eq_exp_minus_1)

definition tss_access :: u64 where "tss_access = 0x89"

lemma bit_access: "bit tss_access n \<Longrightarrow> n < 8"
proof -
  assume "bit tss_access n"
  then have b: "bit (0x89 :: u64) n" by (simp only: tss_access_def)
  have "(0x89 :: u64) = take_bit 8 0x89" by simp
  then show ?thesis using b by (metis bit_take_bit_iff)
qed

lemma tss_low_bit:
  "bit (tss_descriptor_low base limit) n \<longleftrightarrow>
     n < 16 \<and> bit limit n \<or> 16 \<le> n \<and> n < 40 \<and> bit base (n - 16)
     \<or> 40 \<le> n \<and> n < 48 \<and> bit tss_access (n - 40)
     \<or> 48 \<le> n \<and> n < 52 \<and> bit limit (n - 32) \<or> 56 \<le> n \<and> n < 64 \<and> bit base (n - 32)"
proof -
  have low: "tss_descriptor_low base limit =
      (limit AND mask 16) OR push_bit 16 (base AND mask 16) OR push_bit 32 (drop_bit 16 base AND mask 8)
      OR push_bit 40 tss_access OR push_bit 48 (drop_bit 16 limit AND mask 4) OR push_bit 56 (drop_bit 24 base AND mask 8)"
    unfolding tss_descriptor_low_def Let_def tss_access_def masks64 by simp
  have h: "bit tss_access (n - 40) \<Longrightarrow> n < 48" by (drule bit_access) simp
  have r1: "bit (limit AND mask 16) n \<longleftrightarrow> n < 16 \<and> bit limit n" by (auto simp: bit_and_iff bit_mask_iff)
  have r2: "bit (push_bit 16 (base AND mask 16)) n \<longleftrightarrow> 16 \<le> n \<and> n < 32 \<and> bit base (n - 16)"
    by (auto simp: bit_and_iff bit_mask_iff bit_push_bit_iff)
  have r3: "bit (push_bit 32 (drop_bit 16 base AND mask 8)) n \<longleftrightarrow> 32 \<le> n \<and> n < 40 \<and> bit base (n - 16)"
    by (auto simp: bit_and_iff bit_mask_iff bit_push_bit_iff bit_drop_bit_eq)
  have r4: "bit (push_bit 40 tss_access) n \<longleftrightarrow> 40 \<le> n \<and> n < 48 \<and> bit tss_access (n - 40)"
    using h by (auto simp: bit_push_bit_iff)
  have r5: "bit (push_bit 48 (drop_bit 16 limit AND mask 4)) n \<longleftrightarrow> 48 \<le> n \<and> n < 52 \<and> bit limit (n - 32)"
    by (auto simp: bit_and_iff bit_mask_iff bit_push_bit_iff bit_drop_bit_eq)
  have r6: "bit (push_bit 56 (drop_bit 24 base AND mask 8)) n \<longleftrightarrow> 56 \<le> n \<and> n < 64 \<and> bit base (n - 32)"
    by (auto simp: bit_and_iff bit_mask_iff bit_push_bit_iff bit_drop_bit_eq)
  show ?thesis unfolding low bit_or_iff r1 r2 r3 r4 r5 r6 by (auto dest: leI)
qed

lemma tss_base: "desc_base (tss_descriptor_low base limit) (tss_descriptor_high base) = base"
proof (rule bit_word_eqI)
  fix n assume n: "n < LENGTH(64)"
  have r1: "bit (drop_bit 16 (tss_descriptor_low base limit) AND mask 24) n \<longleftrightarrow> n < 24 \<and> bit base n"
    by (auto simp: bit_and_iff bit_drop_bit_eq bit_mask_iff tss_low_bit)
  have r2: "bit (push_bit 24 (drop_bit 56 (tss_descriptor_low base limit))) n \<longleftrightarrow> 24 \<le> n \<and> n < 32 \<and> bit base n"
    using n by (auto simp: bit_push_bit_iff bit_drop_bit_eq tss_low_bit)
  have r3: "bit (push_bit 32 (tss_descriptor_high base)) n \<longleftrightarrow> 32 \<le> n \<and> bit base n"
    using n by (auto simp: tss_descriptor_high_def mask32 bit_push_bit_iff bit_and_iff bit_drop_bit_eq bit_mask_iff)
  show "bit (desc_base (tss_descriptor_low base limit) (tss_descriptor_high base)) n = bit base n"
    unfolding desc_base_def bit_or_iff r1 r2 r3 by auto
qed

lemma tss_limit: "desc_limit (tss_descriptor_low base limit) = limit AND mask 20"
proof (rule bit_word_eqI)
  fix n assume n: "n < LENGTH(64)"
  have r1: "bit (tss_descriptor_low base limit AND mask 16) n \<longleftrightarrow> n < 16 \<and> bit limit n"
    by (auto simp: bit_and_iff bit_mask_iff tss_low_bit)
  have r2: "bit (push_bit 16 (drop_bit 48 (tss_descriptor_low base limit) AND mask 4)) n \<longleftrightarrow> 16 \<le> n \<and> n < 20 \<and> bit limit n"
    by (auto simp: bit_push_bit_iff bit_and_iff bit_drop_bit_eq bit_mask_iff tss_low_bit)
  show "bit (desc_limit (tss_descriptor_low base limit)) n = bit (limit AND mask 20) n"
    unfolding desc_limit_def bit_or_iff r1 r2 by (auto simp: bit_and_iff bit_mask_iff)
qed

text \<open>The table of \<^verbatim>\<open>install\<close> has the TSS descriptor at selector 0x28, with the base and the limit of the
  TSS.\<close>

text \<open>A timer that has expired at the first poll, beside a counter that advances by a hundred million
  with every access.\<close>

definition pit_bus :: Bus where
  "pit_bus = zero_bus\<lparr>bus_in8 := \<lambda>h p. 0x20, bus_tsc := \<lambda>h. word_of_nat (100000000 * length h)\<rparr>"

theorem calibrate_tsc_correct_witness:
  "\<exists>t0 t1 u hz. calibrate_tsc pit_bus [] = Some (hz, u) \<and> List.map_filter tsc_value u = [t0, t1] \<and>
     (unat (t1 - t0) < 2 ^ 44 \<longrightarrow> unat hz = 20 * unat (t1 - t0))"
proof -
  have "answers (pit_poll pit_bus)"
    by (auto simp: answers_def pit_poll_def inb_def pit_bus_def intro: exI [of _ 0])
  from calibrate_tsc_correct [OF this, of "[]"] show ?thesis by auto
qed

theorem mask_all_correct_witness:
  "\<exists>t. snd (run_state mask_all []) = t \<and>
     fst (fold pics_see t (\<lparr>pic_expects = 3, pic_icw4 = False, pic_offset = 8, pic_wiring = 0, pic_mode = 0, pic_mask = 0\<rparr>,
       \<lparr>pic_expects = 0, pic_icw4 = True, pic_offset = 0x70, pic_wiring = 0, pic_mode = 0, pic_mask = 0\<rparr>)) =
       \<lparr>pic_expects = 0, pic_icw4 = True, pic_offset = 0x20, pic_wiring = push_bit 2 1, pic_mode = 1, pic_mask = - 1\<rparr> \<and>
     (\<forall>a \<in> set t. \<exists>p \<in> {0x20, 0x21, 0xA0, 0xA1, 0x80}. \<exists>v. a = Out8 p v)"
proof -
  let ?p1 = "\<lparr>pic_expects = 3, pic_icw4 = False, pic_offset = 8, pic_wiring = 0, pic_mode = 0, pic_mask = 0\<rparr>"
  let ?p2 = "\<lparr>pic_expects = 0, pic_icw4 = True, pic_offset = 0x70, pic_wiring = 0, pic_mode = 0, pic_mask = 0\<rparr>"
  from mask_all_correct [of "[]" ?p1 ?p2] obtain t where t: "snd (run_state mask_all []) = [] @ t"
    "fst (fold pics_see t (?p1, ?p2)) =
       \<lparr>pic_expects = 0, pic_icw4 = True, pic_offset = 0x20, pic_wiring = push_bit 2 1, pic_mode = 1, pic_mask = - 1\<rparr>"
    "\<forall>a \<in> set t. \<exists>p \<in> {0x20, 0x21, 0xA0, 0xA1, 0x80}. \<exists>v. a = Out8 p v"
    by fastforce
  then show ?thesis by (intro exI [of _ t]) (simp only: append_Nil simp_thms)
qed

end
