(* ===== verification/Hyp_Syscall.thy ===== *)
theory Hyp_Syscall
  imports Hyp_Console Hyp_Gic Hyp_X86
begin

text \<open>
  The system calls (\<^verbatim>\<open>kernel/src/syscall/mod.rs\<close>, \<^verbatim>\<open>libos-api/src/syscall.rs\<close>) over the facade that hides
  the architecture (\<^verbatim>\<open>kernel/src/arch/mod.rs\<close>). A call returns to its caller, ends the calling thread,
  or stops the machine; a panic, and a wait that never ends, is \<^const>\<open>None\<close>. The lemmas give the effect
  of every call number and the exact range in which the uptime is right.
\<close>

section \<open>The architecture facade\<close>

datatype Arch = Aarch64 | X86_64 X86State

definition arch_timer_freq :: "Bus \<Rightarrow> Arch \<Rightarrow> u64 hw" where
  "arch_timer_freq bus a = (case a of Aarch64 \<Rightarrow> a64_read_freq bus | X86_64 x \<Rightarrow> State_Monad.return (x64_read_freq x))"

definition arch_timer_count :: "Bus \<Rightarrow> Arch \<Rightarrow> u64 hw" where
  "arch_timer_count bus a = (case a of Aarch64 \<Rightarrow> a64_read_count bus | X86_64 x \<Rightarrow> x64_read_count bus)"

definition arch_system_off :: "Bus \<Rightarrow> Arch \<Rightarrow> unit hw" where
  "arch_system_off bus a =
     (case a of Aarch64 \<Rightarrow> do { _ \<leftarrow> psci_system_off bus; State_Monad.return () } | X86_64 x \<Rightarrow> x64_system_off)"

definition arch_system_reset :: "Bus \<Rightarrow> Arch \<Rightarrow> unit hw" where
  "arch_system_reset bus a =
     (case a of Aarch64 \<Rightarrow> do { _ \<leftarrow> psci_system_reset bus; State_Monad.return () } | X86_64 x \<Rightarrow> x64_system_reset)"

section \<open>Call numbers\<close>

datatype SyscallNr = Yield | Exit | PutChar | GetChar | Uptime | Reboot | Shutdown

fun syscall_nr :: "SyscallNr \<Rightarrow> u64" where
  "syscall_nr Yield = 0"
| "syscall_nr Exit = 1"
| "syscall_nr PutChar = 2"
| "syscall_nr GetChar = 3"
| "syscall_nr Uptime = 4"
| "syscall_nr Reboot = 5"
| "syscall_nr Shutdown = 6"

definition syscall_try_from :: "u64 \<Rightarrow> SyscallNr option" where
  "syscall_try_from v =
     (if v = 0 then Some Yield else if v = 1 then Some Exit else if v = 2 then Some PutChar
      else if v = 3 then Some GetChar else if v = 4 then Some Uptime else if v = 5 then Some Reboot
      else if v = 6 then Some Shutdown else None)"

section \<open>Dispatch\<close>

datatype ('a, 'c) Outcome =
  Returned 'a "'c Machine" hist
  | ThreadGone "'c Machine" "'c Thread option" hist
  | Stopped hist

type_synonym i64 = "64 word"

type_synonym 'c syscall = "'c Machine \<Rightarrow> hist \<Rightarrow> (i64, 'c) Outcome option"

text \<open>The value of \<^verbatim>\<open>sys_yield\<close> is what the caller gets when it is next resumed.\<close>

definition sys_yield :: "'c syscall" where
  "sys_yield m h = do { m \<leftarrow> yield_now m; Some (Returned 0 m h) }"

definition sys_exit :: "i32 \<Rightarrow> 'c syscall" where
  "sys_exit code m h = do { (m, t) \<leftarrow> exit_current m; Some (ThreadGone m t h) }"

definition sys_putchar :: "Bus \<Rightarrow> BootConsole option \<Rightarrow> u8 \<Rightarrow> 'c syscall" where
  "sys_putchar bus c b m h = do { h \<leftarrow> console_putb bus c b h; Some (Returned 0 m h) }"

definition sys_getchar :: "Bus \<Rightarrow> BootConsole option \<Rightarrow> 'c syscall" where
  "sys_getchar bus c m h = do { (b, h) \<leftarrow> getb_blocking bus c h; Some (Returned (ucast b) m h) }"

definition sys_uptime :: "Bus \<Rightarrow> Arch \<Rightarrow> 'c syscall" where
  "sys_uptime bus a m h =
     (let (f, h) = run_state (arch_timer_freq bus a) h;
          (c, h) = run_state (arch_timer_count bus a) h in
      Some (Returned (if f = 0 then 0 else saturating_mul c 1000 div f) m h))"

definition sys_reboot :: "Bus \<Rightarrow> Arch \<Rightarrow> 'c syscall" where
  "sys_reboot bus a m h = Some (Stopped (snd (run_state (arch_system_reset bus a) h)))"

definition sys_shutdown :: "Bus \<Rightarrow> Arch \<Rightarrow> 'c syscall" where
  "sys_shutdown bus a m h = Some (Stopped (snd (run_state (arch_system_off bus a) h)))"

definition dispatch :: "Bus \<Rightarrow> Arch \<Rightarrow> BootConsole option \<Rightarrow> u64 \<Rightarrow> u64 list \<Rightarrow> 'c syscall" where
  "dispatch bus a c nr args m h =
     (case syscall_try_from nr of
        Some Yield \<Rightarrow> sys_yield m h
      | Some Exit \<Rightarrow> sys_exit (ucast (args ! 0)) m h
      | Some PutChar \<Rightarrow> sys_putchar bus c (ucast (args ! 0)) m h
      | Some GetChar \<Rightarrow> sys_getchar bus c m h
      | Some Uptime \<Rightarrow> sys_uptime bus a m h
      | Some Reboot \<Rightarrow> sys_reboot bus a m h
      | Some Shutdown \<Rightarrow> sys_shutdown bus a m h
      | None \<Rightarrow> Some (Returned (- 1) m h))"

section \<open>Properties\<close>

lemma syscall_nr_roundtrip [simp]: "syscall_try_from (syscall_nr n) = Some n"
  by (cases n) (simp_all add: syscall_try_from_def)

lemma syscall_try_from_Some: "syscall_try_from v = Some n \<longleftrightarrow> v = syscall_nr n"
  by (cases n) (auto simp: syscall_try_from_def)

lemma syscall_try_from_None: "syscall_try_from v = None \<longleftrightarrow> 6 < v"
proof
  show "syscall_try_from v = None \<Longrightarrow> 6 < v"
  proof (rule ccontr)
    assume n: "syscall_try_from v = None" and "\<not> 6 < v"
    then have "unat v \<le> 6" by (simp add: word_less_nat_alt)
    then have "unat v = unat (0 :: u64) \<or> unat v = unat (1 :: u64) \<or> unat v = unat (2 :: u64) \<or> unat v = unat (3 :: u64)
      \<or> unat v = unat (4 :: u64) \<or> unat v = unat (5 :: u64) \<or> unat v = unat (6 :: u64)" by (simp del: unat_inj_iff) arith
    then have "v \<in> {0, 1, 2, 3, 4, 5, 6}" unfolding unat_inj_iff by simp
    then show False using n by (auto simp: syscall_try_from_def)
  qed
qed (auto simp: syscall_try_from_def)

text \<open>A number that names no call changes nothing and returns -1.\<close>

lemma dispatch_unknown: "6 < nr \<Longrightarrow> dispatch bus a c nr args m h = Some (Returned (- 1) m h)"
  by (simp add: dispatch_def syscall_try_from_None [THEN iffD2])

lemma dispatch_call:
  "dispatch bus a c (syscall_nr n) args m h =
     (case n of Yield \<Rightarrow> sys_yield m h | Exit \<Rightarrow> sys_exit (ucast (args ! 0)) m h
      | PutChar \<Rightarrow> sys_putchar bus c (ucast (args ! 0)) m h | GetChar \<Rightarrow> sys_getchar bus c m h
      | Uptime \<Rightarrow> sys_uptime bus a m h | Reboot \<Rightarrow> sys_reboot bus a m h | Shutdown \<Rightarrow> sys_shutdown bus a m h)"
  by (simp add: dispatch_def split: SyscallNr.split)

text \<open>C40: The uptime call leaves the machine alone and returns the milliseconds of the counter, rounded down,
  as long as a thousand times the counter fits 64 bits; from then on the result no longer depends
  on the counter, so the clock stands still.\<close>

theorem uptime_correct:
  assumes "f = fst (run_state (arch_timer_freq bus a) h)" "f \<noteq> 0"
    and "c = fst (run_state (arch_timer_count bus a) (snd (run_state (arch_timer_freq bus a) h)))"
  shows "\<exists>r h'. dispatch bus a con (syscall_nr Uptime) args m h = Some (Returned r m h') \<and>
    unat r = (if unat c * 1000 < 2 ^ 64 then unat c * 1000 else 2 ^ 64 - 1) div unat f"
proof -
  let ?r = "saturating_mul c 1000 div f"
  have "\<exists>h'. dispatch bus a con (syscall_nr Uptime) args m h = Some (Returned ?r m h')"
    using assms by (simp add: dispatch_call del: syscall_nr.simps) (simp add: sys_uptime_def split_def Let_def)
  moreover have "unat ?r = (if unat c * 1000 < 2 ^ 64 then unat c * 1000 else 2 ^ 64 - 1) div unat f"
    by (simp add: unat_div unat_saturating_mul min_def)
  ultimately show ?thesis by blast
qed

text \<open>At 3 GHz the counter reaches the limit after 71 days.\<close>

theorem uptime_correct_witness:
  "\<exists>r h'. dispatch (zero_bus\<lparr>bus_tsc := \<lambda>h. 3000000000 * 72 * 86400\<rparr>)
      (X86_64 \<lparr>x_lapic_base = 0, x_ioapic_base = 0, x_tsc_freq = 3000000000, x_ticks = 0\<rparr>) None (syscall_nr Uptime) []
      \<lparr>k_regs = (), k_masked = False, k_sched = sched_new, k_next_tid = 1, k_procs = proctable_new\<rparr> [] =
    Some (Returned r \<lparr>k_regs = (), k_masked = False, k_sched = sched_new, k_next_tid = 1, k_procs = proctable_new\<rparr> h') \<and>
    unat r < 72 * 86400 * 1000"
  using uptime_correct [of 3000000000 "zero_bus\<lparr>bus_tsc := \<lambda>h. 3000000000 * 72 * 86400\<rparr>"
      "X86_64 \<lparr>x_lapic_base = 0, x_ioapic_base = 0, x_tsc_freq = 3000000000, x_ticks = 0\<rparr>" "[]" "3000000000 * 72 * 86400"
      None "[]" "\<lparr>k_regs = (), k_masked = False, k_sched = sched_new, k_next_tid = 1, k_procs = proctable_new\<rparr>"]
  by (auto simp: arch_timer_freq_def arch_timer_count_def x64_read_freq_def x64_read_count_def tsc_read_freq_def tsc_read_run)

end
