(* ===== verification/Hyp_Trap_A64.thy ===== *)
theory Hyp_Trap_A64
  imports Hyp_Syscall
begin

text \<open>
  Exception entry and exit on AArch64 (\<^verbatim>\<open>kernel/src/arch/aarch64/exceptions.rs\<close>): the macros that save and
  restore the registers as instruction lists over a register file, system registers, the vector
  registers and memory, the vector table, the handlers over the trap frame, and the call from user code (\<^verbatim>\<open>raw_syscall\<close> of
  \<^verbatim>\<open>libos-api/src/syscall.rs\<close>). Memory maps the address of an 8-byte cell to its contents. The lemmas
  show that a trap gives the handler the general registers of the interrupted code and that the code
  resumes with what the handler left in the frame, whatever the handler did to other registers and
  memory. The frame has no room for the vector registers: the code resumes with what the handler
  left in those.
\<close>

section \<open>The machine\<close>

record T64 =
  tx :: "nat \<Rightarrow> u64"
  tsp :: u64
  tsys :: "string \<Rightarrow> u64"
  tv :: "nat \<Rightarrow> 128 word"
  tfpcr :: u64
  tfpsr :: u64
  tmem :: "u64 \<Rightarrow> u64"

text \<open>\<open>T_STP a b off\<close> is \<^verbatim>\<open>stp xa, xb, [sp, #off]\<close>, and so on.\<close>

datatype T64Insn =
  T_SUB_SP u64 | T_ADD_SP u64 | T_STP nat nat u64 | T_LDP nat nat u64 | T_MRS nat string | T_MSR string nat

fun t64_exec :: "T64Insn \<Rightarrow> T64 \<Rightarrow> T64" where
  "t64_exec (T_SUB_SP n) m = m\<lparr>tsp := tsp m - n\<rparr>"
| "t64_exec (T_ADD_SP n) m = m\<lparr>tsp := tsp m + n\<rparr>"
| "t64_exec (T_STP a b off) m = m\<lparr>tmem := (tmem m)(tsp m + off := tx m a, tsp m + off + 8 := tx m b)\<rparr>"
| "t64_exec (T_LDP a b off) m = m\<lparr>tx := (tx m)(a := tmem m (tsp m + off), b := tmem m (tsp m + off + 8))\<rparr>"
| "t64_exec (T_MRS a r) m = m\<lparr>tx := (tx m)(a := tsys m r)\<rparr>"
| "t64_exec (T_MSR r a) m = m\<lparr>tsys := (tsys m)(r := tx m a)\<rparr>"

definition SAVE_REGS :: "T64Insn list" where
  "SAVE_REGS = [
     T_SUB_SP (32 * 8 + 4 * 8),
     T_STP 0 1 (0 * 16), T_STP 2 3 (1 * 16), T_STP 4 5 (2 * 16), T_STP 6 7 (3 * 16),
     T_STP 8 9 (4 * 16), T_STP 10 11 (5 * 16), T_STP 12 13 (6 * 16), T_STP 14 15 (7 * 16),
     T_STP 16 17 (8 * 16), T_STP 18 19 (9 * 16), T_STP 20 21 (10 * 16), T_STP 22 23 (11 * 16),
     T_STP 24 25 (12 * 16), T_STP 26 27 (13 * 16), T_STP 28 29 (14 * 16),
     T_MRS 9 ''sp_el0'', T_STP 30 9 (15 * 16),
     T_MRS 10 ''elr_el1'', T_MRS 11 ''spsr_el1'', T_STP 10 11 (16 * 16),
     T_MRS 10 ''esr_el1'', T_MRS 11 ''far_el1'', T_STP 10 11 (17 * 16)]"

definition RESTORE_REGS :: "T64Insn list" where
  "RESTORE_REGS = [
     T_LDP 10 11 (16 * 16), T_MSR ''elr_el1'' 10, T_MSR ''spsr_el1'' 11,
     T_LDP 30 9 (15 * 16), T_MSR ''sp_el0'' 9,
     T_LDP 28 29 (14 * 16), T_LDP 26 27 (13 * 16), T_LDP 24 25 (12 * 16), T_LDP 22 23 (11 * 16),
     T_LDP 20 21 (10 * 16), T_LDP 18 19 (9 * 16), T_LDP 16 17 (8 * 16), T_LDP 14 15 (7 * 16),
     T_LDP 12 13 (6 * 16), T_LDP 10 11 (5 * 16), T_LDP 8 9 (4 * 16), T_LDP 6 7 (3 * 16),
     T_LDP 4 5 (2 * 16), T_LDP 2 3 (1 * 16), T_LDP 0 1 (0 * 16),
     T_ADD_SP (32 * 8 + 4 * 8)]"

section \<open>The trap frame\<close>

record TrapFrameA64 =
  ta_regs :: "u64 list"
  ta_sp :: u64
  ta_elr :: u64
  ta_spsr :: u64
  ta_esr :: u64
  ta_far :: u64

text \<open>The frame in memory at an address, as \<^verbatim>\<open>repr(C)\<close> lays it out.\<close>

definition frame_at :: "(u64 \<Rightarrow> u64) \<Rightarrow> u64 \<Rightarrow> TrapFrameA64" where
  "frame_at mem a =
     \<lparr>ta_regs = map (\<lambda>i. mem (a + 8 * word_of_nat i)) [0..<31], ta_sp = mem (a + 248), ta_elr = mem (a + 256),
      ta_spsr = mem (a + 264), ta_esr = mem (a + 272), ta_far = mem (a + 280)\<rparr>"

text \<open>The state of the interrupted code.\<close>

definition frame_of :: "T64 \<Rightarrow> TrapFrameA64" where
  "frame_of m =
     \<lparr>ta_regs = map (tx m) [0..<31], ta_sp = tsys m ''sp_el0'', ta_elr = tsys m ''elr_el1'',
      ta_spsr = tsys m ''spsr_el1'', ta_esr = tsys m ''esr_el1'', ta_far = tsys m ''far_el1''\<rparr>"

section \<open>The handlers\<close>

definition trap_unhandled_label :: "u64 \<Rightarrow> string" where
  "trap_unhandled_label kind =
     (if kind = 0 then ''synchronous from SP_EL0'' else if kind = 1 then ''SError (kernel)''
      else if kind = 2 then ''SError (user)'' else ''unknown'')"

text \<open>A frame outcome: the handler returns with a frame, or does not return to this frame. The other
  handlers of the table end in a panic.\<close>

definition trap_sync ::
  "Bus \<Rightarrow> BootConsole option \<Rightarrow> TrapFrameA64 \<Rightarrow> 'c Machine \<Rightarrow> hist \<Rightarrow> (TrapFrameA64, 'c) Outcome option" where
  "trap_sync bus con tf m h =
     (let ec = drop_bit 26 (ta_esr tf) AND 0x3f in
      if ec = 0x15
      then (let nr = ta_regs tf ! 8;
                args = [ta_regs tf ! 0, ta_regs tf ! 1, ta_regs tf ! 2, ta_regs tf ! 3, ta_regs tf ! 4, ta_regs tf ! 5] in
            case dispatch bus Aarch64 con nr args m h of
              None \<Rightarrow> None
            | Some (Returned ret m h) \<Rightarrow> Some (Returned (tf\<lparr>ta_regs := (ta_regs tf)[0 := ret]\<rparr>) m h)
            | Some (ThreadGone m t h) \<Rightarrow> Some (ThreadGone m t h)
            | Some (Stopped h) \<Rightarrow> Some (Stopped h))
      else None)"

definition trap_irq ::
  "Bus \<Rightarrow> IntcKind \<Rightarrow> GicState \<Rightarrow> TrapFrameA64 \<Rightarrow> 'c Machine \<Rightarrow> hist \<Rightarrow> (TrapFrameA64, 'c) Outcome option" where
  "trap_irq bus k g tf m h = (let (m, h) = run_state (handle_irq bus k g m) h in Some (Returned tf m h))"

section \<open>The vectors\<close>

text \<open>The sixteen entries of \<^verbatim>\<open>__vectors\<close> and the handler that the code behind each branch calls, with the
  \<open>kind\<close> it passes in x1.\<close>

datatype VecHandler = VecUnhandled u64 | VecSync | VecIrq

definition vectors :: "VecHandler list" where
  "vectors = [
     VecUnhandled 0, VecUnhandled 0, VecUnhandled 0, VecUnhandled 0,
     VecSync, VecIrq, VecIrq, VecUnhandled 1,
     VecSync, VecIrq, VecIrq, VecUnhandled 2,
     VecUnhandled 0, VecUnhandled 0, VecUnhandled 0, VecUnhandled 0]"

text \<open>What the exception of a slot of the table does with its frame; \<^verbatim>\<open>hyperion_trap_unhandled\<close> panics.\<close>

definition vec_handle ::
  "Bus \<Rightarrow> BootConsole option \<Rightarrow> IntcKind \<Rightarrow> GicState \<Rightarrow> nat \<Rightarrow> TrapFrameA64 \<Rightarrow> 'c Machine \<Rightarrow> hist \<Rightarrow>
     (TrapFrameA64, 'c) Outcome option" where
  "vec_handle bus con k g slot tf m h =
     (case vectors ! slot of
        VecUnhandled kind \<Rightarrow> None
      | VecSync \<Rightarrow> trap_sync bus con tf m h
      | VecIrq \<Rightarrow> trap_irq bus k g tf m h)"

text \<open>A call of a handler that leaves the frame \<open>tf\<close> at the address the stack pointer holds: it returns with
  the stack pointer as it was; \<open>m'\<close> has what it, and the threads it switched to, left in the other
  registers and in memory.\<close>

definition handler_left :: "T64 \<Rightarrow> TrapFrameA64 \<Rightarrow> T64 \<Rightarrow> bool" where
  "handler_left m tf m' \<longleftrightarrow> tsp m' = tsp m \<and> frame_at (tmem m') (tsp m') = tf"

text \<open>\<^verbatim>\<open>__vec_sync_kernel\<close> and the other vectors: save, call, restore; \<^verbatim>\<open>eret\<close> then continues at
  \<^verbatim>\<open>elr_el1\<close> with the state \<^verbatim>\<open>spsr_el1\<close>.\<close>

definition vec_entry :: "T64 \<Rightarrow> T64" where
  "vec_entry m = fold t64_exec SAVE_REGS m"

definition vec_exit :: "T64 \<Rightarrow> T64" where
  "vec_exit m = fold t64_exec RESTORE_REGS m"

section \<open>Entry and exit\<close>

lemma upt31: "[0..<31] = [0, 1, 2, 3, 4, 5, 6, 7, 8, 9, 10, 11, 12, 13, 14, 15, 16, 17, 18, 19, 20, 21, 22, 23, 24, 25, 26, 27, 28, 29, 30]"
  by (simp add: upt_rec)

lemma vec_entry_sp: "tsp (vec_entry m) = tsp m - 288"
  by (simp add: vec_entry_def SAVE_REGS_def)

lemma vec_entry_frame: "frame_at (tmem (vec_entry m)) (tsp m - 288) = frame_of m"
  unfolding frame_at_def frame_of_def upt31 by (simp add: vec_entry_def SAVE_REGS_def)

lemma vec_exit_sp: "tsp (vec_exit m) = tsp m + 288"
  by (simp add: vec_exit_def RESTORE_REGS_def)

lemma vec_exit_regs: "map (tx (vec_exit m)) [0..<31] = ta_regs (frame_at (tmem m) (tsp m))"
  unfolding frame_at_def upt31 by (simp add: vec_exit_def RESTORE_REGS_def add.commute)

lemma vec_exit_sys:
  "tsys (vec_exit m) ''elr_el1'' = ta_elr (frame_at (tmem m) (tsp m))"
  "tsys (vec_exit m) ''spsr_el1'' = ta_spsr (frame_at (tmem m) (tsp m))"
  "tsys (vec_exit m) ''sp_el0'' = ta_sp (frame_at (tmem m) (tsp m))"
  by (simp_all add: vec_exit_def RESTORE_REGS_def frame_at_def add.commute)

text \<open>Neither macro touches the vector registers.\<close>

lemma vec_simd:
  "tv (vec_exit m) = tv m" "tfpcr (vec_exit m) = tfpcr m" "tfpsr (vec_exit m) = tfpsr m"
  by (simp_all add: vec_entry_def SAVE_REGS_def vec_exit_def RESTORE_REGS_def)

lemma frame_entered: "frame_at (tmem (vec_entry m)) (tsp (vec_entry m)) = frame_of m"
  by (simp add: vec_entry_sp vec_entry_frame)

lemma nth_frame_of: "i < 31 \<Longrightarrow> ta_regs (frame_of m) ! i = tx m i"
  by (simp add: frame_of_def)

text \<open>The code resumes with what is in the frame.\<close>

lemma handler_resumes:
  assumes "handler_left (vec_entry m) tf m'"
  shows "\<forall>i < 31. tx (vec_exit m') i = ta_regs tf ! i" "tsp (vec_exit m') = tsp m"
    "tsys (vec_exit m') ''elr_el1'' = ta_elr tf" "tsys (vec_exit m') ''spsr_el1'' = ta_spsr tf"
    "tsys (vec_exit m') ''sp_el0'' = ta_sp tf"
proof -
  have f: "frame_at (tmem m') (tsp m') = tf" "tsp m' = tsp m - 288"
    using assms by (auto simp: handler_left_def vec_entry_sp)
  have "tx (vec_exit m') i = map (tx (vec_exit m')) [0..<31] ! i" if "i < 31" for i using that by simp
  then show "\<forall>i < 31. tx (vec_exit m') i = ta_regs tf ! i" using f by (simp add: vec_exit_regs)
  show "tsp (vec_exit m') = tsp m" using f by (simp add: vec_exit_sp)
  show "tsys (vec_exit m') ''elr_el1'' = ta_elr tf" "tsys (vec_exit m') ''spsr_el1'' = ta_spsr tf"
    "tsys (vec_exit m') ''sp_el0'' = ta_sp tf"
    using f by (simp_all add: vec_exit_sys)
qed

text \<open>What the interrupted code keeps: its general registers but those in \<open>changed\<close>, its stacks, its place and
  its processor state.\<close>

definition resumes_as :: "nat set \<Rightarrow> T64 \<Rightarrow> T64 \<Rightarrow> bool" where
  "resumes_as changed m m' \<longleftrightarrow>
     (\<forall>i < 31. i \<notin> changed \<longrightarrow> tx m' i = tx m i) \<and> tsp m' = tsp m \<and>
     (\<forall>r \<in> {''sp_el0'', ''elr_el1'', ''spsr_el1''}. tsys m' r = tsys m r)"

lemma vectors_sync: "slot \<in> {4, 8} \<Longrightarrow> vectors ! slot = VecSync"
  by (auto simp: vectors_def)

lemma vectors_irq: "slot \<in> {5, 6, 9, 10} \<Longrightarrow> vectors ! slot = VecIrq"
  by (auto simp: vectors_def)

lemma frame_kept:
  "ta_elr (frame_of m) = tsys m ''elr_el1''" "ta_spsr (frame_of m) = tsys m ''spsr_el1''"
  "ta_sp (frame_of m) = tsys m ''sp_el0''" "ta_esr (frame_of m) = tsys m ''esr_el1''" "length (ta_regs (frame_of m)) = 31"
  by (simp_all add: frame_of_def)

text \<open>C22: A system call from kernel or user code: \<^verbatim>\<open>svc\<close> enters through the table at the synchronous slot of its
  exception level, the kernel dispatches on the caller's x8 with its x0 to x5, and when the call
  returns the caller finds the result in x0 and the other general registers, its stack pointers,
  its program counter and its processor state as they were, whatever the handler did to the
  registers and to the memory outside the trap frame. The vector registers are not saved: the caller
  resumes with what the handler left there.\<close>

theorem svc_correct:
  assumes slot: "slot \<in> {4, 8}" and svc: "drop_bit 26 (tsys m ''esr_el1'') AND 0x3f = 0x15"
    and trap: "vec_handle bus con k g slot (frame_at (tmem (vec_entry m)) (tsp (vec_entry m))) km h = Some (Returned tf km' h')"
    and left: "handler_left (vec_entry m) tf m'"
  shows "dispatch bus Aarch64 con (tx m 8) (map (tx m) [0, 1, 2, 3, 4, 5]) km h =
      Some (Returned (tx (vec_exit m') 0) km' h') \<and> resumes_as {0} m (vec_exit m') \<and>
    (tv (vec_exit m'), tfpcr (vec_exit m'), tfpsr (vec_exit m')) = (tv m', tfpcr m', tfpsr m')"
proof -
  obtain ret where d: "dispatch bus Aarch64 con (tx m 8) (map (tx m) [0, 1, 2, 3, 4, 5]) km h = Some (Returned ret km' h')"
    and tf: "tf = (frame_of m)\<lparr>ta_regs := (ta_regs (frame_of m))[0 := ret]\<rparr>"
    using trap svc unfolding frame_entered vec_handle_def vectors_sync [OF slot]
    by (auto simp: trap_sync_def frame_kept nth_frame_of Let_def split: option.splits Outcome.splits)
  note r = handler_resumes [OF left]
  have "tx (vec_exit m') 0 = ret" using r(1) tf by (simp add: frame_kept)
  moreover have "tx (vec_exit m') i = tx m i" if "i < 31" "i \<noteq> 0" for i
    using r(1) that tf by (simp add: nth_frame_of)
  ultimately show ?thesis using d r(2-5) tf by (simp add: resumes_as_def vec_simd frame_kept)
qed

text \<open>C23: An interrupt enters through the IRQ and FIQ slots, is handled by the interrupt controller's code,
  and the code it interrupts resumes with its general registers, its stacks, its program counter and
  its processor state as they were. It is not invisible to code that uses the vector registers, which
  boot enables and the entry code does not save: whatever values a handler may leave in them, the
  interrupted code resumes with.\<close>

theorem irq_correct:
  assumes slot: "slot \<in> {5, 6, 9, 10}"
    and trap: "vec_handle bus con k g slot (frame_at (tmem (vec_entry m)) (tsp (vec_entry m))) km h = Some (Returned tf km' h')"
    and left: "handler_left (vec_entry m) tf m'"
  shows "resumes_as {} m (vec_exit m') \<and> (km', h') = run_state (handle_irq bus k g km) h \<and>
    (\<forall>v. \<exists>m''. handler_left (vec_entry m) tf m'' \<and> tv (vec_exit m'') = v)"
proof -
  have tf: "tf = frame_of m" "(km', h') = run_state (handle_irq bus k g km) h"
    using trap unfolding frame_entered vec_handle_def vectors_irq [OF slot] by (auto simp: trap_irq_def split: prod.splits)
  note r = handler_resumes [OF left]
  have "tx (vec_exit m') i = tx m i" if "i < 31" for i using r(1) that tf by (simp add: nth_frame_of)
  then have "resumes_as {} m (vec_exit m')" using tf(1) r(2-5) by (simp add: resumes_as_def frame_kept)
  moreover have "handler_left (vec_entry m) tf (m'\<lparr>tv := v\<rparr>) \<and> tv (vec_exit (m'\<lparr>tv := v\<rparr>)) = v" for v
    using left by (auto simp: handler_left_def vec_simd)
  ultimately show ?thesis using tf(2) by blast
qed

section \<open>The call from user code\<close>

text \<open>The registers that \<^verbatim>\<open>raw_syscall\<close> sets before \<^verbatim>\<open>svc #0\<close>; its result is x0 afterwards.\<close>

definition raw_syscall :: "SyscallNr \<Rightarrow> u64 list \<Rightarrow> T64 \<Rightarrow> T64" where
  "raw_syscall nr args m =
     m\<lparr>tx := (tx m)(8 := syscall_nr nr, 0 := args ! 0, 1 := args ! 1, 2 := args ! 2, 3 := args ! 3,
        4 := args ! 4, 5 := args ! 5)\<rparr>"

lemma raw_syscall_dispatches:
  assumes "length args = 6" "drop_bit 26 (tsys m ''esr_el1'') AND 0x3f = 0x15"
  shows "trap_sync bus con (frame_of (raw_syscall nr args m)) k h =
    (case dispatch bus Aarch64 con (syscall_nr nr) args k h of
       None \<Rightarrow> None
     | Some (Returned ret k h) \<Rightarrow>
         Some (Returned ((frame_of (raw_syscall nr args m))\<lparr>ta_regs := (ta_regs (frame_of (raw_syscall nr args m)))[0 := ret]\<rparr>) k h)
     | Some (ThreadGone k t h) \<Rightarrow> Some (ThreadGone k t h)
     | Some (Stopped h) \<Rightarrow> Some (Stopped h))"
proof -
  have "ta_esr (frame_of (raw_syscall nr args m)) = tsys m ''esr_el1''" by (simp add: frame_of_def raw_syscall_def)
  moreover have "[args ! 0, args ! 1, args ! 2, args ! 3, args ! 4, args ! 5] = args"
    using assms(1) by (auto simp: numeral_eq_Suc length_Suc_conv)
  moreover have "tx (raw_syscall nr args m) 8 = syscall_nr nr" "tx (raw_syscall nr args m) 0 = args ! 0"
    "tx (raw_syscall nr args m) 1 = args ! 1" "tx (raw_syscall nr args m) 2 = args ! 2"
    "tx (raw_syscall nr args m) 3 = args ! 3" "tx (raw_syscall nr args m) 4 = args ! 4"
    "tx (raw_syscall nr args m) 5 = args ! 5"
    by (simp_all add: raw_syscall_def)
  ultimately show ?thesis using assms(2) by (simp add: trap_sync_def nth_frame_of Let_def)
qed

section \<open>Examples\<close>

lemma frame_at_x0: "frame_at (mem(a := v)) a = (frame_at mem a)\<lparr>ta_regs := (ta_regs (frame_at mem a))[0 := v]\<rparr>"
  unfolding frame_at_def upt31 by simp

definition user_code :: T64 where
  "user_code = \<lparr>tx = \<lambda>i. 7 + word_of_nat i, tsp = 0x40100000,
     tsys = (\<lambda>r. 0)(''esr_el1'' := 0x56000000, ''elr_el1'' := 0x40080004), tv = \<lambda>i. 3,
     tfpcr = 0, tfpsr = 0, tmem = \<lambda>_. 0\<rparr>"

definition idle_machine :: "unit Machine" where
  "idle_machine = \<lparr>k_regs = (), k_masked = True, k_sched = sched_new, k_next_tid = 1, k_procs = proctable_new\<rparr>"

lemma user_code_regs: "tx user_code 8 = 15" "drop_bit 26 (tsys user_code ''esr_el1'') AND 0x3f = 0x15"
  by (simp_all add: user_code_def drop_bit_eq_div)

definition gic_none :: GicState where
  "gic_none = \<lparr>gs_v2 = \<lparr>v2_gicd = 0x8000000, v2_gicc = 0x8010000\<rparr>, gs_v3 = \<lparr>v3_gicd = 0, v3_gicr = 0\<rparr>\<rparr>"

theorem svc_correct_witness:
  "\<exists>m'. dispatch zero_bus Aarch64 None 15 (map (tx user_code) [0, 1, 2, 3, 4, 5]) idle_machine [] =
      Some (Returned (tx (vec_exit m') 0) idle_machine []) \<and> resumes_as {0} user_code (vec_exit m') \<and>
    tv (vec_exit m') = tv m'"
proof -
  let ?e = "vec_entry user_code"
  let ?m = "?e\<lparr>tmem := (tmem ?e)(tsp ?e := - 1)\<rparr>"
  let ?tf = "(frame_of user_code)\<lparr>ta_regs := (ta_regs (frame_of user_code))[0 := - 1]\<rparr>"
  have "trap_sync zero_bus None (frame_of user_code) idle_machine [] = Some (Returned ?tf idle_machine [])"
    by (simp add: trap_sync_def nth_frame_of user_code_regs dispatch_unknown Let_def)
      (simp add: frame_of_def user_code_def drop_bit_eq_div)
  then have "vec_handle zero_bus None GicV2 gic_none 8 (frame_at (tmem ?e) (tsp ?e)) idle_machine [] =
      Some (Returned ?tf idle_machine [])"
    by (simp add: vec_handle_def vectors_def frame_entered)
  moreover have "handler_left ?e ?tf ?m"
    by (simp add: handler_left_def frame_at_x0 frame_entered)
  moreover have "8 \<in> {4, 8 :: nat}" by simp
  ultimately have "dispatch zero_bus Aarch64 None (tx user_code 8) (map (tx user_code) [0, 1, 2, 3, 4, 5]) idle_machine [] =
      Some (Returned (tx (vec_exit ?m) 0) idle_machine []) \<and> resumes_as {0} user_code (vec_exit ?m) \<and> tv (vec_exit ?m) = tv ?m"
    using svc_correct [OF _ user_code_regs(2), of 8 zero_bus None GicV2 gic_none idle_machine "[]" ?tf idle_machine "[]" ?m]
    by blast
  then show ?thesis unfolding user_code_regs(1) by (rule exI)
qed

text \<open>A GICv2 interrupt with the number 0 during code whose vector registers hold 3: nothing keeps a handler
  from leaving 4 in v0.\<close>

theorem irq_correct_witness:
  "resumes_as {} user_code (vec_exit (vec_entry user_code)) \<and>
   snd (run_state (handle_irq zero_bus GicV2 gic_none idle_machine) []) = [R32 0x801000c 0, W32 0x8010010 0] \<and>
   (\<exists>m''. handler_left (vec_entry user_code) (frame_of user_code) m'' \<and> tv user_code 0 = 3 \<and> tv (vec_exit m'') 0 = 4)"
proof -
  let ?e = "vec_entry user_code" and ?v = "(\<lambda>i. 3)(0 := 4) :: nat \<Rightarrow> 128 word"
  have run: "run_state (handle_irq zero_bus GicV2 gic_none idle_machine) [] = (idle_machine, [R32 0x801000c 0, W32 0x8010010 0])"
    by (simp add: handle_irq_def irq_body_def gicv2_ack_def gicv2_eoi_def gic_none_def hw_ops zero_bus_def is_timer_irq_def
        TIMER_PPI_def GICC_IAR_def GICC_EOIR_def)
  then have "vec_handle zero_bus None GicV2 gic_none 5 (frame_at (tmem ?e) (tsp ?e)) idle_machine [] =
      Some (Returned (frame_of user_code) idle_machine [R32 0x801000c 0, W32 0x8010010 0])"
    by (simp add: vec_handle_def vectors_def trap_irq_def frame_entered)
  moreover have "handler_left ?e (frame_of user_code) ?e" by (simp add: handler_left_def frame_entered)
  ultimately have "resumes_as {} user_code (vec_exit ?e) \<and>
      (\<exists>m''. handler_left ?e (frame_of user_code) m'' \<and> tv (vec_exit m'') = ?v)"
    using irq_correct [of 5 zero_bus None GicV2 gic_none user_code idle_machine "[]"] by blast
  moreover have "tv user_code 0 = 3" by (simp add: user_code_def)
  ultimately show ?thesis using run by (auto simp: fun_eq_iff)
qed

end
