(* ===== verification/Hyp_Trap_X64.thy ===== *)
theory Hyp_Trap_X64
  imports Hyp_Syscall
begin

text \<open>
  Exception and interrupt entry on x86-64 (\<^verbatim>\<open>kernel/src/arch/x86_64/exceptions.rs\<close> and the stubs of
  \<^verbatim>\<open>isr_stubs.s\<close>): the interrupt descriptor table, the code that builds the trap frame and returns from
  it, and the handlers. Memory maps the address of an 8-byte cell to its contents; the general
  registers are numbered as \<^verbatim>\<open>TrapFrame::regs\<close> orders them. The lemmas show that the descriptors decode to
  the stubs, that a handler sees the interrupted state, and that the code resumes with what the
  handler left in the frame.
\<close>

section \<open>The descriptor table\<close>

record IdtEntry =
  idt_offset_low :: u16
  idt_selector :: u16
  idt_ist :: u8
  idt_type_attr :: u8
  idt_offset_mid :: u16
  idt_offset_high :: u32
  idt_zero :: u32

definition idt_empty :: IdtEntry where
  "idt_empty = \<lparr>idt_offset_low = 0, idt_selector = 0, idt_ist = 0, idt_type_attr = 0, idt_offset_mid = 0,
     idt_offset_high = 0, idt_zero = 0\<rparr>"

definition idt_set :: "IdtEntry \<Rightarrow> u64 \<Rightarrow> u8 \<Rightarrow> IdtEntry" where
  "idt_set e handler type_attr = e\<lparr>
     idt_offset_low := ucast (handler AND 0xFFFF),
     idt_selector := 0x08,
     idt_ist := 0,
     idt_type_attr := type_attr,
     idt_offset_mid := ucast (drop_bit 16 handler AND 0xFFFF),
     idt_offset_high := ucast (drop_bit 32 handler AND 0xFFFFFFFF),
     idt_zero := 0\<rparr>"

definition IDT_ENTRIES :: nat where "IDT_ENTRIES = 256"

text \<open>The table that the first \<^verbatim>\<open>install_idt\<close> builds from the addresses of the stubs and loads; a second
  call does nothing.\<close>

definition install_idt :: "(nat \<Rightarrow> u64) \<Rightarrow> bool \<times> IdtEntry list \<Rightarrow> bool \<times> IdtEntry list" where
  "install_idt stub = (\<lambda>(installed, idt).
     if installed then (True, idt)
     else (True, map (\<lambda>i. idt_set (idt ! i) (stub i) (if i = 0x80 then 0xEE else 0x8E)) [0..<IDT_ENTRIES]))"

section \<open>The machine\<close>

record XT =
  xg :: "nat \<Rightarrow> u64"
  xrsp :: u64
  xrip :: u64
  xcs :: u64
  xrflags :: u64
  xss :: u64
  xtmem :: "u64 \<Rightarrow> u64"

definition RAX :: nat where "RAX = 0"
definition RBX :: nat where "RBX = 1"
definition RCX :: nat where "RCX = 2"
definition RDX :: nat where "RDX = 3"
definition RSI :: nat where "RSI = 4"
definition RDI :: nat where "RDI = 5"
definition RBP :: nat where "RBP = 6"
definition R8 :: nat where "R8 = 7"
definition R9 :: nat where "R9 = 8"
definition R10 :: nat where "R10 = 9"
definition R11 :: nat where "R11 = 10"
definition R12 :: nat where "R12 = 11"
definition R13 :: nat where "R13 = 12"
definition R14 :: nat where "R14 = 13"
definition R15 :: nat where "R15 = 14"

lemmas gpr = RAX_def RBX_def RCX_def RDX_def RSI_def RDI_def RBP_def R8_def R9_def R10_def R11_def R12_def
  R13_def R14_def R15_def

datatype XTInsn = XT_PUSH nat | XT_PUSHI u64 | XT_POP nat | XT_ADD_RSP u64 | XT_IRETQ

definition push64 :: "u64 \<Rightarrow> XT \<Rightarrow> XT" where
  "push64 v m = m\<lparr>xrsp := xrsp m - 8, xtmem := (xtmem m)(xrsp m - 8 := v)\<rparr>"

fun xt_exec :: "XTInsn \<Rightarrow> XT \<Rightarrow> XT" where
  "xt_exec (XT_PUSH r) m = push64 (xg m r) m"
| "xt_exec (XT_PUSHI v) m = push64 v m"
| "xt_exec (XT_POP r) m = m\<lparr>xg := (xg m)(r := xtmem m (xrsp m)), xrsp := xrsp m + 8\<rparr>"
| "xt_exec (XT_ADD_RSP n) m = m\<lparr>xrsp := xrsp m + n\<rparr>"
| "xt_exec XT_IRETQ m = m\<lparr>xrip := xtmem m (xrsp m), xcs := xtmem m (xrsp m + 8), xrflags := xtmem m (xrsp m + 16),
     xss := xtmem m (xrsp m + 32), xrsp := xtmem m (xrsp m + 24)\<rparr>"

text \<open>How the CPU enters a handler in long mode: it aligns the stack and pushes the interrupted state, with
  an error code for some exceptions.\<close>

definition cpu_error_code :: "u64 \<Rightarrow> bool" where
  "cpu_error_code v \<longleftrightarrow> v \<in> {8, 10, 11, 12, 13, 14, 17, 21, 29, 30}"

definition cpu_deliver :: "u64 \<Rightarrow> u64 \<Rightarrow> XT \<Rightarrow> XT" where
  "cpu_deliver v err m =
     (let m' = push64 (xrip m) (push64 (xcs m) (push64 (xrflags m) (push64 (xrsp m) (push64 (xss m)
                 (m\<lparr>xrsp := xrsp m AND NOT 0xf\<rparr>)))))
      in if cpu_error_code v then push64 err m' else m')"

section \<open>The stubs\<close>

text \<open>\<^verbatim>\<open>ISR_ERR\<close> for the vectors the stub file lists so, \<^verbatim>\<open>ISR_NOERR\<close> for the others.\<close>

definition isr_stub :: "u64 \<Rightarrow> XTInsn list" where
  "isr_stub v = (if v \<in> set [8, 10, 11, 12, 13, 14, 17, 21, 29, 30] then [XT_PUSHI v] else [XT_PUSHI 0, XT_PUSHI v])"

definition trap_common :: "XTInsn list" where
  "trap_common = [XT_PUSH R15, XT_PUSH R14, XT_PUSH R13, XT_PUSH R12, XT_PUSH R11, XT_PUSH R10, XT_PUSH R9,
     XT_PUSH R8, XT_PUSH RBP, XT_PUSH RDI, XT_PUSH RSI, XT_PUSH RDX, XT_PUSH RCX, XT_PUSH RBX, XT_PUSH RAX]"

definition trap_return :: "XTInsn list" where
  "trap_return = [XT_POP RAX, XT_POP RBX, XT_POP RCX, XT_POP RDX, XT_POP RSI, XT_POP RDI, XT_POP RBP, XT_POP R8,
     XT_POP R9, XT_POP R10, XT_POP R11, XT_POP R12, XT_POP R13, XT_POP R14, XT_POP R15,
     XT_ADD_RSP 16, XT_IRETQ]"

datatype TrapKind = TrapSpurious | TrapException | TrapIrq

text \<open>The comparisons of \<^verbatim>\<open>__trap_common\<close>.\<close>

definition trap_kind :: "u64 \<Rightarrow> TrapKind" where
  "trap_kind v =
     (if v = 0xFF then TrapSpurious else if v = 0x80 then TrapException else if v < 0x20 then TrapException
      else TrapIrq)"

section \<open>The handlers\<close>

record TrapFrameX64 =
  tf_regs :: "u64 list"
  tf_vector :: u64
  tf_error_code :: u64
  tf_rip :: u64
  tf_cs :: u64
  tf_rflags :: u64
  tf_rsp :: u64
  tf_ss :: u64

definition xtrap_exception ::
  "Bus \<Rightarrow> X86State \<Rightarrow> BootConsole option \<Rightarrow> TrapFrameX64 \<Rightarrow> 'c Machine \<Rightarrow> hist \<Rightarrow> (TrapFrameX64, 'c) Outcome option" where
  "xtrap_exception bus x con tf m h =
     (if tf_vector tf = 0x80
      then (let nr = tf_regs tf ! RAX;
                args = [tf_regs tf ! RDI, tf_regs tf ! RSI, tf_regs tf ! RDX, tf_regs tf ! R10, tf_regs tf ! R8, tf_regs tf ! R9] in
            case dispatch bus (X86_64 x) con nr args m h of
              None \<Rightarrow> None
            | Some (Returned ret m h) \<Rightarrow> Some (Returned (tf\<lparr>tf_regs := (tf_regs tf)[RAX := ret]\<rparr>) m h)
            | Some (ThreadGone m t h) \<Rightarrow> Some (ThreadGone m t h)
            | Some (Stopped h) \<Rightarrow> Some (Stopped h))
      else None)"

text \<open>The log line of an unrouted interrupt is left out.\<close>

definition xtrap_irq :: "TrapFrameX64 \<Rightarrow> X86State \<Rightarrow> 'c Machine \<Rightarrow> hist \<Rightarrow> TrapFrameX64 \<times> X86State \<times> 'c Machine \<times> hist" where
  "xtrap_irq tf x m h =
     (let v = (ucast (tf_vector tf) :: u8);
          (x, m) = (if v = 0x20 then (x64_on_tick x, sched_on_tick m) else (x, m))
      in (tf, x, m, snd (run_state (lapic_eoi x) h)))"

definition xtrap_spurious :: "TrapFrameX64 \<Rightarrow> X86State \<Rightarrow> 'c Machine \<Rightarrow> hist \<Rightarrow> TrapFrameX64 \<times> X86State \<times> 'c Machine \<times> hist" where
  "xtrap_spurious tf x m h = (tf, x, m, h)"

text \<open>\<^verbatim>\<open>__trap_common\<close> after the pushes: the call that the saved vector selects.\<close>

definition trap_dispatch ::
  "Bus \<Rightarrow> X86State \<Rightarrow> BootConsole option \<Rightarrow> TrapFrameX64 \<Rightarrow> 'c Machine \<Rightarrow> hist \<Rightarrow>
     (TrapFrameX64 \<times> X86State, 'c) Outcome option" where
  "trap_dispatch bus x con tf m h =
     (case trap_kind (tf_vector tf) of
        TrapSpurious \<Rightarrow> (let (tf, x, m, h) = xtrap_spurious tf x m h in Some (Returned (tf, x) m h))
      | TrapException \<Rightarrow>
          (case xtrap_exception bus x con tf m h of
             None \<Rightarrow> None
           | Some (Returned tf m h) \<Rightarrow> Some (Returned (tf, x) m h)
           | Some (ThreadGone m t h) \<Rightarrow> Some (ThreadGone m t h)
           | Some (Stopped h) \<Rightarrow> Some (Stopped h))
      | TrapIrq \<Rightarrow> (let (tf, x, m, h) = xtrap_irq tf x m h in Some (Returned (tf, x) m h)))"

section \<open>Entry and exit\<close>

definition xframe_at :: "(u64 \<Rightarrow> u64) \<Rightarrow> u64 \<Rightarrow> TrapFrameX64" where
  "xframe_at mem a =
     \<lparr>tf_regs = map (\<lambda>i. mem (a + 8 * word_of_nat i)) [0..<15], tf_vector = mem (a + 120), tf_error_code = mem (a + 128),
      tf_rip = mem (a + 136), tf_cs = mem (a + 144), tf_rflags = mem (a + 152), tf_rsp = mem (a + 160), tf_ss = mem (a + 168)\<rparr>"

definition xframe_of :: "u64 \<Rightarrow> u64 \<Rightarrow> XT \<Rightarrow> TrapFrameX64" where
  "xframe_of v err m =
     \<lparr>tf_regs = map (xg m) [0..<15], tf_vector = v, tf_error_code = (if cpu_error_code v then err else 0),
      tf_rip = xrip m, tf_cs = xcs m, tf_rflags = xrflags m, tf_rsp = xrsp m, tf_ss = xss m\<rparr>"

definition xtrap_entry :: "u64 \<Rightarrow> u64 \<Rightarrow> XT \<Rightarrow> XT" where
  "xtrap_entry v err m = fold xt_exec trap_common (fold xt_exec (isr_stub v) (cpu_deliver v err m))"

definition xtrap_exit :: "XT \<Rightarrow> XT" where
  "xtrap_exit m = fold xt_exec trap_return m"

definition xhandler_left :: "XT \<Rightarrow> TrapFrameX64 \<Rightarrow> XT \<Rightarrow> bool" where
  "xhandler_left m tf m' \<longleftrightarrow> xrsp m' = xrsp m \<and> xframe_at (xtmem m') (xrsp m') = tf"

lemma upt15: "[0..<15] = [0, 1, 2, 3, 4, 5, 6, 7, 8, 9, 10, 11, 12, 13, 14]"
  by (simp add: upt_rec)

lemma stub_uniform:
  "fold xt_exec (isr_stub v) (cpu_deliver v err m) =
     push64 v (push64 (if cpu_error_code v then err else 0)
       (push64 (xrip m) (push64 (xcs m) (push64 (xrflags m) (push64 (xrsp m) (push64 (xss m)
                 (m\<lparr>xrsp := xrsp m AND NOT 0xf\<rparr>)))))))"
  by (simp add: isr_stub_def cpu_deliver_def cpu_error_code_def Let_def)

lemma xtrap_entry_rsp: "xrsp (xtrap_entry v err m) = (xrsp m AND NOT 0xf) - 176"
  by (simp add: xtrap_entry_def stub_uniform trap_common_def push64_def)

lemma xtrap_entry_frame: "xframe_at (xtmem (xtrap_entry v err m)) (xrsp (xtrap_entry v err m)) = xframe_of v err m"
proof -
  obtain a where a: "a = xrsp m AND NOT 0xf" by simp
  show ?thesis
    unfolding xtrap_entry_rsp xtrap_entry_def stub_uniform a [symmetric] xframe_at_def xframe_of_def upt15
    by (simp add: trap_common_def push64_def gpr)
qed

lemma xtrap_exit_state:
  "map (xg (xtrap_exit m)) [0..<15] = tf_regs (xframe_at (xtmem m) (xrsp m))"
  "xrip (xtrap_exit m) = tf_rip (xframe_at (xtmem m) (xrsp m))"
  "xcs (xtrap_exit m) = tf_cs (xframe_at (xtmem m) (xrsp m))"
  "xrflags (xtrap_exit m) = tf_rflags (xframe_at (xtmem m) (xrsp m))"
  "xrsp (xtrap_exit m) = tf_rsp (xframe_at (xtmem m) (xrsp m))"
  "xss (xtrap_exit m) = tf_ss (xframe_at (xtmem m) (xrsp m))"
  unfolding xframe_at_def upt15
  by (simp_all add: xtrap_exit_def trap_return_def gpr add.commute)

definition xresumes_as :: "nat set \<Rightarrow> XT \<Rightarrow> XT \<Rightarrow> bool" where
  "xresumes_as changed m m' \<longleftrightarrow>
     (\<forall>i < 15. i \<notin> changed \<longrightarrow> xg m' i = xg m i) \<and> xrsp m' = xrsp m \<and> xrip m' = xrip m \<and> xcs m' = xcs m \<and>
     xrflags m' = xrflags m \<and> xss m' = xss m"

lemma xhandler_resumes:
  assumes "xhandler_left (xtrap_entry v err m) tf m'"
  shows "i < 15 \<Longrightarrow> xg (xtrap_exit m') i = tf_regs tf ! i" "xrip (xtrap_exit m') = tf_rip tf"
    "xcs (xtrap_exit m') = tf_cs tf" "xrflags (xtrap_exit m') = tf_rflags tf" "xrsp (xtrap_exit m') = tf_rsp tf"
    "xss (xtrap_exit m') = tf_ss tf"
proof -
  have f: "xframe_at (xtmem m') (xrsp m') = tf" using assms by (auto simp: xhandler_left_def)
  have "xg (xtrap_exit m') i = map (xg (xtrap_exit m')) [0..<15] ! i" if "i < 15" using that by simp
  then show "i < 15 \<Longrightarrow> xg (xtrap_exit m') i = tf_regs tf ! i" using f by (simp add: xtrap_exit_state)
  show "xrip (xtrap_exit m') = tf_rip tf" "xcs (xtrap_exit m') = tf_cs tf" "xrflags (xtrap_exit m') = tf_rflags tf"
    "xrsp (xtrap_exit m') = tf_rsp tf" "xss (xtrap_exit m') = tf_ss tf"
    using f by (simp_all add: xtrap_exit_state)
qed

lemma xframe_same_resumes:
  assumes "xhandler_left (xtrap_entry v err m) (xframe_of v err m) m'"
  shows "xresumes_as {} m (xtrap_exit m')"
  using xhandler_resumes [OF assms] by (simp add: xresumes_as_def xframe_of_def)

lemma nth_xframe_of: "i < 15 \<Longrightarrow> tf_regs (xframe_of v err m) ! i = xg m i"
  by (simp add: xframe_of_def)

text \<open>C24: A system call by \<^verbatim>\<open>int 0x80\<close>: the kernel dispatches on the caller's rax with rdi, rsi, rdx, r10, r8 and
  r9, and when the call returns the caller finds the result in rax and every other general
  register, its stack pointer, program counter, flags and segments as they were; a CPU exception
  never returns to the code that raised it.\<close>

theorem int80_correct:
  assumes trap: "xtrap_exception bus x con (xframe_at (xtmem (xtrap_entry v err m)) (xrsp (xtrap_entry v err m))) k h =
      Some (Returned tf k' h')"
    and left: "xhandler_left (xtrap_entry v err m) tf m'"
  shows "v = 0x80 \<and> dispatch bus (X86_64 x) con (xg m RAX) (map (xg m) [RDI, RSI, RDX, R10, R8, R9]) k h =
      Some (Returned (xg (xtrap_exit m') RAX) k' h') \<and> xresumes_as {RAX} m (xtrap_exit m')"
proof -
  have v: "tf_vector (xframe_of v err m) = v" by (simp add: xframe_of_def)
  obtain ret where d: "v = 0x80"
    "dispatch bus (X86_64 x) con (xg m RAX) (map (xg m) [RDI, RSI, RDX, R10, R8, R9]) k h = Some (Returned ret k' h')"
    and tf: "tf = (xframe_of v err m)\<lparr>tf_regs := (tf_regs (xframe_of v err m))[RAX := ret]\<rparr>"
    using trap unfolding xtrap_entry_frame
    by (auto simp: xtrap_exception_def v nth_xframe_of gpr Let_def split: option.splits Outcome.splits if_splits)
  have len: "length (tf_regs (xframe_of v err m)) = 15" by (simp add: xframe_of_def)
  note r = xhandler_resumes [OF left]
  have "xg (xtrap_exit m') RAX = ret" using r(1) [of RAX] tf len by (simp add: gpr)
  moreover have "xg (xtrap_exit m') i = xg m i" if "i < 15" "i \<noteq> RAX" for i
    using r(1) [of i] that tf len by (simp add: nth_xframe_of)
  ultimately show ?thesis using d tf r(2-6) by (simp add: xresumes_as_def xframe_of_def)
qed

lemma vector_byte:
  assumes "v < (256 :: u64)"
  shows "(ucast v :: u8) = 0x20 \<longleftrightarrow> v = 0x20"
proof
  assume e: "(ucast v :: u8) = 0x20"
  have "unat (ucast v :: u8) = unat v" using assms by (simp add: unsigned_ucast_eq take_bit_nat_eq_self word_less_nat_alt)
  then have "unat v = unat (0x20 :: u64)" using e by simp
  then show "v = 0x20" unfolding unat_inj_iff .
qed simp

lemma xtrap_irq_run:
  assumes "tf_vector tf < 256" "x_lapic_base x \<noteq> 0"
  shows "xtrap_irq tf x k h =
    (tf, if tf_vector tf = 0x20 then x64_on_tick x else x, if tf_vector tf = 0x20 then sched_on_tick k else k,
     h @ [W32 (x_lapic_base x + REG_EOI) 0])"
  using assms by (simp add: xtrap_irq_def vector_byte lapic_eoi_def lapic_write_def write32_def x64_on_tick_def)

text \<open>C25: Every vector but \<^verbatim>\<open>int 0x80\<close> through the common entry code. A CPU exception panics. The spurious vector
  returns with nothing changed and no access to a device, so it is not ended. Any other vector is a
  hardware interrupt: it is ended by one write, its only access, and ticks the timer and the
  scheduler exactly when it is the timer's. The interrupted code resumes with its general registers,
  stack pointer, program counter, flags and segments as they were.\<close>

theorem x64_irq_correct:
  assumes tf: "tf = xframe_at (xtmem (xtrap_entry v err m)) (xrsp (xtrap_entry v err m))"
    and v: "v < 256" "v \<noteq> 0x80" and base: "x_lapic_base x \<noteq> 0"
  shows "trap_dispatch bus x con tf k h =
      (if v < 0x20 then None
       else if v = 0xFF then Some (Returned (tf, x) k h)
       else if v = 0x20 then Some (Returned (tf, x64_on_tick x) (sched_on_tick k) (h @ [W32 (x_lapic_base x + REG_EOI) 0]))
       else Some (Returned (tf, x) k (h @ [W32 (x_lapic_base x + REG_EOI) 0]))) \<and>
    (xhandler_left (xtrap_entry v err m) tf m' \<longrightarrow> xresumes_as {} m (xtrap_exit m'))"
proof -
  have f: "tf = xframe_of v err m" using tf by (simp add: xtrap_entry_frame)
  then have fv: "tf_vector tf = v" by (simp add: xframe_of_def)
  note irq = xtrap_irq_run [of tf x k h, unfolded fv, OF v(1) base]
  consider "v < 0x20" "trap_kind v = TrapException" | "v = 0xFF" "trap_kind v = TrapSpurious"
    | "\<not> v < 0x20" "v \<noteq> 0xFF" "trap_kind v = TrapIrq"
    using v(2) unfolding trap_kind_def by (cases "v = 0xFF"; cases "v < 0x20") simp_all
  then have "trap_dispatch bus x con tf k h =
      (if v < 0x20 then None
       else if v = 0xFF then Some (Returned (tf, x) k h)
       else if v = 0x20 then Some (Returned (tf, x64_on_tick x) (sched_on_tick k) (h @ [W32 (x_lapic_base x + REG_EOI) 0]))
       else Some (Returned (tf, x) k (h @ [W32 (x_lapic_base x + REG_EOI) 0])))"
  proof cases
    case 1
    then show ?thesis using v(2) by (simp add: trap_dispatch_def fv xtrap_exception_def)
  next
    case 2
    then show ?thesis by (simp add: trap_dispatch_def fv xtrap_spurious_def)
  next
    case 3
    then show ?thesis by (simp add: trap_dispatch_def fv irq)
  qed
  then show ?thesis using f xframe_same_resumes by simp
qed

section \<open>The gates\<close>

definition gate_offset :: "IdtEntry \<Rightarrow> u64" where
  "gate_offset e = ucast (idt_offset_low e) OR push_bit 16 (ucast (idt_offset_mid e)) OR push_bit 32 (ucast (idt_offset_high e))"

definition gate_dpl :: "IdtEntry \<Rightarrow> u8" where
  "gate_dpl e = drop_bit 5 (idt_type_attr e) AND 3"

lemma gate_offset_set: "gate_offset (idt_set e handler attr) = handler"
proof -
  have m: "(0xFFFF :: u64) = mask 16" "(0xFFFFFFFF :: u64) = mask 32" by (simp_all add: mask_eq_exp_minus_1)
  show ?thesis
  proof (rule bit_word_eqI)
    fix n assume n: "n < LENGTH(64)"
    consider "n < 16" | "16 \<le> n" "n < 32" | "32 \<le> n" by linarith
    then show "bit (gate_offset (idt_set e handler attr)) n = bit handler n"
      using n unfolding gate_offset_def idt_set_def m by cases (auto simp: bit_simps)
  qed
qed

lemma gate_dpl_set: "gate_dpl (idt_set e handler attr) = drop_bit 5 attr AND 3"
  by (simp add: gate_dpl_def idt_set_def)

text \<open>The first \<^verbatim>\<open>install_idt\<close> makes every vector a present interrupt gate to its own stub, and only \<^verbatim>\<open>int 0x80\<close>
  may be raised from user mode.\<close>

lemma install_idt_gates:
  assumes "i < 256"
  shows "gate_offset (snd (install_idt stub (False, replicate IDT_ENTRIES idt_empty)) ! i) = stub i"
    "gate_dpl (snd (install_idt stub (False, replicate IDT_ENTRIES idt_empty)) ! i) = (if i = 0x80 then 3 else 0)"
  using assms
  by (simp_all add: install_idt_def IDT_ENTRIES_def gate_offset_set gate_dpl_set drop_bit_eq_div)

section \<open>Examples\<close>

lemma xframe_at_rax: "xframe_at (mem(a := v)) a = (xframe_at mem a)\<lparr>tf_regs := (tf_regs (xframe_at mem a))[0 := v]\<rparr>"
  unfolding xframe_at_def upt15 by simp

definition user_x64 :: XT where
  "user_x64 = \<lparr>xg = \<lambda>i. 7 + word_of_nat i, xrsp = 0x7ffff8, xrip = 0x400000, xcs = 0x18, xrflags = 0x202, xss = 0x20,
     xtmem = \<lambda>_. 0\<rparr>"

definition x86_up :: X86State where
  "x86_up = \<lparr>x_lapic_base = 0xFEE00000, x_ioapic_base = 0xFEC00000, x_tsc_freq = 3000000000, x_ticks = 0\<rparr>"

definition idle_x64 :: "unit Machine" where
  "idle_x64 = \<lparr>k_regs = (), k_masked = True, k_sched = sched_new, k_next_tid = 1, k_procs = proctable_new\<rparr>"

theorem int80_correct_witness:
  "\<exists>m'. dispatch zero_bus (X86_64 x86_up) None 7 (map (xg user_x64) [RDI, RSI, RDX, R10, R8, R9]) idle_x64 [] =
      Some (Returned (xg (xtrap_exit m') RAX) idle_x64 []) \<and> xresumes_as {RAX} user_x64 (xtrap_exit m')"
proof -
  let ?e = "xtrap_entry 0x80 0 user_x64"
  let ?m = "?e\<lparr>xtmem := (xtmem ?e)(xrsp ?e := - 1)\<rparr>"
  let ?f = "xframe_of 0x80 0 user_x64"
  let ?tf = "?f\<lparr>tf_regs := (tf_regs ?f)[RAX := - 1]\<rparr>"
  have rax: "xg user_x64 RAX = 7" by (simp add: user_x64_def RAX_def)
  have v: "tf_vector ?f = 0x80" by (simp add: xframe_of_def)
  have "xtrap_exception zero_bus x86_up None (xframe_at (xtmem ?e) (xrsp ?e)) idle_x64 [] = Some (Returned ?tf idle_x64 [])"
    unfolding xtrap_entry_frame
    by (simp add: xtrap_exception_def v nth_xframe_of gpr rax [unfolded RAX_def] dispatch_unknown Let_def)
  moreover have "xhandler_left ?e ?tf ?m"
    by (simp add: xhandler_left_def xframe_at_rax xtrap_entry_frame RAX_def)
  ultimately show ?thesis using int80_correct rax by metis
qed

theorem x64_irq_correct_witness:
  "trap_dispatch zero_bus x86_up None (xframe_of 0x20 0 user_x64) idle_x64 [] =
     Some (Returned (xframe_of 0x20 0 user_x64, x64_on_tick x86_up) (sched_on_tick idle_x64) [W32 0xFEE000B0 0])
   \<and> trap_dispatch zero_bus x86_up None (xframe_of 0xFF 0 user_x64) idle_x64 [] =
     Some (Returned (xframe_of 0xFF 0 user_x64, x86_up) idle_x64 [])
   \<and> xresumes_as {} user_x64 (xtrap_exit (xtrap_entry 0x20 0 user_x64))"
proof -
  have left: "xhandler_left (xtrap_entry v 0 user_x64) (xframe_of v 0 user_x64) (xtrap_entry v 0 user_x64)" for v
    by (simp add: xhandler_left_def xtrap_entry_frame)
  note r = x64_irq_correct [OF xtrap_entry_frame [symmetric], where x = x86_up and m = user_x64 and k = idle_x64
    and h = "[]" and err = 0 and bus = zero_bus and con = None]
  show ?thesis
    using r [of "0x20" "xtrap_entry 0x20 0 user_x64"] r [of "0xFF"] left
    by (simp add: x86_up_def REG_EOI_def)
qed

end
