(* ===== verification/Hyp_Multiboot.thy ===== *)
theory Hyp_Multiboot
  imports Hyp_Boot_Info Hyp_Bytes
begin

text \<open>
  The Multiboot2 parser (\<^verbatim>\<open>kernel/src/hal/multiboot.rs\<close>) over the byte memory that the boot loader left. Both
  loops move a 64-bit cursor that wraps, so they are \<^theory_text>\<open>partial_function\<close>s: a run without end is
  \<^const>\<open>None\<close>. The lemmas show that the parser ends on every memory contents below the middle of the
  address space and that what it returns is well formed, and that for a memory that holds an
  encoded list of tags the result is the one the list describes.
\<close>

section \<open>Definitions\<close>

definition MB2_MAGIC :: u64 where "MB2_MAGIC = 0x36d76289"
definition TAG_END :: u32 where "TAG_END = 0"
definition TAG_CMDLINE :: u32 where "TAG_CMDLINE = 1"
definition TAG_BOOTLOADER_NAME :: u32 where "TAG_BOOTLOADER_NAME = 2"
definition TAG_BASIC_MEM_INFO :: u32 where "TAG_BASIC_MEM_INFO = 4"
definition TAG_MEMORY_MAP :: u32 where "TAG_MEMORY_MAP = 6"
definition TAG_FRAMEBUFFER_INFO :: u32 where "TAG_FRAMEBUFFER_INFO = 8"
definition TAG_EFI64_SYSTAB :: u32 where "TAG_EFI64_SYSTAB = 12"
definition TAG_RSDP_OLD :: u32 where "TAG_RSDP_OLD = 14"
definition TAG_RSDP_NEW :: u32 where "TAG_RSDP_NEW = 15"
definition TAG_EFI64_IMAGE :: u32 where "TAG_EFI64_IMAGE = 20"
definition MEM_TYPE_AVAILABLE :: u32 where "MEM_TYPE_AVAILABLE = 1"

lemmas mb_tags = TAG_END_def TAG_CMDLINE_def TAG_BOOTLOADER_NAME_def TAG_BASIC_MEM_INFO_def TAG_MEMORY_MAP_def
  TAG_FRAMEBUFFER_INFO_def TAG_EFI64_SYSTAB_def TAG_RSDP_OLD_def TAG_RSDP_NEW_def TAG_EFI64_IMAGE_def

record TagHeader =
  th_typ :: u32
  th_size :: u32

definition tag_header :: "memory \<Rightarrow> u64 \<Rightarrow> TagHeader" where
  "tag_header mem a = \<lparr>th_typ = rd32 mem a, th_size = rd32 mem (a + 4)\<rparr>"

record MemMapEntry =
  me_base_addr :: u64
  me_length :: u64
  me_typ :: u32

definition mem_map_entry :: "memory \<Rightarrow> u64 \<Rightarrow> MemMapEntry" where
  "mem_map_entry mem a = \<lparr>me_base_addr = rd64 mem a, me_length = rd64 mem (a + 8), me_typ = rd32 mem (a + 16)\<rparr>"

record FbTag =
  ft_addr :: u64
  ft_pitch :: u32
  ft_width :: u32
  ft_height :: u32
  ft_bpp :: u8
  ft_fb_type :: u8

definition fb_tag :: "memory \<Rightarrow> u64 \<Rightarrow> FbTag" where
  "fb_tag mem a = \<lparr>ft_addr = rd64 mem (a + 8), ft_pitch = rd32 mem (a + 16), ft_width = rd32 mem (a + 20),
     ft_height = rd32 mem (a + 24), ft_bpp = mem (a + 28), ft_fb_type = mem (a + 29)\<rparr>"

text \<open>The first field of \<^verbatim>\<open>FbRgb\<close>, the only one that is read.\<close>

definition fb_red_field_position :: "memory \<Rightarrow> u64 \<Rightarrow> u8" where
  "fb_red_field_position mem a = mem a"

partial_function (option) mb_entries :: "memory \<Rightarrow> u64 \<Rightarrow> u64 \<Rightarrow> u64 \<Rightarrow> MemoryMap \<Rightarrow> MemoryMap option" where
  "mb_entries mem entry_size entries_end p new_map =
     (if p + entry_size \<le> entries_end \<and> entry_size \<noteq> 0
      then let e = mem_map_entry mem p;
               new_map = (if me_typ e = MEM_TYPE_AVAILABLE \<and> me_length e \<noteq> 0
                          then memory_map_push new_map (region (me_base_addr e) (me_length e)) else new_map)
           in mb_entries mem entry_size entries_end (p + entry_size) new_map
      else Some new_map)"

type_synonym mb_state = "BootInfo \<times> bool"

definition mb_memory_map :: "memory \<Rightarrow> u64 \<Rightarrow> u32 \<Rightarrow> mb_state \<Rightarrow> mb_state option" where
  "mb_memory_map mem cur sz = (\<lambda>(bi, have_real_memory). do {
     let body = cur + 8;
     let entry_size = (ucast (rd32 mem body) :: u64);
     new_map \<leftarrow> mb_entries mem entry_size (cur + ucast sz) (body + 8) memory_map_empty;
     Some (if memory_map_total_bytes new_map \<noteq> 0 then (bi\<lparr>bi_memory := new_map\<rparr>, True) else (bi, have_real_memory))
   })"

definition mb_basic_map :: "u64 \<Rightarrow> u64 \<Rightarrow> MemoryMap" where
  "mb_basic_map mem_lower mem_upper =
     (let m = (if mem_lower \<noteq> 0 then memory_map_push memory_map_empty (region 0 (mem_lower * 1024)) else memory_map_empty)
      in if mem_upper \<noteq> 0 then memory_map_push m (region 0x100000 (mem_upper * 1024)) else m)"

definition mb_basic_mem :: "memory \<Rightarrow> u64 \<Rightarrow> mb_state \<Rightarrow> mb_state" where
  "mb_basic_mem mem cur = (\<lambda>(bi, have_real_memory).
     if \<not> have_real_memory
     then (let body = cur + 8;
               new_map = mb_basic_map (ucast (rd32 mem body)) (ucast (rd32 mem (body + 4)))
           in if memory_map_total_bytes new_map \<noteq> 0 then (bi\<lparr>bi_memory := new_map\<rparr>, have_real_memory)
              else (bi, have_real_memory))
     else (bi, have_real_memory))"

definition mb_framebuffer :: "memory \<Rightarrow> u64 \<Rightarrow> u32 \<Rightarrow> mb_state \<Rightarrow> mb_state" where
  "mb_framebuffer mem cur sz = (\<lambda>(bi, have_real_memory).
     if 32 \<le> sz
     then (let fb = fb_tag mem cur in
           if ft_fb_type fb = 1 \<and> ft_bpp fb = 32
           then (let format = (if 16 \<le> fb_red_field_position mem (cur + 32) then Bgra8888 else Rgba8888) in
                 (bi\<lparr>bi_framebuffer := Some \<lparr>fbi_base = ft_addr fb, fbi_width = ft_width fb, fbi_height = ft_height fb,
                    fbi_stride_bytes = ft_pitch fb, fbi_bpp = ucast (ft_bpp fb), fbi_format = format\<rparr>\<rparr>, have_real_memory))
           else (bi, have_real_memory))
     else (bi, have_real_memory))"

definition mb_systab :: "memory \<Rightarrow> u64 \<Rightarrow> u64 \<Rightarrow> mb_state \<Rightarrow> mb_state" where
  "mb_systab mem mbi_ptr cur = (\<lambda>(bi, have_real_memory).
     if bi_fw_table_addr bi = mbi_ptr then (bi\<lparr>bi_fw_table_addr := rd64 mem (cur + 8)\<rparr>, have_real_memory)
     else (bi, have_real_memory))"

definition mb_tag :: "memory \<Rightarrow> u64 \<Rightarrow> u64 \<Rightarrow> TagHeader \<Rightarrow> mb_state \<Rightarrow> mb_state option" where
  "mb_tag mem mbi_ptr cur hdr s =
     (if th_typ hdr = TAG_MEMORY_MAP then mb_memory_map mem cur (th_size hdr) s
      else if th_typ hdr = TAG_BASIC_MEM_INFO then Some (mb_basic_mem mem cur s)
      else if th_typ hdr = TAG_FRAMEBUFFER_INFO then Some (mb_framebuffer mem cur (th_size hdr) s)
      else if th_typ hdr = TAG_RSDP_OLD \<or> th_typ hdr = TAG_RSDP_NEW
        then Some ((fst s)\<lparr>bi_fw_table_addr := cur + 8\<rparr>, snd s)
      else if th_typ hdr = TAG_EFI64_SYSTAB then Some (mb_systab mem mbi_ptr cur s)
      else Some s)"

definition mb_align :: "u32 \<Rightarrow> u64" where
  "mb_align sz = (ucast sz + 7) AND NOT 7"

partial_function (option) mb_walk :: "memory \<Rightarrow> u64 \<Rightarrow> u64 \<Rightarrow> u64 \<Rightarrow> mb_state \<Rightarrow> mb_state option" where
  "mb_walk mem mbi_ptr end cur s =
     (if cur + 8 \<le> end
      then let hdr = tag_header mem cur in
           if th_typ hdr = TAG_END \<or> th_size hdr < 8 then Some s
           else Option.bind (mb_tag mem mbi_ptr cur hdr s) (mb_walk mem mbi_ptr end (cur + mb_align (th_size hdr)))
      else Some s)"

definition mb_start :: "u64 \<Rightarrow> BootInfo" where
  "mb_start mbi_ptr = qemu_q35_fallback\<lparr>bi_fw_table_addr := mbi_ptr,
     bi_intc := \<lparr>ic_kind = Apic, ic_primary = reg_spec 0xFEE00000 0x1000, ic_secondary = reg_spec 0xFEC00000 0x1000\<rparr>\<rparr>"

definition mb_console :: "BootInfo \<Rightarrow> BootInfo" where
  "mb_console bi =
     (if cs_kind (bi_console bi) = Pl011 \<or> cs_kind (bi_console bi) = BcmMiniUart
      then bi\<lparr>bi_console := \<lparr>cs_kind = Ns16550, cs_regs = reg_spec 0x3F8 8, cs_clock_hz = 1843200\<rparr>\<rparr>
      else bi)"

definition mb_parse_or_fallback :: "memory \<Rightarrow> u64 \<Rightarrow> u64 \<Rightarrow> BootInfo option" where
  "mb_parse_or_fallback mem mbi_ptr magic =
     (let bi = mb_start mbi_ptr in
      if magic \<noteq> MB2_MAGIC \<or> mbi_ptr = 0 then Some bi
      else let total_size = rd32 mem mbi_ptr in
        if \<not> (16 \<le> total_size \<and> total_size \<le> 16 * 1024 * 1024) then Some bi
        else do {
          let end = saturating_add mbi_ptr (ucast total_size);
          (bi, _) \<leftarrow> mb_walk mem mbi_ptr end (mbi_ptr + 8) (bi, False);
          Some (mb_console bi)
        })"

section \<open>The parser ends\<close>

lemma mb_align_nat: "unat (mb_align sz) = (unat sz + 7) div 8 * 8"
proof -
  have lt: "unat sz < 2 ^ 32" using unsigned_less [of sz] by simp
  have "unat (ucast sz + 7 :: u64) = unat sz + 7"
    using lt by (simp add: unat_word_ariths unat_ucast_widen)
  moreover have "(NOT 7 :: u64) = NOT (mask 3)" by (simp add: mask_eq_exp_minus_1)
  ultimately show ?thesis
    unfolding mb_align_def by (simp only: and_not_mask_nat) simp
qed

lemma mb_align_step: "8 \<le> sz \<Longrightarrow> 8 \<le> unat (mb_align sz)" "unat (mb_align sz) \<le> 2 ^ 32 + 7"
proof -
  have "unat sz < 2 ^ 32" using unsigned_less [of sz] by simp
  then show "unat (mb_align sz) \<le> 2 ^ 32 + 7" by (simp add: mb_align_nat)
  show "8 \<le> sz \<Longrightarrow> 8 \<le> unat (mb_align sz)" by (simp add: mb_align_nat word_le_nat_alt)
qed

lemma mb_entries_ends:
  assumes "unat p + unat es < 2 ^ 64" "unat end + unat es < 2 ^ 64" "memory_map_wf m"
  shows "\<exists>m'. mb_entries mem es end p m = Some m' \<and> memory_map_wf m'"
  using assms
proof (induction "unat end - unat p" arbitrary: p m rule: less_induct)
  case less
  show ?case
  proof (cases "p + es \<le> end \<and> es \<noteq> 0")
    case False
    then show ?thesis using less.prems(3) by (subst mb_entries.simps) auto
  next
    case True
    have p: "unat (p + es) = unat p + unat es" using less.prems(1) by (simp add: unat_add_lt)
    have es: "0 < unat es" using True by (simp add: unat_gt_0)
    let ?e = "mem_map_entry mem p"
    let ?m = "if me_typ ?e = MEM_TYPE_AVAILABLE \<and> me_length ?e \<noteq> 0
      then memory_map_push m (region (me_base_addr ?e) (me_length ?e)) else m"
    have le: "unat p + unat es \<le> unat end" using True p by (simp add: word_le_nat_alt)
    have "\<exists>m'. mb_entries mem es end (p + es) ?m = Some m' \<and> memory_map_wf m'"
      using less.prems le p es by (intro less.hyps) (auto intro: memory_map_wf_push)
    then show ?thesis using True by (subst mb_entries.simps) (simp add: Let_def)
  qed
qed

text \<open>What every tag keeps of the boot information.\<close>

definition mb_ok :: "BootInfo \<Rightarrow> bool" where
  "mb_ok bi \<longleftrightarrow> memory_map_wf (bi_memory bi) \<and> bi_console bi = bi_console qemu_q35_fallback \<and>
     bi_intc bi = bi_intc qemu_q35_fallback \<and> bi_timer_freq_hz bi = 0 \<and>
     (\<forall>fb. bi_framebuffer bi = Some fb \<longrightarrow> fbi_bpp fb = 32)"

lemma mb_ok_start: "mb_ok (mb_start mbi)"
  by (simp add: mb_ok_def mb_start_def qemu_q35_fallback_def)

lemma mb_memory_map_ends:
  assumes "unat cur < 2 ^ 63 + 2 ^ 33" "mb_ok (fst s)"
  shows "\<exists>s'. mb_memory_map mem cur sz s = Some s' \<and> mb_ok (fst s')"
proof -
  obtain bi r where s: "s = (bi, r)" by force
  have sz: "unat (ucast w :: u64) < 2 ^ 32" for w :: u32 using unsigned_less [of w] by (simp add: unat_ucast_widen)
  have a: "unat (cur + ucast sz) = unat cur + unat (ucast sz :: u64)" "unat (cur + 8 + 8) = unat cur + 16"
    using assms(1) sz [of sz] by (simp_all add: unat_word_ariths)
  obtain m where m: "mb_entries mem (ucast (rd32 mem (cur + 8))) (cur + ucast sz) (cur + 8 + 8) memory_map_empty = Some m"
    "memory_map_wf m"
    using mb_entries_ends [of "cur + 8 + 8" "ucast (rd32 mem (cur + 8))" "cur + ucast sz" memory_map_empty mem]
      a assms(1) sz [of sz] sz [of "rd32 mem (cur + 8)"] by auto
  show ?thesis using m assms(2) s by (auto simp: mb_memory_map_def mb_ok_def)
qed

lemma mb_tag_ends:
  assumes "unat cur < 2 ^ 63 + 2 ^ 33" "mb_ok (fst s)"
  shows "\<exists>s'. mb_tag mem mbi cur hdr s = Some s' \<and> mb_ok (fst s')"
proof (cases "th_typ hdr = TAG_MEMORY_MAP")
  case True
  then show ?thesis using mb_memory_map_ends [OF assms] by (simp add: mb_tag_def)
next
  case False
  have basic: "memory_map_wf (mb_basic_map a b)" for a b
    by (auto simp: mb_basic_map_def Let_def intro!: memory_map_wf_push)
  show ?thesis
    using False assms(2) basic
    by (cases s) (auto simp: mb_tag_def mb_basic_mem_def mb_framebuffer_def mb_systab_def mb_ok_def Let_def)
qed

lemma mb_walk_ends:
  assumes "unat end < 2 ^ 63 + 2 ^ 25" "unat cur < 2 ^ 63 + 2 ^ 33" "mb_ok (fst s)"
  shows "\<exists>s'. mb_walk mem mbi end cur s = Some s' \<and> mb_ok (fst s')"
  using assms
proof (induction "unat end - unat cur" arbitrary: cur s rule: less_induct)
  case less
  let ?hdr = "tag_header mem cur"
  let ?next = "cur + mb_align (th_size ?hdr)"
  show ?case
  proof (cases "cur + 8 \<le> end \<and> th_typ ?hdr \<noteq> TAG_END \<and> \<not> th_size ?hdr < 8")
    case False
    then show ?thesis using less.prems(3) by (cases s, subst mb_walk.simps) (auto simp: Let_def)
  next
    case True
    have cur: "unat cur + 8 \<le> unat end"
      using True less.prems(2) by (simp add: word_le_nat_alt unat_word_ariths)
    have next_eq: "unat ?next = unat cur + unat (mb_align (th_size ?hdr))"
      using less.prems(2) mb_align_step(2) [of "th_size ?hdr"] by (simp add: unat_word_ariths)
    have step: "8 \<le> unat (mb_align (th_size ?hdr))" using True by (intro mb_align_step(1)) (simp add: not_less)
    obtain s' where s': "mb_tag mem mbi cur ?hdr s = Some s'" "mb_ok (fst s')"
      using mb_tag_ends [OF less.prems(2,3)] by blast
    have "\<exists>t. mb_walk mem mbi end ?next s' = Some t \<and> mb_ok (fst t)"
      using less.prems(1) s'(2) cur next_eq step mb_align_step(2) [of "th_size ?hdr"]
      by (intro less.hyps) auto
    then show ?thesis using True s'(1) by (subst mb_walk.simps) (simp add: Let_def)
  qed
qed

text \<open>C32: The Multiboot2 parser returns on every memory contents, however malformed, for an information block
  in the lower half of the address space, and its result is well typed: the memory map is within
  its capacity, the console is the COM1 port, the interrupt controllers are at their reset
  addresses, and a framebuffer has 32 bits per pixel.\<close>

theorem multiboot_returns_wf:
  assumes "unat mbi_ptr < 2 ^ 63"
  shows "\<exists>bi. mb_parse_or_fallback mem mbi_ptr magic = Some bi \<and> mb_ok bi"
proof (cases "magic \<noteq> MB2_MAGIC \<or> mbi_ptr = 0 \<or> \<not> (16 \<le> rd32 mem mbi_ptr \<and> rd32 mem mbi_ptr \<le> 16 * 1024 * 1024)")
  case True
  then show ?thesis using mb_ok_start [of mbi_ptr] by (auto simp: mb_parse_or_fallback_def Let_def)
next
  case False
  let ?fin = "saturating_add mbi_ptr (ucast (rd32 mem mbi_ptr))"
  have "unat (rd32 mem mbi_ptr) \<le> 2 ^ 24" using False by (simp add: word_le_nat_alt)
  then have "unat ?fin < 2 ^ 63 + 2 ^ 25" "unat (mbi_ptr + 8) < 2 ^ 63 + 2 ^ 33"
    using assms by (simp_all add: unat_saturating_add unat_ucast_widen unat_word_ariths)
  from mb_walk_ends [OF this, of "(mb_start mbi_ptr, False)" mem mbi_ptr]
  obtain bi r where w: "mb_walk mem mbi_ptr ?fin (mbi_ptr + 8) (mb_start mbi_ptr, False) = Some (bi, r)" "mb_ok bi"
    using mb_ok_start by auto
  have "mb_console bi = bi" using w(2) by (simp add: mb_console_def mb_ok_def qemu_q35_fallback_def)
  then show ?thesis using False w by (auto simp: mb_parse_or_fallback_def Let_def)
qed

theorem multiboot_returns_wf_witness:
  "\<exists>bi. mb_parse_or_fallback (\<lambda>a. if a = 0x10000 then 0x40 else if a < 0x10008 then 0 else ucast a) 0x10000 MB2_MAGIC =
     Some bi \<and> mb_ok bi"
  using multiboot_returns_wf [where mbi_ptr = "0x10000"] by simp

section \<open>Encoded tags\<close>

text \<open>The information block as the Multiboot2 specification describes it.\<close>

datatype Mb2Tag =
  MbMemMap "MemMapEntry list"
  | MbBasicMem u32 u32
  | MbFramebuffer FbTag u8
  | MbRsdp bool "u8 list"
  | MbSystab u64
  | MbOther u32 "u8 list"

fun mb_typ :: "Mb2Tag \<Rightarrow> u32" where
  "mb_typ (MbMemMap es) = 6"
| "mb_typ (MbBasicMem lo up) = 4"
| "mb_typ (MbFramebuffer fb red) = 8"
| "mb_typ (MbRsdp new bs) = (if new then 15 else 14)"
| "mb_typ (MbSystab a) = 12"
| "mb_typ (MbOther t bs) = t"

definition enc_entry :: "MemMapEntry \<Rightarrow> u8 list" where
  "enc_entry e = to_le_bytes (me_base_addr e) @ to_le_bytes (me_length e) @ to_le_bytes (me_typ e) @ [0, 0, 0, 0]"

fun mb_body :: "Mb2Tag \<Rightarrow> u8 list" where
  "mb_body (MbMemMap es) = to_le_bytes (24 :: u32) @ to_le_bytes (0 :: u32) @ concat (map enc_entry es)"
| "mb_body (MbBasicMem lo up) = to_le_bytes lo @ to_le_bytes up"
| "mb_body (MbFramebuffer fb red) = to_le_bytes (ft_addr fb) @ to_le_bytes (ft_pitch fb) @ to_le_bytes (ft_width fb)
     @ to_le_bytes (ft_height fb) @ [ft_bpp fb, ft_fb_type fb, 0, 0] @ [red, 8, 8, 8, 0, 8]"
| "mb_body (MbRsdp new bs) = bs"
| "mb_body (MbSystab a) = to_le_bytes a"
| "mb_body (MbOther t bs) = bs"

definition mb_size :: "Mb2Tag \<Rightarrow> nat" where
  "mb_size t = 8 + length (mb_body t)"

definition mb_encode :: "Mb2Tag \<Rightarrow> u8 list" where
  "mb_encode t = to_le_bytes (mb_typ t) @ to_le_bytes (word_of_nat (mb_size t) :: u32) @ mb_body t
     @ replicate ((mb_size t + 7) div 8 * 8 - mb_size t) 0"

text \<open>The lengths in a memory map add up to less than the address space; an other tag is none of those above.\<close>

definition mb_tag_ok :: "Mb2Tag \<Rightarrow> bool" where
  "mb_tag_ok t \<longleftrightarrow> mb_size t < 2 ^ 24 \<and>
     (case t of
        MbMemMap es \<Rightarrow> sum_list (map (\<lambda>e. unat (me_length e)) es) < 2 ^ 64
      | MbOther k bs \<Rightarrow> k \<notin> {0, 4, 6, 8, 12, 14, 15}
      | _ \<Rightarrow> True)"

definition mb_tags_bytes :: "Mb2Tag list \<Rightarrow> u8 list" where
  "mb_tags_bytes ts = concat (map mb_encode ts) @ to_le_bytes (0 :: u32) @ to_le_bytes (8 :: u32)"

definition mb_image :: "Mb2Tag list \<Rightarrow> u8 list" where
  "mb_image ts = to_le_bytes (word_of_nat (8 + length (mb_tags_bytes ts)) :: u32) @ [0, 0, 0, 0] @ mb_tags_bytes ts"

text \<open>What the block describes. A memory map tag describes its first eight usable banks; the last tag with
  such a bank counts, and only without one the last basic memory tag that reports memory.\<close>

definition usable_banks :: "MemMapEntry list \<Rightarrow> MemoryRegion list" where
  "usable_banks es = take 8 [region (me_base_addr e) (me_length e). e \<leftarrow> es, me_typ e = 1 \<and> me_length e \<noteq> 0]"

definition basic_banks :: "u32 \<Rightarrow> u32 \<Rightarrow> MemoryRegion list" where
  "basic_banks lo up = [region 0 (ucast lo * 1024). lo \<noteq> 0] @ [region 0x100000 (ucast up * 1024). up \<noteq> 0]"

fun map_banks :: "Mb2Tag \<Rightarrow> MemoryRegion list" where
  "map_banks (MbMemMap es) = usable_banks es"
| "map_banks t = []"

fun info_banks :: "Mb2Tag \<Rightarrow> MemoryRegion list" where
  "info_banks (MbBasicMem lo up) = basic_banks lo up"
| "info_banks t = []"

definition last_or :: "'b \<Rightarrow> 'b list \<Rightarrow> 'b" where
  "last_or d xs = (if xs = [] then d else last xs)"

definition described_memory :: "Mb2Tag list \<Rightarrow> MemoryRegion list" where
  "described_memory ts =
     last_or (last_or [region 0x100000 0x8000000] [info_banks t. t \<leftarrow> ts, info_banks t \<noteq> []])
       [map_banks t. t \<leftarrow> ts, map_banks t \<noteq> []]"

text \<open>The last framebuffer with packed 32-bit pixels counts.\<close>

fun tag_fb :: "Mb2Tag \<Rightarrow> FramebufferInfo option" where
  "tag_fb (MbFramebuffer fb red) =
     (if ft_fb_type fb = 1 \<and> ft_bpp fb = 32
      then Some \<lparr>fbi_base = ft_addr fb, fbi_width = ft_width fb, fbi_height = ft_height fb,
             fbi_stride_bytes = ft_pitch fb, fbi_bpp = 32, fbi_format = (if 16 \<le> red then Bgra8888 else Rgba8888)\<rparr>
      else None)"
| "tag_fb t = None"

definition described_fb :: "Mb2Tag list \<Rightarrow> FramebufferInfo option" where
  "described_fb ts = last_or None [tag_fb t. t \<leftarrow> ts, tag_fb t \<noteq> None]"

text \<open>The firmware table: the body of the last ACPI tag, of either version, or else the first EFI system table
  at an address other than the block's.\<close>

fun placed :: "u64 \<Rightarrow> Mb2Tag list \<Rightarrow> (u64 \<times> Mb2Tag) list" where
  "placed cur [] = []"
| "placed cur (t # ts) = (cur, t) # placed (cur + word_of_nat (length (mb_encode t))) ts"

fun is_rsdp :: "Mb2Tag \<Rightarrow> bool" where
  "is_rsdp (MbRsdp new bs) = True"
| "is_rsdp t = False"

fun systabs :: "Mb2Tag \<Rightarrow> u64 list" where
  "systabs (MbSystab a) = [a]"
| "systabs t = []"

definition described_fw :: "u64 \<Rightarrow> (u64 \<times> Mb2Tag) list \<Rightarrow> u64" where
  "described_fw mbi ps =
     last_or (case filter (\<lambda>a. a \<noteq> mbi) (concat (map (systabs \<circ> snd) ps)) of [] \<Rightarrow> mbi | a # _ \<Rightarrow> a)
       [a + 8. (a, t) \<leftarrow> ps, is_rsdp t]"

text \<open>What the code does with a tag at an address.\<close>

definition available_map :: "MemMapEntry list \<Rightarrow> MemoryMap" where
  "available_map es = fold (\<lambda>e m. memory_map_push m (region (me_base_addr e) (me_length e)))
     (filter (\<lambda>e. me_typ e = 1 \<and> me_length e \<noteq> 0) es) memory_map_empty"

fun mb_meaning :: "u64 \<Rightarrow> u64 \<Rightarrow> Mb2Tag \<Rightarrow> mb_state \<Rightarrow> mb_state" where
  "mb_meaning mbi cur (MbMemMap es) (bi, real) =
     (if memory_map_total_bytes (available_map es) \<noteq> 0 then (bi\<lparr>bi_memory := available_map es\<rparr>, True) else (bi, real))"
| "mb_meaning mbi cur (MbBasicMem lo up) (bi, real) =
     (if \<not> real \<and> memory_map_total_bytes (mb_basic_map (ucast lo) (ucast up)) \<noteq> 0
      then (bi\<lparr>bi_memory := mb_basic_map (ucast lo) (ucast up)\<rparr>, real) else (bi, real))"
| "mb_meaning mbi cur (MbFramebuffer fb red) (bi, real) =
     (if ft_fb_type fb = 1 \<and> ft_bpp fb = 32
      then (bi\<lparr>bi_framebuffer := Some \<lparr>fbi_base = ft_addr fb, fbi_width = ft_width fb, fbi_height = ft_height fb,
             fbi_stride_bytes = ft_pitch fb, fbi_bpp = 32, fbi_format = (if 16 \<le> red then Bgra8888 else Rgba8888)\<rparr>\<rparr>, real)
      else (bi, real))"
| "mb_meaning mbi cur (MbRsdp new bs) (bi, real) = (bi\<lparr>bi_fw_table_addr := cur + 8\<rparr>, real)"
| "mb_meaning mbi cur (MbSystab a) (bi, real) =
     (if bi_fw_table_addr bi = mbi then (bi\<lparr>bi_fw_table_addr := a\<rparr>, real) else (bi, real))"
| "mb_meaning mbi cur (MbOther k bs) s = s"

fun mb_meanings :: "u64 \<Rightarrow> u64 \<Rightarrow> Mb2Tag list \<Rightarrow> mb_state \<Rightarrow> mb_state" where
  "mb_meanings mbi cur [] s = s"
| "mb_meanings mbi cur (t # ts) s = mb_meanings mbi (cur + word_of_nat (length (mb_encode t))) ts (mb_meaning mbi cur t s)"

lemma length_enc_entry [simp]: "length (enc_entry e) = 24"
  by (simp add: enc_entry_def)

lemma holds_entry: "holds mem p (enc_entry e) \<Longrightarrow> mem_map_entry mem p = e"
  by (simp add: enc_entry_def holds_append mem_map_entry_def add.assoc)

lemma mb_entries_list:
  assumes "holds mem p (concat (map enc_entry es))" "unat p + 24 * length es < 2 ^ 64 - 24"
    "end = p + word_of_nat (24 * length es)"
  shows "mb_entries mem 24 end p m = Some (fold (\<lambda>e m. memory_map_push m (region (me_base_addr e) (me_length e)))
     (filter (\<lambda>e. me_typ e = 1 \<and> me_length e \<noteq> 0) es) m)"
  using assms
proof (induction es arbitrary: p m)
  case Nil
  then have "\<not> p + 24 \<le> p" by (simp add: word_le_nat_alt unat_word_ariths)
  then show ?case using Nil by (subst mb_entries.simps) simp
next
  case (Cons e es)
  have h: "mem_map_entry mem p = e" "holds mem (p + 24) (concat (map enc_entry es))"
    using Cons.prems(1) by (simp_all add: holds_append holds_entry)
  have p: "unat (p + 24) = unat p + 24" using Cons.prems(2) by (simp add: unat_word_ariths)
  have end_eq: "end = (p + 24) + word_of_nat (24 * length es)" using Cons.prems(3) by simp
  have "unat end = unat (p + 24) + 24 * length es"
    unfolding end_eq using Cons.prems(2) p by (simp add: unat_word_ariths unat_word_of_nat)
  then have "p + 24 \<le> end" by (simp add: word_le_nat_alt)
  moreover have "mb_entries mem 24 end (p + 24) m' = Some (fold (\<lambda>e m. memory_map_push m (region (me_base_addr e) (me_length e)))
     (filter (\<lambda>e. me_typ e = 1 \<and> me_length e \<noteq> 0) es) m')" for m'
    using Cons.IH [OF h(2) _ end_eq] Cons.prems(2) p by simp
  ultimately show ?case
    using h(1) by (subst mb_entries.simps) (simp add: MEM_TYPE_AVAILABLE_def Let_def)
qed

lemma length_mb_encode: "length (mb_encode t) = (mb_size t + 7) div 8 * 8"
  by (simp add: mb_encode_def mb_size_def)

lemma mb_encode_header:
  assumes "holds mem cur (mb_encode t)" "mb_tag_ok t"
  shows "tag_header mem cur = \<lparr>th_typ = mb_typ t, th_size = word_of_nat (mb_size t)\<rparr>"
    "holds mem (cur + 8) (mb_body t)" "mb_align (word_of_nat (mb_size t)) = word_of_nat (length (mb_encode t))"
proof -
  show "tag_header mem cur = \<lparr>th_typ = mb_typ t, th_size = word_of_nat (mb_size t)\<rparr>" "holds mem (cur + 8) (mb_body t)"
    using assms(1) by (simp_all add: mb_encode_def holds_append tag_header_def add.assoc)
  have "unat (word_of_nat (mb_size t) :: u32) = mb_size t" using assms(2) by (simp add: mb_tag_ok_def unat_word_of_nat)
  then have "unat (mb_align (word_of_nat (mb_size t))) = length (mb_encode t)" by (simp add: mb_align_nat length_mb_encode)
  then show "mb_align (word_of_nat (mb_size t)) = word_of_nat (length (mb_encode t))"
    by (metis of_nat_unat ucast_id)
qed

lemma mb_tag_meaning:
  assumes h: "holds mem cur (mb_encode t)" and ok: "mb_tag_ok t" and cur: "unat cur < 2 ^ 63 + 2 ^ 33"
  shows "mb_tag mem mbi cur (tag_header mem cur) s = Some (mb_meaning mbi cur t s)"
proof -
  note e = mb_encode_header [OF h ok]
  obtain bi real where s: "s = (bi, real)" by force
  show ?thesis
  proof (cases t)
    case (MbMemMap es)
    have sz: "mb_size t = 16 + 24 * length es" using MbMemMap by (simp add: mb_size_def length_concat comp_def sum_list_triv)
    have lt: "24 * length es < 2 ^ 24" using ok sz by (simp add: mb_tag_ok_def)
    have b: "rd32 mem (cur + 8) = 24" "holds mem (cur + 16) (concat (map enc_entry es))"
      using e(2) MbMemMap by (simp_all add: holds_append add.assoc)
    have "unat (word_of_nat (mb_size t) :: u32) = mb_size t" using ok by (simp add: mb_tag_ok_def unat_word_of_nat)
    then have "(ucast (word_of_nat (mb_size t) :: u32) :: u64) = word_of_nat (mb_size t)"
      using ok by (simp add: mb_tag_ok_def unat_ucast_widen unat_word_of_nat flip: unat_inj_iff)
    then have "cur + ucast (word_of_nat (mb_size t) :: u32) = (cur + 16) + word_of_nat (24 * length es)"
      using sz by simp
    moreover have "unat (cur + 16) + 24 * length es < 2 ^ 64 - 24"
      using cur lt by (simp add: unat_word_ariths)
    ultimately show ?thesis
      using e(1) b s MbMemMap mb_entries_list [OF b(2)]
      by (simp add: mb_tag_def mb_tags mb_memory_map_def available_map_def add.assoc)
  next
    case (MbFramebuffer fb red)
    have "32 \<le> (word_of_nat (mb_size t) :: u32)" using MbFramebuffer by (simp add: mb_size_def)
    moreover have "fb_tag mem cur = fb" "fb_red_field_position mem (cur + 32) = red"
      using e(2) MbFramebuffer
      by (simp_all add: holds_append holds_byte fb_tag_def fb_red_field_position_def add.assoc)
    ultimately show ?thesis using e(1) s MbFramebuffer by (simp add: mb_tag_def mb_tags mb_framebuffer_def Let_def)
  qed (use e ok s in \<open>auto simp: mb_tag_def mb_tags mb_basic_mem_def mb_systab_def holds_append mb_tag_ok_def Let_def add.assoc\<close>)
qed

lemma mb_walk_tags:
  assumes "holds mem cur (mb_tags_bytes ts)" "\<forall>t \<in> set ts. mb_tag_ok t"
    "unat cur + length (mb_tags_bytes ts) \<le> unat end" "unat end < 2 ^ 63 + 2 ^ 25"
  shows "mb_walk mem mbi end cur s = Some (mb_meanings mbi cur ts s)"
  using assms
proof (induction ts arbitrary: cur s)
  case Nil
  have "rd32 mem cur = 0" using Nil.prems(1) by (simp add: mb_tags_bytes_def holds_append)
  then show ?case by (subst mb_walk.simps) (simp add: tag_header_def TAG_END_def)
next
  case (Cons t ts)
  have h: "holds mem cur (mb_encode t)" "holds mem (cur + word_of_nat (length (mb_encode t))) (mb_tags_bytes ts)"
    using Cons.prems(1) by (simp_all add: mb_tags_bytes_def holds_append add.assoc)
  have ok: "mb_tag_ok t" using Cons.prems(2) by simp
  have len: "length (mb_tags_bytes (t # ts)) = length (mb_encode t) + length (mb_tags_bytes ts)" "8 \<le> length (mb_encode t)"
    by (simp_all add: mb_tags_bytes_def length_mb_encode mb_size_def)
  have cur: "unat cur < 2 ^ 63 + 2 ^ 33" using Cons.prems(3,4) by simp
  note e = mb_encode_header [OF h(1) ok]
  have "mb_size t < 2 ^ 24" using ok by (simp add: mb_tag_ok_def)
  then have "unat (word_of_nat (mb_size t) :: u32) = mb_size t" by (simp add: unat_word_of_nat)
  then have sz: "\<not> (word_of_nat (mb_size t) :: u32) < 8"
    by (simp add: word_less_nat_alt) (simp add: mb_size_def)
  have ty: "mb_typ t \<noteq> TAG_END" using ok by (cases t) (auto simp: TAG_END_def mb_tag_ok_def)
  have "unat (cur + word_of_nat (length (mb_encode t))) = unat cur + length (mb_encode t)"
    using Cons.prems(3,4) len(1) by (simp add: unat_word_ariths unat_word_of_nat)
  then have "mb_walk mem mbi end (cur + word_of_nat (length (mb_encode t))) s' =
      Some (mb_meanings mbi (cur + word_of_nat (length (mb_encode t))) ts s')" for s'
    using Cons.IH [OF h(2)] Cons.prems(2-4) len(1) by simp
  moreover have "cur + 8 \<le> end" using Cons.prems(3,4) len by (simp add: word_le_nat_alt unat_word_ariths)
  ultimately show ?case
    using e sz ty mb_tag_meaning [OF h(1) ok cur] by (subst mb_walk.simps) (simp add: Let_def)
qed

section \<open>What the tags describe\<close>

lemma last_or_append [simp]: "last_or d (xs @ [x]) = x" "last_or d [] = d"
  by (simp_all add: last_or_def)

lemma sum_list_unat:
  "sum_list (map unat ws) < 2 ^ 64 \<Longrightarrow> unat (sum_list (ws :: u64 list)) = sum_list (map unat ws)"
  by (induction ws) (simp_all add: unat_add_lt)

text \<open>A list of banks that fits the address space adds up to zero only when it is empty.\<close>

lemma total_zero:
  assumes "as_slice m = rs" "\<forall>r \<in> set rs. mr_size r \<noteq> 0" "sum_list (map (unat \<circ> mr_size) rs) < 2 ^ 64"
  shows "memory_map_total_bytes m = 0 \<longleftrightarrow> rs = []"
proof -
  have "unat (memory_map_total_bytes m) = sum_list (map (unat \<circ> mr_size) rs)"
    using sum_list_unat [of "map mr_size rs"] assms(1,3) by (simp add: memory_map_total_bytes_def comp_def)
  moreover have "sum_list (map (unat \<circ> mr_size) rs) = 0 \<longleftrightarrow> rs = []"
    using assms(2) by (cases rs) (auto simp: unat_eq_zero)
  ultimately show ?thesis by (metis unat_eq_zero)
qed

lemma sum_list_filter_le: "sum_list (map f (filter P xs)) \<le> (sum_list (map f xs) :: nat)"
  by (induction xs) simp_all

lemma sum_list_take_le: "sum_list (map f (take n xs)) \<le> (sum_list (map f xs) :: nat)"
  by (metis append_take_drop_id le_add1 map_append sum_list_append)

lemma available_map_banks:
  "as_slice (available_map es) = usable_banks es"
  "mb_tag_ok (MbMemMap es) \<Longrightarrow> memory_map_total_bytes (available_map es) = 0 \<longleftrightarrow> usable_banks es = []"
proof -
  let ?f = "filter (\<lambda>e. me_typ e = 1 \<and> me_length e \<noteq> 0) es" and ?r = "\<lambda>e. region (me_base_addr e) (me_length e)"
  have u: "usable_banks es = take 8 (map ?r ?f)" 
  proof -
    have "[?r e. e \<leftarrow> es, me_typ e = 1 \<and> me_length e \<noteq> 0] = map ?r ?f" by (induction es) simp_all
    then show ?thesis by (simp only: usable_banks_def)
  qed
  have "available_map es = fold (\<lambda>r m. memory_map_push m r) (map ?r ?f) memory_map_empty"
    by (simp add: available_map_def fold_map comp_def)
  then show sl: "as_slice (available_map es) = usable_banks es"
    using push_all(2) [OF memory_map_wf_empty, of "map ?r ?f"] u by (simp add: filter_map comp_def)
  assume "mb_tag_ok (MbMemMap es)"
  then have "sum_list (map (\<lambda>e. unat (me_length e)) es) < 2 ^ 64" by (simp add: mb_tag_ok_def)
  moreover have "sum_list (map (\<lambda>e. unat (me_length e)) (take 8 ?f)) \<le> sum_list (map (\<lambda>e. unat (me_length e)) es)"
    using sum_list_take_le sum_list_filter_le by (rule le_trans)
  ultimately have "sum_list (map (unat \<circ> mr_size) (usable_banks es)) < 2 ^ 64"
    unfolding u by (simp add: take_map comp_def)
  moreover have "\<forall>r \<in> set (usable_banks es). mr_size r \<noteq> 0"
    unfolding u by (auto dest!: in_set_takeD)
  ultimately show "memory_map_total_bytes (available_map es) = 0 \<longleftrightarrow> usable_banks es = []"
    using total_zero [OF sl] by blast
qed

lemma kib_nat: "unat (ucast (k :: u32) * 1024 :: u64) = unat k * 1024"
  using unsigned_less [of k, where ?'a = nat] by (simp add: unat_mult_lt unat_ucast_widen)

lemma basic_map_banks:
  "as_slice (mb_basic_map (ucast lo) (ucast up)) = basic_banks lo up"
  "memory_map_total_bytes (mb_basic_map (ucast lo) (ucast up)) = 0 \<longleftrightarrow> basic_banks lo up = []"
proof -
  have k: "(ucast k * 1024 :: u64) = 0 \<longleftrightarrow> k = 0" for k :: u32
    using kib_nat [of k] by (metis mult_eq_0_iff unat_eq_zero zero_neq_numeral)
  have z: "(ucast k :: u64) = 0 \<longleftrightarrow> k = 0" for k :: u32
  proof -
    have "unat (ucast k :: u64) = unat k" by (simp add: unat_ucast_widen)
    then show ?thesis by (metis unat_eq_zero)
  qed
  show sl: "as_slice (mb_basic_map (ucast lo) (ucast up)) = basic_banks lo up"
    by (auto simp: mb_basic_map_def basic_banks_def Let_def as_slice_push memory_map_wf_push z k)
  have "unat lo < 2 ^ 32" "unat up < 2 ^ 32"
    using unsigned_less [of lo, where ?'a = nat] unsigned_less [of up, where ?'a = nat] by simp_all
  then have "sum_list (map (unat \<circ> mr_size) (basic_banks lo up)) < 2 ^ 64" "\<forall>r \<in> set (basic_banks lo up). mr_size r \<noteq> 0"
    by (auto simp: basic_banks_def kib_nat k)
  then show "memory_map_total_bytes (mb_basic_map (ucast lo) (ucast up)) = 0 \<longleftrightarrow> basic_banks lo up = []"
    using total_zero [OF sl] by blast
qed

lemma mb_meanings_placed: "mb_meanings mbi cur ts s = fold (\<lambda>(a, t). mb_meaning mbi a t) (placed cur ts) s"
  by (induction ts arbitrary: cur s) simp_all

lemma placed_tags: "map snd (placed cur ts) = ts"
  by (induction ts arbitrary: cur) simp_all

text \<open>The fields of the boot information after a list of tags.\<close>

lemma meaning_memory:
  assumes "mb_tag_ok t"
  shows "as_slice (bi_memory (fst (mb_meaning mbi a t (bi, real)))) =
      (if map_banks t \<noteq> [] then map_banks t else if info_banks t \<noteq> [] \<and> \<not> real then info_banks t
       else as_slice (bi_memory bi))"
    "snd (mb_meaning mbi a t (bi, real)) \<longleftrightarrow> real \<or> map_banks t \<noteq> []"
  using assms by (cases t; simp add: available_map_banks basic_map_banks)+

lemma described_memory_snoc:
  "described_memory (ts @ [t]) =
     (if map_banks t \<noteq> [] then map_banks t
      else if info_banks t \<noteq> [] \<and> [map_banks t. t \<leftarrow> ts, map_banks t \<noteq> []] = [] then info_banks t
      else described_memory ts)"
proof -
  have "last_or d (xs @ (if b then [y] else [])) = (if b then y else last_or d xs)" for d :: 'b and xs b y by simp
  moreover have "last_or (last_or d [y]) xs = (if xs = [] then y else last_or d' xs)" for d d' y :: 'b and xs
    by (simp add: last_or_def)
  ultimately show ?thesis by (simp add: described_memory_def) (simp add: last_or_def)
qed

lemma meanings_memory:
  assumes "as_slice (bi_memory bi) = [region 0x100000 0x8000000]" "\<forall>(a, t) \<in> set ps. mb_tag_ok t"
  shows "as_slice (bi_memory (fst (fold (\<lambda>(a, t). mb_meaning mbi a t) ps (bi, False)))) = described_memory (map snd ps) \<and>
    (snd (fold (\<lambda>(a, t). mb_meaning mbi a t) ps (bi, False)) \<longleftrightarrow> [map_banks t. t \<leftarrow> map snd ps, map_banks t \<noteq> []] \<noteq> [])"
  using assms(2)
proof (induction ps rule: rev_induct)
  case (snoc p ps)
  obtain a t where p: "p = (a, t)" by force
  obtain bi' real where f: "fold (\<lambda>(a, t). mb_meaning mbi a t) ps (bi, False) = (bi', real)" by force
  have ok: "mb_tag_ok t" using snoc.prems p by simp
  have "as_slice (bi_memory bi') = described_memory (map snd ps)"
    "real \<longleftrightarrow> [map_banks t. t \<leftarrow> map snd ps, map_banks t \<noteq> []] \<noteq> []"
    using snoc f by simp_all
  then show ?case
    using meaning_memory [OF ok, of mbi a bi' real]
    by (simp only: p fold_append comp_apply f map_append list.map snd_conv described_memory_snoc fold.simps id_apply case_prod_conv) auto
qed (use assms(1) in \<open>simp add: described_memory_def last_or_def\<close>)

lemma meanings_fb:
  assumes "bi_framebuffer bi = None"
  shows "bi_framebuffer (fst (fold (\<lambda>(a, t). mb_meaning mbi a t) ps (bi, False))) = described_fb (map snd ps)"
proof (induction ps rule: rev_induct)
  case (snoc p ps)
  obtain a t where p: "p = (a, t)" by force
  obtain bi' real where f: "fold (\<lambda>(a, t). mb_meaning mbi a t) ps (bi, False) = (bi', real)" by force
  show ?case using snoc f p by (cases t) (auto simp: described_fb_def)
qed (use assms in \<open>simp add: described_fb_def\<close>)

lemma meanings_fw:
  assumes "bi_fw_table_addr bi = mbi" "\<forall>(a, t) \<in> set ps. a + 8 \<noteq> mbi"
  shows "bi_fw_table_addr (fst (fold (\<lambda>(a, t). mb_meaning mbi a t) ps (bi, False))) = described_fw mbi ps"
  using assms(2)
proof (induction ps rule: rev_induct)
  case (snoc p ps)
  obtain a t where p: "p = (a, t)" by force
  obtain bi' real where f: "fold (\<lambda>(a, t). mb_meaning mbi a t) ps (bi, False) = (bi', real)" by force
  let ?r = "[a + 8. (a, t) \<leftarrow> ps, is_rsdp t]" and ?s = "filter (\<lambda>a. a \<noteq> mbi) (concat (map (systabs \<circ> snd) ps))"
  have IH: "bi_fw_table_addr bi' = described_fw mbi ps" using snoc f by simp
  have "\<forall>x \<in> set ?r. x \<noteq> mbi" using snoc.prems by fastforce
  then have r: "?r \<noteq> [] \<Longrightarrow> last ?r \<noteq> mbi" using last_in_set by blast
  have "mbi \<notin> set ?s" by simp
  then have s: "?s = y # ys \<Longrightarrow> y \<noteq> mbi" for y ys by (metis list.set_intros(1))
  have "described_fw mbi ps = mbi \<longleftrightarrow> ?r = [] \<and> ?s = []"
    using r s unfolding described_fw_def last_or_def by (cases ?s) (simp_all split: if_split)
  then show ?case
    using IH f p by (cases t) (auto simp: described_fw_def last_or_def split: list.splits)
qed (use assms(1) in \<open>simp add: described_fw_def\<close>)

lemma meanings_rest:
  "bi_console (fst (fold (\<lambda>(a, t). mb_meaning mbi a t) ps (bi, r))) = bi_console bi \<and>
   bi_intc (fst (fold (\<lambda>(a, t). mb_meaning mbi a t) ps (bi, r))) = bi_intc bi \<and>
   bi_timer_freq_hz (fst (fold (\<lambda>(a, t). mb_meaning mbi a t) ps (bi, r))) = bi_timer_freq_hz bi"
proof (induction ps rule: rev_induct)
  case (snoc p ps)
  obtain a t where p: "p = (a, t)" by force
  obtain bi' real where f: "fold (\<lambda>(a, t). mb_meaning mbi a t) ps (bi, r) = (bi', real)" by force
  show ?case using snoc f p by (cases t) auto
qed simp

lemma placed_after:
  "(a, t) \<in> set (placed cur ts) \<Longrightarrow> unat cur + length (concat (map mb_encode ts)) < 2 ^ 64 - 8 \<Longrightarrow>
   unat cur \<le> unat a \<and> unat a < 2 ^ 64 - 8"
proof (induction ts arbitrary: cur)
  case (Cons u ts)
  have "unat (cur + word_of_nat (length (mb_encode u))) = unat cur + length (mb_encode u)"
    using Cons.prems(2) by (simp add: unat_word_ariths unat_word_of_nat)
  then show ?case using Cons.prems Cons.IH [of "cur + word_of_nat (length (mb_encode u))"] by auto
qed simp

lemma multiboot_walks:
  assumes "holds mem mbi_ptr (mb_image ts)" "\<forall>t \<in> set ts. mb_tag_ok t" "mbi_ptr \<noteq> 0"
    "unat mbi_ptr < 2 ^ 63" "length (mb_image ts) \<le> 2 ^ 24"
  shows "mb_parse_or_fallback mem mbi_ptr MB2_MAGIC =
    Some (mb_console (fst (mb_meanings mbi_ptr (mbi_ptr + 8) ts (mb_start mbi_ptr, False))))"
proof -
  let ?n = "length (mb_image ts)"
  have n: "?n = 8 + length (mb_tags_bytes ts)" "8 \<le> length (mb_tags_bytes ts)"
    by (simp_all add: mb_image_def mb_tags_bytes_def)
  have h: "rd32 mem mbi_ptr = word_of_nat ?n" "holds mem (mbi_ptr + 8) (mb_tags_bytes ts)"
    using assms(1) n by (simp_all add: mb_image_def holds_append add.assoc holds_byte)
  have u: "unat (word_of_nat ?n :: u32) = ?n" using assms(5) by (simp add: unat_word_of_nat)
  let ?fin = "saturating_add mbi_ptr (ucast (word_of_nat ?n :: u32))"
  have e: "unat ?fin = unat mbi_ptr + ?n"
    using assms(4,5) u by (simp add: unat_saturating_add unat_ucast_widen)
  have "unat (mbi_ptr + 8) = unat mbi_ptr + 8" using assms(4) by (simp add: unat_word_ariths)
  then have "mb_walk mem mbi_ptr ?fin (mbi_ptr + 8) (mb_start mbi_ptr, False) =
      Some (mb_meanings mbi_ptr (mbi_ptr + 8) ts (mb_start mbi_ptr, False))"
    using h(2) assms(2,4,5) e n by (intro mb_walk_tags) simp_all
  moreover have "16 \<le> (word_of_nat ?n :: u32)" "(word_of_nat ?n :: u32) \<le> 16 * 1024 * 1024"
    using n u assms(5) by (simp_all add: word_le_nat_alt)
  ultimately show ?thesis
    using h(1) assms(3) by (simp add: mb_parse_or_fallback_def split_def Let_def)
qed

text \<open>C19: For a well-formed information block in memory, a list of tags encoded as the Multiboot2 specification
  says, the parser returns a boot information with what the list describes: the memory banks of the
  last map that has any, or else of the last basic memory report, or else the default bank; the last
  direct-colour framebuffer; and the serial port, interrupt controllers and clock of a PC. The
  firmware table is the last ACPI tag of either version, so an ACPI 1.0 tag behind an ACPI 2.0 tag
  replaces it, although the code's comment says that a pointer of higher priority is kept.\<close>

theorem multiboot_parses_tags:
  assumes "holds mem mbi_ptr (mb_image ts)" "\<forall>t \<in> set ts. mb_tag_ok t" "mbi_ptr \<noteq> 0"
    "unat mbi_ptr < 2 ^ 63" "length (mb_image ts) \<le> 2 ^ 24"
  shows "\<exists>bi. mb_parse_or_fallback mem mbi_ptr MB2_MAGIC = Some bi \<and>
    as_slice (bi_memory bi) = described_memory ts \<and> bi_framebuffer bi = described_fb ts \<and>
    bi_fw_table_addr bi = described_fw mbi_ptr (placed (mbi_ptr + 8) ts) \<and>
    bi_console bi = \<lparr>cs_kind = Ns16550, cs_regs = reg_spec 0x3F8 8, cs_clock_hz = 1843200\<rparr> \<and>
    bi_intc bi = \<lparr>ic_kind = Apic, ic_primary = reg_spec 0xFEE00000 0x1000, ic_secondary = reg_spec 0xFEC00000 0x1000\<rparr> \<and>
    bi_timer_freq_hz bi = 0"
proof -
  let ?ps = "placed (mbi_ptr + 8) ts"
  have "length (concat (map mb_encode ts)) \<le> 2 ^ 24" "unat (mbi_ptr + 8) = unat mbi_ptr + 8"
    using assms(4,5) by (simp_all add: mb_image_def mb_tags_bytes_def unat_word_ariths)
  then have "unat mbi_ptr + 8 \<le> unat a \<and> unat a < 2 ^ 64 - 8" if "(a, t) \<in> set ?ps" for a t
    using placed_after [OF that] assms(4) by simp
  then have away: "\<forall>(a, t) \<in> set ?ps. a + 8 \<noteq> mbi_ptr" by (fastforce simp: unat_word_ariths)
  have "t \<in> set ts" if "(a, t) \<in> set ?ps" for a t using that placed_tags [of "mbi_ptr + 8" ts] by (metis image_eqI list.set_map snd_conv)
  then have ok: "\<forall>(a, t) \<in> set ?ps. mb_tag_ok t" using assms(2) by blast
  have start: "as_slice (bi_memory (mb_start mbi_ptr)) = [region 0x100000 0x8000000]" "bi_framebuffer (mb_start mbi_ptr) = None"
    "bi_fw_table_addr (mb_start mbi_ptr) = mbi_ptr"
    by (simp_all add: mb_start_def qemu_q35_fallback_def)
  define bi where "bi = fst (fold (\<lambda>(a, t). mb_meaning mbi_ptr a t) ?ps (mb_start mbi_ptr, False))"
  have rest: "bi_console bi = bi_console (mb_start mbi_ptr)" "bi_intc bi = bi_intc (mb_start mbi_ptr)"
    "bi_timer_freq_hz bi = bi_timer_freq_hz (mb_start mbi_ptr)" by (simp_all add: bi_def meanings_rest)
  then have "mb_console bi = bi" by (simp add: mb_console_def mb_start_def qemu_q35_fallback_def)
  then have "mb_parse_or_fallback mem mbi_ptr MB2_MAGIC = Some bi"
    using multiboot_walks [OF assms] by (simp add: mb_meanings_placed bi_def)
  then show ?thesis
    using rest meanings_memory [OF start(1) ok] meanings_fb [OF start(2)] meanings_fw [OF start(3) away]
    by (simp add: bi_def placed_tags mb_start_def qemu_q35_fallback_def)
qed

text \<open>A block with one bank, a basic memory report that it overrides, and two ACPI tags.\<close>

definition sample_tags :: "Mb2Tag list" where
  "sample_tags = [MbMemMap [\<lparr>me_base_addr = 0x100000, me_length = 0x7ee0000, me_typ = 1\<rparr>], MbBasicMem 639 0,
     MbRsdp True [1, 2, 3, 4], MbRsdp False [1, 2, 3, 4]]"

lemma sample_tags_ok: "\<forall>t \<in> set sample_tags. mb_tag_ok t" "length (mb_image sample_tags) = 104"
  by (simp_all add: sample_tags_def mb_tag_ok_def mb_size_def mb_image_def mb_tags_bytes_def length_mb_encode)

theorem multiboot_parses_tags_witness:
  "\<exists>bi. mb_parse_or_fallback (mem_write (\<lambda>_. 0) 0x9000 (mb_image sample_tags)) 0x9000 MB2_MAGIC = Some bi \<and>
     as_slice (bi_memory bi) = [region 0x100000 0x7ee0000] \<and> bi_framebuffer bi = None \<and> bi_fw_table_addr bi = 0x9058"
proof -
  have "described_memory sample_tags = [region 0x100000 0x7ee0000]" "described_fb sample_tags = None"
    by (simp_all add: sample_tags_def described_memory_def described_fb_def usable_banks_def basic_banks_def last_or_def)
  moreover have "described_fw 0x9000 (placed 0x9008 sample_tags) = 0x9058"
    by (simp add: sample_tags_def described_fw_def last_or_def length_mb_encode mb_size_def)
  ultimately show ?thesis
    using multiboot_parses_tags [where mem = "mem_write (\<lambda>_. 0) 0x9000 (mb_image sample_tags)" and mbi_ptr = "0x9000"
        and ts = sample_tags] sample_tags_ok
    by (auto simp: holds_def mem_read_write_same)
qed

end
