(* ===== verification/Hyp_Elf.thy ===== *)
theory Hyp_Elf
  imports Hyp_Bytes
begin

text \<open>
  The kernel image loader of the UEFI boot stub (\<^verbatim>\<open>efi-stub/src/main.rs\<close>): alignment, the bounds-checked
  \<^verbatim>\<open>read_at\<close>, the ELF headers and \<^verbatim>\<open>load_kernel_elf\<close>. The firmware's page allocator is a
  parameter, a function from the arguments of the call to its status and the address it writes
  back. The lemmas show that a well-formed image is loaded, that every segment is then in memory
  as the file has it followed by zeros, and that nothing outside the allocated pages changes.
\<close>

section \<open>Helpers\<close>

definition EFI_SUCCESS :: usize where "EFI_SUCCESS = 0"
definition EFI_PAGE_SIZE :: u64 where "EFI_PAGE_SIZE = 4096"
definition EFI_ALLOCATE_ADDRESS :: u32 where "EFI_ALLOCATE_ADDRESS = 2"
definition EFI_LOADER_DATA :: u32 where "EFI_LOADER_DATA = 2"
definition PT_LOAD :: u32 where "PT_LOAD = 1"

definition efi_align_down :: "u64 \<Rightarrow> u64 \<Rightarrow> u64" where
  "efi_align_down value align = value AND NOT (align - 1)"

definition efi_align_up :: "u64 \<Rightarrow> u64 \<Rightarrow> u64 option" where
  "efi_align_up value align = map_option (\<lambda>v. efi_align_down v align) (checked_add value (align - 1))"

text \<open>\<^verbatim>\<open>read_at::<T>\<close>, with the size of \<^verbatim>\<open>T\<close> and its decoding as arguments.\<close>

definition read_at :: "nat \<Rightarrow> (u8 list \<Rightarrow> 'a) \<Rightarrow> u8 list \<Rightarrow> usize \<Rightarrow> 'a option" where
  "read_at n decode bytes offset = do {
     fin \<leftarrow> checked_add offset (word_of_nat n);
     if length bytes < unat fin then None else Some (decode (take n (drop (unat offset) bytes)))
   }"

abbreviation le_field :: "u8 list \<Rightarrow> nat \<Rightarrow> nat \<Rightarrow> 'a::len word" where
  "le_field bs off n \<equiv> from_le_bytes (take n (drop off bs))"

section \<open>Headers\<close>

record Elf64Ehdr =
  e_ident :: "u8 list"
  e_type :: u16
  e_machine :: u16
  e_version :: u32
  e_entry :: u64
  e_phoff :: u64
  e_shoff :: u64
  e_flags :: u32
  e_ehsize :: u16
  e_phentsize :: u16
  e_phnum :: u16
  e_shentsize :: u16
  e_shnum :: u16
  e_shstrndx :: u16

record Elf64Phdr =
  p_type :: u32
  p_flags :: u32
  p_offset :: u64
  p_vaddr :: u64
  p_paddr :: u64
  p_filesz :: u64
  p_memsz :: u64
  p_align :: u64

definition elf64_ehdr :: "u8 list \<Rightarrow> Elf64Ehdr" where
  "elf64_ehdr bs = \<lparr>e_ident = take 16 bs, e_type = le_field bs 16 2, e_machine = le_field bs 18 2,
     e_version = le_field bs 20 4, e_entry = le_field bs 24 8, e_phoff = le_field bs 32 8, e_shoff = le_field bs 40 8,
     e_flags = le_field bs 48 4, e_ehsize = le_field bs 52 2, e_phentsize = le_field bs 54 2, e_phnum = le_field bs 56 2,
     e_shentsize = le_field bs 58 2, e_shnum = le_field bs 60 2, e_shstrndx = le_field bs 62 2\<rparr>"

definition elf64_phdr :: "u8 list \<Rightarrow> Elf64Phdr" where
  "elf64_phdr bs = \<lparr>p_type = le_field bs 0 4, p_flags = le_field bs 4 4, p_offset = le_field bs 8 8,
     p_vaddr = le_field bs 16 8, p_paddr = le_field bs 24 8, p_filesz = le_field bs 32 8, p_memsz = le_field bs 40 8,
     p_align = le_field bs 48 8\<rparr>"

definition elf_header_ok :: "u16 \<Rightarrow> Elf64Ehdr \<Rightarrow> bool" where
  "elf_header_ok machine ehdr \<longleftrightarrow> \<not> (take 4 (e_ident ehdr) \<noteq> [0x7f, 0x45, 0x4c, 0x46] \<or> e_ident ehdr ! 4 \<noteq> 2
     \<or> e_ident ehdr ! 5 \<noteq> 1 \<or> e_machine ehdr \<noteq> machine \<or> e_phentsize ehdr \<noteq> 56)"

section \<open>Loading\<close>

definition phdr_at :: "u8 list \<Rightarrow> Elf64Ehdr \<Rightarrow> usize \<Rightarrow> Elf64Phdr option" where
  "phdr_at elf ehdr i = do {
     m \<leftarrow> checked_mul i (ucast (e_phentsize ehdr));
     off \<leftarrow> checked_add (e_phoff ehdr) m;
     read_at 56 elf64_phdr elf off
   }"

definition seg_extent :: "Elf64Phdr \<Rightarrow> u64 \<times> u64 \<Rightarrow> (u64 \<times> u64) option" where
  "seg_extent phdr = (\<lambda>(load_min, load_max).
     if p_type phdr \<noteq> PT_LOAD \<or> p_memsz phdr = 0 then Some (load_min, load_max)
     else do {
       let start = efi_align_down (p_paddr phdr) EFI_PAGE_SIZE;
       e \<leftarrow> checked_add (p_paddr phdr) (p_memsz phdr);
       fin \<leftarrow> efi_align_up e EFI_PAGE_SIZE;
       Some (min load_min start, max load_max fin)
     })"

definition seg_copy :: "u8 list \<Rightarrow> Elf64Phdr \<Rightarrow> memory \<Rightarrow> memory option" where
  "seg_copy elf phdr mem =
     (if p_type phdr \<noteq> PT_LOAD \<or> p_filesz phdr = 0 then Some mem
      else do {
        file_end \<leftarrow> checked_add (p_offset phdr) (p_filesz phdr);
        if length elf < unat file_end then None
        else Some (mem_write mem (p_paddr phdr) (take (unat (p_filesz phdr)) (drop (unat (p_offset phdr)) elf)))
      })"

text \<open>The result is the entry point and the memory; on failure the stub halts and the memory is
  not looked at again.\<close>

type_synonym allocate_pages = "u32 \<Rightarrow> u32 \<Rightarrow> usize \<Rightarrow> u64 \<Rightarrow> usize \<times> u64"

definition load_kernel_elf :: "allocate_pages \<Rightarrow> u16 \<Rightarrow> u8 list \<Rightarrow> memory \<Rightarrow> (u64 \<times> memory) option" where
  "load_kernel_elf alloc machine elf mem = do {
     ehdr \<leftarrow> read_at 64 elf64_ehdr elf 0;
     if \<not> elf_header_ok machine ehdr then None
     else do {
       let phdrs = urange 0 (ucast (e_phnum ehdr));
       (load_min, load_max) \<leftarrow>
         loop (\<lambda>i s. do { phdr \<leftarrow> phdr_at elf ehdr i; seg_extent phdr s }) phdrs (- 1, 0);
       if load_min = - 1 \<or> load_max \<le> load_min then None
       else do {
         let (status, addr) = alloc EFI_ALLOCATE_ADDRESS EFI_LOADER_DATA ((load_max - load_min) div EFI_PAGE_SIZE) load_min;
         if status \<noteq> EFI_SUCCESS \<or> addr \<noteq> load_min then None
         else do {
           let mem = mem_write mem load_min (replicate (unat (load_max - load_min)) 0);
           mem \<leftarrow> loop (\<lambda>i m. do { phdr \<leftarrow> phdr_at elf ehdr i; seg_copy elf phdr m }) phdrs mem;
           Some (e_entry ehdr, mem)
         }
       }
     }
   }"

section \<open>Well-formed images\<close>

definition elf_ehdr_of :: "u8 list \<Rightarrow> Elf64Ehdr" where
  "elf_ehdr_of elf = elf64_ehdr (take 64 elf)"

definition elf_phdrs :: "u8 list \<Rightarrow> Elf64Phdr list" where
  "elf_phdrs elf = map (\<lambda>i. elf64_phdr (take 56 (drop (unat (e_phoff (elf_ehdr_of elf)) + 56 * i) elf)))
     [0..<unat (e_phnum (elf_ehdr_of elf))]"

definition elf_segments :: "u8 list \<Rightarrow> Elf64Phdr list" where
  "elf_segments elf = filter (\<lambda>ph. p_type ph = PT_LOAD) (elf_phdrs elf)"

definition seg_ok :: "u8 list \<Rightarrow> Elf64Phdr \<Rightarrow> bool" where
  "seg_ok elf ph \<longleftrightarrow> p_filesz ph \<le> p_memsz ph \<and> unat (p_offset ph) + unat (p_filesz ph) \<le> length elf
     \<and> unat (p_paddr ph) + unat (p_memsz ph) + 4095 < 2 ^ 64"

definition seg_before :: "Elf64Phdr \<Rightarrow> Elf64Phdr \<Rightarrow> bool" where
  "seg_before a b \<longleftrightarrow> unat (p_paddr a) + unat (p_memsz a) \<le> unat (p_paddr b)"

definition elf_wf :: "u16 \<Rightarrow> u8 list \<Rightarrow> bool" where
  "elf_wf machine elf \<longleftrightarrow> 64 \<le> length elf \<and> length elf < 2 ^ 63 \<and> elf_header_ok machine (elf_ehdr_of elf)
     \<and> unat (e_phoff (elf_ehdr_of elf)) + 56 * unat (e_phnum (elf_ehdr_of elf)) \<le> length elf
     \<and> (\<exists>ph \<in> set (elf_segments elf). p_memsz ph \<noteq> 0)
     \<and> (\<forall>ph \<in> set (elf_segments elf). seg_ok elf ph)
     \<and> sorted_wrt (\<lambda>a b. seg_before a b \<or> seg_before b a) (elf_segments elf)"

definition seg_image :: "u8 list \<Rightarrow> Elf64Phdr \<Rightarrow> u8 list" where
  "seg_image elf ph = take (unat (p_filesz ph)) (drop (unat (p_offset ph)) elf)
     @ replicate (unat (p_memsz ph) - unat (p_filesz ph)) 0"

lemma page_align_down: "unat (efi_align_down v EFI_PAGE_SIZE) = unat v div 4096 * 4096"
proof -
  have "(EFI_PAGE_SIZE - 1) = mask 12" by (simp add: EFI_PAGE_SIZE_def mask_eq_exp_minus_1)
  then show ?thesis using and_not_mask_nat [of v 12] by (simp add: efi_align_down_def)
qed

lemma page_align_up:
  assumes "unat v + 4095 < 2 ^ 64"
  shows "efi_align_up v EFI_PAGE_SIZE = Some (efi_align_down (v + 4095) EFI_PAGE_SIZE)"
    "unat (efi_align_down (v + 4095) EFI_PAGE_SIZE) = (unat v + 4095) div 4096 * 4096"
  using assms by (simp_all add: efi_align_up_def EFI_PAGE_SIZE_def checked_add_def unat_word_ariths
      page_align_down [unfolded EFI_PAGE_SIZE_def])

lemma phdr_at_wf:
  assumes "elf_wf machine elf" "i < unat (e_phnum (elf_ehdr_of elf))"
  shows "phdr_at elf (elf_ehdr_of elf) (word_of_nat i) = Some (elf_phdrs elf ! i)"
proof -
  let ?eh = "elf_ehdr_of elf"
  have bnd: "unat (e_phoff ?eh) + 56 * i + 56 \<le> length elf" "length elf < 2 ^ 63" "e_phentsize ?eh = 56"
    using assms by (auto simp: elf_wf_def elf_header_ok_def)
  have i: "unat (word_of_nat i :: u64) = i" using bnd by (intro unat_word_of_nat) simp
  have m: "checked_mul (word_of_nat i) 56 = Some (56 * word_of_nat i :: u64)"
    using bnd i by (simp add: checked_mul_def mult.commute)
  have u: "unat (word_of_nat (56 * i) :: u64) = 56 * i" using bnd by (intro unat_word_of_nat) simp
  have a: "unat (e_phoff ?eh + word_of_nat (56 * i)) = unat (e_phoff ?eh) + 56 * i"
    using bnd u by (subst unat_add_lt) simp_all
  have "unat (e_phoff ?eh + word_of_nat (56 * i) + 56) = unat (e_phoff ?eh) + 56 * i + 56"
    using bnd a by (subst unat_add_lt) simp_all
  then show ?thesis
    using assms(2) bnd a u by (simp add: phdr_at_def m read_at_def checked_add_def elf_phdrs_def)
qed

lemma loop_phdrs:
  assumes "elf_wf machine elf"
  shows "loop (\<lambda>i s. Option.bind (phdr_at elf (elf_ehdr_of elf) i) (\<lambda>ph. f ph s))
      (urange 0 (ucast (e_phnum (elf_ehdr_of elf)))) s = loop f (elf_phdrs elf) s"
proof -
  have gen: "loop (\<lambda>i s. Option.bind (g i) (\<lambda>ph. f ph s)) is s = loop f phs s"
    if "list_all2 (\<lambda>i ph. g i = Some ph) is phs" for g :: "usize \<Rightarrow> Elf64Phdr option" and "is" phs s
    using that by (induction arbitrary: s rule: list_all2_induct) (simp_all cong: Option.bind_cong)
  have u: "unat (ucast (e_phnum (elf_ehdr_of elf)) :: u64) = unat (e_phnum (elf_ehdr_of elf))"
    by (simp add: unat_ucast_widen)
  show ?thesis
    by (rule gen, rule list_all2_all_nthI)
      (use assms u in \<open>simp_all add: elf_phdrs_def [THEN arg_cong, of length] nth_urange phdr_at_wf\<close>)
qed

lemma extents_ok:
  assumes "\<forall>ph \<in> set phs. p_type ph = PT_LOAD \<longrightarrow> seg_ok elf ph"
  shows "\<exists>lo' hi'. loop seg_extent phs (lo, hi) = Some (lo', hi') \<and> lo' \<le> lo \<and> hi \<le> hi' \<and>
    (lo' = lo \<or> 4096 dvd unat lo') \<and> (hi' = hi \<or> 4096 dvd unat hi') \<and>
    (\<forall>ph \<in> set phs. p_type ph = PT_LOAD \<longrightarrow> p_memsz ph \<noteq> 0 \<longrightarrow>
       lo' \<le> p_paddr ph \<and> unat (p_paddr ph) + unat (p_memsz ph) \<le> unat hi')"
  using assms
proof (induction phs arbitrary: lo hi)
  case (Cons ph phs)
  show ?case
  proof (cases "p_type ph \<noteq> PT_LOAD \<or> p_memsz ph = 0")
    case True
    then have "seg_extent ph (lo, hi) = Some (lo, hi)" by (simp add: seg_extent_def)
    then show ?thesis using True Cons.IH [of lo hi] Cons.prems by auto
  next
    case False
    let ?s = "efi_align_down (p_paddr ph) EFI_PAGE_SIZE"
      and ?e = "efi_align_down (p_paddr ph + p_memsz ph + 4095) EFI_PAGE_SIZE"
    have ok: "unat (p_paddr ph) + unat (p_memsz ph) + 4095 < 2 ^ 64"
      using False Cons.prems by (simp add: seg_ok_def)
    have e: "unat (p_paddr ph + p_memsz ph) = unat (p_paddr ph) + unat (p_memsz ph)" using ok by (simp add: unat_add_lt)
    have "unat ?s \<le> unat (p_paddr ph)" by (simp add: page_align_down)
    moreover have dvd: "4096 dvd unat ?s" "4096 dvd unat ?e" by (simp_all add: page_align_down)
    moreover have "unat ?e = (unat (p_paddr ph) + unat (p_memsz ph) + 4095) div 4096 * 4096"
      using page_align_up(2) [of "p_paddr ph + p_memsz ph"] ok e by simp
    then have "unat (p_paddr ph) + unat (p_memsz ph) \<le> unat ?e" by simp
    moreover have "seg_extent ph (lo, hi) = Some (min lo ?s, max hi ?e)"
      using False ok e page_align_up(1) [of "p_paddr ph + p_memsz ph"] by (simp add: seg_extent_def checked_add_def)
    moreover obtain lo' hi' where "loop seg_extent phs (min lo ?s, max hi ?e) = Some (lo', hi')"
      "lo' \<le> min lo ?s" "max hi ?e \<le> hi'" "lo' = min lo ?s \<or> 4096 dvd unat lo'" "hi' = max hi ?e \<or> 4096 dvd unat hi'"
      "\<forall>ph \<in> set phs. p_type ph = PT_LOAD \<longrightarrow> p_memsz ph \<noteq> 0 \<longrightarrow>
         lo' \<le> p_paddr ph \<and> unat (p_paddr ph) + unat (p_memsz ph) \<le> unat hi'"
      using Cons.IH [of "min lo ?s" "max hi ?e"] Cons.prems by auto
    moreover have "min lo ?s = lo \<or> min lo ?s = ?s" "max hi ?e = hi \<or> max hi ?e = ?e" by (auto simp: min_def max_def)
    ultimately show ?thesis by (auto simp: word_le_nat_alt unat_min unat_max)
  qed
qed simp

definition copy_seg :: "u8 list \<Rightarrow> Elf64Phdr \<Rightarrow> memory \<Rightarrow> memory" where
  "copy_seg elf ph m = mem_write m (p_paddr ph) (take (unat (p_filesz ph)) (drop (unat (p_offset ph)) elf))"

lemma copies_ok:
  assumes "\<forall>ph \<in> set phs. p_type ph = PT_LOAD \<longrightarrow> seg_ok elf ph" "length elf < 2 ^ 63"
  shows "loop (seg_copy elf) phs m = Some (fold (copy_seg elf) (filter (\<lambda>ph. p_type ph = PT_LOAD) phs) m)"
  using assms
proof (induction phs arbitrary: m)
  case (Cons ph phs)
  have "seg_copy elf ph m = Some (if p_type ph = PT_LOAD then copy_seg elf ph m else m)"
  proof (cases "p_type ph = PT_LOAD \<and> p_filesz ph \<noteq> 0")
    case True
    then have "unat (p_offset ph) + unat (p_filesz ph) \<le> length elf" using Cons.prems by (simp add: seg_ok_def)
    then show ?thesis using True Cons.prems(2) by (simp add: seg_copy_def copy_seg_def checked_add_def unat_add_lt)
  qed (auto simp: seg_copy_def copy_seg_def mem_write_def)
  then show ?case using Cons by simp
qed simp

lemma length_seg_file: "seg_ok elf ph \<Longrightarrow> length (take (unat (p_filesz ph)) (drop (unat (p_offset ph)) elf)) = unat (p_filesz ph)"
  by (auto simp: seg_ok_def intro!: min_absorb2)

lemma copies_outside:
  "\<forall>ph \<in> set phs. seg_ok elf ph \<and> x \<notin> mem_range (p_paddr ph) (unat (p_memsz ph)) \<Longrightarrow> fold (copy_seg elf) phs m x = m x"
proof (induction phs arbitrary: m)
  case (Cons ph phs)
  have "x \<notin> mem_range (p_paddr ph) (unat (p_filesz ph))"
    using Cons.prems by (auto simp: mem_range_def seg_ok_def word_le_nat_alt)
  moreover have "seg_ok elf ph" using Cons.prems by simp
  ultimately have "copy_seg elf ph m x = m x"
    unfolding copy_seg_def by (intro mem_write_outside) (simp only: length_seg_file not_False_eq_True)
  then show ?case using Cons by simp
qed simp

lemma seg_range:
  "seg_ok elf ph \<Longrightarrow> x \<in> mem_range (p_paddr ph) (unat (p_memsz ph)) \<longleftrightarrow>
     unat (p_paddr ph) \<le> unat x \<and> unat x < unat (p_paddr ph) + unat (p_memsz ph)"
  by (rule region_iff) (simp add: seg_ok_def)

lemma copies_segment:
  assumes "sorted_wrt (\<lambda>a b. seg_before a b \<or> seg_before b a) phs" "\<forall>ph \<in> set phs. seg_ok elf ph" "ph \<in> set phs"
    "\<forall>x \<in> mem_range (p_paddr ph) (unat (p_memsz ph)). m x = 0"
  shows "mem_read (fold (copy_seg elf) phs m) (p_paddr ph) (unat (p_memsz ph)) = seg_image elf ph"
proof -
  obtain as bs where phs: "phs = as @ ph # bs" using assms(3) by (meson split_list)
  have ok: "seg_ok elf ph" using assms(2,3) by blast
  have sz: "unat (p_filesz ph) \<le> unat (p_memsz ph)" using ok by (simp add: seg_ok_def word_le_nat_alt)
  have out: "seg_ok elf q \<and> x \<notin> mem_range (p_paddr q) (unat (p_memsz q))"
    if "q \<in> set (as @ bs)" "x \<in> mem_range (p_paddr ph) (unat (p_memsz ph))" for q x
  proof -
    have q: "seg_ok elf q" "seg_before q ph \<or> seg_before ph q"
      using that(1) assms(1,2) unfolding phs by (auto simp: sorted_wrt_append)
    then show ?thesis using that(2) by (auto simp: seg_before_def seg_range [OF ok] seg_range [OF q(1)])
  qed
  have pt: "fold (copy_seg elf) phs m x = copy_seg elf ph m x" if x: "x \<in> mem_range (p_paddr ph) (unat (p_memsz ph))" for x
  proof -
    have "fold (copy_seg elf) bs m' x = m' x" "fold (copy_seg elf) as m x = m x" for m'
      using out x by (auto intro!: copies_outside)
    then show ?thesis by (simp add: phs copy_seg_def mem_write_def)
  qed
  show ?thesis
  proof (rule nth_equalityI)
    fix i assume i: "i < length (mem_read (fold (copy_seg elf) phs m) (p_paddr ph) (unat (p_memsz ph)))"
    then have i64: "i < 2 ^ 64" using less_trans [of i "unat (p_memsz ph)" "2 ^ 64"] by simp
    then have r: "p_paddr ph + word_of_nat i \<in> mem_range (p_paddr ph) (unat (p_memsz ph))"
      using i by (auto intro!: in_region)
    have "copy_seg elf ph m (p_paddr ph + word_of_nat i) = seg_image elf ph ! i"
      using r i i64 assms(4) length_seg_file [OF ok]
      by (simp add: copy_seg_def mem_write_def seg_image_def nth_append unat_word_of_nat)
    then show "mem_read (fold (copy_seg elf) phs m) (p_paddr ph) (unat (p_memsz ph)) ! i = seg_image elf ph ! i"
      using i pt [OF r] by (simp add: mem_read_def)
  qed (use sz length_seg_file [OF ok] in \<open>simp add: seg_image_def\<close>)
qed

lemma elf_range:
  assumes "elf_wf machine elf"
  obtains lo hi where "loop seg_extent (elf_phdrs elf) (- 1, 0) = Some (lo, hi)" "4096 dvd unat lo" "4096 dvd unat hi"
    "lo \<noteq> - 1" "unat lo < unat hi"
    "\<And>ph. ph \<in> set (elf_segments elf) \<Longrightarrow> p_memsz ph \<noteq> 0 \<Longrightarrow>
       unat lo \<le> unat (p_paddr ph) \<and> unat (p_paddr ph) + unat (p_memsz ph) \<le> unat hi"
proof -
  note wf = assms [unfolded elf_wf_def]
  have "\<forall>ph \<in> set (elf_phdrs elf). p_type ph = PT_LOAD \<longrightarrow> seg_ok elf ph" using wf by (auto simp: elf_segments_def)
  from extents_ok [OF this, of "- 1" 0]
  obtain lo hi where ext: "loop seg_extent (elf_phdrs elf) (- 1, 0) = Some (lo, hi)"
    "lo = - 1 \<or> 4096 dvd unat lo" "hi = 0 \<or> 4096 dvd unat hi"
    and seg: "\<And>ph. ph \<in> set (elf_segments elf) \<Longrightarrow> p_memsz ph \<noteq> 0 \<Longrightarrow>
       unat lo \<le> unat (p_paddr ph) \<and> unat (p_paddr ph) + unat (p_memsz ph) \<le> unat hi"
    by (auto simp: elf_segments_def word_le_nat_alt)
  obtain p where p: "p \<in> set (elf_segments elf)" "p_memsz p \<noteq> 0" using wf by blast
  have psz: "0 < unat (p_memsz p)" "unat (p_paddr p) + unat (p_memsz p) + 4095 < 2 ^ 64"
    using p wf by (auto simp: seg_ok_def unat_gt_0)
  have lo: "unat lo \<le> unat (p_paddr p)" "unat lo < unat hi" using seg [OF p] psz by auto
  have "lo \<noteq> - 1"
  proof
    assume "lo = - 1" then have "unat lo = 2 ^ 64 - 1" by (simp add: unsigned_minus_1_eq_mask mask_eq_exp_minus_1)
    then show False using lo psz by simp
  qed
  then show thesis using that [of lo hi] ext lo seg by auto
qed

lemma elf_memory:
  fixes mem :: memory
  assumes wf: "elf_wf machine elf" and range: "unat lo < unat hi"
    "\<And>ph. ph \<in> set (elf_segments elf) \<Longrightarrow> p_memsz ph \<noteq> 0 \<Longrightarrow>
       unat lo \<le> unat (p_paddr ph) \<and> unat (p_paddr ph) + unat (p_memsz ph) \<le> unat hi"
  defines "m \<equiv> fold (copy_seg elf) (elf_segments elf) (mem_write mem lo (replicate (unat (hi - lo)) 0))"
  shows "ph \<in> set (elf_segments elf) \<Longrightarrow> mem_read m (p_paddr ph) (unat (p_memsz ph)) = seg_image elf ph"
    and "x \<notin> mem_range lo (unat (hi - lo)) \<Longrightarrow> m x = mem x"
proof -
  let ?z = "mem_write mem lo (replicate (unat (hi - lo)) 0)"
  note wf' = wf [unfolded elf_wf_def]
  have len: "unat (hi - lo) = unat hi - unat lo" using range(1) by (simp add: unat_sub word_le_nat_alt)
  have in_range: "x \<in> mem_range lo (unat (hi - lo))"
    if "ph \<in> set (elf_segments elf)" "x \<in> mem_range (p_paddr ph) (unat (p_memsz ph))" for ph x
  proof -
    have o: "seg_ok elf ph" "p_memsz ph \<noteq> 0" using that wf' by (auto simp: mem_range_def)
    have "unat lo + unat (hi - lo) \<le> 2 ^ 64" using len range(1) less_imp_le [OF unat_lt_64 [of hi]] by simp
    then show ?thesis using that(2) range(2) [OF that(1) o(2)] len
      by (simp add: seg_range [OF o(1)] region_iff)
  qed
  have z: "x \<in> mem_range lo (unat (hi - lo)) \<Longrightarrow> ?z x = 0" for x by (simp add: mem_write_def mem_range_def)
  show "mem_read m (p_paddr ph) (unat (p_memsz ph)) = seg_image elf ph" if "ph \<in> set (elf_segments elf)"
    unfolding m_def using wf' that in_range z by (intro copies_segment) auto
  show "m x = mem x" if x: "x \<notin> mem_range lo (unat (hi - lo))"
  proof -
    have "m x = ?z x" unfolding m_def using in_range wf' x by (intro copies_outside) auto
    then show ?thesis using x by (simp add: mem_write_outside)
  qed
qed

lemma elf_load:
  assumes "elf_wf machine elf"
  shows "\<exists>base pages. 4096 dvd unat base \<and> (\<forall>alloc mem.
    if alloc EFI_ALLOCATE_ADDRESS EFI_LOADER_DATA pages base = (EFI_SUCCESS, base)
    then \<exists>mem'. load_kernel_elf alloc machine elf mem = Some (e_entry (elf_ehdr_of elf), mem')
      \<and> (\<forall>ph \<in> set (elf_segments elf). mem_read mem' (p_paddr ph) (unat (p_memsz ph)) = seg_image elf ph)
      \<and> (\<forall>x. x \<notin> mem_range base (4096 * unat pages) \<longrightarrow> mem' x = mem x)
    else load_kernel_elf alloc machine elf mem = None)"
proof -
  note wf = assms [unfolded elf_wf_def]
  let ?phs = "elf_phdrs elf" and ?eh = "elf_ehdr_of elf"
  obtain lo hi where ext: "loop seg_extent ?phs (- 1, 0) = Some (lo, hi)" "4096 dvd unat lo" "4096 dvd unat hi" "lo \<noteq> - 1"
    and range: "unat lo < unat hi" "\<And>ph. ph \<in> set (elf_segments elf) \<Longrightarrow> p_memsz ph \<noteq> 0 \<Longrightarrow>
       unat lo \<le> unat (p_paddr ph) \<and> unat (p_paddr ph) + unat (p_memsz ph) \<le> unat hi"
    using elf_range [OF assms] by metis
  have hd: "read_at 64 elf64_ehdr elf 0 = Some ?eh" "elf_header_ok machine ?eh"
    using wf by (simp_all add: read_at_def checked_add_def elf_ehdr_of_def)
  have len: "unat (hi - lo) = unat hi - unat lo" using range(1) by (simp add: unat_sub word_le_nat_alt)
  let ?pages = "(hi - lo) div EFI_PAGE_SIZE"
  have pages: "4096 * unat ?pages = unat (hi - lo)"
    using len ext by (simp add: unat_div EFI_PAGE_SIZE_def dvd_diff_nat)
  have "if alloc EFI_ALLOCATE_ADDRESS EFI_LOADER_DATA ?pages lo = (EFI_SUCCESS, lo)
    then \<exists>mem'. load_kernel_elf alloc machine elf mem = Some (e_entry ?eh, mem')
      \<and> (\<forall>ph \<in> set (elf_segments elf). mem_read mem' (p_paddr ph) (unat (p_memsz ph)) = seg_image elf ph)
      \<and> (\<forall>x. x \<notin> mem_range lo (4096 * unat ?pages) \<longrightarrow> mem' x = mem x)
    else load_kernel_elf alloc machine elf mem = None" for alloc mem
  proof -
    let ?z = "mem_write mem lo (replicate (unat (hi - lo)) 0)"
    have "loop (seg_copy elf) ?phs ?z = Some (fold (copy_seg elf) (elf_segments elf) ?z)"
      using wf unfolding elf_segments_def by (intro copies_ok) auto
    moreover have "\<not> hi \<le> lo" using range(1) by (simp add: word_le_nat_alt)
    moreover obtain st ad where "alloc EFI_ALLOCATE_ADDRESS EFI_LOADER_DATA ?pages lo = (st, ad)" by fastforce
    ultimately show ?thesis
      using ext(1,4) hd pages elf_memory [OF assms range, where mem = mem]
        loop_phdrs [OF assms, of seg_extent] loop_phdrs [OF assms, of "seg_copy elf"]
      by (simp add: load_kernel_elf_def)
  qed
  then show ?thesis using ext(2) by blast
qed

lemma elf_loads:
  assumes "elf_wf machine elf" "\<And>pages base. alloc EFI_ALLOCATE_ADDRESS EFI_LOADER_DATA pages base = (EFI_SUCCESS, base)"
  shows "\<exists>mem'. load_kernel_elf alloc machine elf mem = Some (e_entry (elf_ehdr_of elf), mem')
      \<and> (\<forall>ph \<in> set (elf_segments elf). mem_read mem' (p_paddr ph) (unat (p_memsz ph)) = seg_image elf ph)"
  using elf_load [OF assms(1)] assms(2) by (auto dest!: spec [of _ alloc] spec [of _ mem])

text \<open>C5: For every well-formed kernel image there is one page-aligned range such that, if the firmware grants exactly that
  range, the stub loads the image: the entry point is the one of the header, every segment is in
  memory as its file bytes followed by zeros, and nothing outside the range changes; if the firmware
  refuses, nothing is loaded.\<close>

theorem load_kernel_elf_correct:
  assumes "elf_wf machine elf"
  shows "\<exists>base pages. 4096 dvd unat base \<and> (\<forall>alloc mem.
    if alloc EFI_ALLOCATE_ADDRESS EFI_LOADER_DATA pages base = (EFI_SUCCESS, base)
    then \<exists>mem'. load_kernel_elf alloc machine elf mem = Some (e_entry (elf_ehdr_of elf), mem')
      \<and> (\<forall>ph \<in> set (elf_segments elf). mem_read mem' (p_paddr ph) (unat (p_memsz ph)) = seg_image elf ph)
      \<and> (\<forall>x. x \<notin> mem_range base (4096 * unat pages) \<longrightarrow> mem' x = mem x)
    else load_kernel_elf alloc machine elf mem = None)"
  using assms by (rule elf_load)

definition sample_elf :: "u8 list" where
  "sample_elf = [127, 69, 76, 70, 2, 1, 1, 0, 0, 0, 0, 0, 0, 0, 0, 0, 2, 0, 183, 0, 1, 0, 0, 0,
     0, 0, 8, 64, 0, 0, 0, 0, 64, 0, 0, 0, 0, 0, 0, 0, 0, 0, 0, 0, 0, 0, 0, 0,
     0, 0, 0, 0, 64, 0, 56, 0, 1, 0, 0, 0, 0, 0, 0, 0, 1, 0, 0, 0, 5, 0, 0, 0,
     120, 0, 0, 0, 0, 0, 0, 0, 0, 0, 8, 64, 0, 0, 0, 0, 0, 0, 8, 64, 0, 0, 0, 0,
     4, 0, 0, 0, 0, 0, 0, 0, 0, 32, 0, 0, 0, 0, 0, 0, 0, 16, 0, 0, 0, 0, 0, 0,
     222, 173, 190, 239]"

lemma sample_elf_ehdr: "elf_ehdr_of sample_elf = \<lparr>e_ident = [127, 69, 76, 70, 2, 1, 1, 0, 0, 0, 0, 0, 0, 0, 0, 0], e_type = 2,
    e_machine = 0xb7, e_version = 1, e_entry = 0x40080000, e_phoff = 64, e_shoff = 0, e_flags = 0, e_ehsize = 64,
    e_phentsize = 56, e_phnum = 1, e_shentsize = 0, e_shnum = 0, e_shstrndx = 0\<rparr>"
  by (simp add: elf_ehdr_of_def elf64_ehdr_def sample_elf_def from_le_bytes_def)

lemma sample_elf_segment: "elf_segments sample_elf = [\<lparr>p_type = 1, p_flags = 5, p_offset = 120, p_vaddr = 0x40080000,
    p_paddr = 0x40080000, p_filesz = 4, p_memsz = 0x2000, p_align = 0x1000\<rparr>]"
  by (simp add: elf_segments_def elf_phdrs_def sample_elf_ehdr) (simp add: elf64_phdr_def sample_elf_def from_le_bytes_def PT_LOAD_def)

lemma length_sample_elf: "length sample_elf = 124"
  by (simp add: sample_elf_def)

lemma sample_elf_wf: "elf_wf 0xb7 sample_elf"
  by (simp add: elf_wf_def sample_elf_ehdr sample_elf_segment elf_header_ok_def seg_ok_def length_sample_elf)

lemma sample_elf_payload: "drop 120 sample_elf = [0xde, 0xad, 0xbe, 0xef]"
  by (simp add: sample_elf_def)

theorem load_kernel_elf_correct_witness:
  "\<exists>mem'. load_kernel_elf (\<lambda>_ _ _ a. (0, a)) 0xb7 sample_elf (\<lambda>_. 0xff) = Some (0x40080000, mem')
     \<and> mem_read mem' 0x40080000 0x2000 = [0xde, 0xad, 0xbe, 0xef] @ replicate 0x1ffc 0"
proof -
  have img: "seg_image sample_elf (hd (elf_segments sample_elf)) = [0xde, 0xad, 0xbe, 0xef] @ replicate 0x1ffc 0"
    by (simp add: sample_elf_segment seg_image_def sample_elf_payload)
  show ?thesis
    using load_kernel_elf_correct [OF sample_elf_wf]
  proof (elim exE conjE, goal_cases)
    case (1 base pages)
    from spec [OF spec [OF 1(2), of "\<lambda>_ _ _ a. (0, a)"], of "\<lambda>_. 0xff"] img
    show ?case by (auto simp: EFI_SUCCESS_def sample_elf_segment sample_elf_ehdr)
  qed
qed

end
