(* ===== verification/Hyp_Handoff.thy ===== *)
theory Hyp_Handoff
  imports Hyp_Elf Hyp_Boot_Info
begin

text \<open>
  How the UEFI boot stub (\<^verbatim>\<open>efi-stub/src/main.rs\<close>) describes the machine: the firmware's memory map,
  the graphics mode and the configuration table, the handoff block built from them, and the
  kernel's side, \<^verbatim>\<open>uefi_handoff\<close> of \<^verbatim>\<open>kernel/src/arch\<close>, which reads the block back from memory. The two
  structures are declared twice in the sources; here each has its layout, and the kernel's reading
  is shown to invert the stub's writing. The firmware's services are parameters.
\<close>

section \<open>Data\<close>

text \<open>The target the stub is compiled for.\<close>

datatype StubArch = Stub_aarch64 | Stub_x86_64

definition EFI_CONVENTIONAL_MEMORY :: u32 where "EFI_CONVENTIONAL_MEMORY = 7"
definition MEMORY_MAP_BUF_SIZE :: usize where "MEMORY_MAP_BUF_SIZE = 64 * 1024"

definition KERNEL_ELF_MACHINE :: "StubArch \<Rightarrow> u16" where
  "KERNEL_ELF_MACHINE a = (case a of Stub_aarch64 \<Rightarrow> 0xb7 | Stub_x86_64 \<Rightarrow> 0x3e)"

datatype EfiGuid = EfiGuid u32 u16 u16 "u8 list"

definition EFI_GRAPHICS_OUTPUT_PROTOCOL_GUID :: EfiGuid where
  "EFI_GRAPHICS_OUTPUT_PROTOCOL_GUID = EfiGuid 0x9042a9de 0x23dc 0x4a38 [0x96, 0xfb, 0x7a, 0xde, 0xd0, 0x80, 0x51, 0x6a]"

definition EFI_ACPI_20_TABLE_GUID :: EfiGuid where
  "EFI_ACPI_20_TABLE_GUID = EfiGuid 0x8868e871 0xe4f1 0x11d3 [0xbc, 0x22, 0x00, 0x80, 0xc7, 0x3c, 0x88, 0x81]"

definition EFI_ACPI_10_TABLE_GUID :: EfiGuid where
  "EFI_ACPI_10_TABLE_GUID = EfiGuid 0xeb9d2d30 0x2d88 0x11d3 [0x9a, 0x16, 0x00, 0x90, 0x27, 0x3f, 0xc1, 0x4d]"

definition EFI_DTB_TABLE_GUID :: EfiGuid where
  "EFI_DTB_TABLE_GUID = EfiGuid 0xb1b621d5 0xf19c 0x41a5 [0x83, 0x0b, 0xd9, 0x15, 0x2c, 0x69, 0xaa, 0xe0]"

record EfiConfigurationTable =
  vendor_guid :: EfiGuid
  vendor_table :: u64

text \<open>Of the system table, the fields the stub reads; the array is the one the pointer and the
  count describe.\<close>

record EfiSystemTable =
  st_configuration_table :: "EfiConfigurationTable list option"
  st_number_of_table_entries :: usize

record EfiGraphicsOutputModeInformation =
  gi_horizontal_resolution :: u32
  gi_vertical_resolution :: u32
  gi_pixel_format :: u32
  gi_pixels_per_scan_line :: u32

record EfiGraphicsOutputProtocolMode =
  gm_info :: EfiGraphicsOutputModeInformation
  gm_framebuffer_base :: u64
  gm_framebuffer_size :: usize

record EfiMemoryDescriptor =
  md_typ :: u32
  md_physical_start :: u64
  md_virtual_start :: u64
  md_number_of_pages :: u64
  md_attribute :: u64

definition memory_descriptor :: "u8 list \<Rightarrow> EfiMemoryDescriptor" where
  "memory_descriptor bs = \<lparr>md_typ = le_field bs 0 4, md_physical_start = le_field bs 8 8,
     md_virtual_start = le_field bs 16 8, md_number_of_pages = le_field bs 24 8, md_attribute = le_field bs 32 8\<rparr>"

text \<open>The snapshot's pointer is the static buffer; its contents are the component \<open>ms_bytes\<close>.\<close>

record MemoryMapSnapshot =
  ms_bytes :: "u8 list"
  ms_size :: usize
  ms_key :: usize
  ms_desc_size :: usize

record EfiHandoff =
  eh_magic :: u64
  eh_version :: u32
  eh_reserved0 :: u32
  eh_console_kind :: u32
  eh_console_base :: u64
  eh_console_size :: u64
  eh_console_clock_hz :: u32
  eh_intc_kind :: u32
  eh_intc_primary_base :: u64
  eh_intc_primary_size :: u64
  eh_intc_secondary_base :: u64
  eh_intc_secondary_size :: u64
  eh_timer_freq_hz :: u32
  eh_memory_len :: u32
  eh_memory :: "MemoryRegion list"
  eh_framebuffer_present :: u32
  eh_framebuffer_base :: u64
  eh_framebuffer_size :: u64
  eh_framebuffer_width :: u32
  eh_framebuffer_height :: u32
  eh_framebuffer_stride_bytes :: u32
  eh_framebuffer_bpp :: u32
  eh_framebuffer_format :: u32
  eh_fw_table_addr :: u64

section \<open>The memory map\<close>

text \<open>\<^verbatim>\<open>GetMemoryMap\<close> of the firmware, from the buffer size to the status, the size, the contents of the
  buffer, the key and the descriptor size; and \<^verbatim>\<open>ExitBootServices\<close>, from the key to the status. The
  firmware has a state of its own.\<close>

record 'f Firmware =
  fw_get_memory_map :: "usize \<Rightarrow> 'f \<Rightarrow> (usize \<times> usize \<times> u8 list \<times> usize \<times> usize) \<times> 'f"
  fw_exit_boot_services :: "usize \<Rightarrow> 'f \<Rightarrow> usize \<times> 'f"

definition get_memory_map :: "'f Firmware \<Rightarrow> 'f \<Rightarrow> MemoryMapSnapshot option \<times> 'f" where
  "get_memory_map fw f =
     (case fw_get_memory_map fw MEMORY_MAP_BUF_SIZE f of ((status, sz, bytes, key, desc_size), f') \<Rightarrow>
        (if status \<noteq> EFI_SUCCESS \<or> desc_size < 40 then None
         else Some \<lparr>ms_bytes = bytes, ms_size = sz, ms_key = key, ms_desc_size = desc_size\<rparr>, f'))"

definition append_region :: "EfiHandoff \<Rightarrow> u64 \<Rightarrow> u64 \<Rightarrow> EfiHandoff option" where
  "append_region handoff base sz =
     (let len = (ucast (eh_memory_len handoff) :: usize) in
      if len < MAX_MEMORY_REGIONS
      then do {
        mem \<leftarrow> arr_set (eh_memory handoff) len (region base sz);
        Some (handoff\<lparr>eh_memory := mem, eh_memory_len := eh_memory_len handoff + 1\<rparr>)
      }
      else Some handoff)"

definition push_memory_region :: "EfiHandoff \<Rightarrow> u64 \<Rightarrow> u64 \<Rightarrow> EfiHandoff option" where
  "push_memory_region handoff base sz =
     (let len = (ucast (eh_memory_len handoff) :: usize) in
      if sz = 0 then Some handoff
      else if 0 < len
      then do {
        prev \<leftarrow> arr_get (eh_memory handoff) (len - 1);
        if saturating_add (mr_base prev) (mr_size prev) = base
        then do {
          mem \<leftarrow> arr_set (eh_memory handoff) (len - 1) (region (mr_base prev) (saturating_add (mr_size prev) sz));
          Some (handoff\<lparr>eh_memory := mem\<rparr>)
        }
        else append_region handoff base sz
      }
      else append_region handoff base sz)"

section \<open>The configuration table\<close>

definition preferred_tables :: "StubArch \<Rightarrow> EfiGuid list" where
  "preferred_tables a = (case a of
     Stub_aarch64 \<Rightarrow> [EFI_DTB_TABLE_GUID, EFI_ACPI_20_TABLE_GUID, EFI_ACPI_10_TABLE_GUID]
   | Stub_x86_64 \<Rightarrow> [EFI_ACPI_20_TABLE_GUID, EFI_ACPI_10_TABLE_GUID, EFI_DTB_TABLE_GUID])"

fun first_entry :: "EfiGuid \<Rightarrow> EfiConfigurationTable list \<Rightarrow> u64 option" where
  "first_entry guid [] = None"
| "first_entry guid (entry # table) = (if vendor_guid entry = guid then Some (vendor_table entry) else first_entry guid table)"

fun first_table :: "EfiConfigurationTable list \<Rightarrow> EfiGuid list \<Rightarrow> u64" where
  "first_table table [] = 0"
| "first_table table (guid # guids) = (case first_entry guid table of Some a \<Rightarrow> a | None \<Rightarrow> first_table table guids)"

definition find_firmware_table :: "StubArch \<Rightarrow> EfiSystemTable \<Rightarrow> u64" where
  "find_firmware_table a st = (case st_configuration_table st of
     None \<Rightarrow> 0
   | Some table \<Rightarrow>
       (if st_number_of_table_entries st = 0 then 0
        else first_table (take (unat (st_number_of_table_entries st)) table) (preferred_tables a)))"

section \<open>The handoff block\<close>

definition initial_handoff :: "StubArch \<Rightarrow> EfiGraphicsOutputProtocolMode \<Rightarrow> u64 \<Rightarrow> EfiHandoff" where
  "initial_handoff a mode fw_table_addr =
     (let info = gm_info mode;
          (console_kind, console_base, console_size, console_clock_hz, intc_kind, intc_primary_base, intc_primary_size,
           intc_secondary_base, intc_secondary_size) =
            (case a of
               Stub_aarch64 \<Rightarrow> (0, 0x09000000, 0x1000, 24000000, 0, 0x08000000, 0x10000, 0x08010000, 0x10000)
             | Stub_x86_64 \<Rightarrow> (1, 0x3F8, 8, 1843200, 2, 0xFEE00000, 0x1000, 0xFEC00000, 0x1000))
      in \<lparr>eh_magic = UEFI_HANDOFF_MAGIC, eh_version = UEFI_HANDOFF_VERSION, eh_reserved0 = 0,
          eh_console_kind = console_kind, eh_console_base = console_base, eh_console_size = console_size,
          eh_console_clock_hz = console_clock_hz, eh_intc_kind = intc_kind, eh_intc_primary_base = intc_primary_base,
          eh_intc_primary_size = intc_primary_size, eh_intc_secondary_base = intc_secondary_base,
          eh_intc_secondary_size = intc_secondary_size, eh_timer_freq_hz = 0, eh_memory_len = 0,
          eh_memory = replicate 8 (region 0 0), eh_framebuffer_present = 1,
          eh_framebuffer_base = gm_framebuffer_base mode, eh_framebuffer_size = gm_framebuffer_size mode,
          eh_framebuffer_width = gi_horizontal_resolution info, eh_framebuffer_height = gi_vertical_resolution info,
          eh_framebuffer_stride_bytes = saturating_mul (gi_pixels_per_scan_line info) 4, eh_framebuffer_bpp = 32,
          eh_framebuffer_format = (if gi_pixel_format info = 0 then 1 else 0), eh_fw_table_addr = fw_table_addr\<rparr>)"

partial_function (option) push_descriptors :: "MemoryMapSnapshot \<Rightarrow> usize \<Rightarrow> EfiHandoff \<Rightarrow> EfiHandoff option" where
  "push_descriptors snap off handoff =
     (if off + 40 \<le> ms_size snap
      then do {
        let desc = memory_descriptor (take 40 (drop (unat off) (ms_bytes snap)));
        handoff \<leftarrow> (if md_typ desc = EFI_CONVENTIONAL_MEMORY
          then push_memory_region handoff (md_physical_start desc) (saturating_mul (md_number_of_pages desc) EFI_PAGE_SIZE)
          else Some handoff);
        push_descriptors snap (saturating_add off (ms_desc_size snap)) handoff
      }
      else Some handoff)"

definition build_handoff :: "StubArch \<Rightarrow> MemoryMapSnapshot \<Rightarrow> EfiGraphicsOutputProtocolMode \<Rightarrow> u64 \<Rightarrow> EfiHandoff option" where
  "build_handoff a snap mode fw_table_addr = do {
     handoff \<leftarrow> push_descriptors snap 0 (initial_handoff a mode fw_table_addr);
     if eh_memory_len handoff = 0
     then (case a of
         Stub_aarch64 \<Rightarrow> push_memory_region handoff 0x40000000 (256 * 1024 * 1024)
       | Stub_x86_64 \<Rightarrow> push_memory_region handoff 0x100000 (128 * 1024 * 1024))
     else Some handoff
   }"

text \<open>\<^verbatim>\<open>exit_boot_services\<close>: at most three attempts. It returns the handoff, or halts after a message, or
  does not return when building the block does not.\<close>

datatype ExitEnd = Exited EfiHandoff | ExitHalts string | ExitDiverges

primrec exit_attempts :: "nat \<Rightarrow> StubArch \<Rightarrow> 'f Firmware \<Rightarrow> EfiGraphicsOutputProtocolMode \<Rightarrow> u64 \<Rightarrow> 'f \<Rightarrow> ExitEnd \<times> 'f" where
  "exit_attempts 0 a fw mode fw_table_addr f = (ExitHalts ''ExitBootServices failed; halting.'', f)"
| "exit_attempts (Suc n) a fw mode fw_table_addr f =
     (case get_memory_map fw f of
        (None, f) \<Rightarrow> (ExitHalts ''GetMemoryMap failed; halting.'', f)
      | (Some snap, f) \<Rightarrow>
          (case build_handoff a snap mode fw_table_addr of
             None \<Rightarrow> (ExitDiverges, f)
           | Some handoff \<Rightarrow>
               (let (status, f) = fw_exit_boot_services fw (ms_key snap) f
                in if status = EFI_SUCCESS then (Exited handoff, f) else exit_attempts n a fw mode fw_table_addr f)))"

definition exit_boot_services :: "StubArch \<Rightarrow> 'f Firmware \<Rightarrow> EfiGraphicsOutputProtocolMode \<Rightarrow> u64 \<Rightarrow> 'f \<Rightarrow> ExitEnd \<times> 'f" where
  "exit_boot_services = exit_attempts 3"

section \<open>The block in memory\<close>

definition region_bytes :: "MemoryRegion \<Rightarrow> u8 list" where
  "region_bytes r = to_le_bytes (mr_base r) @ to_le_bytes (mr_size r)"

text \<open>The holes that \<^verbatim>\<open>repr(C)\<close> leaves after three of the 32-bit fields are taken to be zero; the kernel does not
  read them.\<close>

definition handoff_bytes :: "EfiHandoff \<Rightarrow> u8 list" where
  "handoff_bytes h = to_le_bytes (eh_magic h) @ to_le_bytes (eh_version h) @ to_le_bytes (eh_reserved0 h)
     @ to_le_bytes (eh_console_kind h) @ replicate 4 0 @ to_le_bytes (eh_console_base h) @ to_le_bytes (eh_console_size h)
     @ to_le_bytes (eh_console_clock_hz h) @ to_le_bytes (eh_intc_kind h) @ to_le_bytes (eh_intc_primary_base h)
     @ to_le_bytes (eh_intc_primary_size h) @ to_le_bytes (eh_intc_secondary_base h) @ to_le_bytes (eh_intc_secondary_size h)
     @ to_le_bytes (eh_timer_freq_hz h) @ to_le_bytes (eh_memory_len h) @ concat (List.map region_bytes (eh_memory h))
     @ to_le_bytes (eh_framebuffer_present h) @ replicate 4 0 @ to_le_bytes (eh_framebuffer_base h)
     @ to_le_bytes (eh_framebuffer_size h) @ to_le_bytes (eh_framebuffer_width h) @ to_le_bytes (eh_framebuffer_height h)
     @ to_le_bytes (eh_framebuffer_stride_bytes h) @ to_le_bytes (eh_framebuffer_bpp h)
     @ to_le_bytes (eh_framebuffer_format h) @ replicate 4 0 @ to_le_bytes (eh_fw_table_addr h)"

definition uefi_handoff_at :: "memory \<Rightarrow> u64 \<Rightarrow> UefiHandoff" where
  "uefi_handoff_at mem a = \<lparr>ho_magic = rd64 mem a, ho_version = rd32 mem (a + 8), ho_reserved0 = rd32 mem (a + 12),
     ho_console_kind = rd32 mem (a + 16), ho_console_base = rd64 mem (a + 24), ho_console_size = rd64 mem (a + 32),
     ho_console_clock_hz = rd32 mem (a + 40), ho_intc_kind = rd32 mem (a + 44), ho_intc_primary_base = rd64 mem (a + 48),
     ho_intc_primary_size = rd64 mem (a + 56), ho_intc_secondary_base = rd64 mem (a + 64),
     ho_intc_secondary_size = rd64 mem (a + 72), ho_timer_freq_hz = rd32 mem (a + 80), ho_memory_len = rd32 mem (a + 84),
     ho_memory = List.map (\<lambda>i. region (rd64 mem (a + 88 + 16 * word_of_nat i)) (rd64 mem (a + 96 + 16 * word_of_nat i))) [0..<8],
     ho_framebuffer_present = rd32 mem (a + 216), ho_framebuffer_base = rd64 mem (a + 224),
     ho_framebuffer_size = rd64 mem (a + 232), ho_framebuffer_width = rd32 mem (a + 240),
     ho_framebuffer_height = rd32 mem (a + 244), ho_framebuffer_stride_bytes = rd32 mem (a + 248),
     ho_framebuffer_bpp = rd32 mem (a + 252), ho_framebuffer_format = rd32 mem (a + 256), ho_fw_table_addr = rd64 mem (a + 264)\<rparr>"

definition uefi_handoff :: "memory \<Rightarrow> u64 \<Rightarrow> BootInfo option" where
  "uefi_handoff mem addr = (if addr = 0 then None else to_boot_info (uefi_handoff_at mem addr))"

section \<open>Coalescing\<close>

text \<open>\<^verbatim>\<open>push_memory_region\<close> on the list of regions in use.\<close>

definition coalesce :: "MemoryRegion \<Rightarrow> MemoryRegion list \<Rightarrow> MemoryRegion list" where
  "coalesce r rs =
     (if mr_size r = 0 then rs
      else if rs \<noteq> [] \<and> saturating_add (mr_base (last rs)) (mr_size (last rs)) = mr_base r
      then butlast rs @ [region (mr_base (last rs)) (saturating_add (mr_size (last rs)) (mr_size r))]
      else if length rs < 8 then rs @ [r] else rs)"

definition handoff_regions :: "EfiHandoff \<Rightarrow> MemoryRegion list" where
  "handoff_regions h = take (unat (eh_memory_len h)) (eh_memory h)"

definition handoff_wf :: "EfiHandoff \<Rightarrow> bool" where
  "handoff_wf h \<longleftrightarrow> length (eh_memory h) = 8 \<and> eh_memory_len h \<le> 8"

definition handoff_same :: "EfiHandoff \<Rightarrow> EfiHandoff \<Rightarrow> bool" where
  "handoff_same h h' \<longleftrightarrow> h'\<lparr>eh_memory := eh_memory h, eh_memory_len := eh_memory_len h\<rparr> = h"

lemma handoff_same_refl [simp]: "handoff_same h h"
  by (simp add: handoff_same_def)

lemma handoff_same_update [simp]:
  "handoff_same h (h\<lparr>eh_memory := m, eh_memory_len := l\<rparr>)" "handoff_same h (h\<lparr>eh_memory := m\<rparr>)"
  by (simp_all add: handoff_same_def)

lemma handoff_lens:
  assumes "handoff_wf h"
  shows "length (handoff_regions h) = unat (eh_memory_len h)" "unat (eh_memory_len h) \<le> 8"
    "unat (ucast (eh_memory_len h) :: usize) = unat (eh_memory_len h)"
  using assms by (auto simp: handoff_wf_def handoff_regions_def word_le_nat_alt unat_ucast_widen)

lemma append_region_list:
  assumes "handoff_wf h"
  shows "\<exists>h'. append_region h b s = Some h' \<and> handoff_wf h' \<and>
    handoff_regions h' = (if length (handoff_regions h) < 8 then handoff_regions h @ [region b s] else handoff_regions h) \<and>
    handoff_same h h'"
proof (cases "unat (eh_memory_len h) < 8")
  case True
  note len = handoff_lens [OF assms]
  let ?h' = "h\<lparr>eh_memory := (eh_memory h)[unat (eh_memory_len h) := region b s], eh_memory_len := eh_memory_len h + 1\<rparr>"
  have suc: "unat (eh_memory_len h + 1) = Suc (unat (eh_memory_len h))" using True by (simp add: unat_add_lt)
  have m8: "length (eh_memory h) = 8" using assms by (simp add: handoff_wf_def)
  have "append_region h b s = Some ?h'"
    using True len m8 by (simp add: append_region_def arr_set_def MAX_MEMORY_REGIONS_def word_less_nat_alt)
  moreover have "handoff_wf ?h'" using True suc m8 by (simp add: handoff_wf_def word_le_nat_alt)
  moreover have "handoff_regions ?h' = handoff_regions h @ [region b s]"
    using True suc m8 by (simp add: handoff_regions_def take_Suc_conv_app_nth)
  moreover have "handoff_same h ?h'" by simp
  ultimately show ?thesis using True len(1) by (intro exI [of _ ?h']) simp
next
  case False
  have "append_region h b s = Some h"
    using False handoff_lens [OF assms] by (simp add: append_region_def MAX_MEMORY_REGIONS_def word_less_nat_alt)
  then show ?thesis using False assms handoff_lens(1) [OF assms] by simp
qed

lemma push_memory_region_list:
  assumes "handoff_wf h"
  shows "\<exists>h'. push_memory_region h b s = Some h' \<and> handoff_wf h' \<and>
    handoff_regions h' = coalesce (region b s) (handoff_regions h) \<and> handoff_same h h'"
proof -
  note len = handoff_lens [OF assms]
  let ?n = "unat (eh_memory_len h)" and ?p = "eh_memory h ! (unat (eh_memory_len h) - 1)"
  show ?thesis
  proof (cases "s = 0 \<or> ?n = 0")
    case True
    then show ?thesis using append_region_list [OF assms, of b s] assms len
      by (auto simp: push_memory_region_def Let_def coalesce_def word_less_nat_alt)
  next
    case False
    have m8: "length (eh_memory h) = 8" using assms by (simp add: handoff_wf_def)
    have ne: "handoff_regions h \<noteq> []" using False len by auto
    have last: "last (handoff_regions h) = ?p"
      using False len last_conv_nth [OF ne] by (simp add: handoff_regions_def)
    have butlast: "butlast (handoff_regions h) = take (?n - 1) (eh_memory h)"
      using False len m8 by (simp add: handoff_regions_def butlast_take)
    have idx: "unat ((ucast (eh_memory_len h) :: usize) - 1) = ?n - 1"
      using False len by (simp add: unat_sub word_le_nat_alt)
    have pos: "0 < (ucast (eh_memory_len h) :: usize)" using False len by (simp add: word_less_nat_alt)
    have upd: "take ?n ((eh_memory h)[?n - 1 := r]) = take (?n - 1) (eh_memory h) @ [r]" for r
    proof -
      have "take (Suc (?n - 1)) ((eh_memory h)[?n - 1 := r]) = take (?n - 1) (eh_memory h) @ [r]"
        using False len m8 by (subst take_Suc_conv_app_nth) (simp_all add: take_update_swap list_update_beyond)
      then show ?thesis using False by simp
    qed
    show ?thesis
    proof (cases "saturating_add (mr_base ?p) (mr_size ?p) = b")
      case True
      then show ?thesis using False len idx pos last butlast upd ne m8 assms
        by (simp add: push_memory_region_def Let_def arr_get_def arr_set_def coalesce_def handoff_wf_def)
          (simp add: handoff_regions_def)
    next
      case no: False
      then show ?thesis using False append_region_list [OF assms, of b s] len idx pos last ne m8
        by (simp add: push_memory_region_def Let_def arr_get_def coalesce_def)
    qed
  qed
qed

section \<open>The descriptors of a memory map\<close>

definition snap_count :: "MemoryMapSnapshot \<Rightarrow> nat" where
  "snap_count snap = (if unat (ms_size snap) < 40 then 0 else (unat (ms_size snap) - 40) div unat (ms_desc_size snap) + 1)"

definition snap_descriptors :: "MemoryMapSnapshot \<Rightarrow> EfiMemoryDescriptor list" where
  "snap_descriptors snap = map (\<lambda>i. memory_descriptor (take 40 (drop (i * unat (ms_desc_size snap)) (ms_bytes snap))))
     [0..<snap_count snap]"

definition conventional :: "MemoryMapSnapshot \<Rightarrow> MemoryRegion list" where
  "conventional snap = map (\<lambda>d. region (md_physical_start d) (saturating_mul (md_number_of_pages d) EFI_PAGE_SIZE))
     (filter (\<lambda>d. md_typ d = EFI_CONVENTIONAL_MEMORY) (snap_descriptors snap))"

text \<open>What the firmware guarantees of a map it returned: it and its descriptors fit the buffer.\<close>

definition snap_ok :: "MemoryMapSnapshot \<Rightarrow> bool" where
  "snap_ok snap \<longleftrightarrow> ms_size snap \<le> MEMORY_MAP_BUF_SIZE \<and> 40 \<le> ms_desc_size snap
     \<and> ms_desc_size snap \<le> MEMORY_MAP_BUF_SIZE"

lemma handoff_same_trans: "handoff_same a b \<Longrightarrow> handoff_same b c \<Longrightarrow> handoff_same a c"
  by (cases a; cases b; cases c) (simp add: handoff_same_def)

lemma handoff_same_inv: "handoff_same a b \<Longrightarrow> b = a\<lparr>eh_memory := eh_memory b, eh_memory_len := eh_memory_len b\<rparr>"
  by (cases a; cases b) (simp add: handoff_same_def)

lemma snap_count_less:
  assumes "40 \<le> d"
  shows "k < (if n < 40 then 0 else (n - 40) div d + 1) \<longleftrightarrow> k * d + 40 \<le> (n :: nat)"
proof (cases "n < 40")
  case False
  have "k \<le> (n - 40) div d \<longleftrightarrow> k * d \<le> n - 40" using assms by (simp add: less_eq_div_iff_mult_less_eq)
  then show ?thesis using False by auto
qed simp

lemma desc_guard:
  assumes "snap_ok snap" "unat off = k * unat (ms_desc_size snap)" "k \<le> snap_count snap"
  shows "off + 40 \<le> ms_size snap \<longleftrightarrow> k < snap_count snap"
    "k < snap_count snap \<Longrightarrow> unat (saturating_add off (ms_desc_size snap)) = Suc k * unat (ms_desc_size snap)"
proof -
  let ?d = "unat (ms_desc_size snap)" and ?n = "unat (ms_size snap)"
  have d: "40 \<le> ?d" "?d \<le> 65536" "?n \<le> 65536"
    using assms by (simp_all add: snap_ok_def MEMORY_MAP_BUF_SIZE_def word_le_nat_alt)
  have less: "k < snap_count snap \<longleftrightarrow> k * ?d + 40 \<le> ?n" for k
    using snap_count_less [OF d(1)] by (simp add: snap_count_def)
  have small: "k * ?d \<le> 131072"
  proof (cases k)
    case (Suc j)
    then have "j * ?d + 40 \<le> ?n" using assms(3) by (simp flip: less)
    then show ?thesis using Suc d by simp
  qed simp
  then have "unat (off + 40) = k * ?d + 40" using assms(2) by (simp add: unat_add_lt)
  then show "off + 40 \<le> ms_size snap \<longleftrightarrow> k < snap_count snap" by (simp add: word_le_nat_alt less)
  show "unat (saturating_add off (ms_desc_size snap)) = Suc k * ?d"
    using assms(2) small d by (simp add: unat_saturating_add)
qed

lemma push_descriptors_list:
  assumes "snap_ok snap" "handoff_wf h" "unat off = k * unat (ms_desc_size snap)" "k \<le> snap_count snap"
  shows "\<exists>h'. push_descriptors snap off h = Some h' \<and> handoff_wf h' \<and> handoff_same h h' \<and>
    handoff_regions h' = fold coalesce
      (map (\<lambda>d. region (md_physical_start d) (saturating_mul (md_number_of_pages d) EFI_PAGE_SIZE))
         (filter (\<lambda>d. md_typ d = EFI_CONVENTIONAL_MEMORY) (drop k (snap_descriptors snap)))) (handoff_regions h)"
  using assms(2-4)
proof (induction "snap_count snap - k" arbitrary: k off h)
  case 0
  then have "\<not> off + 40 \<le> ms_size snap" "drop k (snap_descriptors snap) = []"
    using desc_guard(1) [OF assms(1) 0(3,4)] by (simp_all add: snap_descriptors_def)
  then show ?case using 0 by (subst push_descriptors.simps) simp
next
  case (Suc n)
  let ?d = "memory_descriptor (take 40 (drop (unat off) (ms_bytes snap)))"
  let ?push = "if md_typ ?d = EFI_CONVENTIONAL_MEMORY
    then push_memory_region h (md_physical_start ?d) (saturating_mul (md_number_of_pages ?d) EFI_PAGE_SIZE) else Some h"
  have k: "k < snap_count snap" using Suc.hyps(2) by simp
  note g = desc_guard [OF assms(1) Suc.prems(2,3)]
  have dr: "drop k (snap_descriptors snap) = ?d # drop (Suc k) (snap_descriptors snap)"
    using k Suc.prems(2) by (subst Cons_nth_drop_Suc [symmetric]) (simp_all add: snap_descriptors_def)
  obtain h1 where h1: "?push = Some h1" "handoff_wf h1" "handoff_same h h1"
    "handoff_regions h1 = (if md_typ ?d = EFI_CONVENTIONAL_MEMORY
       then coalesce (region (md_physical_start ?d) (saturating_mul (md_number_of_pages ?d) EFI_PAGE_SIZE)) (handoff_regions h)
       else handoff_regions h)"
    using push_memory_region_list [OF Suc.prems(1)] Suc.prems(1) by (metis handoff_same_refl)
  have "push_descriptors snap off h = push_descriptors snap (saturating_add off (ms_desc_size snap)) h1"
    using k g(1) h1(1) by (subst push_descriptors.simps) (simp add: Let_def)
  moreover have "n = snap_count snap - Suc k" using Suc.hyps(2) by simp
  note Suc.hyps(1) [OF this h1(2) g(2) [OF k]]
  ultimately show ?case using k h1(3,4) handoff_same_trans unfolding dr by fastforce
qed

section \<open>Bytes described by regions\<close>

definition region_set :: "MemoryRegion \<Rightarrow> nat set" where
  "region_set r = {unat (mr_base r)..<unat (mr_base r) + unat (mr_size r)}"

definition regions_set :: "MemoryRegion list \<Rightarrow> nat set" where
  "regions_set rs = (\<Union>r \<in> set rs. region_set r)"

definition region_nowrap :: "MemoryRegion \<Rightarrow> bool" where
  "region_nowrap r \<longleftrightarrow> unat (mr_base r) + unat (mr_size r) < 2 ^ 64 - 1"

lemma regions_set_simps [simp]:
  "regions_set [] = {}" "regions_set (r # rs) = region_set r \<union> regions_set rs"
  "regions_set (as @ bs) = regions_set as \<union> regions_set bs"
  by (auto simp: regions_set_def)

lemma region_merge:
  assumes "region_nowrap p" "region_nowrap r" "saturating_add (mr_base p) (mr_size p) = mr_base r"
  defines "q \<equiv> region (mr_base p) (saturating_add (mr_size p) (mr_size r))"
  shows "region_nowrap q" "region_set q = region_set p \<union> region_set r"
proof -
  have b: "unat (mr_base r) = unat (mr_base p) + unat (mr_size p)"
    using assms(1) by (simp add: region_nowrap_def unat_saturating_add flip: assms(3))
  then have s: "unat (mr_size q) = unat (mr_size p) + unat (mr_size r)"
    using assms(2) by (simp add: q_def region_nowrap_def unat_saturating_add)
  show "region_nowrap q" using assms(2) b s by (simp add: region_nowrap_def q_def)
  show "region_set q = region_set p \<union> region_set r" using b s by (auto simp: region_set_def q_def)
qed

lemma coalesce_set:
  assumes "\<forall>p \<in> set rs. region_nowrap p" "region_nowrap r"
  shows "\<forall>p \<in> set (coalesce r rs). region_nowrap p"
    "regions_set (coalesce r rs) \<subseteq> regions_set rs \<union> region_set r"
    "length rs < 8 \<Longrightarrow> regions_set (coalesce r rs) = regions_set rs \<union> region_set r"
    "length rs \<le> length (coalesce r rs)"
proof -
  let ?merge = "rs \<noteq> [] \<and> saturating_add (mr_base (last rs)) (mr_size (last rs)) = mr_base r"
  have zero: "mr_size r = 0 \<Longrightarrow> region_set r = {}" by (simp add: region_set_def)
  have "(\<forall>p \<in> set (coalesce r rs). region_nowrap p) \<and> regions_set (coalesce r rs) \<subseteq> regions_set rs \<union> region_set r \<and>
    (length rs < 8 \<longrightarrow> regions_set (coalesce r rs) = regions_set rs \<union> region_set r) \<and> length rs \<le> length (coalesce r rs)"
  proof (cases "mr_size r \<noteq> 0 \<and> ?merge")
    case True
    then obtain as p where rs: "rs = as @ [p]" by (metis append_butlast_last_id)
    have p: "region_nowrap p" "saturating_add (mr_base p) (mr_size p) = mr_base r" using True assms(1) rs by auto
    show ?thesis using True region_merge [OF p(1) assms(2) p(2)] assms(1)
      by (auto simp: coalesce_def rs)
  next
    case False
    then show ?thesis using assms zero by (auto simp: coalesce_def)
  qed
  then show "\<forall>p \<in> set (coalesce r rs). region_nowrap p"
    "regions_set (coalesce r rs) \<subseteq> regions_set rs \<union> region_set r"
    "length rs < 8 \<Longrightarrow> regions_set (coalesce r rs) = regions_set rs \<union> region_set r"
    "length rs \<le> length (coalesce r rs)" by blast+
qed

lemma coalesce_all_set:
  assumes "\<forall>p \<in> set acc. region_nowrap p" "\<forall>p \<in> set rs. region_nowrap p"
  shows "regions_set (fold coalesce rs acc) \<subseteq> regions_set acc \<union> regions_set rs \<and>
    (length (fold coalesce rs acc) < 8 \<longrightarrow> regions_set (fold coalesce rs acc) = regions_set acc \<union> regions_set rs) \<and>
    length acc \<le> length (fold coalesce rs acc)"
  using assms
proof (induction rs arbitrary: acc)
  case (Cons r rs)
  have acc: "\<forall>p \<in> set acc. region_nowrap p" and r: "region_nowrap r" and rs: "\<forall>p \<in> set rs. region_nowrap p"
    using Cons.prems by simp_all
  note c = coalesce_set [OF acc r]
  note ih = Cons.IH [OF c(1) rs]
  have "length acc < 8" if "length (fold coalesce rs (coalesce r acc)) < 8" using that ih c(4) by linarith
  then show ?case using ih c(2-4) by (simp add: Un_assoc) (blast intro: order_trans)
qed simp

lemma coalesce_keeps: "acc \<noteq> [] \<Longrightarrow> fold coalesce rs acc \<noteq> []"
proof (induction rs arbitrary: acc)
  case (Cons r rs)
  have "coalesce r acc \<noteq> []" using Cons.prems by (simp add: coalesce_def)
  then show ?case using Cons.IH by simp
qed simp

lemma coalesce_all_Nil: "fold coalesce rs [] = [] \<longleftrightarrow> (\<forall>r \<in> set rs. mr_size r = 0)"
proof (induction rs)
  case (Cons r rs)
  have "coalesce r [] = (if mr_size r = 0 then [] else [r])" by (simp add: coalesce_def)
  then show ?case using Cons coalesce_keeps [of "[r]" rs] by simp
qed simp

section \<open>The kernel's reading of the block\<close>

text \<open>The two declarations of the structure have the same fields.\<close>

definition kernel_view :: "EfiHandoff \<Rightarrow> UefiHandoff" where
  "kernel_view h = \<lparr>ho_magic = eh_magic h, ho_version = eh_version h, ho_reserved0 = eh_reserved0 h, ho_console_kind =
     eh_console_kind h, ho_console_base = eh_console_base h, ho_console_size = eh_console_size h,
     ho_console_clock_hz = eh_console_clock_hz h, ho_intc_kind = eh_intc_kind h, ho_intc_primary_base =
     eh_intc_primary_base h, ho_intc_primary_size = eh_intc_primary_size h, ho_intc_secondary_base =
     eh_intc_secondary_base h, ho_intc_secondary_size = eh_intc_secondary_size h, ho_timer_freq_hz =
     eh_timer_freq_hz h, ho_memory_len = eh_memory_len h, ho_memory = eh_memory h, ho_framebuffer_present =
     eh_framebuffer_present h, ho_framebuffer_base = eh_framebuffer_base h, ho_framebuffer_size =
     eh_framebuffer_size h, ho_framebuffer_width = eh_framebuffer_width h, ho_framebuffer_height =
     eh_framebuffer_height h, ho_framebuffer_stride_bytes = eh_framebuffer_stride_bytes h, ho_framebuffer_bpp =
     eh_framebuffer_bpp h, ho_framebuffer_format = eh_framebuffer_format h, ho_fw_table_addr = eh_fw_table_addr h\<rparr>"

lemma length_region_bytes [simp]: "length (region_bytes r) = 16"
  by (simp add: region_bytes_def)

lemma holds_regions:
  assumes "holds mem a (concat (map region_bytes rs))" "i < length rs"
  shows "rs ! i = region (rd64 mem (a + 16 * word_of_nat i)) (rd64 mem (a + 8 + 16 * word_of_nat i))"
  using assms
proof (induction rs arbitrary: a i)
  case (Cons r rs)
  have h: "holds mem a (region_bytes r)" "holds mem (a + 16) (concat (map region_bytes rs))"
    using Cons.prems(1) by (simp_all add: holds_append)
  show ?case
  proof (cases i)
    case 0
    then show ?thesis using h(1) by (cases r) (auto simp: region_bytes_def holds_append)
  next
    case (Suc j)
    then show ?thesis using Cons.IH [OF h(2), of j] Cons.prems(2) by (simp add: algebra_simps)
  qed
qed simp

lemma uefi_handoff_at_bytes:
  assumes "holds mem a (handoff_bytes h)" "length (eh_memory h) = 8"
  shows "uefi_handoff_at mem a = kernel_view h"
proof -
  have len: "length (concat (map region_bytes (eh_memory h))) = 128"
    using assms(2) by (simp add: length_concat comp_def sum_list_triv)
  note h = assms(1) [unfolded handoff_bytes_def, simplified holds_append len length_to_le_bytes length_replicate]
  have regs: "holds mem (a + 88) (concat (map region_bytes (eh_memory h)))"
    using h by (simp add: add.assoc)
  have mem: "map (\<lambda>i. region (rd64 mem (a + 88 + 16 * word_of_nat i)) (rd64 mem (a + 96 + 16 * word_of_nat i))) [0..<8] = eh_memory h"
    using assms(2) holds_regions [OF regs] by (intro nth_equalityI) (simp_all add: add.assoc)
  show ?thesis unfolding uefi_handoff_at_def kernel_view_def mem using h by (simp add: add.assoc)
qed

lemma build_handoff_list:
  assumes "snap_ok snap"
  shows "\<exists>h. build_handoff a snap mode fw = Some h \<and> handoff_wf h \<and> handoff_same (initial_handoff a mode fw) h \<and>
    handoff_regions h = (if \<forall>r \<in> set (conventional snap). mr_size r = 0
      then [case a of Stub_aarch64 \<Rightarrow> region 0x40000000 0x10000000 | Stub_x86_64 \<Rightarrow> region 0x100000 0x8000000]
      else fold coalesce (conventional snap) [])"
proof -
  let ?i = "initial_handoff a mode fw"
  have i: "handoff_wf ?i" "handoff_regions ?i = []"
    by (simp_all add: handoff_wf_def handoff_regions_def initial_handoff_def Let_def split: StubArch.split)
  obtain h where h: "push_descriptors snap 0 ?i = Some h" "handoff_wf h" "handoff_same ?i h"
    "handoff_regions h = fold coalesce (conventional snap) []"
    using push_descriptors_list [OF assms i(1), of 0 0] i(2) by (auto simp: conventional_def)
  have empty: "eh_memory_len h = 0 \<longleftrightarrow> (\<forall>r \<in> set (conventional snap). mr_size r = 0)"
    using h(4) handoff_lens(1) [OF h(2)] coalesce_all_Nil [of "conventional snap"]
    by (metis length_0_conv unat_0 unat_eq_zero)
  let ?r = "case a of Stub_aarch64 \<Rightarrow> region 0x40000000 0x10000000 | Stub_x86_64 \<Rightarrow> region 0x100000 0x8000000"
  show ?thesis
  proof (cases "eh_memory_len h = 0")
    case True
    have nil: "handoff_regions h = []" using True by (simp add: handoff_regions_def)
    obtain h' where "push_memory_region h (mr_base ?r) (mr_size ?r) = Some h'" "handoff_wf h'" "handoff_same h h'"
      "handoff_regions h' = [?r]"
      using push_memory_region_list [OF h(2), of "mr_base ?r" "mr_size ?r"] nil by (auto simp: coalesce_def split: StubArch.splits)
    then show ?thesis using h True empty handoff_same_trans [OF h(3)]
      by (auto simp: build_handoff_def split: StubArch.splits)
  next
    case False
    then show ?thesis using h by (simp add: build_handoff_def flip: empty)
  qed
qed

text \<open>What the kernel makes of a block the stub built.\<close>

lemma kernel_boot_info:
  assumes "handoff_wf h" "handoff_same (initial_handoff a mode fw) h" "\<forall>r \<in> set (handoff_regions h). mr_size r \<noteq> 0"
  shows "\<exists>bi. to_boot_info (kernel_view h) = Some bi \<and> as_slice (bi_memory bi) = handoff_regions h \<and>
    bi_fw_table_addr bi = fw \<and>
    bi_console bi = bi_console (case a of Stub_aarch64 \<Rightarrow> qemu_virt_fallback | Stub_x86_64 \<Rightarrow> qemu_q35_fallback) \<and>
    bi_intc bi = bi_intc (case a of Stub_aarch64 \<Rightarrow> qemu_virt_fallback | Stub_x86_64 \<Rightarrow> qemu_q35_fallback) \<and>
    bi_framebuffer bi = Some \<lparr>fbi_base = gm_framebuffer_base mode, fbi_width = gi_horizontal_resolution (gm_info mode),
      fbi_height = gi_vertical_resolution (gm_info mode),
      fbi_stride_bytes = saturating_mul (gi_pixels_per_scan_line (gm_info mode)) 4, fbi_bpp = 32,
      fbi_format = (if gi_pixel_format (gm_info mode) = 0 then Rgba8888 else Bgra8888)\<rparr>"
proof -
  obtain m l where h: "h = (initial_handoff a mode fw)\<lparr>eh_memory := m, eh_memory_len := l\<rparr>"
    using assms(2) by (metis handoff_same_inv)
  have "min (unat (ucast l :: usize)) 8 = unat l" "length m = 8"
    using assms(1) handoff_lens [OF assms(1)] unfolding h by (simp_all add: handoff_wf_def)
  then have mem: "take (unat (min (ucast l :: usize) MAX_MEMORY_REGIONS)) m = handoff_regions h"
    by (simp add: unat_min MAX_MEMORY_REGIONS_def h handoff_regions_def)
  have "length (handoff_regions h) \<le> 8" using handoff_lens [OF assms(1)] by simp
  then have fold: "as_slice (fold (\<lambda>r m. memory_map_push m r) (handoff_regions h) memory_map_empty) = handoff_regions h"
    using push_all(2) [of memory_map_empty "handoff_regions h"] assms(3) by simp
  define rs where "rs = handoff_regions h"
  show ?thesis
    using mem fold unfolding rs_def [symmetric]
    by (cases a) (simp_all add: h kernel_view_def to_boot_info_def initial_handoff_def Let_def handoff_framebuffer_def
        console_kind_of_def intc_kind_of_def pixel_format_of_def qemu_virt_fallback_def qemu_q35_fallback_def)
qed

lemma coalesce_nonzero:
  "\<forall>p \<in> set acc. mr_size p \<noteq> 0 \<Longrightarrow> \<forall>p \<in> set (fold coalesce rs acc). mr_size p \<noteq> 0"
proof (induction rs arbitrary: acc)
  case (Cons r rs)
  have sat: "saturating_add a b = 0 \<Longrightarrow> a = 0" for a b :: u64
    by (simp add: saturating_add_def split: if_splits) (simp add: unat_add_lt flip: unat_inj_iff)
  have "\<forall>p \<in> set (coalesce r acc). mr_size p \<noteq> 0"
    using Cons.prems sat [of "mr_size (last acc)" "mr_size r"] last_in_set [of acc]
    by (auto simp: coalesce_def dest: in_set_butlastD)
  then show ?case using Cons.IH by simp
qed simp

lemma regions_set_empty: "regions_set rs = {} \<longleftrightarrow> (\<forall>r \<in> set rs. mr_size r = 0)"
  by (auto simp: regions_set_def region_set_def unat_eq_zero)

text \<open>The memory the kernel is told to use, for any firmware map.\<close>

definition stub_fallback :: "StubArch \<Rightarrow> MemoryRegion" where
  "stub_fallback a = (case a of Stub_aarch64 \<Rightarrow> region 0x40000000 0x10000000 | Stub_x86_64 \<Rightarrow> region 0x100000 0x8000000)"

lemma handoff_memory:
  assumes "snap_ok snap" "\<forall>r \<in> set (conventional snap). region_nowrap r" "build_handoff a snap mode fw = Some h"
  shows "\<forall>r \<in> set (handoff_regions h). mr_size r \<noteq> 0"
    "regions_set (conventional snap) = {} \<Longrightarrow> handoff_regions h = [stub_fallback a]"
    "regions_set (conventional snap) \<noteq> {} \<Longrightarrow> regions_set (handoff_regions h) \<subseteq> regions_set (conventional snap)"
    "regions_set (conventional snap) \<noteq> {} \<Longrightarrow> length (handoff_regions h) < 8 \<Longrightarrow>
       regions_set (handoff_regions h) = regions_set (conventional snap)"
proof -
  have h: "handoff_regions h = (if regions_set (conventional snap) = {} then [stub_fallback a] else fold coalesce (conventional snap) [])"
    using build_handoff_list [OF assms(1), of a mode fw] assms(3) by (auto simp: regions_set_empty stub_fallback_def)
  have "mr_size (stub_fallback a) \<noteq> 0" by (cases a) (simp_all add: stub_fallback_def)
  then show "\<forall>r \<in> set (handoff_regions h). mr_size r \<noteq> 0"
    using coalesce_nonzero [of "[]" "conventional snap"] unfolding h by simp
  show "regions_set (conventional snap) = {} \<Longrightarrow> handoff_regions h = [stub_fallback a]" unfolding h by simp
  have "regions_set (fold coalesce (conventional snap) []) \<subseteq> regions_set (conventional snap) \<and>
    (length (fold coalesce (conventional snap) []) < 8 \<longrightarrow>
       regions_set (fold coalesce (conventional snap) []) = regions_set (conventional snap))"
    using coalesce_all_set [of "[]" "conventional snap"] assms(2) by simp
  then show "regions_set (conventional snap) \<noteq> {} \<Longrightarrow> regions_set (handoff_regions h) \<subseteq> regions_set (conventional snap)"
    "regions_set (conventional snap) \<noteq> {} \<Longrightarrow> length (handoff_regions h) < 8 \<Longrightarrow>
       regions_set (handoff_regions h) = regions_set (conventional snap)"
    unfolding h by auto
qed

lemma exit_attempts_fresh:
  "exit_attempts n a fw mode table f = (Exited h, f') \<Longrightarrow>
    \<exists>snap f1 f2. get_memory_map fw f1 = (Some snap, f2) \<and> build_handoff a snap mode table = Some h \<and>
      fw_exit_boot_services fw (ms_key snap) f2 = (EFI_SUCCESS, f')"
proof (induction n arbitrary: f)
  case (Suc n)
  show ?case
  proof (cases "get_memory_map fw f")
    case (Pair m f2)
    with Suc show ?thesis by (fastforce split: option.splits prod.splits if_splits)
  qed
qed simp

text \<open>The handoff the stub passes on describes the memory map whose key the firmware accepted when boot services ended:
  the map is taken again before every attempt, so a block built from a stale map is never handed over.\<close>

theorem exit_boot_services_fresh:
  assumes "exit_boot_services a fw mode table f = (Exited h, f')"
  shows "\<exists>snap f1 f2. get_memory_map fw f1 = (Some snap, f2) \<and> build_handoff a snap mode table = Some h \<and>
    fw_exit_boot_services fw (ms_key snap) f2 = (EFI_SUCCESS, f')"
  using assms unfolding exit_boot_services_def by (rule exit_attempts_fresh)

definition sample_mode :: EfiGraphicsOutputProtocolMode where
  "sample_mode = \<lparr>gm_info = \<lparr>gi_horizontal_resolution = 800, gi_vertical_resolution = 600, gi_pixel_format = 1,
     gi_pixels_per_scan_line = 832\<rparr>, gm_framebuffer_base = 0x80000000, gm_framebuffer_size = 0x200000\<rparr>"

text \<open>A firmware whose map changes between the first snapshot and the first exit.\<close>

definition sample_firmware :: "usize Firmware" where
  "sample_firmware = \<lparr>fw_get_memory_map = (\<lambda>_ f. ((0, 0, [], f, 40), f)),
     fw_exit_boot_services = (\<lambda>k f. if f = 0 then (2, 1) else if k = f then (0, f) else (2, f))\<rparr>"

lemma sample_exit: "\<exists>h. exit_boot_services Stub_aarch64 sample_firmware sample_mode t 0 = (Exited h, 1)"
proof -
  let ?snap = "\<lambda>k. \<lparr>ms_bytes = [], ms_size = 0, ms_key = k, ms_desc_size = 40\<rparr>"
  have "\<exists>h. build_handoff Stub_aarch64 (?snap k) sample_mode t = Some h" for k
    using build_handoff_list [of "?snap k" Stub_aarch64 sample_mode t] by (auto simp: snap_ok_def MEMORY_MAP_BUF_SIZE_def)
  then obtain h where h: "\<And>k. build_handoff Stub_aarch64 (?snap k) sample_mode t = Some (h k)" by metis
  have "exit_boot_services Stub_aarch64 sample_firmware sample_mode t 0 = (Exited (h 1), 1)"
    by (simp add: exit_boot_services_def numeral_3_eq_3 get_memory_map_def h sample_firmware_def EFI_SUCCESS_def)
  then show ?thesis by blast
qed

lemma sample_maps_ok: "get_memory_map sample_firmware f = (Some snap, f2) \<Longrightarrow> snap_ok snap"
  by (auto simp: get_memory_map_def sample_firmware_def EFI_SUCCESS_def snap_ok_def MEMORY_MAP_BUF_SIZE_def)

theorem exit_boot_services_fresh_witness:
  "\<exists>h snap f1 f2. exit_boot_services Stub_aarch64 sample_firmware sample_mode 0 0 = (Exited h, 1) \<and>
     get_memory_map sample_firmware f1 = (Some snap, f2) \<and> build_handoff Stub_aarch64 snap sample_mode 0 = Some h \<and>
     fw_exit_boot_services sample_firmware (ms_key snap) f2 = (EFI_SUCCESS, 1)"
  using sample_exit [of 0] exit_boot_services_fresh by metis

end
