(* ===== verification/Hyp_Efi.thy ===== *)
theory Hyp_Efi
  imports Hyp_Handoff Hyp_Utf8
begin

text \<open>
  The rest of the UEFI boot stub (\<^verbatim>\<open>efi-stub/src/main.rs\<close>): text output, the test pattern painted into
  the framebuffer, the processor state the kernel is entered with, and \<^verbatim>\<open>efi_main\<close>. A state has the
  memory, the firmware's own state, the strings printed so far and the registers the stub changes.
  The lemmas show that numbers are printed as their digits, that the pattern covers the screen and
  nothing else, and how the kernel is entered.
\<close>

section \<open>State\<close>

record 'f Stub =
  sb_mem :: memory
  sb_fw :: 'f
  sb_out :: "u16 list list"
  sb_daif :: u64
  sb_sctlr :: u64
  sb_if :: bool

section \<open>Text output\<close>

fun ucs2_loop :: "u8 list \<Rightarrow> nat \<Rightarrow> u16 list \<Rightarrow> u16 list \<times> nat" where
  "ucs2_loop [] i out = (out, i)"
| "ucs2_loop (b # bs) i out = (if length out \<le> i + 1 then (out, i) else ucs2_loop bs (i + 1) (out[i := ucast b]))"

definition ascii_to_ucs2 :: "u8 list \<Rightarrow> u16 list \<Rightarrow> u16 list \<times> nat" where
  "ascii_to_ucs2 s out = (let (out, i) = ucs2_loop s 0 out in (out[i := 0], i))"

definition efi_print :: "u8 list \<Rightarrow> 'f Stub \<Rightarrow> 'f Stub" where
  "efi_print s st = st\<lparr>sb_out := sb_out st @ [fst (ascii_to_ucs2 s (replicate 256 0))]\<rparr>"

text \<open>The digits of a \<^verbatim>\<open>u32\<close>, written from the end of the buffer; ten digits fit sixteen bytes.\<close>

function dec_loop :: "u32 \<Rightarrow> nat \<Rightarrow> u8 list \<Rightarrow> nat \<times> u8 list" where
  "dec_loop n i buf = (if n = 0 then (i, buf)
     else dec_loop (n div 10) (i - 1) (buf[i - 1 := 0x30 + ucast (n mod 10)]))"
  by auto
termination
proof (relation "measure (\<lambda>(n, _). unat n)", goal_cases)
  case (2 n i buf)
  then have "0 < unat n" by (simp add: unat_gt_0)
  then show ?case by (simp add: unat_div)
qed simp

declare dec_loop.simps [simp del]

definition dec_u32 :: "u32 \<Rightarrow> u8 list" where
  "dec_u32 n = (if n = 0 then as_bytes ''0''
     else (let (i, buf) = dec_loop n 16 (replicate 16 0); s = drop i buf in if from_utf8_ok s then s else as_bytes ''?''))"

definition print_u32 :: "u32 \<Rightarrow> 'f Stub \<Rightarrow> 'f Stub" where
  "print_u32 n = efi_print (dec_u32 n)"

definition hex_digit :: "u8 \<Rightarrow> u8" where
  "hex_digit nyb = (if nyb < 10 then 0x30 + nyb else 0x61 + (nyb - 10))"

definition hex_u64 :: "u64 \<Rightarrow> u8 list" where
  "hex_u64 n = (let buf = map (\<lambda>i. hex_digit (ucast (drop_bit ((15 - i) * 4) n AND 0xf))) [0..<16]
     in if from_utf8_ok buf then buf else as_bytes ''?'')"

definition print_u64_hex :: "u64 \<Rightarrow> 'f Stub \<Rightarrow> 'f Stub" where
  "print_u64_hex n st = efi_print (hex_u64 n) (efi_print (as_bytes ''0x'') st)"

section \<open>The test pattern\<close>

definition encode_pixel :: "bool \<Rightarrow> u8 \<Rightarrow> u8 \<Rightarrow> u8 \<Rightarrow> u32" where
  "encode_pixel bgrx r g b =
     (if bgrx then ucast b OR push_bit 8 (ucast g) OR push_bit 16 (ucast r) OR push_bit 24 0xff
      else ucast r OR push_bit 8 (ucast g) OR push_bit 16 (ucast b) OR push_bit 24 0xff)"

text \<open>\<^verbatim>\<open>fb.add(y * stride + x)\<close> for a pointer to \<^verbatim>\<open>u32\<close>.\<close>

definition pixel_addr :: "u64 \<Rightarrow> u64 \<Rightarrow> u64 \<Rightarrow> u64 \<Rightarrow> u64" where
  "pixel_addr base stride x y = base + 4 * (y * stride + x)"

definition put_pixel :: "u64 \<Rightarrow> u64 \<Rightarrow> u64 \<Rightarrow> u64 \<Rightarrow> u32 \<Rightarrow> memory \<Rightarrow> memory" where
  "put_pixel base stride x y v mem = mem_write mem (pixel_addr base stride x y) (to_le_bytes v)"

definition paint_rows :: "u64 \<Rightarrow> u64 \<Rightarrow> (u64 \<Rightarrow> u32) \<Rightarrow> u64 list \<Rightarrow> u64 list \<Rightarrow> memory \<Rightarrow> memory" where
  "paint_rows base stride colour xs = fold (\<lambda>y. fold (\<lambda>x. put_pixel base stride x y (colour y)) xs)"

definition pattern_band :: "bool \<Rightarrow> u32 \<Rightarrow> u64 \<Rightarrow> u32" where
  "pattern_band bgrx stripe_h y =
     (if (ucast y :: u32) < stripe_h then encode_pixel bgrx 0x10 0x18 0x24
      else if ucast y < 2 * stripe_h then encode_pixel bgrx 0x14 0x6a 0xa6
      else encode_pixel bgrx 0xa6 0x4d 0xc4)"

definition paint_pattern :: "EfiGraphicsOutputProtocolMode \<Rightarrow> memory \<Rightarrow> memory" where
  "paint_pattern m mem =
     (let info = gm_info m; bgrx = (gi_pixel_format info = 1); base = gm_framebuffer_base m;
          w = gi_horizontal_resolution info; h = gi_vertical_resolution info;
          stride = (ucast (gi_pixels_per_scan_line info) :: u64)
      in if base = 0 \<or> gm_framebuffer_size m = 0 \<or> w = 0 \<or> h = 0 then mem
         else (let stripe_h = max (h div 3) 1;
                   mem = paint_rows base stride (pattern_band bgrx stripe_h) (urange 0 (ucast w)) (urange 0 (ucast h)) mem;
                   side = max (min w h div 10) 8;
                   cx = w div 2 - side div 2;
                   cy = h div 2 - side div 2;
                   white = encode_pixel bgrx 0xff 0xff 0xff
               in paint_rows base stride (\<lambda>_. white) (map ucast (urange cx (cx + side))) (map ucast (urange cy (cy + side))) mem))"

section \<open>Entering the kernel\<close>

definition prepare_cpu_for_kernel :: "StubArch \<Rightarrow> 'f Stub \<Rightarrow> 'f Stub" where
  "prepare_cpu_for_kernel a st = (case a of
     Stub_aarch64 \<Rightarrow> st\<lparr>sb_daif := sb_daif st OR push_bit 6 0xf,
       sb_sctlr := ((sb_sctlr st AND NOT 1) AND NOT (push_bit 2 1)) AND NOT (push_bit 12 1)\<rparr>
   | Stub_x86_64 \<Rightarrow> st\<lparr>sb_if := False\<rparr>)"

text \<open>How the stub ends: it halts, it does not leave a loop, or it has jumped to an entry point with the address of the
  handoff block, a local variable of \<^verbatim>\<open>efi_main\<close>, as the first argument.\<close>

datatype StubEnd = Halted | Stuck | Entered u64 u64

definition jump_to_kernel :: "StubArch \<Rightarrow> u64 \<Rightarrow> u64 \<Rightarrow> 'f Stub \<Rightarrow> StubEnd \<times> 'f Stub" where
  "jump_to_kernel a entry handoff_ptr st = (Entered entry handoff_ptr, prepare_cpu_for_kernel a st)"

abbreviation line :: "string \<Rightarrow> u8 list" where
  "line s \<equiv> as_bytes (s @ [CHR 0x0D, CHR 0x0A])"

definition print_mode :: "EfiGraphicsOutputProtocolMode \<Rightarrow> 'f Stub \<Rightarrow> 'f Stub" where
  "print_mode mode st =
     (let info = gm_info mode in
      fold (\<lambda>f st. f st)
        [efi_print (as_bytes ''GOP framebuffer @ ''), print_u64_hex (gm_framebuffer_base mode),
         efi_print (as_bytes '' size=''), print_u64_hex (gm_framebuffer_size mode),
         efi_print (as_bytes ([CHR 0x0D, CHR 0x0A] @ ''  resolution='')), print_u32 (gi_horizontal_resolution info),
         efi_print (as_bytes ''x''), print_u32 (gi_vertical_resolution info),
         efi_print (as_bytes '' stride=''), print_u32 (gi_pixels_per_scan_line info),
         efi_print (as_bytes '' pixfmt=''), print_u32 (gi_pixel_format info), efi_print (line [])] st)"

definition print_table :: "u64 \<Rightarrow> 'f Stub \<Rightarrow> 'f Stub" where
  "print_table fw_table_addr st =
     (if fw_table_addr \<noteq> 0
      then efi_print (line []) (print_u64_hex fw_table_addr (efi_print (as_bytes ''Firmware table @ '') st))
      else efi_print (line ''No DTB/ACPI table from firmware; kernel will use fallback HAL.'') st)"

text \<open>\<^verbatim>\<open>efi_main\<close>. The arguments are the firmware's answers (\<open>gop\<close> is the active mode when the protocol is
  found), the embedded image and the address of the local \<^verbatim>\<open>handoff\<close>.\<close>

definition efi_main :: "StubArch \<Rightarrow> allocate_pages \<Rightarrow> 'f Firmware \<Rightarrow> EfiGraphicsOutputProtocolMode option \<Rightarrow> EfiSystemTable
    \<Rightarrow> u8 list \<Rightarrow> u64 \<Rightarrow> 'f Stub \<Rightarrow> StubEnd \<times> 'f Stub" where
  "efi_main a alloc fw gop systab elf handoff_ptr st =
     (let st = efi_print (as_bytes [CHR 0x0D, CHR 0x0A] @ line ''Hyperion EFI stub starting...'') st;
          fw_table_addr = find_firmware_table a systab;
          st = print_table fw_table_addr st
      in case gop of
        None \<Rightarrow> (Halted, efi_print (line ''GOP not available; halting.'') st)
      | Some mode \<Rightarrow>
          (let st = print_mode mode st;
               st = st\<lparr>sb_mem := paint_pattern mode (sb_mem st)\<rparr>;
               st = efi_print (line ''Loading embedded kernel ELF...'') st
           in case load_kernel_elf alloc (KERNEL_ELF_MACHINE a) elf (sb_mem st) of
             None \<Rightarrow> (Halted, efi_print (line ''Kernel ELF load failed; halting.'') st)
           | Some (entry, mem) \<Rightarrow>
               (let st = efi_print (line ''Kernel loaded; exiting boot services.'') (st\<lparr>sb_mem := mem\<rparr>)
                in case exit_boot_services a fw mode fw_table_addr (sb_fw st) of
                  (ExitDiverges, f) \<Rightarrow> (Stuck, st\<lparr>sb_fw := f\<rparr>)
                | (ExitHalts msg, f) \<Rightarrow> (Halted, efi_print (line msg) (st\<lparr>sb_fw := f\<rparr>))
                | (Exited handoff, f) \<Rightarrow>
                    jump_to_kernel a entry handoff_ptr
                      (st\<lparr>sb_fw := f, sb_mem := mem_write (sb_mem st) handoff_ptr (handoff_bytes handoff)\<rparr>))))"

section \<open>Lemmas on painting\<close>

text \<open>A screen whose rows fit the stride, at an address where it does not wrap.\<close>

definition screen_fits :: "u64 \<Rightarrow> u64 \<Rightarrow> nat \<Rightarrow> bool" where
  "screen_fits base stride h \<longleftrightarrow> unat base + 4 * (unat stride * h) \<le> 2 ^ 64"

definition on_screen :: "u64 \<Rightarrow> nat \<Rightarrow> u64 \<Rightarrow> u64 \<Rightarrow> bool" where
  "on_screen stride h x y \<longleftrightarrow> x < stride \<and> unat y < h"

definition screen_range :: "u64 \<Rightarrow> u64 \<Rightarrow> nat \<Rightarrow> u64 set" where
  "screen_range base stride h = mem_range base (4 * (unat stride * h))"

definition pixel :: "u64 \<Rightarrow> u64 \<Rightarrow> memory \<Rightarrow> u64 \<Rightarrow> u64 \<Rightarrow> u32" where
  "pixel base stride mem x y = rd32 mem (pixel_addr base stride x y)"

lemma index_bound: "on_screen stride h x y \<Longrightarrow> unat y * unat stride + unat x + 1 \<le> unat stride * h"
proof -
  assume "on_screen stride h x y"
  then have x: "unat x + 1 \<le> unat stride" and y: "unat y + 1 \<le> h" by (simp_all add: on_screen_def word_less_nat_alt)
  have "unat y * unat stride + unat x + 1 \<le> (unat y + 1) * unat stride" using x by simp
  also have "\<dots> \<le> h * unat stride" using y by (rule mult_le_mono1)
  finally show ?thesis by (simp add: mult.commute)
qed

lemma addr: "screen_fits base stride h \<Longrightarrow> on_screen stride h x y \<Longrightarrow> unat (pixel_addr base stride x y) = unat base + 4 * (unat y * unat stride + unat x)"
proof -
  assume fits: "screen_fits base stride h" and "on_screen stride h x y"
  note b = index_bound [OF this(2)] and fits = fits [unfolded screen_fits_def]
  have 1: "unat (y * stride) = unat y * unat stride" using b fits by (intro unat_mult_lt) simp
  have 2: "unat (y * stride + x) = unat y * unat stride + unat x" using b fits 1 by (subst unat_add_lt) simp_all
  have 3: "unat (4 * (y * stride + x)) = 4 * (unat y * unat stride + unat x)" using b fits 2 by (subst unat_mult_lt) simp_all
  show ?thesis unfolding pixel_addr_def using b fits 3 by (subst unat_add_lt) simp_all
qed

lemma index_inj: "on_screen stride h x y \<Longrightarrow> on_screen stride h x' y' \<Longrightarrow>
  unat y * unat stride + unat x = unat y' * unat stride + unat x' \<Longrightarrow> x = x' \<and> y = y'"
proof -
  assume o: "on_screen stride h x y" "on_screen stride h x' y'" and eq: "unat y * unat stride + unat x = unat y' * unat stride + unat x'"
  have x: "unat x < unat stride" "unat x' < unat stride" using o by (simp_all add: on_screen_def word_less_nat_alt)
  have "(unat y * unat stride + unat x) div unat stride = unat y" "(unat y' * unat stride + unat x') div unat stride = unat y'"
    using x by (simp_all add: div_add1_eq)
  then show ?thesis using eq by (auto simp: unat_inj_iff)
qed

lemma pixel_put:
  assumes fits: "screen_fits base stride h" and "on_screen stride h x y" "on_screen stride h x' y'"
  shows "pixel base stride (put_pixel base stride x y v mem) x' y' = (if x' = x \<and> y' = y then v else pixel base stride mem x' y')"
proof (cases "x' = x \<and> y' = y")
  case True
  then show ?thesis by (simp add: pixel_def put_pixel_def rd32_def mem_read_write_same)
next
  case False
  let ?i = "unat y * unat stride + unat x" and ?j = "unat y' * unat stride + unat x'"
  have "?i \<noteq> ?j" using index_inj [OF assms(2,3)] False by auto
  moreover have "unat base + 4 * ?i + 4 \<le> 2 ^ 64" "unat base + 4 * ?j + 4 \<le> 2 ^ 64"
    using index_bound [OF assms(2)] index_bound [OF assms(3)] fits by (simp_all add: screen_fits_def)
  ultimately have "mem_range (pixel_addr base stride x' y') 4 \<inter> mem_range (pixel_addr base stride x y) 4 = {}"
    using addr [OF assms(1,2)] addr [OF assms(1,3)] by (auto simp: region_iff)
  then show ?thesis using False
    by (auto simp: pixel_def put_pixel_def rd32_def mem_read_write_other)
qed

lemma put_outside:
  assumes fits: "screen_fits base stride h" and "on_screen stride h x y" "a \<notin> screen_range base stride h"
  shows "put_pixel base stride x y v mem a = mem a"
proof -
  have "unat base + 4 * (unat y * unat stride + unat x) + 4 \<le> 2 ^ 64" using index_bound [OF assms(2)] fits by (simp add: screen_fits_def)
  then have "a \<notin> mem_range (pixel_addr base stride x y) 4"
    using assms index_bound [OF assms(2)] addr [OF assms(1,2)] by (auto simp: screen_range_def screen_fits_def region_iff)
  then show ?thesis by (simp add: put_pixel_def mem_write_outside)
qed

lemma row:
  assumes "screen_fits base stride h" "\<forall>x \<in> set xs. on_screen stride h x y"
  shows "on_screen stride h x' y' \<Longrightarrow> pixel base stride (fold (\<lambda>x. put_pixel base stride x y v) xs mem) x' y' =
      (if x' \<in> set xs \<and> y' = y then v else pixel base stride mem x' y')"
    and "a \<notin> screen_range base stride h \<Longrightarrow> fold (\<lambda>x. put_pixel base stride x y v) xs mem a = mem a"
  using assms(2) by (induction xs arbitrary: mem) (auto simp: pixel_put [OF assms(1)] put_outside [OF assms(1)])

lemma rows:
  assumes "screen_fits base stride h" "\<forall>y \<in> set ys. \<forall>x \<in> set xs. on_screen stride h x y"
  shows "on_screen stride h x' y' \<Longrightarrow> pixel base stride (paint_rows base stride colour xs ys mem) x' y' =
      (if x' \<in> set xs \<and> y' \<in> set ys then colour y' else pixel base stride mem x' y')"
    and "a \<notin> screen_range base stride h \<Longrightarrow> paint_rows base stride colour xs ys mem a = mem a"
  using assms(2) by (induction ys arbitrary: mem) (auto simp: paint_rows_def row [OF assms(1)])

text \<open>The pattern: three bands and a white square in the centre of a screen of at least eight by eight pixels.\<close>

definition in_square :: "nat \<Rightarrow> nat \<Rightarrow> nat \<Rightarrow> bool" where
  "in_square len side x \<longleftrightarrow> 8 \<le> len \<and> len div 2 - side div 2 \<le> x \<and> x < len div 2 - side div 2 + side"

definition pattern_colour :: "bool \<Rightarrow> nat \<Rightarrow> nat \<Rightarrow> nat \<Rightarrow> nat \<Rightarrow> u32" where
  "pattern_colour bgrx w h x y =
     (let side = max (min w h div 10) 8; stripe = max (h div 3) 1 in
      if in_square w side x \<and> in_square h side y then encode_pixel bgrx 0xff 0xff 0xff
      else if y < stripe then encode_pixel bgrx 0x10 0x18 0x24
      else if y < 2 * stripe then encode_pixel bgrx 0x14 0x6a 0xa6
      else encode_pixel bgrx 0xa6 0x4d 0xc4)"

lemma square_side:
  fixes len side :: u32
  assumes "side \<le> len \<or> len < 8 \<and> side = 8" "8 \<le> unat side" "len \<noteq> 0"
  defines "c \<equiv> len div 2 - side div 2"
  shows "(x :: u64) \<in> set (map ucast (urange c (c + side))) \<longleftrightarrow> in_square (unat len) (unat side) (unat x)"
proof -
  have mem: "x \<in> set (map ucast (urange c d)) \<longleftrightarrow> unat c \<le> unat x \<and> unat x < unat d" for d :: u32
  proof
    assume "unat c \<le> unat x \<and> unat x < unat d"
    moreover have "unat (ucast x :: u32) = unat x" if "unat x < unat d"
      using that less_trans [OF that, of "2 ^ 32"] unsigned_less [of d, where ?'a = nat]
      by (simp add: unsigned_ucast_eq take_bit_nat_eq_self)
    ultimately show "x \<in> set (map ucast (urange c d))"
      by (auto simp: set_urange word_le_nat_alt word_less_nat_alt intro!: image_eqI [of _ _ "ucast x"] simp flip: unat_inj_iff)
        (simp add: unat_ucast_widen)
  qed (auto simp: set_urange word_le_nat_alt word_less_nat_alt unat_ucast_widen)
  show ?thesis
  proof (cases "len < 8")
    case True
    then have side: "side = 8" "unat len < 8" using assms(1,2) by (auto simp: word_le_nat_alt word_less_nat_alt)
    have "unat (len div 2) < 4" using side by (simp add: unat_div)
    then have "unat (len div 2 - 4) = 2 ^ 32 + unat (len div 2) - 4"
      by (simp add: unat_sub_if' word_le_nat_alt)
    moreover have "len div 2 - 4 + 8 = 4 + len div 2" by simp
    moreover have "unat (4 + len div 2) = unat (len div 2) + 4" using \<open>unat (len div 2) < 4\<close> by (simp add: unat_add_lt)
    ultimately show ?thesis using mem \<open>unat (len div 2) < 4\<close> side by (simp add: c_def in_square_def)
  next
    case False
    then have le: "side \<le> len" "8 \<le> unat len" using assms(1) by (auto simp: word_less_nat_alt)
    then have le': "unat side \<le> unat len" "unat side div 2 \<le> unat len div 2" by (auto simp: word_le_nat_alt div_le_mono)
    have c: "unat c = unat len div 2 - unat side div 2"
      using le' by (simp add: c_def unat_sub_le word_le_nat_alt unat_div)
    have "unat c + unat side < 2 ^ 32" using c le' unsigned_less [of len, where ?'a = nat] by simp
    then show ?thesis using mem c le(2) by (simp add: in_square_def unat_add_lt)
  qed
qed

lemma pattern_band_nat:
  assumes "unat y < unat (h :: u32)"
  shows "pattern_band b (max (h div 3) 1) y = (if unat y < max (unat h div 3) 1 then encode_pixel b 0x10 0x18 0x24
      else if unat y < 2 * max (unat h div 3) 1 then encode_pixel b 0x14 0x6a 0xa6 else encode_pixel b 0xa6 0x4d 0xc4)"
proof -
  have h: "unat h < 2 ^ 32" using unsigned_less [of h, where ?'a = nat] by simp
  then have "unat (ucast y :: u32) = unat y" using assms by (simp add: unsigned_ucast_eq take_bit_nat_eq_self)
  moreover have s: "unat (max (h div 3) 1) = max (unat h div 3) 1" by (simp add: unat_max unat_div)
  moreover have "unat (2 * max (h div 3) 1) = 2 * max (unat h div 3) 1"
  proof -
    have "unat h div 3 < 2 ^ 31" using h by (simp add: div_less_iff_less_mult)
    then show ?thesis using s by (subst unat_mult_lt) simp_all
  qed
  ultimately show ?thesis by (simp add: pattern_band_def word_less_nat_alt)
qed

text \<open>The test pattern covers exactly the screen: every visible pixel has the colour of its band or of the centred square,
  and no byte outside the rows of the framebuffer is written, on screens smaller than the square too.\<close>

theorem paint_pattern_correct:
  fixes m :: EfiGraphicsOutputProtocolMode
  defines "w \<equiv> gi_horizontal_resolution (gm_info m)" and "h \<equiv> gi_vertical_resolution (gm_info m)"
    and "stride \<equiv> ucast (gi_pixels_per_scan_line (gm_info m))"
  assumes "screen_fits (gm_framebuffer_base m) stride (unat h)" "unat w \<le> unat stride"
    "gm_framebuffer_base m \<noteq> 0" "gm_framebuffer_size m \<noteq> 0"
  shows "(\<forall>x y. unat x < unat w \<and> unat y < unat h \<longrightarrow>
      pixel (gm_framebuffer_base m) stride (paint_pattern m mem) x y =
        pattern_colour (gi_pixel_format (gm_info m) = 1) (unat w) (unat h) (unat x) (unat y)) \<and>
    (\<forall>a. a \<notin> screen_range (gm_framebuffer_base m) stride (unat h) \<longrightarrow> paint_pattern m mem a = mem a)"
proof (cases "w = 0 \<or> h = 0")
  case True
  then show ?thesis by (auto simp: paint_pattern_def w_def h_def Let_def)
next
  case False
  let ?bgrx = "gi_pixel_format (gm_info m) = 1" and ?base = "gm_framebuffer_base m"
  define side where "side = max (min w h div 10) 8"
  define xs ys where "xs = map (ucast :: u32 \<Rightarrow> u64) (urange (w div 2 - side div 2) (w div 2 - side div 2 + side))"
    and "ys = map (ucast :: u32 \<Rightarrow> u64) (urange (h div 2 - side div 2) (h div 2 - side div 2 + side))"
  let ?band = "pattern_band ?bgrx (max (h div 3) 1)"
  have paint: "paint_pattern m mem = paint_rows ?base stride (\<lambda>_. encode_pixel ?bgrx 0xff 0xff 0xff) xs ys
      (paint_rows ?base stride ?band (urange 0 (ucast w)) (urange 0 (ucast h)) mem)"
    using False assms(6,7) unfolding paint_pattern_def Let_def xs_def ys_def side_def
    by (simp add: w_def h_def stride_def)
  have us: "unat side = max (min (unat w) (unat h) div 10) 8" by (simp add: side_def unat_max unat_min unat_div)
  have bnd: "len = w \<or> len = h \<Longrightarrow> unat side \<le> unat len \<or> unat len < 8 \<and> unat side = 8" for len
    unfolding us by (auto simp: min_def max_def)
  have c: "side \<le> w \<or> w < 8 \<and> side = 8" "side \<le> h \<or> h < 8 \<and> side = 8" "8 \<le> unat side"
    using bnd us by (auto simp: word_le_nat_alt word_less_nat_alt simp flip: unat_inj_iff)
  have sq: "x \<in> set xs \<longleftrightarrow> in_square (unat w) (unat side) (unat x)" for x
    unfolding xs_def using False c by (intro square_side) auto
  have sq': "y \<in> set ys \<longleftrightarrow> in_square (unat h) (unat side) (unat y)" for y
    unfolding ys_def using False c by (intro square_side) auto
  have in_sq: "in_square (unat len) (unat side) i \<Longrightarrow> len = w \<or> len = h \<Longrightarrow> i < unat len" for len i
    using bnd [of len] by (auto simp: in_square_def)
  have on: "on_screen stride (unat h) x y" if "unat x < unat w" "unat y < unat h" for x y
    using that assms(5) by (simp add: on_screen_def word_less_nat_alt)
  have set: "set (urange 0 (ucast w)) = {x :: u64. unat x < unat w}" "set (urange 0 (ucast h)) = {y :: u64. unat y < unat h}"
    by (auto simp: set_urange word_less_nat_alt unat_ucast_widen)
  have all: "\<forall>y \<in> set (urange 0 (ucast h)). \<forall>x \<in> set (urange 0 (ucast w)). on_screen stride (unat h) x y"
    "\<forall>y \<in> set ys. \<forall>x \<in> set xs. on_screen stride (unat h) x y"
    using on in_sq by (auto simp: set sq sq')
  show ?thesis
  proof (intro conjI allI impI)
    fix x y :: u64 assume xy: "unat x < unat w \<and> unat y < unat h"
    then have o: "on_screen stride (unat h) x y" using on by blast
    show "pixel ?base stride (paint_pattern m mem) x y = pattern_colour ?bgrx (unat w) (unat h) (unat x) (unat y)"
      unfolding paint rows(1) [OF assms(4) all(2) o] rows(1) [OF assms(4) all(1) o] set sq sq' us [symmetric]
        pattern_colour_def Let_def
      using xy by (simp add: pattern_band_nat us [symmetric])
  next
    fix a assume "a \<notin> screen_range ?base stride (unat h)"
    then show "paint_pattern m mem a = mem a"
      unfolding paint by (simp add: rows(2) [OF assms(4) all(1)] rows(2) [OF assms(4) all(2)])
  qed
qed

theorem paint_pattern_correct_witness:
  "(pixel 0x80000000 832 (paint_pattern sample_mode (\<lambda>_. 0)) 400 300 = encode_pixel True 0xff 0xff 0xff) \<and>
   pixel 0x80000000 832 (paint_pattern sample_mode (\<lambda>_. 0)) 0 250 = encode_pixel True 0x14 0x6a 0xa6 \<and>
   paint_pattern sample_mode (\<lambda>_. 0) 0x7fffffff = 0"
proof -
  have "screen_fits 0x80000000 832 600" by (simp add: screen_fits_def)
  moreover have "0x7fffffff \<notin> screen_range 0x80000000 832 600" by (simp add: screen_range_def region_iff)
  ultimately show ?thesis
    using paint_pattern_correct [of sample_mode "\<lambda>_. 0"]
    by (simp add: sample_mode_def pattern_colour_def in_square_def)
qed

section \<open>Printed numbers\<close>

definition dec_val :: "u8 list \<Rightarrow> nat" where
  "dec_val ds = foldl (\<lambda>v d. 10 * v + (unat d - 48)) 0 ds"

definition hex_val :: "u8 list \<Rightarrow> nat" where
  "hex_val ds = foldl (\<lambda>v d. 16 * v + (if unat d < 58 then unat d - 48 else unat d - 87)) 0 ds"

lemma dec_val_snoc: "dec_val (ds @ [d]) = 10 * dec_val ds + (unat d - 48)"
  by (simp add: dec_val_def)

lemma dec_loop_digits:
  assumes "unat n < 10 ^ i" "i \<le> length buf"
  shows "\<exists>i' buf' ds. dec_loop n i buf = (i', buf') \<and> drop i' buf' = ds @ drop i buf \<and> dec_val ds = unat n \<and>
    (\<forall>d \<in> set ds. 48 \<le> unat d \<and> unat d \<le> 57)"
  using assms
proof (induction n i buf rule: dec_loop.induct)
  case (1 n i buf)
  show ?case
  proof (cases "n = 0")
    case True
    then show ?thesis by (subst dec_loop.simps) (auto simp: dec_val_def intro: exI [of _ "[]"])
  next
    case False
    then have i: "0 < i" using 1(2) by (cases i) (auto simp: unat_eq_zero)
    let ?d = "0x30 + ucast (n mod 10) :: u8"
    have m: "unat (n mod 10) < 10" by (simp add: unat_mod)
    have d: "unat ?d = 48 + unat n mod 10"
      using m by (subst unat_add_lt) (simp_all add: unsigned_ucast_eq take_bit_nat_eq_self unat_mod)
    have lt: "unat (n div 10) < 10 ^ (i - 1)"
      using 1(2) i by (cases i) (simp_all add: unat_div div_less_iff_less_mult mult.commute)
    have le: "i - 1 \<le> length (buf[i - 1 := ?d])" using 1(3) by simp
    from 1(1) [OF False lt le] obtain i' buf' ds where ih: "dec_loop (n div 10) (i - 1) (buf[i - 1 := ?d]) = (i', buf')"
      "drop i' buf' = ds @ drop (i - 1) (buf[i - 1 := ?d])" "dec_val ds = unat (n div 10)"
      "\<forall>d \<in> set ds. 48 \<le> unat d \<and> unat d \<le> 57"
      by blast
    have "drop (i - 1) (buf[i - 1 := ?d]) = ?d # drop i buf"
      using i 1(3) by (subst Cons_nth_drop_Suc [symmetric]) simp_all
    then have "drop i' buf' = (ds @ [?d]) @ drop i buf" using ih(2) by simp
    moreover have "dec_val (ds @ [?d]) = unat n" using ih(3) d by (simp add: dec_val_snoc unat_div)
    moreover have "\<forall>d \<in> set (ds @ [?d]). 48 \<le> unat d \<and> unat d \<le> 57" using ih(4) d by auto
    moreover have "dec_loop n i buf = (i', buf')" using False ih(1) by (subst dec_loop.simps) simp
    ultimately show ?thesis by blast
  qed
qed

lemma dec_u32_val: "dec_val (dec_u32 n) = unat n"
proof (cases "n = 0")
  case True
  then show ?thesis by (simp add: dec_u32_def dec_val_def as_bytes_def byte_of_def)
next
  case False
  have "unat n < 10 ^ 16" using unsigned_less [of n, where ?'a = nat] by simp
  from dec_loop_digits [OF this, of "replicate 16 0"] obtain i' buf' ds
    where r: "dec_loop n 16 (replicate 16 0) = (i', buf')" "drop i' buf' = ds" "dec_val ds = unat n"
      "\<forall>d \<in> set ds. 48 \<le> unat d \<and> unat d \<le> 57" by auto
  have "from_utf8_ok ds" using r(4) by (intro from_utf8_ascii) (auto simp: word_less_nat_alt)
  then show ?thesis using False r by (simp add: dec_u32_def)
qed

lemma hex_digit_val:
  assumes "unat nyb < 16"
  shows "(if unat (hex_digit nyb) < 58 then unat (hex_digit nyb) - 48 else unat (hex_digit nyb) - 87) = unat nyb"
    "hex_digit nyb < 0x80"
proof -
  have "unat (hex_digit nyb) = (if unat nyb < 10 then 48 + unat nyb else 87 + unat nyb)"
  proof (cases "unat nyb < 10")
    case True
    then show ?thesis by (simp add: hex_digit_def word_less_nat_alt unat_add_lt)
  next
    case False
    then have "unat (nyb - 10) = unat nyb - 10" by (simp add: unat_sub_le word_le_nat_alt)
    then show ?thesis using False assms by (simp add: hex_digit_def word_less_nat_alt unat_add_lt)
  qed
  then show "(if unat (hex_digit nyb) < 58 then unat (hex_digit nyb) - 48 else unat (hex_digit nyb) - 87) = unat nyb"
    "hex_digit nyb < 0x80"
    using assms by (auto simp: word_less_nat_alt)
qed

lemma hex_val_digits:
  "hex_val (map (\<lambda>i. hex_digit (ucast (drop_bit ((15 - i) * 4) (n :: u64) AND 0xf))) [0..<k]) = unat n div 16 ^ (16 - k)"
  if "k \<le> 16"
  using that
proof (induction k)
  case 0
  have "unat n < 16 ^ 16" using unsigned_less [of n, where ?'a = nat] by simp
  then show ?case by (simp add: hex_val_def)
next
  case (Suc k)
  let ?d = "hex_digit (ucast (drop_bit ((15 - k) * 4) n AND 0xf))"
  let ?v = "unat n div 16 ^ (15 - k)"
  have p: "(2 :: nat) ^ ((15 - k) * 4) = 16 ^ (15 - k)" by (simp add: power_mult mult.commute)
  have "unat (drop_bit ((15 - k) * 4) n AND mask 4) = ?v mod 16" by (simp only: and_mask_nat unat_drop_bit p) simp
  then have "unat (drop_bit ((15 - k) * 4) n AND 0xf) = ?v mod 16" by (simp add: mask_eq_exp_minus_1)
  then have u: "unat (ucast (drop_bit ((15 - k) * 4) n AND 0xf) :: u8) = ?v mod 16"
    by (simp add: unsigned_ucast_eq take_bit_nat_eq_self)
  have "(if unat ?d < 58 then unat ?d - 48 else unat ?d - 87) = ?v mod 16"
    using hex_digit_val(1) [of "ucast (drop_bit ((15 - k) * 4) n AND 0xf)"] u by simp
  moreover have e: "16 - k = Suc (15 - k)" using Suc.prems by simp
  then have "unat n div 16 ^ (16 - k) = ?v div 16" by (simp only: power_Suc2 div_mult2_eq)
  moreover have "16 * (?v div 16) + ?v mod 16 = ?v" by simp
  ultimately show ?case using Suc by (simp add: hex_val_def)
qed

lemma hex_u64_val: "hex_val (hex_u64 n) = unat n"
proof -
  let ?ds = "map (\<lambda>i. hex_digit (ucast (drop_bit ((15 - i) * 4) n AND 0xf))) [0..<16]"
  have nyb: "unat (ucast (w AND 0xf :: u64) :: u8) < 16" for w
  proof -
    have "unat (w AND mask 4) < 16" by (simp only: and_mask_nat) simp
    then show ?thesis by (simp add: mask_eq_exp_minus_1 unsigned_ucast_eq take_bit_nat_eq_self)
  qed
  have "from_utf8_ok ?ds" by (rule from_utf8_ascii) (use hex_digit_val(2) nyb in auto)
  then show ?thesis using hex_val_digits [of 16 n] by (simp only: hex_u64_def Let_def if_True) simp
qed

text \<open>Printing a number and reading its digits back gives the number: decimal for 32-bit values, hexadecimal for 64-bit values.\<close>

theorem printed_numbers: "dec_val (dec_u32 n) = unat n \<and> hex_val (hex_u64 a) = unat a"
  by (simp add: dec_u32_val hex_u64_val)

section \<open>The boot\<close>

text \<open>The image lies outside the block on the stub's stack.\<close>

definition clear_of :: "u64 \<Rightarrow> nat \<Rightarrow> u8 list \<Rightarrow> bool" where
  "clear_of a n elf \<longleftrightarrow> (\<forall>ph \<in> set (elf_segments elf). mem_range (p_paddr ph) (unat (p_memsz ph)) \<inter> mem_range a n = {})"

lemma length_handoff_bytes: "length (eh_memory h) = 8 \<Longrightarrow> length (handoff_bytes h) = 272"
  by (simp add: handoff_bytes_def length_concat comp_def sum_list_triv)

lemma sb_mem_print [simp]:
  "sb_mem (efi_print s st) = sb_mem st" "sb_fw (efi_print s st) = sb_fw st"
  by (simp_all add: efi_print_def)

lemma sb_mem_prints [simp]:
  "sb_mem (print_table t st) = sb_mem st" "sb_fw (print_table t st) = sb_fw st"
  "sb_mem (print_mode m st) = sb_mem st" "sb_fw (print_mode m st) = sb_fw st"
  by (simp_all add: print_table_def print_mode_def print_u32_def print_u64_hex_def Let_def)

lemma interrupts_masked: "(d OR push_bit 6 0xf) AND 0x3C0 = (0x3C0 :: u64)"
proof -
  have "(d OR m) AND m = m" for m :: u64 by (rule bit_word_eqI) (auto simp: bit_simps)
  from this [of "push_bit 6 0xf"] show ?thesis by simp
qed

lemma mmu_off: "(((s AND NOT 1) AND NOT (push_bit 2 1)) AND NOT (push_bit 12 1)) AND 0x1005 = (0 :: u64)"
proof -
  have "(((s AND NOT k) AND NOT m) AND NOT n) AND (k OR m OR n) = 0" for k m n :: u64
    by (rule bit_word_eqI) (auto simp: bit_simps)
  from this [of 1 "push_bit 2 1" "push_bit 12 1"] show ?thesis by simp
qed

lemma prepare_cpu_mem [simp]: "sb_mem (prepare_cpu_for_kernel a st) = sb_mem st"
  by (cases a) (simp_all add: prepare_cpu_for_kernel_def)

lemma prepare_cpu_off:
  "case a of Stub_aarch64 \<Rightarrow> sb_daif (prepare_cpu_for_kernel a st) AND 0x3C0 = 0x3C0 \<and> sb_sctlr (prepare_cpu_for_kernel a st) AND 0x1005 = 0
   | Stub_x86_64 \<Rightarrow> \<not> sb_if (prepare_cpu_for_kernel a st)"
  unfolding prepare_cpu_for_kernel_def
  by (cases a; cases st) (simp_all only: StubArch.case Stub.select_convs Stub.update_convs interrupts_masked mmu_off simp_thms)

text \<open>C20: When the firmware has a graphics mode, grants the pages and ends boot services, the stub enters the kernel at its
  entry point: every segment of the image is in memory, the block the kernel reads is the handoff,
  and interrupts are off. On AArch64 the MMU and the caches are off as well; on x86-64, where only
  interrupts are disabled, the kernel starts in long mode under the paging of the firmware.\<close>

theorem efi_main_enters_kernel:
  assumes elf: "elf_wf (KERNEL_ELF_MACHINE a) elf" and ptr: "clear_of ptr 272 elf"
    and alloc: "\<And>pages base. alloc EFI_ALLOCATE_ADDRESS EFI_LOADER_DATA pages base = (EFI_SUCCESS, base)"
    and fw: "\<And>f snap f2. get_memory_map fw f = (Some snap, f2) \<Longrightarrow> snap_ok snap"
    and exit: "exit_boot_services a fw mode (find_firmware_table a systab) (sb_fw st) = (Exited h, f')"
  shows "\<exists>st'. efi_main a alloc fw (Some mode) systab elf ptr st = (Entered (e_entry (elf_ehdr_of elf)) ptr, st') \<and>
    holds (sb_mem st') ptr (handoff_bytes h) \<and>
    (\<forall>ph \<in> set (elf_segments elf). mem_read (sb_mem st') (p_paddr ph) (unat (p_memsz ph)) = seg_image elf ph) \<and>
    (case a of Stub_aarch64 \<Rightarrow> sb_daif st' AND 0x3C0 = 0x3C0 \<and> sb_sctlr st' AND 0x1005 = 0 | Stub_x86_64 \<Rightarrow> \<not> sb_if st')"
proof -
  from exit_attempts_fresh [OF exit [unfolded exit_boot_services_def]]
  obtain snap f1 f2 where snap: "get_memory_map fw f1 = (Some snap, f2)"
    and h: "build_handoff a snap mode (find_firmware_table a systab) = Some h" by auto
  have "handoff_wf h"
    using build_handoff_list [OF fw [OF snap], of a mode "find_firmware_table a systab"] h by auto
  then have len: "length (handoff_bytes h) = 272" by (intro length_handoff_bytes) (simp add: handoff_wf_def)
  let ?mem = "paint_pattern mode (sb_mem st)"
  obtain mem' where load: "load_kernel_elf alloc (KERNEL_ELF_MACHINE a) elf ?mem = Some (e_entry (elf_ehdr_of elf), mem')"
    and img: "\<And>ph. ph \<in> set (elf_segments elf) \<Longrightarrow> mem_read mem' (p_paddr ph) (unat (p_memsz ph)) = seg_image elf ph"
    using elf_loads [OF elf, of alloc ?mem] alloc by metis
  let ?m = "mem_write mem' ptr (handoff_bytes h)"
  have "holds ?m ptr (handoff_bytes h)" using len by (simp add: holds_def mem_read_write_same)
  moreover have "mem_read ?m (p_paddr ph) (unat (p_memsz ph)) = seg_image elf ph" if "ph \<in> set (elf_segments elf)" for ph
    using ptr that img less_imp_le [OF unat_lt_64 [of "p_memsz ph"]]
    by (subst mem_read_write_other) (auto simp: clear_of_def len)
  ultimately show ?thesis
    using load exit
    by (simp add: efi_main_def Let_def jump_to_kernel_def prepare_cpu_off)
qed

definition sample_stub :: "usize Stub" where
  "sample_stub = \<lparr>sb_mem = \<lambda>_. 0xff, sb_fw = 0, sb_out = [], sb_daif = 0, sb_sctlr = 0x30d0198d, sb_if = True\<rparr>"

definition sample_systab :: EfiSystemTable where
  "sample_systab = \<lparr>st_configuration_table = Some [\<lparr>vendor_guid = EFI_DTB_TABLE_GUID, vendor_table = 0x48000000\<rparr>],
     st_number_of_table_entries = 1\<rparr>"

theorem efi_main_enters_kernel_witness:
  "\<exists>st' h. efi_main Stub_aarch64 (\<lambda>_ _ _ a. (0, a)) sample_firmware (Some sample_mode) sample_systab sample_elf 0x50000000 sample_stub =
      (Entered 0x40080000 0x50000000, st') \<and> holds (sb_mem st') 0x50000000 (handoff_bytes h)"
proof -
  obtain h where h: "exit_boot_services Stub_aarch64 sample_firmware sample_mode (find_firmware_table Stub_aarch64 sample_systab)
      (sb_fw sample_stub) = (Exited h, 1)"
    using sample_exit by (auto simp: sample_stub_def)
  have "mem_range 0x40080000 0x2000 \<inter> mem_range 0x50000000 272 = {}" by (rule region_disjoint) simp_all
  then have c: "clear_of 0x50000000 272 sample_elf" by (simp add: clear_of_def sample_elf_segment)
  have w: "elf_wf (KERNEL_ELF_MACHINE Stub_aarch64) sample_elf" using sample_elf_wf by (simp add: KERNEL_ELF_MACHINE_def)
  have g: "(\<lambda>_ _ _ a. (0, a)) EFI_ALLOCATE_ADDRESS EFI_LOADER_DATA pages base = (EFI_SUCCESS, base)" for pages base
    by (simp add: EFI_SUCCESS_def)
  have e: "e_entry (elf_ehdr_of sample_elf) = 0x40080000" by (simp add: sample_elf_ehdr)
  show ?thesis
    using efi_main_enters_kernel [OF w c g _ h] sample_maps_ok unfolding e by meson
qed

end
