(* ===== verification/Hyp_Boot_X64.thy ===== *)
theory Hyp_Boot_X64
  imports Hyp_Multiboot Hyp_Handoff
begin

text \<open>
  The 32-bit entry of the x86-64 kernel (\<^verbatim>\<open>kernel/src/arch/x86_64/boot.rs\<close>): \<^verbatim>\<open>_start\<close> as lists of instructions
  on a machine with eight registers, byte-addressed memory and the control registers, with the
  addresses the linker chose as a parameter; and the two trampolines. The lemmas show that the page
  tables it builds map the lowest gigabyte and the gigabyte below 4 GiB to themselves and nothing
  else, and which arguments the trampoline is called with.
\<close>

section \<open>Machine\<close>

datatype R32 = EAX | EBX | ECX | EDX | ESI | EDI | ESP | EBP

record X32 =
  r32 :: "R32 \<Rightarrow> u32"
  x32_mem :: memory
  x32_cr0 :: u32
  x32_cr3 :: u32
  x32_cr4 :: u32
  x32_efer :: u64
  x32_gdtr :: u32
  x32_cs :: u32
  x32_pc :: u32
  x32_if :: bool

datatype I32 = I_CLD | I_CLI | I_MOV R32 R32 | I_MOV_IMM R32 u32 | I_LEA R32 u32 | I_PUSH R32 | I_PUSH_IMM u32 | I_POP R32
  | I_SUB R32 R32 | I_SHR R32 nat | I_XOR R32 R32 | I_REP_STOSD | I_OR R32 u32 | I_ADD R32 u32
  | I_STORE u32 R32 | I_STORE_AT R32 R32 | I_STORE_IMM_AT R32 u32 u32
  | I_FROM_CR0 R32 | I_TO_CR0 R32 | I_FROM_CR4 R32 | I_TO_CR4 R32 | I_TO_CR3 R32 | I_RDMSR | I_WRMSR | I_LGDT u32 | I_RETF

abbreviation set32 :: "R32 \<Rightarrow> u32 \<Rightarrow> X32 \<Rightarrow> X32" where
  "set32 r v s \<equiv> s\<lparr>r32 := (r32 s)(r := v)\<rparr>"

abbreviation store32 :: "u32 \<Rightarrow> u32 \<Rightarrow> X32 \<Rightarrow> X32" where
  "store32 a v s \<equiv> s\<lparr>x32_mem := mem_write (x32_mem s) (ucast a) (to_le_bytes v)\<rparr>"

definition EFER :: u32 where "EFER = 0xC0000080"

fun x32_exec :: "I32 \<Rightarrow> X32 \<Rightarrow> X32" where
  "x32_exec I_CLD s = s"
| "x32_exec I_CLI s = s\<lparr>x32_if := False\<rparr>"
| "x32_exec (I_MOV d r) s = set32 d (r32 s r) s"
| "x32_exec (I_MOV_IMM d v) s = set32 d v s"
| "x32_exec (I_LEA d a) s = set32 d a s"
| "x32_exec (I_PUSH r) s = (let sp = r32 s ESP - 4 in set32 ESP sp (store32 sp (r32 s r) s))"
| "x32_exec (I_PUSH_IMM v) s = (let sp = r32 s ESP - 4 in set32 ESP sp (store32 sp v s))"
| "x32_exec (I_POP d) s = set32 d (rd32 (x32_mem s) (ucast (r32 s ESP))) (set32 ESP (r32 s ESP + 4) s)"
| "x32_exec (I_SUB d r) s = set32 d (r32 s d - r32 s r) s"
| "x32_exec (I_SHR d n) s = set32 d (drop_bit n (r32 s d)) s"
| "x32_exec (I_XOR d r) s = set32 d (r32 s d XOR r32 s r) s"
| "x32_exec I_REP_STOSD s =
     (let n = unat (r32 s ECX) in
      set32 ECX 0 (set32 EDI (r32 s EDI + 4 * r32 s ECX)
        (s\<lparr>x32_mem := mem_write (x32_mem s) (ucast (r32 s EDI)) (concat (replicate n (to_le_bytes (r32 s EAX))))\<rparr>)))"
| "x32_exec (I_OR d v) s = set32 d (r32 s d OR v) s"
| "x32_exec (I_ADD d v) s = set32 d (r32 s d + v) s"
| "x32_exec (I_STORE a r) s = store32 a (r32 s r) s"
| "x32_exec (I_STORE_AT a r) s = store32 (r32 s a) (r32 s r) s"
| "x32_exec (I_STORE_IMM_AT a off v) s = store32 (r32 s a + off) v s"
| "x32_exec (I_FROM_CR0 d) s = set32 d (x32_cr0 s) s"
| "x32_exec (I_TO_CR0 r) s = s\<lparr>x32_cr0 := r32 s r\<rparr>"
| "x32_exec (I_FROM_CR4 d) s = set32 d (x32_cr4 s) s"
| "x32_exec (I_TO_CR4 r) s = s\<lparr>x32_cr4 := r32 s r\<rparr>"
| "x32_exec (I_TO_CR3 r) s = s\<lparr>x32_cr3 := r32 s r\<rparr>"
| "x32_exec I_RDMSR s = (if r32 s ECX = EFER
     then set32 EDX (ucast (drop_bit 32 (x32_efer s))) (set32 EAX (ucast (x32_efer s)) s) else s)"
| "x32_exec I_WRMSR s = (if r32 s ECX = EFER
     then s\<lparr>x32_efer := push_bit 32 (ucast (r32 s EDX)) OR ucast (r32 s EAX)\<rparr> else s)"
| "x32_exec (I_LGDT a) s = s\<lparr>x32_gdtr := a\<rparr>"
| "x32_exec I_RETF s =
     (let sp = r32 s ESP in set32 ESP (sp + 8) (s\<lparr>x32_pc := rd32 (x32_mem s) (ucast sp), x32_cs := rd32 (x32_mem s) (ucast (sp + 4))\<rparr>))"

section \<open>The entry\<close>

text \<open>Addresses of the linker's symbols.\<close>

record X64Syms =
  bss_start :: u32
  bss_end :: u32
  boot_pml4 :: u32
  boot_pdpt :: u32
  boot_pd :: u32
  boot_stack_top :: u32
  boot_gdt_pointer :: u32
  start64 :: u32

definition start_save :: "X64Syms \<Rightarrow> I32 list" where
  "start_save y = [I_CLD, I_CLI, I_MOV EDI EBX, I_MOV ESI EAX, I_MOV_IMM ESP (boot_stack_top y)]"

definition start_zero_bss :: "X64Syms \<Rightarrow> I32 list" where
  "start_zero_bss y = [I_PUSH EDI, I_LEA EDI (bss_start y), I_LEA ECX (bss_end y), I_SUB ECX EDI, I_SHR ECX 2,
     I_XOR EAX EAX, I_REP_STOSD, I_POP EDI]"

definition start_tables :: "X64Syms \<Rightarrow> I32 list" where
  "start_tables y = [I_LEA EAX (boot_pdpt y), I_OR EAX 0x3, I_STORE (boot_pml4 y) EAX,
     I_LEA EAX (boot_pd y), I_OR EAX 0x3, I_STORE (boot_pdpt y + 0 * 8) EAX,
     I_MOV_IMM EAX (0xC0000000 OR 0x83), I_STORE (boot_pdpt y + 3 * 8) EAX,
     I_LEA EDI (boot_pd y), I_MOV_IMM ECX 512, I_MOV_IMM EAX (0x0 OR 0x83)]"

definition start_pd_body :: "I32 list" where
  "start_pd_body = [I_STORE_AT EDI EAX, I_STORE_IMM_AT EDI 4 0, I_ADD EDI 8, I_ADD EAX 0x200000]"

text \<open>\<^verbatim>\<open>loop\<close>: the body runs, \<^verbatim>\<open>ecx\<close> is decremented, and control returns to the body unless it is zero.\<close>

definition dec_ecx :: "X32 \<Rightarrow> X32" where
  "dec_ecx s = set32 ECX (r32 s ECX - 1) s"

definition x32_loop :: "I32 list \<Rightarrow> X32 \<Rightarrow> X32" where
  "x32_loop body s = ((\<lambda>s. dec_ecx (fold x32_exec body s)) ^^ (if r32 s ECX = 0 then 2 ^ 32 else unat (r32 s ECX))) s"

definition start_enable :: "X64Syms \<Rightarrow> I32 list" where
  "start_enable y = [I_FROM_CR4 EAX, I_OR EAX (push_bit 5 1), I_TO_CR4 EAX, I_LEA EAX (boot_pml4 y), I_TO_CR3 EAX,
     I_MOV_IMM ECX EFER, I_RDMSR, I_OR EAX (push_bit 8 1), I_WRMSR,
     I_FROM_CR0 EAX, I_OR EAX (push_bit 31 1 OR push_bit 0 1), I_TO_CR0 EAX, I_LGDT (boot_gdt_pointer y),
     I_LEA EAX (start64 y), I_PUSH_IMM 0x08, I_PUSH EAX, I_RETF]"

definition x64_start :: "X64Syms \<Rightarrow> X32 \<Rightarrow> X32" where
  "x64_start y s = fold x32_exec (start_enable y) (x32_loop start_pd_body
     (fold x32_exec (start_tables y) (fold x32_exec (start_zero_bss y) (fold x32_exec (start_save y) s))))"

text \<open>The arguments of the call in \<^verbatim>\<open>_start64\<close>: \<^verbatim>\<open>rdi\<close> and \<^verbatim>\<open>rsi\<close>, which 64-bit code reads zero-extended.\<close>

definition start64_args :: "X32 \<Rightarrow> u64 \<times> u64" where
  "start64_args s = (ucast (r32 s EDI), ucast (r32 s ESI))"

section \<open>Trampolines\<close>

text \<open>The boot information each trampoline passes to \<^verbatim>\<open>hal::init\<close>.\<close>

definition kmain_trampoline_x64 :: "memory \<Rightarrow> u64 \<Rightarrow> u64 \<Rightarrow> BootInfo option" where
  "kmain_trampoline_x64 mem mb2_info magic = mb_parse_or_fallback mem mb2_info magic"

definition uefi_trampoline_x64 :: "memory \<Rightarrow> u64 \<Rightarrow> BootInfo option" where
  "uefi_trampoline_x64 mem handoff_ptr =
     (case uefi_handoff mem handoff_ptr of Some bi \<Rightarrow> Some bi | None \<Rightarrow> mb_parse_or_fallback mem 0 0)"

section \<open>Layout\<close>

text \<open>What the \<^verbatim>\<open>.bss\<close> section of the boot stub and the linker script fix of the addresses: the page tables and
  the 64 KiB boot stack are consecutive, inside \<^verbatim>\<open>.bss\<close>, in the lowest gigabyte.\<close>

definition layout_ok :: "X64Syms \<Rightarrow> bool" where
  "layout_ok y \<longleftrightarrow> 4096 dvd unat (boot_pml4 y) \<and> unat (bss_start y) \<le> unat (boot_pml4 y) \<and>
     unat (boot_pdpt y) = unat (boot_pml4 y) + 4096 \<and> unat (boot_pd y) = unat (boot_pml4 y) + 8192 \<and>
     unat (boot_stack_top y) = unat (boot_pml4 y) + 12288 + 65536 \<and> unat (boot_stack_top y) \<le> unat (bss_end y) \<and>
     unat (bss_end y) \<le> 2 ^ 30 \<and> 4 dvd unat (bss_end y) - unat (bss_start y) \<and> boot_pml4 y \<noteq> 0"

abbreviation wide :: "u32 \<Rightarrow> u64" where
  "wide a \<equiv> ucast a"

lemma unat_wide [simp]: "unat (wide a) = unat a"
  by (simp add: unat_ucast_widen)

text \<open>A machine whose memory is zero in \<^verbatim>\<open>.bss\<close> but for what a predicate allows.\<close>

definition bss_zero :: "X64Syms \<Rightarrow> memory \<Rightarrow> bool" where
  "bss_zero y m \<longleftrightarrow> (\<forall>x. unat (bss_start y) \<le> unat x \<and> unat x < unat (bss_end y) \<longrightarrow> m x = 0)"

lemma le_digits_zero: "le_digits n 0 = replicate n 0"
  by (induction n) simp_all

lemma concat_zeros: "concat (replicate n (to_le_bytes (0 :: u32))) = replicate (4 * n) 0"
  by (induction n) (simp_all add: to_le_bytes_def le_digits_zero replicate_add [symmetric])

lemma zero_bss:
  fixes s :: X32
  assumes "layout_ok y"
  defines "s1 \<equiv> fold x32_exec (start_zero_bss y) (fold x32_exec (start_save y) s)"
  shows "bss_zero y (x32_mem s1)" "r32 s1 EDI = 0" "r32 s1 ESI = r32 s EAX" "r32 s1 ESP = boot_stack_top y"
    "x32_cr0 s1 = x32_cr0 s" "x32_cr4 s1 = x32_cr4 s" "x32_efer s1 = x32_efer s"
proof -
  note l = assms(1) [unfolded layout_ok_def]
  let ?n = "unat (bss_end y) - unat (bss_start y)"
  have "unat (bss_end y - bss_start y) = ?n" using l by (simp add: unat_sub_le word_le_nat_alt)
  then have n: "4 * unat (drop_bit 2 (bss_end y - bss_start y)) = ?n" using l by (simp add: unat_drop_bit)
  have mem: "x32_mem s1 = mem_write (mem_write (x32_mem s) (wide (boot_stack_top y - 4)) (to_le_bytes (r32 s EBX)))
      (wide (bss_start y)) (replicate ?n 0)"
    unfolding s1_def by (simp add: start_zero_bss_def start_save_def Let_def concat_zeros n)
  show z: "bss_zero y (x32_mem s1)"
    unfolding bss_zero_def
  proof (intro allI impI)
    fix x :: u64 assume x: "unat (bss_start y) \<le> unat x \<and> unat x < unat (bss_end y)"
    have "unat (wide (bss_start y)) + ?n \<le> 2 ^ 64" using l by simp
    then have "x \<in> mem_range (wide (bss_start y)) ?n" using x l by (simp add: region_iff)
    then show "x32_mem s1 x = 0" by (simp add: mem mem_write_def mem_range_def)
  qed
  have sp: "unat (boot_stack_top y - 4) = unat (boot_stack_top y) - 4" using l by (simp add: unat_sub_le word_le_nat_alt)
  have "rd32 (x32_mem s1) (wide (boot_stack_top y - 4)) = 0"
  proof (rule rd_zero(1) [where n = 4])
    fix x assume "x \<in> mem_range (wide (boot_stack_top y - 4)) 4"
    moreover have "unat (wide (boot_stack_top y - 4)) + 4 \<le> 2 ^ 64" using sp l by simp
    ultimately show "x32_mem s1 x = 0" using z sp l by (auto simp: bss_zero_def region_iff)
  qed simp
  moreover have "r32 s1 EDI = rd32 (x32_mem s1) (wide (boot_stack_top y - 4))"
    unfolding s1_def by (simp add: start_zero_bss_def start_save_def Let_def)
  ultimately show "r32 s1 EDI = 0" by simp
  show "r32 s1 ESI = r32 s EAX" "r32 s1 ESP = boot_stack_top y"
    "x32_cr0 s1 = x32_cr0 s" "x32_cr4 s1 = x32_cr4 s" "x32_efer s1 = x32_efer s"
    unfolding s1_def by (simp_all add: start_zero_bss_def start_save_def Let_def)
qed

section \<open>The page directory\<close>

abbreviation pd_step :: "X32 \<Rightarrow> X32" where
  "pd_step s \<equiv> dec_ecx (fold x32_exec start_pd_body s)"

definition pd_value :: "nat \<Rightarrow> nat" where
  "pd_value k = 131 + 2097152 * k"

lemma unat_add_nat: "unat (a :: 'a::len word) + n < 2 ^ LENGTH('a) \<Longrightarrow> unat (a + word_of_nat n) = unat a + n"
  by (simp add: unat_add_lt unat_word_of_nat)

lemma pd_write:
  fixes m :: memory and v :: u32
  assumes "unat a + 8 \<le> 2 ^ 64"
  defines "m' \<equiv> mem_write (mem_write m a (to_le_bytes (v :: u32))) (a + 4) (to_le_bytes (0 :: u32))"
  shows "rd64 m' a = ucast v" "x \<notin> mem_range a 8 \<Longrightarrow> m' x = m x"
proof -
  have a4: "unat (a + 4) = unat a + 4" using assms(1) by (simp add: unat_add_lt)
  have dis: "mem_range a 4 \<inter> mem_range (a + 4) 4 = {}" using a4 assms(1) by (intro region_disjoint) simp_all
  have "rd32 m' a = v" using dis by (simp add: m'_def rd32_write_other)
  moreover have "rd32 m' (a + 4) = 0" by (simp add: m'_def)
  ultimately show "rd64 m' a = ucast v" by (simp add: rd64_low)
  show "m' x = m x" if "x \<notin> mem_range a 8"
  proof -
    have "x \<notin> mem_range a 4" "x \<notin> mem_range (a + 4) 4" using that a4 assms(1) by (auto simp: region_iff)
    then show ?thesis by (simp add: m'_def mem_write_outside)
  qed
qed

lemma pd_step_effect:
  "r32 (pd_step t) = (r32 t)(EDI := r32 t EDI + 8, EAX := r32 t EAX + 0x200000, ECX := r32 t ECX - 1)"
  "x32_mem (pd_step t) = mem_write (mem_write (x32_mem t) (wide (r32 t EDI)) (to_le_bytes (r32 t EAX)))
     (wide (r32 t EDI + 4)) (to_le_bytes (0 :: u32))"
  "x32_cr0 (pd_step t) = x32_cr0 t" "x32_cr4 (pd_step t) = x32_cr4 t" "x32_efer (pd_step t) = x32_efer t"
  by (auto simp: dec_ecx_def start_pd_body_def)

lemma pd_loop:
  assumes pd: "unat pd + 4096 \<le> 2 ^ 32" and s: "r32 s EDI = pd" "r32 s EAX = 131" "r32 s ECX = 512" and k: "k \<le> 512"
  shows "r32 ((pd_step ^^ k) s) = (r32 s)(EDI := pd + word_of_nat (8 * k), EAX := word_of_nat (pd_value k), ECX := word_of_nat (512 - k))
    \<and> (\<forall>j < k. rd64 (x32_mem ((pd_step ^^ k) s)) (wide pd + word_of_nat (8 * j)) = word_of_nat (pd_value j))
    \<and> (\<forall>x. x \<notin> mem_range (wide pd) (8 * k) \<longrightarrow> x32_mem ((pd_step ^^ k) s) x = x32_mem s x)
    \<and> x32_cr0 ((pd_step ^^ k) s) = x32_cr0 s \<and> x32_cr4 ((pd_step ^^ k) s) = x32_cr4 s \<and> x32_efer ((pd_step ^^ k) s) = x32_efer s"
  using k
proof (induction k)
  case 0
  show ?case using s by (auto simp: pd_value_def)
next
  case (Suc k)
  let ?t = "(pd_step ^^ k) s" and ?a = "wide pd + word_of_nat (8 * k)"
  note ih = Suc.IH [OF Suc_leD [OF Suc.prems]]
  have a: "unat ?a = unat pd + 8 * k" using pd Suc.prems by (subst unat_add_nat) simp_all
  have e: "unat (pd + word_of_nat (8 * k)) = unat pd + 8 * k" using pd Suc.prems by (intro unat_add_nat) simp
  have e4: "unat (pd + word_of_nat (8 * k) + 4) = unat pd + 8 * k + 4" using pd Suc.prems e by (subst unat_add_lt) simp_all
  have a4: "unat (?a + 4) = unat pd + 8 * k + 4" using a pd Suc.prems by (subst unat_add_lt) simp_all
  have w: "wide (pd + word_of_nat (8 * k)) = ?a" "wide (pd + word_of_nat (8 * k) + 4) = ?a + 4"
    using a e e4 a4 by (simp_all flip: unat_inj_iff)
  have v: "(ucast (word_of_nat (pd_value k) :: u32) :: u64) = word_of_nat (pd_value k)"
    using Suc.prems by (simp add: pd_value_def unat_ucast_widen unat_word_of_nat flip: unat_inj_iff del: of_nat_add of_nat_mult of_nat_numeral)
  have rd: "r32 ?t EDI = pd + word_of_nat (8 * k)" "r32 ?t EAX = word_of_nat (pd_value k)" "r32 ?t ECX = word_of_nat (512 - k)"
    using ih by auto
  have regs: "r32 (pd_step ?t) = (r32 s)(EDI := pd + word_of_nat (8 * Suc k), EAX := word_of_nat (pd_value (Suc k)),
      ECX := word_of_nat (512 - Suc k))"
    using ih Suc.prems by (auto simp: pd_step_effect pd_value_def of_nat_diff)
  have mem: "x32_mem (pd_step ?t) = mem_write (mem_write (x32_mem ?t) ?a (to_le_bytes (word_of_nat (pd_value k) :: u32)))
      (?a + 4) (to_le_bytes (0 :: u32))"
    unfolding pd_step_effect rd w ..
  have fit: "unat ?a + 8 \<le> 2 ^ 64" using a pd Suc.prems by simp
  note wr = pd_write [OF fit, where m = "x32_mem ?t" and v = "word_of_nat (pd_value k)", folded mem, unfolded v]
  have new: "rd64 (x32_mem (pd_step ?t)) (wide pd + word_of_nat (8 * j)) = word_of_nat (pd_value j)" if "j < Suc k" for j
  proof (cases "j = k")
    case False
    let ?b = "wide pd + word_of_nat (8 * j)"
    have b: "unat ?b = unat pd + 8 * j" using pd Suc.prems that by (subst unat_add_nat) simp_all
    have "x \<notin> mem_range ?a 8" if "x \<in> mem_range ?b 8" for x
      using that a b fit False \<open>j < Suc k\<close> by (simp add: region_iff)
    then have "mem_read (x32_mem (pd_step ?t)) ?b 8 = mem_read (x32_mem ?t) ?b 8" using wr(2) by (intro mem_read_cong) auto
    then show ?thesis using ih that False by (simp add: rd64_def)
  qed (use wr(1) in simp)
  have out: "x32_mem (pd_step ?t) x = x32_mem s x" if "x \<notin> mem_range (wide pd) (8 * Suc k)" for x
  proof -
    have "x \<notin> mem_range ?a 8" "x \<notin> mem_range (wide pd) (8 * k)"
      using that a fit pd Suc.prems by (auto simp: region_iff)
    then show ?thesis using wr(2) ih by simp
  qed
  have cr: "x32_cr0 (pd_step ?t) = x32_cr0 s" "x32_cr4 (pd_step ?t) = x32_cr4 s" "x32_efer (pd_step ?t) = x32_efer s"
    using ih by (simp_all add: pd_step_effect)
  have step: "(pd_step ^^ Suc k) s = pd_step ?t" by simp
  show ?case unfolding step using regs new out cr by blast
qed

section \<open>The tables\<close>

text \<open>The tables the processor walks from \<^verbatim>\<open>CR3\<close>: one entry in the first, two in the second, all of the third.\<close>

definition boot_tables :: "X64Syms \<Rightarrow> memory \<Rightarrow> bool" where
  "boot_tables y m \<longleftrightarrow>
     (\<forall>i < 512. rd64 m (wide (boot_pml4 y) + word_of_nat (8 * i)) = (if i = 0 then wide (boot_pdpt y) + 3 else 0)) \<and>
     (\<forall>i < 512. rd64 m (wide (boot_pdpt y) + word_of_nat (8 * i)) =
        (if i = 0 then wide (boot_pd y) + 3 else if i = 3 then 0xC0000083 else 0)) \<and>
     (\<forall>i < 512. rd64 m (wide (boot_pd y) + word_of_nat (8 * i)) = word_of_nat (pd_value i))"

lemma rd64_frame:
  assumes "\<And>x. x \<in> mem_range a 8 \<Longrightarrow> m' x = m x"
  shows "rd64 m' a = rd64 m a"
  unfolding rd64_def using assms by (intro arg_cong [where f = from_le_bytes] mem_read_cong) simp_all

text \<open>A 32-bit store into zeroed memory sets one entry of a table.\<close>

lemma store_entry:
  assumes a: "unat a + 8 \<le> 2 ^ 64" and z: "\<And>x. x \<in> mem_range a 8 \<Longrightarrow> m x = 0"
  shows "rd64 (mem_write m a (to_le_bytes (v :: u32))) a = ucast v"
proof -
  have a4: "unat (a + 4) = unat a + 4" using a by (simp add: unat_add_lt)
  have dis: "mem_range (a + 4) 4 \<inter> mem_range a 4 = {}" using a4 a by (intro region_disjoint) simp_all
  have "rd32 m (a + 4) = 0"
    using a a4 z by (intro rd_zero(1) [where n = 4]) (auto simp: region_iff)
  then have "rd32 (mem_write m a (to_le_bytes v)) (a + 4) = 0" using dis by (simp add: rd32_write_other)
  then show ?thesis by (simp add: rd64_low)
qed

lemma or_3: "4 dvd unat (a :: u32) \<Longrightarrow> unat a + 3 < 2 ^ 32 \<Longrightarrow> (ucast (a OR 3) :: u64) = ucast a + 3"
proof -
  assume a: "4 dvd unat a" "unat a + 3 < 2 ^ 32"
  have "unat (a AND mask 2) = 0" using a(1) by (simp only: and_mask_nat) simp
  then have "a AND 3 = 0" by (simp add: mask_eq_exp_minus_1 unat_eq_zero)
  then have "a OR 3 = a + 3" by (simp add: disjunctive_add_eq_or)
  moreover have "unat (a + 3) = unat a + 3" "unat (ucast a + 3 :: u64) = unat a + 3" using a(2) by (simp_all add: unat_add_lt)
  ultimately show ?thesis by (simp flip: unat_inj_iff)
qed

lemma tables_mem:
  fixes s :: X32 and y :: X64Syms
  defines "s2 \<equiv> fold x32_exec (start_tables y) s"
  shows "x32_mem s2 = mem_write (mem_write (mem_write (x32_mem s) (wide (boot_pml4 y)) (to_le_bytes (boot_pdpt y OR 3)))
      (wide (boot_pdpt y)) (to_le_bytes (boot_pd y OR 3))) (wide (boot_pdpt y + 24)) (to_le_bytes (0xC0000083 :: u32))"
    "r32 s2 EDI = boot_pd y" "r32 s2 EAX = 131" "r32 s2 ECX = 512" "r32 s2 ESI = r32 s ESI" "r32 s2 ESP = r32 s ESP"
    "x32_cr0 s2 = x32_cr0 s" "x32_cr4 s2 = x32_cr4 s" "x32_efer s2 = x32_efer s"
  unfolding s2_def by (simp_all add: start_tables_def)

lemma tables_entry:
  fixes s :: X32 and y :: X64Syms
  defines "s2 \<equiv> fold x32_exec (start_tables y) s"
  assumes l: "layout_ok y" and z: "bss_zero y (x32_mem s)" and e: "unat e = unat (boot_pml4 y) + 8 * n" "n < 1024"
  shows "rd64 (x32_mem s2) e = (if n = 0 then wide (boot_pdpt y) + 3 else if n = 512 then wide (boot_pd y) + 3
    else if n = 515 then 0xC0000083 else 0)"
proof -
  note lo = l [unfolded layout_ok_def]
  let ?p = "wide (boot_pml4 y)" and ?q = "wide (boot_pdpt y)" and ?r = "wide (boot_pdpt y + 24)"
  let ?m1 = "mem_write (x32_mem s) ?p (to_le_bytes (boot_pdpt y OR 3))"
  let ?m2 = "mem_write ?m1 ?q (to_le_bytes (boot_pd y OR 3))"
  have r: "unat ?r = unat (boot_pml4 y) + 8 * 515" using lo by (simp add: unat_add_lt)
  have q: "unat ?q = unat (boot_pml4 y) + 8 * 512" using lo by simp
  have fit: "unat (boot_pml4 y) + 8 * 1024 \<le> 2 ^ 30" using lo by simp
  have rng: "x \<in> mem_range a 8 \<longleftrightarrow> unat a \<le> unat x \<and> unat x < unat a + 8" "x \<in> mem_range a 4 \<longleftrightarrow> unat a \<le> unat x \<and> unat x < unat a + 4"
    if "unat a = unat (boot_pml4 y) + 8 * i" "i < 1024" for a x i
    using that fit by (simp_all add: region_iff)
  have zero: "x32_mem s x = 0" if "x \<in> mem_range e 8" for x
    using that z e fit lo by (simp add: rng [OF e] bss_zero_def)
  have frame: "rd64 (mem_write m a (to_le_bytes (v :: u32))) e = rd64 m e" if "unat a = unat (boot_pml4 y) + 8 * i" "i < 1024" "i \<noteq> n" for m a v i
    using that e by (intro rd64_write_other) (auto simp: rng [OF that(1,2)] rng [OF e])
  have hit: "rd64 (mem_write m e (to_le_bytes v)) e = ucast v" if "\<And>x. x \<in> mem_range e 8 \<Longrightarrow> m x = 0" for m and v :: u32
    using that e fit by (simp add: store_entry)
  have keep: "mem_write m a (to_le_bytes (v :: u32)) x = m x" if "unat a = unat (boot_pml4 y) + 8 * i" "i < 1024" "i \<noteq> n" "x \<in> mem_range e 8" for m a v i x
    using that e by (intro mem_write_outside) (auto simp: rng [OF that(1,2)] rng [OF e])
  have p0: "unat ?p = unat (boot_pml4 y) + 8 * 0" by simp
  have base: "rd64 (x32_mem s) e = 0" using zero by (intro rd_zero(2) [where n = 8]) auto
  have or: "wide (boot_pdpt y OR 3) = wide (boot_pdpt y) + 3" "wide (boot_pd y OR 3) = wide (boot_pd y) + 3"
    using lo by (auto intro!: or_3 dvd_add)
  show ?thesis unfolding s2_def tables_mem
  proof (cases "n = 0 \<or> n = 512 \<or> n = 515")
    case True
    then have "?p = e \<and> n = 0 \<or> ?q = e \<and> n = 512 \<or> ?r = e \<and> n = 515" using e q r by (auto simp flip: unat_inj_iff)
    then show "rd64 (mem_write ?m2 ?r (to_le_bytes (0xC0000083 :: u32))) e = (if n = 0 then wide (boot_pdpt y) + 3
        else if n = 512 then wide (boot_pd y) + 3 else if n = 515 then 0xC0000083 else 0)"
      by (elim disjE conjE) (simp_all add: frame [OF r] frame [OF q] frame [OF p0] hit keep [OF q] keep [OF p0] zero or)
  next
    case False
    then show "rd64 (mem_write ?m2 ?r (to_le_bytes (0xC0000083 :: u32))) e = (if n = 0 then wide (boot_pdpt y) + 3
        else if n = 512 then wide (boot_pd y) + 3 else if n = 515 then 0xC0000083 else 0)"
      by (simp add: frame [OF r] frame [OF q] frame [OF p0] base)
  qed
qed

lemma enable_effect:
  fixes s :: X32 and y :: X64Syms
  defines "t \<equiv> fold x32_exec (start_enable y) s"
  shows "x32_mem t = mem_write (mem_write (x32_mem s) (wide (r32 s ESP - 4)) (to_le_bytes (8 :: u32)))
      (wide (r32 s ESP - 8)) (to_le_bytes (start64 y))"
    "r32 t EDI = r32 s EDI" "r32 t ESI = r32 s ESI" "x32_cr3 t = boot_pml4 y"
    "x32_pc t = rd32 (x32_mem t) (wide (r32 s ESP - 8))" "x32_cs t = rd32 (x32_mem t) (wide (r32 s ESP - 4))"
    "x32_cr0 t = x32_cr0 s OR (push_bit 31 1 OR 1)" "x32_cr4 t = x32_cr4 s OR push_bit 5 1"
    "x32_efer t = push_bit 32 (ucast (ucast (drop_bit 32 (x32_efer s)) :: u32)) OR ucast (ucast (x32_efer s) OR push_bit 8 1 :: u32)"
  unfolding t_def by (simp_all add: start_enable_def Let_def)

text \<open>Everything but the top eight bytes of the stack and the page tables is as \<^verbatim>\<open>.bss\<close> was cleared.\<close>

lemma x64_start_state:
  fixes s :: X32 and y :: X64Syms
  defines "t \<equiv> x64_start y s"
  assumes l: "layout_ok y"
  shows "boot_tables y (x32_mem t)" "r32 t EDI = boot_pd y + 4096" "r32 t ESI = r32 s EAX" "x32_cr3 t = boot_pml4 y"
    "rd32 (x32_mem t) (wide (boot_pd y + 4096)) = 0" "x32_pc t = start64 y" "x32_cs t = 8"
    "x32_cr0 t = x32_cr0 s OR (push_bit 31 1 OR 1)" "x32_cr4 t = x32_cr4 s OR push_bit 5 1"
proof -
  note lo = l [unfolded layout_ok_def]
  define s1 where "s1 = fold x32_exec (start_zero_bss y) (fold x32_exec (start_save y) s)"
  define s2 where "s2 = fold x32_exec (start_tables y) s1"
  define s3 where "s3 = (pd_step ^^ 512) s2"
  note z = zero_bss [OF l, of s, folded s1_def] and m2 = tables_mem [of y s1, folded s2_def]
  have "s3 = x32_loop start_pd_body s2" using m2(4) by (simp add: s3_def x32_loop_def)
  then have t: "t = fold x32_exec (start_enable y) s3" by (simp add: t_def x64_start_def s1_def s2_def)
  have pd: "unat (boot_pd y) + 4096 \<le> 2 ^ 32" using lo by simp
  note s3 = pd_loop [OF pd m2(2-4), of 512, folded s3_def, simplified]
  note en = enable_effect [where y = y and s = s3, folded t]
  have sp: "r32 s3 ESP = boot_stack_top y" "r32 s3 ESI = r32 s EAX" "r32 s3 EDI = boot_pd y + 4096"
    using s3 m2 z by simp_all
  have top: "unat (wide (boot_stack_top y - 4)) = unat (boot_stack_top y) - 4" "unat (wide (boot_stack_top y - 8)) = unat (boot_stack_top y) - 8"
    using lo by (simp_all add: unat_sub_le word_le_nat_alt)
  have rng: "x \<in> mem_range a n \<longleftrightarrow> unat a \<le> unat x \<and> unat x < unat a + n" if "unat a \<le> 2 ^ 32" "n \<le> 4096" for x a n
    using that by (simp add: region_iff)
  have mt: "x32_mem t = mem_write (mem_write (x32_mem s3) (wide (boot_stack_top y - 4)) (to_le_bytes (8 :: u32)))
      (wide (boot_stack_top y - 8)) (to_le_bytes (start64 y))"
    using en(1) sp(1) by simp
  have low: "x32_mem t x = x32_mem s3 x" if "unat x < unat (boot_stack_top y) - 8" for x
    unfolding mt using that top lo by (subst mem_write_outside, simp add: rng)+ simp
  have keep: "x32_mem t x = x32_mem s2 x" if "unat x < unat (boot_stack_top y) - 8" "\<not> (unat (boot_pd y) \<le> unat x \<and> unat x < unat (boot_pd y) + 4096)" for x
    using low [OF that(1)] that(2) s3 lo by (simp add: rng)
  show "r32 t EDI = boot_pd y + 4096" "r32 t ESI = r32 s EAX" "x32_cr3 t = boot_pml4 y"
    using en sp by simp_all
  show "x32_cr0 t = x32_cr0 s OR (push_bit 31 1 OR 1)" "x32_cr4 t = x32_cr4 s OR push_bit 5 1"
    using en(7,8) s3 m2 z by simp_all
  show "x32_pc t = start64 y" using en(5) sp(1) mt by simp
  show "x32_cs t = 8" using en(6) sp(1) mt top lo by (simp add: rd32_write_other rng disjoint_iff)
  have "x32_mem s2 x = 0" if "unat (boot_pd y) \<le> unat x" "unat x < unat (boot_stack_top y)" for x
  proof -
    have "unat (boot_pdpt y + 24) = unat (boot_pdpt y) + 24" using lo by (simp add: unat_add_lt)
    then have "x32_mem s2 x = x32_mem s1 x"
      unfolding m2(1) using that lo by (subst mem_write_outside, simp add: rng)+ simp
    then show ?thesis using that z(1) lo by (simp add: bss_zero_def)
  qed
  then show "rd32 (x32_mem t) (wide (boot_pd y + 4096)) = 0"
    using keep lo by (intro rd_zero(1) [where n = 4]) (auto simp: rng unat_add_lt)
  have entry: "rd64 (x32_mem t) e = rd64 (x32_mem s2) e" if "unat e = unat (boot_pml4 y) + 8 * n" "n < 1024" for e n
    using that keep lo by (intro rd64_frame) (auto simp: rng)
  have tab: "rd64 (x32_mem t) (wide a + word_of_nat (8 * i)) = (if n = 0 then wide (boot_pdpt y) + 3 else if n = 512 then wide (boot_pd y) + 3
      else if n = 515 then 0xC0000083 else 0)" if "unat a + 8 * i = unat (boot_pml4 y) + 8 * n" "n < 1024" for a i n
  proof -
    have "unat (wide a + word_of_nat (8 * i)) = unat (boot_pml4 y) + 8 * n"
      using that lo by (subst unat_add_nat) simp_all
    from entry [OF this that(2)] tables_entry [OF l z(1) this that(2)] show ?thesis by (simp add: s2_def)
  qed
  have dir: "rd64 (x32_mem t) (wide (boot_pd y) + word_of_nat (8 * i)) = word_of_nat (pd_value i)" if "i < 512" for i
  proof -
    have "unat (wide (boot_pd y) + word_of_nat (8 * i)) = unat (boot_pd y) + 8 * i"
      using that lo by (subst unat_add_nat) simp_all
    then have "rd64 (x32_mem t) (wide (boot_pd y) + word_of_nat (8 * i)) = rd64 (x32_mem s3) (wide (boot_pd y) + word_of_nat (8 * i))"
      using low that lo by (intro rd64_frame) (auto simp: rng)
    then show ?thesis using s3 that by simp
  qed
  have q: "unat (boot_pdpt y) + 8 * i = unat (boot_pml4 y) + 8 * (512 + i)" for i using lo by simp
  show "boot_tables y (x32_mem t)"
    unfolding boot_tables_def using tab [OF refl] tab [OF q] dir by auto
qed

section \<open>What the processor does with the tables\<close>

text \<open>The four-level page walk of the architecture for an address of the lower half.\<close>

definition page_base :: "nat \<Rightarrow> u64 \<Rightarrow> u64" where
  "page_base n e = take_bit 52 e AND NOT (mask n)"

definition table_entry :: "memory \<Rightarrow> u64 \<Rightarrow> nat \<Rightarrow> u64 \<Rightarrow> u64" where
  "table_entry mem base n va = rd64 mem (page_base 12 base + word_of_nat (8 * (unat va div 2 ^ n mod 512)))"

definition x64_walk :: "memory \<Rightarrow> u64 \<Rightarrow> u64 \<Rightarrow> u64 option" where
  "x64_walk mem cr3 va =
     (let e4 = table_entry mem cr3 39 va in
      if \<not> bit e4 0 then None
      else let e3 = table_entry mem e4 30 va in
        if \<not> bit e3 0 then None
        else if bit e3 7 then Some (page_base 30 e3 + (va AND mask 30))
        else let e2 = table_entry mem e3 21 va in
          if \<not> bit e2 0 then None
          else if bit e2 7 then Some (page_base 21 e2 + (va AND mask 21))
          else let e1 = table_entry mem e2 12 va in
            if \<not> bit e1 0 then None else Some (page_base 12 e1 + (va AND mask 12)))"

lemma bit_unat: "bit (w :: u64) n \<longleftrightarrow> odd (unat w div 2 ^ n)"
  by (metis bit_iff_odd bit_unsigned_iff possible_bit_nat)

lemma unat_page_base: "unat (page_base n e) = unat e mod 2 ^ 52 div 2 ^ n * 2 ^ n"
  by (simp only: page_base_def and_not_mask_nat unsigned_take_bit_eq take_bit_nat_def)

lemma walk_nat:
  "unat (page_base n e) + unat va mod 2 ^ n < 2 ^ 64 \<Longrightarrow> unat (page_base n e + (va AND mask n)) = unat (page_base n e) + unat va mod 2 ^ n"
  by (simp add: unat_add_lt and_mask_nat)

lemma page_base_aligned: "4096 dvd unat a \<Longrightarrow> unat a < 2 ^ 32 \<Longrightarrow> k < 4096 \<Longrightarrow> page_base 12 (a + word_of_nat k) = (a :: u64)"
proof -
  assume a: "4096 dvd unat a" "unat a < 2 ^ 32" "k < 4096"
  then have "unat (a + word_of_nat k) = unat a + k" by (subst unat_add_nat) simp_all
  then have "unat (page_base 12 (a + word_of_nat k)) = unat a" using a by (auto simp: unat_page_base elim!: dvdE)
  then show ?thesis by (simp add: unat_inj_iff)
qed

lemma pd_value_walk:
  assumes "i < 512"
  shows "bit (word_of_nat (pd_value i) :: u64) 0" "bit (word_of_nat (pd_value i) :: u64) 7"
    "unat (page_base 21 (word_of_nat (pd_value i))) = 2 ^ 21 * i"
proof -
  have u: "unat (word_of_nat (pd_value i) :: u64) = 131 + 2097152 * i"
    using assms by (simp add: pd_value_def unat_word_of_nat del: of_nat_add of_nat_mult)
  show "bit (word_of_nat (pd_value i) :: u64) 0" by (simp add: bit_unat u)
  have "(131 + 2097152 * i) div 2 ^ 7 = 2 * (8192 * i) + 1" by simp
  then show "bit (word_of_nat (pd_value i) :: u64) 7" unfolding bit_unat u by simp
  show "unat (page_base 21 (word_of_nat (pd_value i))) = 2 ^ 21 * i" using assms by (simp add: unat_page_base u)
qed

text \<open>The page tables the boot code builds map exactly two gigabytes: for every address of the lower 512 GiB the processor's
  walk gives the address itself in the first gigabyte and in the one below 4 GiB, where the interrupt
  controllers are, and a fault everywhere else. Paging, PAE and the code segment are set up for it.\<close>

theorem x64_boot_identity_map:
  assumes "layout_ok y" "unat va < 2 ^ 39"
  shows "x64_walk (x32_mem (x64_start y s)) (ucast (x32_cr3 (x64_start y s))) va =
      (if unat va < 2 ^ 30 \<or> 3 * 2 ^ 30 \<le> unat va \<and> unat va < 2 ^ 32 then Some va else None)
    \<and> x32_pc (x64_start y s) = start64 y \<and> x32_cs (x64_start y s) = 8 \<and> bit (x32_cr0 (x64_start y s)) 31 \<and> bit (x32_cr4 (x64_start y s)) 5"
proof -
  note lo = assms(1) [unfolded layout_ok_def]
  let ?t = "x64_start y s" and ?m = "x32_mem (x64_start y s)"
  note st = x64_start_state [OF assms(1), of s]
  note tab = st(1) [unfolded boot_tables_def]
  have i3: "unat va div 2 ^ 30 < 512" using assms(2) by (intro less_mult_imp_div_less) simp
  have i4: "unat va div 2 ^ 39 = 0" using assms(2) by (rule div_less)
  have b4: "page_base 12 (wide (x32_cr3 ?t)) = wide (boot_pml4 y)"
    using page_base_aligned [of "wide (boot_pml4 y)" 0] lo st(4) by simp
  have b3: "page_base 12 (wide (boot_pdpt y) + 3) = wide (boot_pdpt y)" "page_base 12 (wide (boot_pd y) + 3) = wide (boot_pd y)"
    using page_base_aligned [of "wide (boot_pdpt y)" 3] page_base_aligned [of "wide (boot_pd y)" 3] lo by auto
  have "rd64 ?m (wide (boot_pml4 y)) = wide (boot_pdpt y) + 3" using spec [OF conjunct1 [OF tab], of 0] by simp
  then have e4: "table_entry ?m (wide (x32_cr3 ?t)) 39 va = wide (boot_pdpt y) + 3"
    by (simp only: table_entry_def b4 i4) simp
  have e3: "table_entry ?m (wide (boot_pdpt y) + 3) 30 va =
      (if unat va div 2 ^ 30 = 0 then wide (boot_pd y) + 3 else if unat va div 2 ^ 30 = 3 then 0xC0000083 else 0)"
    using tab i3 by (simp add: table_entry_def b3)
  have e2: "table_entry ?m (wide (boot_pd y) + 3) 21 va = word_of_nat (pd_value (unat va div 2 ^ 21 mod 512))"
    using tab by (simp add: table_entry_def b3)
  have bits: "bit (wide a + 3) 0" "\<not> bit (wide a + 3) 7" if a: "4096 dvd unat a" "unat a < 2 ^ 31" for a
  proof -
    obtain k where k: "unat a = 4096 * k" using a(1) unfolding dvd_def by blast
    have "unat (wide a + 3) = 4096 * k + 3" using a k by (simp add: unat_add_lt)
    moreover have "(4096 * k + 3) div 2 ^ 7 = 2 * (16 * k)" by simp
    ultimately show "bit (wide a + 3) 0" "\<not> bit (wide a + 3) 7" unfolding bit_unat by simp_all
  qed
  have al: "4096 dvd unat (boot_pdpt y)" "4096 dvd unat (boot_pd y)" "unat (boot_pdpt y) < 2 ^ 31" "unat (boot_pd y) < 2 ^ 31"
    using lo by auto
  have w: "x64_walk ?m (wide (x32_cr3 ?t)) va =
      (if unat va < 2 ^ 30 \<or> 3 * 2 ^ 30 \<le> unat va \<and> unat va < 2 ^ 32 then Some va else None)"
  proof (cases "unat va div 2 ^ 30 = 0 \<or> unat va div 2 ^ 30 = 3")
    case True
    then show ?thesis
    proof
      assume d: "unat va div 2 ^ 30 = 0"
      then have lt: "unat va < 2 ^ 30" by simp
      let ?i = "unat va div 2 ^ 21"
      have i: "?i < 512" using lt by (simp add: div_less_iff_less_mult)
      note pde = pd_value_walk [OF i]
      have "unat (page_base 21 (word_of_nat (pd_value ?i)) + (va AND mask 21)) = unat va"
        using lt pde(3) by (subst walk_nat) (simp_all add: mult.commute)
      then show ?thesis using lt d i pde(1,2) bits al by (simp add: x64_walk_def e4 e3 e2 unat_inj_iff)
    next
      assume d: "unat va div 2 ^ 30 = 3"
      have va: "unat va = 3 * 2 ^ 30 + unat va mod 2 ^ 30" using d div_mult_mod_eq [of "unat va" "2 ^ 30"] by simp
      moreover have "unat va mod 2 ^ 30 < 2 ^ 30" by simp
      moreover have pb: "unat (page_base 30 0xC0000083) = 3 * 2 ^ 30" by (simp add: unat_page_base)
      then have "unat (page_base 30 0xC0000083 + (va AND mask 30)) = 3 * 2 ^ 30 + unat va mod 2 ^ 30"
        by (subst walk_nat) simp_all
      ultimately have "page_base 30 0xC0000083 + (va AND mask 30) = va" by (metis unat_inj_iff)
      moreover have "3 * 2 ^ 30 \<le> unat va" "unat va < 2 ^ 32" using va mod_less_divisor [of "2 ^ 30" "unat va"] by auto
      moreover have "bit (0xC0000083 :: u64) 0" "bit (0xC0000083 :: u64) 7" by (simp_all add: bit_unat)
      ultimately show ?thesis using d bits al by (simp add: x64_walk_def e4 e3)
    qed
  next
    case False
    moreover from this have "\<not> unat va < 2 ^ 30" "\<not> (3 * 2 ^ 30 \<le> unat va \<and> unat va < 2 ^ 32)"
      using div_nat_eqI [of "2 ^ 30" 3 "unat va"] by auto
    ultimately show ?thesis using bits al by (simp add: x64_walk_def e4 e3)
  qed
  show ?thesis using w st(6-9) by (simp add: bit_simps)
qed

section \<open>The Multiboot2 pointer\<close>

text \<open>The pointer to the Multiboot2 information that the loader passes in \<^verbatim>\<open>ebx\<close> never reaches the trampoline. It is
  pushed on the boot stack, which is part of the \<^verbatim>\<open>.bss\<close> that is then cleared, and \<^verbatim>\<open>edi\<close> is used once more as the
  cursor of the page directory. The trampoline gets the end of the page directory, where it finds
  zeros, and so the boot information is the fallback whatever the loader said.\<close>

lemma multiboot_pointer_lost:
  assumes "layout_ok y"
  shows "start64_args (x64_start y s) = (wide (boot_pd y + 4096), wide (r32 s EAX))"
    "kmain_trampoline_x64 (x32_mem (x64_start y s)) (wide (boot_pd y + 4096)) magic = Some (mb_start (wide (boot_pd y + 4096)))"
  using x64_start_state [OF assms, of s]
  by (simp_all add: start64_args_def kmain_trampoline_x64_def mb_parse_or_fallback_def Let_def)

text \<open>Addresses of a kernel linked at 1 MiB.\<close>

definition sample_syms :: X64Syms where
  "sample_syms = \<lparr>bss_start = 0x140000, bss_end = 0x160000, boot_pml4 = 0x141000, boot_pdpt = 0x142000, boot_pd = 0x143000,
     boot_stack_top = 0x154000, boot_gdt_pointer = 0x130000, start64 = 0x100100\<rparr>"

lemma sample_syms_ok: "layout_ok sample_syms"
  by (simp add: layout_ok_def sample_syms_def)

lemma sample_syms_lost: "fst (start64_args (x64_start sample_syms s)) = 0x144000"
  using multiboot_pointer_lost(1) [OF sample_syms_ok] by (simp add: sample_syms_def)

end
