(* ===== verification/Spec2Isabelle.thy ===== *)
theory Spec2Isabelle
  imports Hyp_Caps Hyp_Context Hyp_Sched Hyp_Vfs Hyp_Virtio_Blk Hyp_Net Hyp_Dtb Hyp_Display Hyp_Virtio_Net Hyp_Console
    Hyp_Percpu Hyp_Trap_A64 Hyp_Trap_X64 Hyp_Multiboot Hyp_Efi Hyp_Boot_X64
begin

text \<open>
  Hyperion is a small kernel for AArch64 and x86-64 with a UEFI boot stub. This development models the
  kernel (\<^verbatim>\<open>src/kernel\<close>), the boot stub (\<^verbatim>\<open>src/efi-stub\<close>) and the system call interface (\<^verbatim>\<open>src/libos-api\<close>)
  as HOL functions and proves what makes the parts correct. Each theory names the source file it
  translates and keeps the names of its functions; a prefix is added where two files use one name
  (\<^verbatim>\<open>Pl011::putb\<close> is \<open>pl011_putb\<close>).

  \<^bold>\<open>How the parts interact.\<close> A boot path (the UEFI stub, a Multiboot2 loader or a device tree) yields one
  \<open>BootInfo\<close>. From it the kernel takes its console, the interrupt controller and the memory bank of the
  frame allocator. The virtual memory manager takes its table frames from the frame allocator. The
  scheduler switches threads with the architecture's context switch; interrupts and system calls
  enter through the exception code, which calls the interrupt controller or the system call
  dispatcher. Ports, capability tables and the file system are kernel objects over ordered maps. The
  block, network and display code sits on virtqueues and framebuffers.

  \<^bold>\<open>Conventions.\<close> The release profile turns overflow checks off, so integers are words of their width and
  \<open>+\<close> wraps; a theorem that needs the absence of wrap-around states it. A panic is \<^const>\<open>None\<close>, a Rust
  \<^verbatim>\<open>Result\<close> a sum with the error on the left. A loop that polls a device is a partial function whose value is
  \<^const>\<open>None\<close> when it never ends; theorems about it prove that it returns. Loops bounded by data are
  recursive functions with a termination proof, or partial functions with a theorem that they
  return; no definition uses fuel. Device registers are reached through a bus that answers each
  read as a function of all accesses made before and of which nothing else is assumed; a driver's
  effect is the list of accesses it makes. Shared objects (\<^verbatim>\<open>Arc\<close>) are indexes into a store. Locks are
  not contended: the kernel runs on one CPU with interrupts masked inside its critical sections,
  and the secondary CPUs only idle.

  \<^bold>\<open>Library.\<close> \<open>Hyp_Prelude\<close> has the integer operations, slices and results of the Rust library and the
  collections of facts; \<open>Hyp_Bytes\<close> byte orders and byte-addressed memory; \<open>Hyp_Utf8\<close> strings; \<open>Hyp_BTree\<close>
  \<^verbatim>\<open>BTreeMap\<close> as a sorted list and the locale \<open>ordered_map\<close>, its contract for the tables of the kernel;
  \<open>Hyp_Hw\<close> device accesses and polling loops.

  \<^bold>\<open>Boot.\<close> \<open>Hyp_Boot_Info\<close> is the machine description (\<^verbatim>\<open>hal/boot_info.rs\<close>). \<open>Hyp_Elf\<close>, \<open>Hyp_Handoff\<close> and \<open>Hyp_Efi\<close>
  are the stub (\<^verbatim>\<open>efi-stub/src/main.rs\<close>): C5 shows that every segment of a kernel image is where its program header
  says, C20 that the stub enters the kernel with image and handoff in memory, and C4 below that the
  kernel reads from the handoff the memory the firmware reported. \<open>Hyp_Dtb\<close> (\<^verbatim>\<open>hal/dtb.rs\<close>) and
  \<open>Hyp_Multiboot\<close> (\<^verbatim>\<open>hal/multiboot.rs\<close>) are the parsers: C30 and C19 relate them to an encoder of trees and
  tags, C31 and C32 show that they return on every input. Every index and slice of the device tree
  parser has its bounds check in the model, so C31 covers them. \<open>Hyp_Boot_X64\<close> is the 32-bit entry code
  (\<^verbatim>\<open>arch/x86_64/boot.rs\<close>): the tables it builds map two gigabytes to themselves, and the Multiboot2 pointer
  is lost before the parser is called.

  \<^bold>\<open>Memory.\<close> \<open>Hyp_Pmm\<close> (\<^verbatim>\<open>mm/pmm.rs\<close>) is the bitmap allocator, an instance of the locale \<open>frame_allocator\<close> (C1 to C3);
  \<open>Hyp_Vmm\<close> (\<^verbatim>\<open>mm/vmm.rs\<close>, \<^verbatim>\<open>mm/address.rs\<close>) are address spaces over it (C6, C7).

  \<^bold>\<open>Kernel objects.\<close> \<open>Hyp_Port\<close> (\<^verbatim>\<open>ipc/port.rs\<close>): a port is a FIFO (C8). \<open>Hyp_Caps\<close> (\<^verbatim>\<open>ipc/caps.rs\<close>): a fresh handle
  refers to its capability, until the counter wraps (C9, C10). \<open>Hyp_Ramfs\<close> and \<open>Hyp_Vfs\<close> (\<^verbatim>\<open>fs/\<close>): paths over the
  locale \<open>file_tree\<close>, reading what was written, creation and removal (C11 to C13).

  \<^bold>\<open>Threads and traps.\<close> \<open>Hyp_Sched\<close> (\<^verbatim>\<open>proc/\<close>): an invariant of all runs, round robin, and how a spawned thread starts
  (C14 to C16). \<open>Hyp_Context\<close>: the switch of both architectures at the level of instructions (C17, C18).
  \<open>Hyp_Trap_A64\<close> and \<open>Hyp_Trap_X64\<close>: exception entry and exit as instruction lists, the vector table of
  AArch64 and the dispatch code of x86-64 (C22 to C25). The handler is compiled code: what it does to
  registers and memory outside the frame is arbitrary. On AArch64 this includes the vector
  registers, which neither the trap frame nor the context switch saves. \<open>Hyp_Syscall\<close> is the dispatcher
  (C40), \<open>Hyp_Percpu\<close> the table of CPUs.

  \<^bold>\<open>Devices.\<close> \<open>Hyp_Console\<close> (\<^verbatim>\<open>drivers/uart/\<close>, \<^verbatim>\<open>hal/console.rs\<close>): the locale \<open>console\<close> with the three UARTs as instances; the
  line is modelled by a transmitter that loses a byte unless it has shown room for it (C38).
  \<open>Hyp_Gic\<close> (\<^verbatim>\<open>arch/aarch64/\<close>): the locale \<open>irq_controller\<close> with GICv2 and GICv3 (C37), the timer, PSCI and the
  start of secondary CPUs. \<open>Hyp_X86\<close> (\<^verbatim>\<open>arch/x86_64/\<close>): interrupt controllers, timers, power and the descriptor table
  (C39). \<open>Hyp_Virtqueue\<close>, \<open>Hyp_Mmio\<close>, \<open>Hyp_Virtio_Blk\<close> and \<open>Hyp_Virtio_Net\<close> (\<^verbatim>\<open>drivers/virtio/\<close>): the rings as bytes, and
  drivers that talk to any device that does what the specification asks (C21, C26, C27, C36); a
  reference device shows that there is one. \<open>Hyp_Net\<close> (\<^verbatim>\<open>drivers/net/mod.rs\<close>): the echo responder and the panic an
  attacker can cause (C28, C29).

  \<^bold>\<open>Graphics.\<close> \<open>Hyp_Framebuffer\<close>, \<open>Hyp_Display\<close> and \<open>Hyp_Canvas\<close> (\<^verbatim>\<open>display/\<close>, \<^verbatim>\<open>ui/\<close>): what every drawing operation
  does to each pixel (C33 to C35).

  \<^bold>\<open>Idealisations.\<close> Heap allocation does not fail; the addresses it returns are parameters where a device sees
  them. Log lines are left out of the interrupt handlers and drivers. Offsets in the device tree
  parser are natural numbers, being sums of 32-bit fields. The UEFI structures keep the fields the
  stub reads, and the padding of the handoff block is zero. The UART, I/O APIC and 8259 devices that
  give the register accesses a meaning are specifications of what their manuals say, not code of
  the repository. The scheduler is over an abstract context type, which the two context theories
  instantiate.

  \<^bold>\<open>Not modelled.\<close> The AArch64 entry code and its boot page tables (\<^verbatim>\<open>arch/aarch64/boot.rs\<close>, \<^verbatim>\<open>mmu.rs\<close>); the kernel heap,
  a wrapper of a third-party allocator; the virtio GPU driver, the probing of virtio slots and the
  registry of block devices; the shell, the log and panic printers and \<^verbatim>\<open>kmain\<close>, which call the modelled
  parts in order; the user-mode demonstration (\<^verbatim>\<open>proc/user.rs\<close>); build and linker scripts.
\<close>

section \<open>From the firmware's memory map to the kernel's boot information\<close>

text \<open>C4: A UEFI boot from end to end. For a memory map as the firmware returns it, the stub builds a block, and the kernel,
  reading that block from memory with its own declaration of the structure, obtains the firmware
  table, the graphics mode and a memory map: every byte of it is conventional memory, all of it when
  fewer than eight ranges are needed, and the built-in range when the firmware reports none.\<close>

theorem uefi_boot_info:
  assumes "snap_ok snap" "\<forall>r \<in> set (conventional snap). region_nowrap r"
  shows "\<exists>h. build_handoff a snap mode table = Some h \<and> (\<forall>mem addr. addr \<noteq> 0 \<longrightarrow> holds mem addr (handoff_bytes h) \<longrightarrow>
    (\<exists>bi. uefi_handoff mem addr = Some bi \<and> bi_fw_table_addr bi = table \<and>
      bi_framebuffer bi = Some \<lparr>fbi_base = gm_framebuffer_base mode, fbi_width = gi_horizontal_resolution (gm_info mode),
        fbi_height = gi_vertical_resolution (gm_info mode),
        fbi_stride_bytes = saturating_mul (gi_pixels_per_scan_line (gm_info mode)) 4, fbi_bpp = 32,
        fbi_format = (if gi_pixel_format (gm_info mode) = 0 then Rgba8888 else Bgra8888)\<rparr> \<and>
      (if regions_set (conventional snap) = {} then as_slice (bi_memory bi) = [stub_fallback a]
       else regions_set (as_slice (bi_memory bi)) \<subseteq> regions_set (conventional snap) \<and>
         (length (as_slice (bi_memory bi)) < 8 \<longrightarrow> regions_set (as_slice (bi_memory bi)) = regions_set (conventional snap)))))"
proof -
  obtain h where h: "build_handoff a snap mode table = Some h" "handoff_wf h" "handoff_same (initial_handoff a mode table) h"
    using build_handoff_list [OF assms(1)] by metis
  note m = handoff_memory [OF assms h(1)]
  have "\<exists>bi. uefi_handoff mem addr = Some bi \<and> bi_fw_table_addr bi = table \<and> as_slice (bi_memory bi) = handoff_regions h \<and>
      bi_framebuffer bi = Some \<lparr>fbi_base = gm_framebuffer_base mode, fbi_width = gi_horizontal_resolution (gm_info mode),
        fbi_height = gi_vertical_resolution (gm_info mode),
        fbi_stride_bytes = saturating_mul (gi_pixels_per_scan_line (gm_info mode)) 4, fbi_bpp = 32,
        fbi_format = (if gi_pixel_format (gm_info mode) = 0 then Rgba8888 else Bgra8888)\<rparr>"
    if "addr \<noteq> 0" "holds mem addr (handoff_bytes h)" for mem addr
    using uefi_handoff_at_bytes [OF that(2)] that(1) h(2) kernel_boot_info [OF h(2,3) m(1)]
    by (auto simp: uefi_handoff_def handoff_wf_def)
  then show ?thesis using h(1) m(2-4) by (metis (no_types, lifting))
qed

definition sample_snapshot :: MemoryMapSnapshot where
  "sample_snapshot = \<lparr>ms_bytes = [7, 0, 0, 0, 0, 0, 0, 0, 0, 0, 0, 0x40, 0, 0, 0, 0, 0, 0, 0, 0, 0, 0, 0, 0,
       0, 1, 0, 0, 0, 0, 0, 0, 0xf, 0, 0, 0, 0, 0, 0, 0, 0, 0, 0, 0, 0, 0, 0, 0,
     7, 0, 0, 0, 0, 0, 0, 0, 0, 0, 0x10, 0x40, 0, 0, 0, 0, 0, 0, 0, 0, 0, 0, 0, 0,
       0, 1, 0, 0, 0, 0, 0, 0, 0xf, 0, 0, 0, 0, 0, 0, 0, 0, 0, 0, 0, 0, 0, 0, 0],
     ms_size = 96, ms_key = 5, ms_desc_size = 48\<rparr>"

lemma sample_conventional: "conventional sample_snapshot = [region 0x40000000 0x100000, region 0x40100000 0x100000]"
  by (simp add: conventional_def snap_descriptors_def snap_count_def sample_snapshot_def memory_descriptor_def from_le_bytes_def
      EFI_CONVENTIONAL_MEMORY_def EFI_PAGE_SIZE_def saturating_mul_def)

theorem uefi_boot_info_witness:
  "\<exists>h bi. build_handoff Stub_aarch64 sample_snapshot sample_mode 0x48000000 = Some h \<and>
     uefi_handoff (mem_write (\<lambda>_. 0) 0x50000000 (handoff_bytes h)) 0x50000000 = Some bi \<and> bi_fw_table_addr bi = 0x48000000 \<and>
     regions_set (as_slice (bi_memory bi)) \<subseteq> {0x40000000..<0x40200000}"
proof -
  have ok: "snap_ok sample_snapshot" by (simp add: snap_ok_def sample_snapshot_def MEMORY_MAP_BUF_SIZE_def)
  have nw: "\<forall>r \<in> set (conventional sample_snapshot). region_nowrap r" by (simp add: sample_conventional region_nowrap_def)
  have set: "regions_set (conventional sample_snapshot) = {0x40000000..<0x40200000}"
    by (auto simp: sample_conventional region_set_def)
  obtain h where h: "build_handoff Stub_aarch64 sample_snapshot sample_mode 0x48000000 = Some h" "handoff_wf h"
    using build_handoff_list [OF ok] by metis
  then have "holds (mem_write (\<lambda>_. 0) 0x50000000 (handoff_bytes h)) 0x50000000 (handoff_bytes h)"
    by (simp add: holds_def mem_read_write_same handoff_wf_def length_handoff_bytes)
  then show ?thesis
    using uefi_boot_info [OF ok nw, of Stub_aarch64 sample_mode "0x48000000"] h(1) unfolding set
    by (auto dest!: spec [of _ "mem_write (\<lambda>_. 0) 0x50000000 (handoff_bytes h)"] spec [of _ "0x50000000"])
qed

end
